(* ===== verification/GoPrelude.thy ===== *)
theory GoPrelude
  imports Main "HOL-Library.Sublist" "HOL-Library.Word" "HOL-Library.Char_ord" "HOL-Library.List_Lexorder"
begin

text \<open>
  The vocabulary that every component shares: results with errors, the operations of Go's
  \<open>strings\<close>, \<open>slices\<close> and \<open>strconv\<close> packages that the code calls, and the lemmas on lists and maps
  that more than one component needs. A Go string is a sequence of bytes, so it is a \<open>string\<close>
  (a list of \<open>char\<close>), and lengths count bytes. Case folding and trimming are those of ASCII.
\<close>

named_theorems go_str \<open>unfolding rules of the string helpers\<close>
named_theorems inv_intros \<open>the preservation lemma of each operation of a component\<close>

section \<open>Results\<close>

text \<open>A Go pair (value, error) is a sum: \<open>Inl\<close> the error, \<open>Inr\<close> the value.\<close>

type_synonym ('e, 'a) result = "'e + 'a"

definition is_ok :: "('e, 'a) result \<Rightarrow> bool" where
  "is_ok r = (case r of Inl _ \<Rightarrow> False | Inr _ \<Rightarrow> True)"

lemma is_ok_simps [simp]: "is_ok (Inr a)" "\<not> is_ok (Inl e)"
  by (simp_all add: is_ok_def)

text \<open>A loop that stops at the first error and collects the values.\<close>

fun map_result :: "('a \<Rightarrow> ('e, 'b) result) \<Rightarrow> 'a list \<Rightarrow> ('e, 'b list) result" where
  "map_result f [] = Inr []"
| "map_result f (x # xs) =
     (case f x of Inl e \<Rightarrow> Inl e
      | Inr y \<Rightarrow> (case map_result f xs of Inl e \<Rightarrow> Inl e | Inr ys \<Rightarrow> Inr (y # ys)))"

lemma map_result_Inr_iff:
  "map_result f xs = Inr ys \<longleftrightarrow> list_all2 (\<lambda>x y. f x = Inr y) xs ys"
proof (induction xs arbitrary: ys)
  case Nil
  then show ?case by auto
next
  case (Cons x xs)
  then show ?case
    by (cases "f x"; cases "map_result f xs") (auto simp: list_all2_Cons1 dest: sym)
qed

lemma map_result_Inl:
  "map_result f xs = Inl e \<Longrightarrow> \<exists>x \<in> set xs. f x = Inl e"
  by (induction xs) (auto split: sum.splits)

lemma map_result_length: "map_result f xs = Inr ys \<Longrightarrow> length ys = length xs"
  by (auto simp: map_result_Inr_iff dest: list_all2_lengthD)

section \<open>Strings\<close>

definition has_prefix :: "string \<Rightarrow> string \<Rightarrow> bool" where
  [go_str]: "has_prefix s p = prefix p s"

definition has_suffix :: "string \<Rightarrow> string \<Rightarrow> bool" where
  [go_str]: "has_suffix s p = suffix p s"

definition trim_prefix :: "string \<Rightarrow> string \<Rightarrow> string" where
  [go_str]: "trim_prefix s p = (if has_prefix s p then drop (length p) s else s)"

definition cut_suffix :: "string \<Rightarrow> string \<Rightarrow> string option" where
  [go_str]: "cut_suffix s p = (if has_suffix s p then Some (take (length s - length p) s) else None)"

definition trim_suffix :: "string \<Rightarrow> string \<Rightarrow> string" where
  [go_str]: "trim_suffix s p = (case cut_suffix s p of None \<Rightarrow> s | Some r \<Rightarrow> r)"

definition str_contains :: "string \<Rightarrow> string \<Rightarrow> bool" where
  [go_str]: "str_contains s sub = sublist sub s"

text \<open>\<open>strings.Cut\<close> with a one-byte separator; \<open>None\<close> when the separator does not occur.\<close>

fun cut_at :: "char \<Rightarrow> string \<Rightarrow> (string \<times> string) option" where
  "cut_at c [] = None"
| "cut_at c (x # xs) =
     (if x = c then Some ([], xs)
      else (case cut_at c xs of None \<Rightarrow> None | Some (b, a) \<Rightarrow> Some (x # b, a)))"

text \<open>The split at the last occurrence of the separator.\<close>

definition cut_last :: "char \<Rightarrow> string \<Rightarrow> (string \<times> string) option" where
  "cut_last c s = (case cut_at c (rev s) of None \<Rightarrow> None | Some (b, a) \<Rightarrow> Some (rev a, rev b))"

text \<open>The part before the separator, or the whole string: the first result of \<open>strings.Cut\<close>.\<close>

definition cut_before :: "char \<Rightarrow> string \<Rightarrow> string" where
  "cut_before c s = (case cut_at c s of None \<Rightarrow> s | Some (b, _) \<Rightarrow> b)"

text \<open>\<open>strings.Split\<close> with a one-byte separator: never empty.\<close>

fun split_on :: "char \<Rightarrow> string \<Rightarrow> string list" where
  "split_on c [] = [[]]"
| "split_on c (x # xs) =
     (if x = c then [] # split_on c xs
      else (case split_on c xs of [] \<Rightarrow> [[x]] | w # ws \<Rightarrow> (x # w) # ws))"

fun join :: "string \<Rightarrow> string list \<Rightarrow> string" where
  "join sep [] = []"
| "join sep [w] = w"
| "join sep (w # ws) = w @ sep @ join sep ws"

definition char_code :: "char \<Rightarrow> nat" where
  "char_code c = (of_char c :: nat)"

definition is_digit :: "char \<Rightarrow> bool" where
  "is_digit c = (48 \<le> char_code c \<and> char_code c \<le> 57)"

definition is_lower :: "char \<Rightarrow> bool" where
  "is_lower c = (97 \<le> char_code c \<and> char_code c \<le> 122)"

definition is_upper :: "char \<Rightarrow> bool" where
  "is_upper c = (65 \<le> char_code c \<and> char_code c \<le> 90)"

definition to_lower_char :: "char \<Rightarrow> char" where
  "to_lower_char c = (if is_upper c then char_of (char_code c + 32) else c)"

definition to_lower :: "string \<Rightarrow> string" where
  "to_lower = map to_lower_char"

definition equal_fold :: "string \<Rightarrow> string \<Rightarrow> bool" where
  "equal_fold s t = (to_lower s = to_lower t)"

definition is_space :: "char \<Rightarrow> bool" where
  "is_space c = (char_code c \<in> {9, 10, 11, 12, 13, 32})"

definition trim_right :: "(char \<Rightarrow> bool) \<Rightarrow> string \<Rightarrow> string" where
  "trim_right P s = rev (dropWhile P (rev s))"

definition trim_space :: "string \<Rightarrow> string" where
  "trim_space s = trim_right is_space (dropWhile is_space s)"

subsection \<open>Decimal and hexadecimal numerals\<close>

definition digit_char :: "nat \<Rightarrow> char" where
  "digit_char d = char_of (if d < 10 then 48 + d else 87 + d)"

text \<open>The digit's value: decimal digits, then \<open>a\<close>-\<open>f\<close> and \<open>A\<close>-\<open>F\<close>.\<close>

definition digit_val :: "char \<Rightarrow> nat option" where
  "digit_val c =
     (if is_digit c then Some (char_code c - 48)
      else if 97 \<le> char_code c \<and> char_code c \<le> 102 then Some (char_code c - 87)
      else if 65 \<le> char_code c \<and> char_code c \<le> 70 then Some (char_code c - 55)
      else None)"

fun digits_base :: "nat \<Rightarrow> nat \<Rightarrow> string" where
  "digits_base b n =
     (if n < b \<or> b < 2 then [digit_char n] else digits_base b (n div b) @ [digit_char (n mod b)])"

declare digits_base.simps [simp del]

text \<open>\<open>strconv.Itoa\<close> on a number that is not negative, and the \<open>%d\<close> verb.\<close>

definition itoa :: "nat \<Rightarrow> string" where
  "itoa n = digits_base 10 n"

definition hex :: "nat \<Rightarrow> string" where
  "hex n = digits_base 16 n"

text \<open>\<open>hex.EncodeToString\<close>: two lower-case digits for each byte.\<close>

definition hex_encode :: "string \<Rightarrow> string" where
  "hex_encode bs = concat (map (\<lambda>b. [digit_char (char_code b div 16), digit_char (char_code b mod 16)]) bs)"

fun digits_value :: "nat \<Rightarrow> nat \<Rightarrow> string \<Rightarrow> nat option" where
  "digits_value b acc [] = Some acc"
| "digits_value b acc (c # cs) =
     (case digit_val c of None \<Rightarrow> None
      | Some d \<Rightarrow> if d < b then digits_value b (acc * b + d) cs else None)"

text \<open>An unsigned decimal numeral with no sign; \<open>None\<close> on anything else.\<close>

definition parse_dec :: "string \<Rightarrow> nat option" where
  "parse_dec s = (if s = [] then None else digits_value 10 0 s)"

text \<open>\<open>strconv.Atoi\<close>: an optional sign, decimal digits, and a value that fits in 64 bits.\<close>

definition atoi :: "string \<Rightarrow> int option" where
  "atoi s =
     (let (neg, ds) = (case s of
          c # cs \<Rightarrow> if c = CHR ''-'' then (True, cs) else if c = CHR ''+'' then (False, cs) else (False, s)
        | [] \<Rightarrow> (False, s))
      in case parse_dec ds of
           None \<Rightarrow> None
         | Some n \<Rightarrow>
             let v = (if neg then - int n else int n) in
             if - (2 ^ 63) \<le> v \<and> v < 2 ^ 63 then Some v else None)"

text \<open>
  \<open>url.PathUnescape\<close>, and \<open>url.QueryUnescape\<close> when the first argument is true: a percent sign
  must be followed by two hexadecimal digits, and a plus sign is a space in a query.
\<close>

fun url_unescape :: "bool \<Rightarrow> string \<Rightarrow> string option" where
  "url_unescape q [] = Some []"
| "url_unescape q (c # cs) =
     (if c = CHR ''%'' then
        (case cs of
           x # y # r \<Rightarrow>
             (case (digit_val x, digit_val y) of
                (Some a, Some b) \<Rightarrow> map_option ((#) (char_of (16 * a + b))) (url_unescape q r)
              | _ \<Rightarrow> None)
         | _ \<Rightarrow> None)
      else map_option ((#) (if q \<and> c = CHR ''+'' then CHR '' '' else c)) (url_unescape q cs))"

text \<open>\<open>path.Clean\<close> on a rooted path: empty and dot segments vanish, a double dot drops the segment
  before it.\<close>

fun clean_segments :: "string list \<Rightarrow> string list \<Rightarrow> string list" where
  "clean_segments acc [] = rev acc"
| "clean_segments acc (w # ws) =
     (if w = [] \<or> w = ''.'' then clean_segments acc ws
      else if w = ''..'' then clean_segments (tl acc) ws
      else clean_segments (w # acc) ws)"

definition clean_rooted :: "string \<Rightarrow> string" where
  "clean_rooted p = ''/'' @ join ''/'' (clean_segments [] (split_on CHR ''/'' p))"

text \<open>\<open>path.Clean\<close> of a relative path keeps the leading double dots.\<close>

fun clean_relative :: "string list \<Rightarrow> string list \<Rightarrow> string list" where
  "clean_relative acc [] = rev acc"
| "clean_relative acc (w # ws) =
     (if w = [] \<or> w = ''.'' then clean_relative acc ws
      else if w = ''..'' \<and> acc \<noteq> [] \<and> hd acc \<noteq> ''..'' then clean_relative (tl acc) ws
      else clean_relative (w # acc) ws)"

definition path_Clean :: "string \<Rightarrow> string" where
  "path_Clean p =
     (if p = [] then ''.''
      else if has_prefix p ''/'' then clean_rooted p
      else let r = join ''/'' (clean_relative [] (split_on CHR ''/'' p)) in if r = [] then ''.'' else r)"

text \<open>The escape of a byte in a URL.\<close>

definition upper_hex :: "nat \<Rightarrow> char" where
  "upper_hex d = char_of (if d < 10 then 48 + d else 55 + d)"

definition percent_encode :: "char \<Rightarrow> string" where
  "percent_encode c = [CHR ''%'', upper_hex (char_code c div 16), upper_hex (char_code c mod 16)]"

section \<open>Lemmas on strings\<close>

lemma prefix_append_iff_drop [go_str]: "prefix p s \<longleftrightarrow> (\<exists>r. s = p @ r)"
  by (auto simp: prefix_def)

lemma cut_suffix_Some_iff: "cut_suffix s p = Some r \<longleftrightarrow> s = r @ p"
  by (auto simp: cut_suffix_def has_suffix_def suffix_def)

lemma cut_suffix_None_iff: "cut_suffix s p = None \<longleftrightarrow> \<not> suffix p s"
  by (auto simp: cut_suffix_def has_suffix_def)

lemma trim_prefix_append [simp]: "trim_prefix (p @ s) p = s"
  by (simp add: trim_prefix_def has_prefix_def)

lemma trim_suffix_append [simp]: "trim_suffix (s @ p) p = s"
  by (simp add: trim_suffix_def cut_suffix_def has_suffix_def suffix_def)

lemma trim_suffix_other: "\<not> suffix p s \<Longrightarrow> trim_suffix s p = s"
  by (simp add: trim_suffix_def cut_suffix_def has_suffix_def)

lemma cut_None_iff: "cut_at c s = None \<longleftrightarrow> c \<notin> set s"
  by (induction s) (auto split: option.splits)

lemma cut_at_no_sep [simp]: "c \<notin> set s \<Longrightarrow> cut_at c s = None"
  by (simp add: cut_None_iff)

lemma cut_SomeD: "cut_at c s = Some (b, a) \<Longrightarrow> s = b @ c # a \<and> c \<notin> set b"
  by (induction s arbitrary: b) (auto split: if_splits option.splits)

lemma cut_append [simp]: "c \<notin> set b \<Longrightarrow> cut_at c (b @ c # a) = Some (b, a)"
  by (induction b) auto

lemma cut_before_no_sep: "c \<notin> set (cut_before c s)"
proof (cases "cut_at c s")
  case None
  then have "c \<notin> set s" by (simp add: cut_None_iff)
  with None show ?thesis by (simp add: cut_before_def)
next
  case (Some p)
  then show ?thesis by (cases p) (auto simp: cut_before_def dest: cut_SomeD)
qed

lemma cut_before_id [simp]: "c \<notin> set s \<Longrightarrow> cut_before c s = s"
  using cut_None_iff [of c s] by (simp add: cut_before_def)

lemma cut_before_append [simp]: "c \<notin> set b \<Longrightarrow> cut_before c (b @ c # a) = b"
  by (simp add: cut_before_def)

lemma cut_last_append [simp]: "c \<notin> set a \<Longrightarrow> cut_last c (b @ c # a) = Some (b, a)"
  by (simp add: cut_last_def)

lemma cut_last_SomeD: "cut_last c s = Some (b, a) \<Longrightarrow> s = b @ c # a \<and> c \<notin> set a"
proof -
  assume "cut_last c s = Some (b, a)"
  then have "cut_at c (rev s) = Some (rev a, rev b)"
    by (auto simp: cut_last_def split: option.splits)
  from cut_SomeD [OF this] show ?thesis
    by (metis append.assoc append_Cons append_Nil rev.simps(2) rev_append rev_rev_ident set_rev)
qed

lemma set_cut_before: "set (cut_before c s) \<subseteq> set s"
  using cut_SomeD [of c s] by (fastforce simp: cut_before_def split: option.splits)

lemma split_on_Nil [simp]: "split_on c s \<noteq> []"
  by (induction s) (auto split: list.splits)

lemma split_on_no_sep [simp]: "c \<notin> set s \<Longrightarrow> split_on c s = [s]"
  by (induction s) auto

lemma split_on_append [simp]: "c \<notin> set b \<Longrightarrow> split_on c (b @ c # a) = b # split_on c a"
  by (induction b) auto

lemma split_on_parts: "w \<in> set (split_on c s) \<Longrightarrow> c \<notin> set w"
  by (induction s arbitrary: w) (auto split: if_splits list.splits)

lemma join_Cons: "ws \<noteq> [] \<Longrightarrow> join sep (w # ws) = w @ sep @ join sep ws"
  by (cases ws) auto

lemma join_split_on [simp]: "join [c] (split_on c s) = s"
proof (induction s)
  case (Cons x xs)
  then show ?case
    by (cases "split_on c xs"; cases "tl (split_on c xs)") (auto simp: join_Cons)
qed simp

lemma split_on_join:
  "ws \<noteq> [] \<Longrightarrow> \<forall>w \<in> set ws. c \<notin> set w \<Longrightarrow> split_on c (join [c] ws) = ws"
proof (induction ws)
  case (Cons w ws)
  then show ?case by (cases ws) auto
qed simp

subsection \<open>Numerals\<close>

lemma char_code_char_of [simp]: "n < 256 \<Longrightarrow> char_code (char_of n) = n"
  by (simp add: char_code_def)

lemma digit_val_digit_char [simp]: "d < 16 \<Longrightarrow> digit_val (digit_char d) = Some d"
  by (auto simp: digit_val_def digit_char_def is_digit_def)

lemma is_digit_digit_char [simp]: "d < 10 \<Longrightarrow> is_digit (digit_char d)"
  by (simp add: is_digit_def digit_char_def)

lemma digits_value_append:
  "digits_value b acc (s @ t) = Option.bind (digits_value b acc s) (\<lambda>a. digits_value b a t)"
  by (induction s arbitrary: acc) (auto split: option.splits)

lemma digits_base_nonempty [simp]: "digits_base b n \<noteq> []"
  by (subst digits_base.simps) simp

lemma digits_base_step:
  "b \<le> n \<Longrightarrow> 2 \<le> b \<Longrightarrow> digits_base b n = digits_base b (n div b) @ [digit_char (n mod b)]"
  by (subst digits_base.simps) simp

lemma digits_value_digits_base:
  "2 \<le> b \<Longrightarrow> b \<le> 16 \<Longrightarrow> digits_value b 0 (digits_base b n) = Some n"
proof (induction b n rule: digits_base.induct)
  case (1 b n)
  show ?case
  proof (cases "n < b")
    case True
    with "1.prems" show ?thesis by (subst digits_base.simps) simp
  next
    case False
    moreover have "n mod b < 16" using "1.prems" by (metis mod_less_divisor not_less order_less_le_trans zero_less_numeral)
    ultimately show ?thesis using "1.IH" "1.prems" by (simp add: digits_base_step digits_value_append)
  qed
qed

lemma parse_dec_itoa [simp]: "parse_dec (itoa n) = Some n"
  by (simp add: parse_dec_def itoa_def digits_value_digits_base)

lemma itoa_nonempty [simp]: "itoa n \<noteq> []"
  by (simp add: itoa_def)

lemma digits_base_inject: "2 \<le> b \<Longrightarrow> b \<le> 16 \<Longrightarrow> digits_base b m = digits_base b n \<longleftrightarrow> m = n"
  by (metis digits_value_digits_base option.inject)

lemma itoa_inject [simp]: "itoa m = itoa n \<longleftrightarrow> m = n"
  by (simp add: itoa_def digits_base_inject)

lemma hex_inject [simp]: "hex m = hex n \<longleftrightarrow> m = n"
  by (simp add: hex_def digits_base_inject)

lemma digits_base_10_digits: "b = 10 \<Longrightarrow> c \<in> set (digits_base b n) \<Longrightarrow> is_digit c"
proof (induction b n rule: digits_base.induct)
  case (1 b n)
  show ?case
  proof (cases "n < 10")
    case True
    with "1.prems" show ?thesis by (subst (asm) digits_base.simps) simp
  next
    case False
    with "1.prems" have "c \<in> set (digits_base b (n div b)) \<or> c = digit_char (n mod b)"
      by (auto simp: digits_base_step)
    with "1.IH" "1.prems" False show ?thesis by auto
  qed
qed

lemma itoa_digits: "c \<in> set (itoa n) \<Longrightarrow> is_digit c"
  by (simp add: itoa_def digits_base_10_digits)

lemma itoa_no_char [simp]: "\<not> is_digit c \<Longrightarrow> c \<notin> set (itoa n)"
  using itoa_digits by blast

section \<open>Lemmas on maps and lists\<close>

lemma takeWhile_word:
  assumes "list_all P w" and "\<not> P c"
  shows "takeWhile P (w @ c # r) = w" and "dropWhile P (w @ c # r) = c # r"
  using assms by (induction w) auto

lemma ran_upd_subset: "ran (m(k \<mapsto> v)) \<subseteq> insert v (ran m)"
  by (auto simp: ran_def)

lemma distinct_snoc [simp]: "distinct (xs @ [x]) \<longleftrightarrow> distinct xs \<and> x \<notin> set xs"
  by auto

lemma remove1_distinct_filter: "distinct xs \<Longrightarrow> remove1 x xs = filter (\<lambda>y. y \<noteq> x) xs"
  by (metis (mono_tags, lifting) distinct_remove1_removeAll filter_cong removeAll_filter_not_eq)

definition proper_segment :: "string \<Rightarrow> bool" where
  "proper_segment w = (w \<noteq> [] \<and> w \<noteq> ''.'' \<and> w \<noteq> ''..'')"

lemma clean_segments_proper: "list_all proper_segment acc \<Longrightarrow> list_all proper_segment (clean_segments acc ws)"
proof (induction acc ws rule: clean_segments.induct)
  case (1 acc)
  then show ?case by (simp add: list_all_iff)
next
  case (2 acc w ws)
  have "list_all proper_segment (tl acc)" using "2.prems" by (cases acc) auto
  then show ?case using "2.IH" "2.prems" by (simp add: proper_segment_def [of w])
qed

lemma set_clean_segments: "set (clean_segments acc ws) \<subseteq> set acc \<union> set ws"
proof (induction acc ws rule: clean_segments.induct)
  case (2 acc w ws)
  moreover have "set (tl acc) \<subseteq> set acc" by (cases acc) auto
  ultimately show ?case by auto
qed simp

lemma to_lower_char_digit: "is_digit c \<Longrightarrow> to_lower_char c = c"
  by (simp add: to_lower_char_def is_digit_def is_upper_def)

lemma to_lower_append [simp]: "to_lower (s @ t) = to_lower s @ to_lower t"
  by (simp add: to_lower_def)

lemma length_to_lower [simp]: "length (to_lower s) = length s"
  by (simp add: to_lower_def)

lemma to_lower_itoa [simp]: "to_lower (itoa n) = itoa n"
  using itoa_digits by (auto simp: to_lower_def map_idI to_lower_char_digit)

lemma equal_fold_refl [simp]: "equal_fold s s"
  by (simp add: equal_fold_def)

lemma char_code_to_lower_char:
  "char_code (to_lower_char c) = (if is_upper c then char_code c + 32 else char_code c)"
  by (simp add: to_lower_char_def is_upper_def)

lemma char_code_inject [simp]: "char_code c = char_code d \<longleftrightarrow> c = d"
  by (simp add: char_code_def)

text \<open>Lowering a character that is not a lower-case letter of the result changes nothing.\<close>

lemma to_lower_char_eq:
  assumes "to_lower_char c = d" and "\<not> is_lower d"
  shows "c = d"
proof (cases "is_upper c")
  case True
  then have "char_code d = char_code c + 32" using assms(1) char_code_to_lower_char [of c] by simp
  with True assms(2) show ?thesis by (simp add: is_lower_def is_upper_def)
next
  case False
  with assms(1) show ?thesis by (simp add: to_lower_char_def)
qed

lemma to_lower_eq_id: "to_lower s = t \<Longrightarrow> (\<And>c. c \<in> set t \<Longrightarrow> \<not> is_lower c) \<Longrightarrow> s = t"
proof (induction s arbitrary: t)
  case (Cons a s)
  then obtain d u where t: "t = d # u" "to_lower_char a = d" "to_lower s = u"
    by (auto simp: to_lower_def)
  with Cons.prems(2) have "a = d" by (auto intro: to_lower_char_eq)
  with t Cons.IH [of u] Cons.prems(2) show ?case by simp
qed (simp add: to_lower_def)

section \<open>Occurrences, updates and sorting\<close>

text \<open>The first occurrence of each element, in order.\<close>

definition firsts :: "'a list \<Rightarrow> 'a list" where
  "firsts xs = rev (remdups (rev xs))"

lemma set_firsts [simp]: "set (firsts xs) = set xs"
  and distinct_firsts [simp]: "distinct (firsts xs)"
  by (simp_all add: firsts_def)

lemma firsts_Nil [simp]: "firsts [] = []"
  by (simp add: firsts_def)

lemma firsts_snoc: "firsts (xs @ [x]) = (if x \<in> set xs then firsts xs else firsts xs @ [x])"
  by (simp add: firsts_def)

lemma firsts_distinct: "distinct xs \<Longrightarrow> firsts xs = xs"
  by (simp add: firsts_def distinct_remdups_id)

text \<open>A Go map whose keys are listed: \<open>m[k] = f(m[k])\<close>, where a missing key reads as \<open>d\<close>.\<close>

fun upsert :: "'k \<Rightarrow> 'v \<Rightarrow> ('v \<Rightarrow> 'v) \<Rightarrow> ('k \<times> 'v) list \<Rightarrow> ('k \<times> 'v) list" where
  "upsert k d f [] = [(k, f d)]"
| "upsert k d f ((k', v) # m) = (if k = k' then (k', f v) # m else (k', v) # upsert k d f m)"

lemma map_of_upsert:
  "map_of (upsert k d f m) = (map_of m)(k \<mapsto> f (case map_of m k of None \<Rightarrow> d | Some v \<Rightarrow> v))"
  by (induction m) (auto simp: fun_eq_iff)

lemma set_fst_upsert [simp]: "fst ` set (upsert k d f m) = insert k (fst ` set m)"
  by (induction k d f m rule: upsert.induct) auto

lemma distinct_upsert [simp]: "distinct (map fst (upsert k d f m)) \<longleftrightarrow> distinct (map fst m)"
  by (induction k d f m rule: upsert.induct) auto

text \<open>\<open>strings.Compare\<close>, and \<open>slices.SortFunc\<close> with a comparison function.\<close>

definition strings_compare :: "string \<Rightarrow> string \<Rightarrow> int" where
  "strings_compare s t = (if s < t then -1 else if s = t then 0 else 1)"

fun insert_by :: "('a \<Rightarrow> 'a \<Rightarrow> int) \<Rightarrow> 'a \<Rightarrow> 'a list \<Rightarrow> 'a list" where
  "insert_by cmp x [] = [x]"
| "insert_by cmp x (y # ys) = (if cmp x y \<le> 0 then x # y # ys else y # insert_by cmp x ys)"

definition sort_func :: "('a \<Rightarrow> 'a \<Rightarrow> int) \<Rightarrow> 'a list \<Rightarrow> 'a list" where
  "sort_func cmp xs = foldr (insert_by cmp) xs []"

lemma sort_func_key:
  fixes key :: "'a \<Rightarrow> 'k::linorder"
  assumes "\<And>x y. cmp x y \<le> 0 \<longleftrightarrow> key x \<le> key y"
  shows "sort_func cmp xs = sort_key key xs"
proof -
  have "insert_by cmp x ys = insort_key key x ys" for x ys
    by (induction ys) (auto simp: assms)
  then have "insert_by cmp = insort_key key" by (simp add: fun_eq_iff)
  then show ?thesis by (simp add: sort_func_def sort_key_def)
qed

lemma strings_compare_le [simp]: "strings_compare s t \<le> 0 \<longleftrightarrow> s \<le> t"
  by (auto simp: strings_compare_def)

lemma sort_func_strings: "sort_func strings_compare xs = sort xs"
  by (rule sort_func_key) simp

text \<open>Sorting forgets the order of the input when no two elements share a key.\<close>

lemma sort_key_order_irrelevant:
  assumes "set xs = set ys" and "distinct (map key xs)" and "distinct (map key ys)"
  shows "sort_key key xs = sort_key key ys"
proof (rule map_sorted_distinct_set_unique)
  show "inj_on key (set (sort_key key xs) \<union> set (sort_key key ys))"
    using assms by (simp add: distinct_map)
  show "distinct (map key (sort_key key xs))" "distinct (map key (sort_key key ys))"
    using assms by (simp_all add: distinct_map)
qed (simp_all add: assms(1))

end
