(* ===== verification/IpUtils.thy ===== *)
theory IpUtils
  imports GoPrelude
begin

unbundle bit_operations_syntax

text \<open>
  \<open>core/net/iputils\<close>: recognising IP addresses and expanding CIDR ranges. The parts of Go's
  \<open>net/netip\<close> that the package calls are modelled first (\<open>ParseAddr\<close>, \<open>ParsePrefix\<close>,
  \<open>Addr.String\<close>, \<open>Prefix.Masked\<close>, \<open>Prefix.Contains\<close>, \<open>Addr.Next\<close>), addresses as words of
  their width. Then the package itself: the predicates, the bounded prefix parser, the counting
  in 64-bit integers and the expansion loop. The lemmas show that the loop ends, that it visits
  exactly the addresses of the range, and that the count agrees with it and never overflows.
\<close>

section \<open>Addresses of \<open>net/netip\<close>\<close>

datatype addr = V4 "32 word" | V6 "128 word" (zone: string)
  where "zone (V4 _) = []"

fun is4 :: "addr \<Rightarrow> bool" where
  "is4 (V4 _) = True"
| "is4 (V6 _ _) = False"

fun is6 :: "addr \<Rightarrow> bool" where
  "is6 (V4 _) = False"
| "is6 (V6 _ _) = True"

fun bit_len :: "addr \<Rightarrow> nat" where
  "bit_len (V4 _) = 32"
| "bit_len (V6 _ _) = 128"

definition parse_octet :: "string \<Rightarrow> nat option" where
  "parse_octet s =
     (if 1 < length s \<and> hd s = CHR ''0'' then None
      else case parse_dec s of None \<Rightarrow> None | Some n \<Rightarrow> if n \<le> 255 then Some n else None)"

definition parse_ipv4 :: "string \<Rightarrow> nat option" where
  "parse_ipv4 s = (case split_on CHR ''.'' s of
       [a, b, c, d] \<Rightarrow>
         (case (parse_octet a, parse_octet b, parse_octet c, parse_octet d) of
            (Some a', Some b', Some c', Some d') \<Rightarrow> Some (((a' * 256 + b') * 256 + c') * 256 + d')
          | _ \<Rightarrow> None)
     | _ \<Rightarrow> None)"

definition is_hex_digit :: "char \<Rightarrow> bool" where
  "is_hex_digit c = (digit_val c \<noteq> None)"

text \<open>
  The loop of \<open>ParseAddr\<close> over 16-bit groups: the first argument is the number of groups that
  still fit, then the groups read so far and the position of the ellipsis.
\<close>

fun parse_groups :: "nat \<Rightarrow> nat list \<Rightarrow> nat option \<Rightarrow> string \<Rightarrow> (nat list \<times> nat option) option" where
  "parse_groups 0 acc ell s = (if s = [] then Some (acc, ell) else None)"
| "parse_groups (Suc r) acc ell s =
     (let h = takeWhile is_hex_digit s; rest = dropWhile is_hex_digit s in
      if 4 < length h then None
      else case (if h = [] then None else digits_value 16 0 h, rest) of
        (None, _) \<Rightarrow> None
      | (Some v, []) \<Rightarrow> Some (acc @ [v], ell)
      | (Some v, c # rest') \<Rightarrow>
          if c = CHR ''.'' then
            (if ell = None \<and> length acc \<noteq> 6 \<or> r = 0 then None
             else case parse_ipv4 s of None \<Rightarrow> None
               | Some n \<Rightarrow> Some (acc @ [n div 65536, n mod 65536], ell))
          else if c \<noteq> CHR '':'' \<or> rest' = [] then None
          else if hd rest' = CHR '':'' then
            (if ell \<noteq> None then None
             else if tl rest' = [] then Some (acc @ [v], Some (length acc + 1))
             else parse_groups r (acc @ [v]) (Some (length acc + 1)) (tl rest'))
          else parse_groups r (acc @ [v]) ell rest')"

definition groups_value :: "nat list \<Rightarrow> nat" where
  "groups_value gs = foldl (\<lambda>n g. n * 65536 + g) 0 gs"

definition expand_ellipsis :: "nat list \<Rightarrow> nat option \<Rightarrow> nat list option" where
  "expand_ellipsis gs ell =
     (case ell of
        None \<Rightarrow> if length gs = 8 then Some gs else None
      | Some e \<Rightarrow> if length gs < 8 then Some (take e gs @ replicate (8 - length gs) 0 @ drop e gs)
                 else None)"

definition parse_ipv6 :: "string \<Rightarrow> addr option" where
  "parse_ipv6 inp =
     (case (case cut_at CHR ''%'' inp of None \<Rightarrow> Some (inp, [])
            | Some (a, z) \<Rightarrow> if z = [] then None else Some (a, z)) of
        None \<Rightarrow> None
      | Some (s, z) \<Rightarrow>
          if s = ''::'' then Some (V6 0 z)
          else let (ell, t) = (if has_prefix s ''::'' then (Some 0, drop 2 s) else (None, s)) in
            case parse_groups 8 [] ell t of
              None \<Rightarrow> None
            | Some (gs, ell') \<Rightarrow>
                map_option (\<lambda>gs'. V6 (word_of_nat (groups_value gs')) z) (expand_ellipsis gs ell'))"

text \<open>\<open>netip.ParseAddr\<close> looks at the first of the three marks that occurs.\<close>

definition parse_addr :: "string \<Rightarrow> addr option" where
  "parse_addr s = (case find (\<lambda>c. c \<in> {CHR ''.'', CHR '':'', CHR ''%''}) s of
       None \<Rightarrow> None
     | Some c \<Rightarrow> if c = CHR ''.'' then map_option (\<lambda>n. V4 (word_of_nat n)) (parse_ipv4 s)
                else if c = CHR '':'' then parse_ipv6 s else None)"

definition ipv4_string :: "32 word \<Rightarrow> string" where
  "ipv4_string w =
     (let n = unat w in
      join ''.'' [itoa (n div 16777216), itoa (n div 65536 mod 256), itoa (n div 256 mod 256), itoa (n mod 256)])"

definition ipv6_groups :: "128 word \<Rightarrow> nat list" where
  "ipv6_groups w = map (\<lambda>i. unat w div 65536 ^ (7 - i) mod 65536) [0..<8]"

text \<open>The longest run of at least two zero groups, the first one among equals.\<close>

definition zero_run :: "nat list \<Rightarrow> nat \<times> nat" where
  "zero_run gs =
     foldl (\<lambda>(st, l) i. let k = length (takeWhile (\<lambda>g. g = 0) (drop i gs)) in
                        if 2 \<le> k \<and> l < k then (i, k) else (st, l)) (0, 0) [0..<length gs]"

definition ipv6_string :: "128 word \<Rightarrow> string" where
  "ipv6_string w =
     (let gs = ipv6_groups w; (st, l) = zero_run gs in
      if l = 0 then join '':'' (map hex gs)
      else join '':'' (map hex (take st gs)) @ ''::'' @ join '':'' (map hex (drop (st + l) gs)))"

definition with_zone :: "string \<Rightarrow> string \<Rightarrow> string" where
  "with_zone s z = (if z = [] then s else s @ ''%'' @ z)"

definition addr_string :: "addr \<Rightarrow> string" where
  "addr_string a = (case a of
       V4 w \<Rightarrow> ipv4_string w
     | V6 w z \<Rightarrow>
         if unat w div 2 ^ 32 = 65535
         then with_zone (''::ffff:'' @ ipv4_string (word_of_nat (unat w mod 2 ^ 32))) z
         else with_zone (ipv6_string w) z)"

text \<open>\<open>netip.ParsePrefix\<close>: no zone, and a length without sign or leading zero.\<close>

definition parse_prefix :: "string \<Rightarrow> (addr \<times> nat) option" where
  "parse_prefix s = (case cut_last CHR ''/'' s of
       None \<Rightarrow> None
     | Some (ip, bs) \<Rightarrow>
         (case parse_addr ip of
            None \<Rightarrow> None
          | Some a \<Rightarrow>
              if zone a \<noteq> [] then None
              else if 1 < length bs \<and> (\<not> is_digit (hd bs) \<or> hd bs = CHR ''0'') then None
              else (case parse_dec bs of
                  None \<Rightarrow> None
                | Some n \<Rightarrow> if n \<le> bit_len a then Some (a, n) else None)))"

text \<open>
  \<open>Prefix.Masked\<close> clears the low \<open>h\<close> host bits, \<open>Prefix.Contains\<close> compares the others, and
  \<open>Addr.Next\<close> adds one, giving the invalid address (here \<open>None\<close>) after the last one.
\<close>

definition masked :: "nat \<Rightarrow> 'a::len word \<Rightarrow> 'a word" where
  "masked h a = push_bit h (drop_bit h a)"

definition in_prefix :: "nat \<Rightarrow> 'a::len word \<Rightarrow> 'a word \<Rightarrow> bool" where
  "in_prefix h p a = (drop_bit h (a XOR p) = 0)"

definition next_addr :: "'a::len word \<Rightarrow> 'a word option" where
  "next_addr a = (if a + 1 = 0 then None else Some (a + 1))"

section \<open>\<open>iputils.go\<close>\<close>

definition IsIP :: "string \<Rightarrow> bool" where
  "IsIP ip = (case parse_addr ip of None \<Rightarrow> False | Some a \<Rightarrow> zone a = [])"

definition IsIPv4 :: "string \<Rightarrow> bool" where
  "IsIPv4 ip = (case parse_addr ip of None \<Rightarrow> False | Some a \<Rightarrow> is4 a)"

definition IsIPv6 :: "string \<Rightarrow> bool" where
  "IsIPv6 ip = (case parse_addr ip of None \<Rightarrow> False | Some a \<Rightarrow> is6 a \<and> zone a = [])"

section \<open>\<open>cidr.go\<close>\<close>

datatype cidr_error = ErrInvalidCIDR | ErrCIDRTooLarge

definition maxExpandHostBits :: nat where
  "maxExpandHostBits = 20"

definition maxCountHostBits :: nat where
  "maxCountHostBits = 62"

definition IsCIDR :: "string \<Rightarrow> bool" where
  "IsCIDR cidr = (parse_prefix cidr \<noteq> None)"

definition IsIPv4CIDR :: "string \<Rightarrow> bool" where
  "IsIPv4CIDR cidr = (case parse_prefix cidr of None \<Rightarrow> False | Some (a, _) \<Rightarrow> is4 a)"

definition IsIPv6CIDR :: "string \<Rightarrow> bool" where
  "IsIPv6CIDR cidr = (case parse_prefix cidr of None \<Rightarrow> False | Some (a, _) \<Rightarrow> is6 a)"

definition parseBoundedPrefix :: "string \<Rightarrow> nat \<Rightarrow> (cidr_error, addr \<times> nat) result" where
  "parseBoundedPrefix cidr maxHostBits = (case parse_prefix cidr of
       None \<Rightarrow> Inl ErrInvalidCIDR
     | Some (a, bits) \<Rightarrow>
         let hostBits = bit_len a - bits in
         if maxHostBits < hostBits then Inl ErrCIDRTooLarge else Inr (a, hostBits))"

text \<open>The count is a Go \<open>int64\<close>: a 64-bit word, shifted.\<close>

definition CountCIDR :: "string \<Rightarrow> (cidr_error, 64 word) result" where
  "CountCIDR cidr = (case parseBoundedPrefix cidr maxCountHostBits of
       Inl e \<Rightarrow> Inl e
     | Inr (_, hostBits) \<Rightarrow> Inr (push_bit hostBits 1))"

text \<open>The loop of \<open>ExpandCIDR\<close>, from the address \<open>a\<close> on.\<close>

function expand_from :: "nat \<Rightarrow> 'a::len word \<Rightarrow> 'a word \<Rightarrow> 'a word list" where
  "expand_from h p a =
     (if in_prefix h p a
      then a # (case next_addr a of None \<Rightarrow> [] | Some a' \<Rightarrow> expand_from h p a')
      else [])"
  by pat_completeness auto
termination
proof (relation "measure (\<lambda>(h, p, a). 2 ^ LENGTH('a) - unat a)", goal_cases)
  case (2 h p a a')
  then have "unat a' = Suc (unat a)"
    by (auto simp: next_addr_def unatSuc add.commute split: if_splits)
  moreover have "unat a' < 2 ^ LENGTH('a)" by (rule unsigned_less)
  ultimately show ?case by simp
qed simp

declare expand_from.simps [simp del]

definition ExpandCIDR :: "string \<Rightarrow> (cidr_error, string list) result" where
  "ExpandCIDR cidr = (case parseBoundedPrefix cidr maxExpandHostBits of
       Inl e \<Rightarrow> Inl e
     | Inr (V4 w, h) \<Rightarrow>
         let p = masked h w in Inr (map (\<lambda>a. addr_string (V4 a)) (expand_from h p p))
     | Inr (V6 w z, h) \<Rightarrow>
         let p = masked h w in Inr (map (\<lambda>a. addr_string (V6 a z)) (expand_from h p p)))"

section \<open>The expansion loop visits the whole range\<close>

lemma next_addr_Some: "next_addr a = Some a' \<longleftrightarrow> a' = a + 1 \<and> unat a' = Suc (unat a)"
proof -
  have "a + 1 \<noteq> 0 \<Longrightarrow> unat (a + 1) = Suc (unat a)"
    by (metis add.commute unatSuc)
  then show ?thesis by (auto simp: next_addr_def)
qed

lemma unat_drop_bit_div: "unat (drop_bit h a) = unat a div 2 ^ h"
  by (simp add: unat_drop_bit_eq drop_bit_eq_div [of h "unat a"])

lemma in_prefix_iff: "in_prefix h p a \<longleftrightarrow> unat a div 2 ^ h = unat p div 2 ^ h"
proof -
  have "in_prefix h p a \<longleftrightarrow> drop_bit h a XOR drop_bit h p = 0"
    by (simp add: in_prefix_def)
  also have "\<dots> \<longleftrightarrow> drop_bit h a = drop_bit h p"
    by (auto simp: bit_eq_iff bit_xor_iff)
  also have "\<dots> \<longleftrightarrow> unat (drop_bit h a) = unat (drop_bit h p)"
    by (simp only: word_unat_eq_iff)
  finally show ?thesis by (simp only: unat_drop_bit_div)
qed

lemma unat_masked: "unat (masked h (a :: 'a::len word)) = unat a div 2 ^ h * 2 ^ h"
proof -
  have "unat a div 2 ^ h * 2 ^ h \<le> unat a" by simp
  also have "\<dots> < 2 ^ LENGTH('a)" by (rule unsigned_less)
  finally have "take_bit LENGTH('a) (push_bit h (unat a div 2 ^ h)) = unat a div 2 ^ h * 2 ^ h"
    by (simp add: take_bit_eq_mod push_bit_eq_mult)
  moreover have "unat (masked h a) = take_bit LENGTH('a) (push_bit h (unat (drop_bit h a)))"
    by (simp only: masked_def unsigned_push_bit_eq)
  ultimately show ?thesis by (simp only: unat_drop_bit_div)
qed

lemma unat_word_of_nat_less: "n < 2 ^ LENGTH('a) \<Longrightarrow> unat (word_of_nat n :: 'a::len word) = n"
  by (simp add: unat_of_nat)

lemma block_in_width:
  fixes q h n :: nat
  assumes "h \<le> n" "q * 2 ^ h < 2 ^ n"
  shows "q * 2 ^ h + 2 ^ h \<le> 2 ^ n"
proof -
  have eq: "(2::nat) ^ n = 2 ^ (n - h) * 2 ^ h" using assms(1) by (simp flip: power_add)
  with assms(2) have "q < 2 ^ (n - h)" by simp
  then have "Suc q * 2 ^ h \<le> 2 ^ (n - h) * 2 ^ h" by (intro mult_le_mono1) simp
  with eq show ?thesis by simp
qed

text \<open>The loop from the \<open>k\<close>th address of the range runs through the rest of it.\<close>

lemma expand_from_suffix:
  fixes p :: "'a::len word"
  assumes base: "unat p = q * 2 ^ h" and h: "h \<le> LENGTH('a)" and k: "k \<le> 2 ^ h"
    and lt: "q * 2 ^ h + k < 2 ^ LENGTH('a)"
  shows "map unat (expand_from h p (word_of_nat (q * 2 ^ h + k))) = [q * 2 ^ h + k ..< q * 2 ^ h + 2 ^ h]"
  using k lt
proof (induction "2 ^ h - k" arbitrary: k)
  case 0
  let ?a = "word_of_nat (q * 2 ^ h + k) :: 'a word"
  have "unat ?a = q * 2 ^ h + k" by (rule unat_word_of_nat_less) (rule 0)
  with 0 have "unat ?a = q * 2 ^ h + 2 ^ h" by simp
  then have "unat ?a div 2 ^ h = Suc q" by simp
  with base have "\<not> in_prefix h p ?a" by (simp add: in_prefix_iff)
  with 0 show ?case by (subst expand_from.simps) simp
next
  case (Suc n)
  let ?a = "word_of_nat (q * 2 ^ h + k) :: 'a word"
  from Suc.hyps(2) have less: "k < 2 ^ h" by simp
  have a: "unat ?a = q * 2 ^ h + k" by (rule unat_word_of_nat_less) (rule Suc.prems)
  then have inp: "in_prefix h p ?a" using base less by (simp add: in_prefix_iff)
  have upt: "[q * 2 ^ h + k ..< q * 2 ^ h + 2 ^ h] = (q * 2 ^ h + k) # [q * 2 ^ h + Suc k ..< q * 2 ^ h + 2 ^ h]"
    using less by (simp add: upt_conv_Cons)
  show ?case
  proof (cases "q * 2 ^ h + Suc k < 2 ^ LENGTH('a)")
    case True
    moreover have succ: "?a + 1 = word_of_nat (q * 2 ^ h + Suc k)" by simp
    ultimately have "unat (?a + 1) = Suc (unat ?a)"
      by (simp only: succ a unat_word_of_nat_less)
    then have "next_addr ?a = Some (?a + 1)" by (simp add: next_addr_Some)
    then have exp: "expand_from h p ?a = ?a # expand_from h p (word_of_nat (q * 2 ^ h + Suc k))"
      using inp by (subst expand_from.simps) (simp add: ac_simps)
    have "map unat (expand_from h p (word_of_nat (q * 2 ^ h + Suc k))) =
        [q * 2 ^ h + Suc k ..< q * 2 ^ h + 2 ^ h]"
      by (rule Suc.hyps(1)) (use Suc.hyps(2) less True in auto)
    then show ?thesis by (simp only: exp list.map a upt)
  next
    case False
    then have last: "q * 2 ^ h + k + 1 = 2 ^ LENGTH('a)" using Suc.prems by simp
    moreover have "q * 2 ^ h + 2 ^ h \<le> 2 ^ LENGTH('a)"
      using block_in_width [OF h] Suc.prems by simp
    ultimately have fin: "Suc k = 2 ^ h" using less by simp
    have "next_addr ?a \<noteq> Some (?a + 1)"
      using last a by (metis Suc_eq_plus1 nat_neq_iff next_addr_Some unsigned_less)
    then have "next_addr ?a = None" by (simp add: next_addr_def split: if_splits)
    then have "expand_from h p ?a = [?a]" using inp by (subst expand_from.simps) simp
    then have "map unat (expand_from h p ?a) = [q * 2 ^ h + k]" by (simp only: list.map a)
    moreover have "[q * 2 ^ h + k ..< q * 2 ^ h + 2 ^ h] = [q * 2 ^ h + k]" by (simp flip: fin)
    ultimately show ?thesis by (simp only:)
  qed
qed

lemma expand_from_masked:
  fixes w :: "'a::len word"
  assumes "h \<le> LENGTH('a)"
  shows "map unat (expand_from h (masked h w) (masked h w)) =
    [unat w div 2 ^ h * 2 ^ h ..< unat w div 2 ^ h * 2 ^ h + 2 ^ h]"
proof -
  have base: "unat (masked h w) = unat w div 2 ^ h * 2 ^ h" by (rule unat_masked)
  then have "unat w div 2 ^ h * 2 ^ h < 2 ^ LENGTH('a)" by (metis unsigned_less)
  from expand_from_suffix [OF base assms, of 0] this
  have "map unat (expand_from h (masked h w) (word_of_nat (unat (masked h w)))) =
    [unat w div 2 ^ h * 2 ^ h ..< unat w div 2 ^ h * 2 ^ h + 2 ^ h]"
    by (simp add: base)
  then show ?thesis by simp
qed

lemma length_expand_from:
  "h \<le> LENGTH('a) \<Longrightarrow> length (expand_from h (masked h (w :: 'a::len word)) (masked h w)) = 2 ^ h"
  by (metis add_diff_cancel_left' expand_from_masked length_map length_upt)

lemma div_eq_block:
  fixes a m q :: nat
  assumes "0 < m"
  shows "a div m = q \<longleftrightarrow> a \<in> {q * m ..< q * m + m}"
proof
  assume "a div m = q"
  moreover have "a div m * m + a mod m = a" by simp
  moreover have "a mod m < m" using assms by simp
  ultimately have "q * m \<le> a" "a < q * m + m" by (metis le_add1, metis nat_add_left_cancel_less)
  then show "a \<in> {q * m ..< q * m + m}" by simp
next
  assume "a \<in> {q * m ..< q * m + m}"
  then show "a div m = q" by (intro div_nat_eqI) (auto simp: mult.commute)
qed

lemma set_expand_from:
  fixes w :: "'a::len word"
  assumes "h \<le> LENGTH('a)"
  shows "set (expand_from h (masked h w) (masked h w)) = {a. unat a div 2 ^ h = unat w div 2 ^ h}"
proof -
  let ?q = "unat w div 2 ^ h"
  have img: "unat ` set (expand_from h (masked h w) (masked h w)) = {?q * 2 ^ h ..< ?q * 2 ^ h + 2 ^ h}"
    by (metis assms expand_from_masked image_set set_upt)
  have mem: "a \<in> S \<longleftrightarrow> unat a \<in> unat ` S" for a and S :: "'a word set"
    by (metis image_iff word_unat_eq_iff)
  show ?thesis
    by (intro set_eqI, subst mem) (simp only: img mem_Collect_eq div_eq_block zero_less_power zero_less_numeral)
qed

lemma distinct_expand_from:
  "h \<le> LENGTH('a) \<Longrightarrow> distinct (expand_from h (masked h (w :: 'a::len word)) (masked h w))"
  by (metis distinct_map distinct_upt expand_from_masked)

section \<open>Printing and parsing of IPv4 addresses\<close>

lemma hd_digits_base: "0 < n \<Longrightarrow> b = 10 \<Longrightarrow> hd (digits_base b n) \<noteq> CHR ''0''"
proof (induction b n rule: digits_base.induct)
  case (1 b n)
  show ?case
  proof (cases "n < 10")
    case True
    then have "hd (digits_base b n) = char_of (48 + n)"
      using "1.prems" by (subst digits_base.simps) (simp add: digit_char_def)
    then have "char_code (hd (digits_base b n)) = 48 + n"
      using True by simp
    moreover have "char_code CHR ''0'' = 48" by (simp add: char_code_def)
    ultimately show ?thesis using "1.prems" by (metis add_cancel_left_right less_irrefl)
  next
    case False
    with "1.IH" "1.prems" show ?thesis by (simp add: digits_base_step)
  qed
qed

lemma length_itoa_0: "length (itoa 0) = 1"
  unfolding itoa_def by (subst digits_base.simps) simp

lemma hd_itoa: "0 < n \<Longrightarrow> hd (itoa n) \<noteq> CHR ''0''"
  by (simp add: itoa_def hd_digits_base)

lemma parse_octet_itoa [simp]: "n \<le> 255 \<Longrightarrow> parse_octet (itoa n) = Some n"
  using hd_itoa [of n] length_itoa_0 by (cases "n = 0") (auto simp: parse_octet_def)

lemma not_digit_marks [simp]:
  "\<not> is_digit CHR ''.''" "\<not> is_digit CHR '':''" "\<not> is_digit CHR ''%''" "\<not> is_digit CHR ''/''"
  "\<not> is_digit CHR ''_''"
  by (simp_all add: is_digit_def char_code_def)

lemma parse_ipv4_dotted:
  assumes "a \<le> 255" "b \<le> 255" "c \<le> 255" "d \<le> 255"
  shows "parse_ipv4 (join ''.'' [itoa a, itoa b, itoa c, itoa d]) = Some (((a * 256 + b) * 256 + c) * 256 + d)"
proof -
  have "split_on CHR ''.'' (join [CHR ''.''] [itoa a, itoa b, itoa c, itoa d]) = [itoa a, itoa b, itoa c, itoa d]"
    by (rule split_on_join) auto
  with assms show ?thesis by (simp add: parse_ipv4_def)
qed

lemma find_append_None: "find P xs = None \<Longrightarrow> find P (xs @ ys) = find P ys"
  by (induction xs) (auto split: if_splits)

lemma ipv4_octets:
  fixes n :: nat
  shows "((n div 16777216 * 256 + n div 65536 mod 256) * 256 + n div 256 mod 256) * 256 + n mod 256 = n"
proof -
  have "n div 65536 = n div 256 div 256" "n div 16777216 = n div 256 div 256 div 256"
    by (simp_all flip: div_mult2_eq)
  then show ?thesis by (metis add.commute mod_mult_div_eq mult.commute)
qed

lemma ipv4_string_nonempty [simp]: "ipv4_string w \<noteq> []"
  by (simp add: ipv4_string_def Let_def)

lemma parse_ipv4_ipv4_string [simp]: "parse_ipv4 (ipv4_string w) = Some (unat w)"
proof -
  have "unat w < 4294967296" using unsigned_less [of w] by simp
  then have "unat w div 16777216 \<le> 255" by (simp add: less_mult_imp_div_less flip: less_Suc_eq_le)
  moreover have "k mod 256 \<le> 255" for k :: nat by (simp flip: less_Suc_eq_le)
  ultimately show ?thesis
    unfolding ipv4_string_def Let_def by (subst parse_ipv4_dotted) (simp_all only: ipv4_octets)
qed

lemma parse_addr_ipv4_string [simp]: "parse_addr (ipv4_string w) = Some (V4 w)"
proof -
  have "find (\<lambda>c. c \<in> {CHR ''.'', CHR '':'', CHR ''%''}) (itoa (unat w div 16777216)) = None"
    using itoa_digits by (fastforce simp: find_None_iff)
  then have "find (\<lambda>c. c \<in> {CHR ''.'', CHR '':'', CHR ''%''}) (ipv4_string w) = Some CHR ''.''"
    by (simp add: ipv4_string_def Let_def find_append_None)
  then show ?thesis by (simp add: parse_addr_def)
qed

lemma IsIP_ipv4_string [simp]:
  "IsIP (ipv4_string w)" "IsIPv4 (ipv4_string w)" "\<not> IsIPv6 (ipv4_string w)"
  by (simp_all add: IsIP_def IsIPv4_def IsIPv6_def)

lemma inj_ipv4_string: "inj ipv4_string"
  by (rule injI) (metis addr.inject(1) option.inject parse_addr_ipv4_string)

section \<open>The characters of an address\<close>

definition addr_char :: "char \<Rightarrow> bool" where
  "addr_char c = (digit_val c \<noteq> None \<or> c = CHR ''.'' \<or> c = CHR '':'')"

lemma digits_value_chars: "digits_value b acc s = Some v \<Longrightarrow> c \<in> set s \<Longrightarrow> digit_val c \<noteq> None"
  by (induction s arbitrary: acc) (auto split: option.splits if_splits)

lemma set_join: "set (join sep ws) \<subseteq> set sep \<union> (\<Union>w \<in> set ws. set w)"
  by (induction sep ws rule: join.induct) auto

lemma parse_octet_chars: "parse_octet s = Some n \<Longrightarrow> c \<in> set s \<Longrightarrow> digit_val c \<noteq> None"
  by (auto simp: parse_octet_def parse_dec_def split: if_splits option.splits dest!: digits_value_chars)

lemma parse_ipv4_chars:
  assumes "parse_ipv4 s = Some n" and "c \<in> set s"
  shows "addr_char c"
proof -
  from assms(1) obtain ws where ws: "split_on CHR ''.'' s = ws" "\<forall>w \<in> set ws. parse_octet w \<noteq> None"
    by (auto simp: parse_ipv4_def split: list.splits option.splits)
  have "c \<in> set (join [CHR ''.''] ws)" using assms(2) by (simp flip: ws(1))
  then have "c = CHR ''.'' \<or> (\<exists>w \<in> set ws. c \<in> set w)" using set_join [of "[CHR ''.'']" ws] by auto
  with ws(2) show ?thesis by (auto simp: addr_char_def dest: parse_octet_chars)
qed

lemma parse_groups_chars:
  "parse_groups r acc ell s = Some gs \<Longrightarrow> c \<in> set s \<Longrightarrow> addr_char c"
proof (induction r acc ell s arbitrary: gs rule: parse_groups.induct)
  case (2 r acc ell s)
  let ?h = "takeWhile is_hex_digit s" and ?t = "dropWhile is_hex_digit s"
  have hex: "c \<in> set ?h \<Longrightarrow> addr_char c"
    by (auto simp: addr_char_def is_hex_digit_def dest!: set_takeWhileD)
  have split: "c \<in> set ?h \<or> c \<in> set ?t"
    using "2.prems"(2) by (metis Un_iff set_append takeWhile_dropWhile_id)
  show ?case
  proof (cases ?t)
    case Nil
    with hex split show ?thesis by simp
  next
    case (Cons d u)
    obtain v where v: "digits_value 16 0 ?h = Some v" "?h \<noteq> []" "\<not> 4 < length ?h"
      using "2.prems"(1) by (auto simp: Let_def split: if_splits option.splits)
    have pair: "(Some v, d # u) = (if ?h = [] then None else digits_value 16 0 ?h, ?t)"
      using v Cons by simp
    note IH = "2.IH" [OF refl refl v(3) pair refl refl]
    consider (dot) n where "d = CHR ''.''" "parse_ipv4 s = Some n"
      | (last) "d = CHR '':''" "u = [CHR '':'']"
      | (ell) u' where "d = CHR '':''" "u = CHR '':'' # u'" "u' \<noteq> []" "ell = None"
      | (more) "d = CHR '':''" "u \<noteq> []" "hd u \<noteq> CHR '':''"
      using "2.prems"(1) v Cons
      by (cases u) (auto simp: Let_def split: if_splits option.splits)
    then show ?thesis
    proof cases
      case dot
      then show ?thesis using "2.prems"(2) by (blast intro: parse_ipv4_chars)
    next
      case last
      with hex split Cons show ?thesis by (auto simp: addr_char_def)
    next
      case ell
      then have "parse_groups r (acc @ [v]) (Some (length acc + 1)) u' = Some gs"
        using "2.prems"(1) v Cons by (simp add: Let_def)
      then have "c \<in> set u' \<Longrightarrow> addr_char c"
        using IH(1) ell by auto
      with ell hex split Cons show ?thesis by (auto simp: addr_char_def)
    next
      case more
      then have "parse_groups r (acc @ [v]) ell u = Some gs"
        using "2.prems"(1) v Cons by (simp add: Let_def)
      then have "c \<in> set u \<Longrightarrow> addr_char c"
        using IH(2) more by auto
      with more hex split Cons show ?thesis by (auto simp: addr_char_def)
    qed
  qed
qed (simp split: if_splits)

lemma parse_ipv6_chars:
  assumes "parse_ipv6 s = Some a" and "zone a = []" and "c \<in> set s"
  shows "addr_char c"
proof (cases "cut_at CHR ''%'' s")
  case None
  have colon: "addr_char CHR '':''" by (simp add: addr_char_def)
  show ?thesis
  proof (cases "has_prefix s ''::''")
    case True
    then obtain t where "s = ''::'' @ t" by (auto simp: has_prefix_def prefix_def)
    with assms None colon show ?thesis
      by (auto simp: parse_ipv6_def has_prefix_def split: if_splits option.splits dest: parse_groups_chars)
  next
    case False
    then show ?thesis using assms None colon
      by (auto simp: parse_ipv6_def split: if_splits option.splits dest: parse_groups_chars)
  qed
next
  case (Some p)
  with assms show ?thesis
    by (auto simp: parse_ipv6_def split: prod.splits if_splits option.splits)
qed

lemma IsIP_chars: "IsIP s \<Longrightarrow> c \<in> set s \<Longrightarrow> addr_char c"
  by (auto simp: IsIP_def parse_addr_def split: option.splits if_splits
      dest: parse_ipv4_chars parse_ipv6_chars)

lemma IsIP_no_underscore: "IsIP s \<Longrightarrow> CHR ''_'' \<notin> set s"
proof
  assume "IsIP s" "CHR ''_'' \<in> set s"
  then have "addr_char CHR ''_''" by (rule IsIP_chars)
  then show False by (simp add: addr_char_def digit_val_def is_digit_def char_code_def)
qed

section \<open>Properties\<close>

lemma parseBoundedPrefix_Inr_iff:
  "parseBoundedPrefix cidr m = Inr (a, h) \<longleftrightarrow>
     (\<exists>n. parse_prefix cidr = Some (a, n) \<and> h = bit_len a - n \<and> h \<le> m)"
  by (auto simp: parseBoundedPrefix_def Let_def split: option.splits if_splits)

lemma ExpandCIDR_Inr:
  assumes "ExpandCIDR cidr = Inr ips"
  obtains a n h where "parse_prefix cidr = Some (a, n)" "h = bit_len a - n" "h \<le> 20" "length ips = 2 ^ h"
proof -
  from assms obtain a h where p: "parseBoundedPrefix cidr maxExpandHostBits = Inr (a, h)"
    by (auto simp: ExpandCIDR_def split: sum.splits)
  then obtain n where n: "parse_prefix cidr = Some (a, n)" "h = bit_len a - n" "h \<le> 20"
    by (auto simp: parseBoundedPrefix_Inr_iff maxExpandHostBits_def)
  moreover have "length ips = 2 ^ h"
    using assms p n by (cases a) (auto simp: ExpandCIDR_def Let_def length_expand_from)
  ultimately show ?thesis using that by blast
qed

lemma sint_shift_one: "h \<le> 62 \<Longrightarrow> sint (2 ^ h :: 64 word) = 2 ^ h"
proof -
  assume h: "h \<le> 62"
  have "(2::int) ^ h < 2 ^ 63" using h by (intro power_strict_increasing) auto
  moreover have "sint (word_of_int (2 ^ h) :: 64 word) = signed_take_bit 63 (2 ^ h)"
    by (simp only: signed_of_int) simp
  moreover have "(- 9223372036854775808 :: int) \<le> 2 ^ h"
    by (rule order_trans [of _ 0]) simp_all
  ultimately show ?thesis by (simp add: signed_take_bit_int_eq_self)
qed

text \<open>The rules that evaluate the parsers on a literal.\<close>

lemmas netip_eval =
  parse_prefix_def cut_last_def parse_addr_def parse_ipv4_def parse_ipv6_def parse_octet_def
  parse_dec_def digit_val_def is_digit_def char_code_def has_prefix_def is_hex_digit_def
  expand_ellipsis_def groups_value_def

text \<open>C26. \<open>ExpandCIDR\<close> on an IPv4 range of at most 20 host bits succeeds, and its result is the
  strings of exactly the addresses that share the network part, each once, in increasing order.\<close>

theorem ExpandCIDR_ipv4_exact:
  assumes "parse_prefix cidr = Some (V4 w, n)" and "32 - n \<le> maxExpandHostBits"
  shows "\<exists>as. ExpandCIDR cidr = Inr (map ipv4_string as) \<and> sorted (map unat as) \<and> distinct (map ipv4_string as)
    \<and> set as = {a. unat a div 2 ^ (32 - n) = unat w div 2 ^ (32 - n)}"
proof -
  let ?h = "32 - n"
  let ?as = "expand_from ?h (masked ?h w) (masked ?h w)"
  have "ExpandCIDR cidr = Inr (map ipv4_string ?as)"
    using assms by (simp add: ExpandCIDR_def parseBoundedPrefix_def Let_def addr_string_def)
  moreover have "sorted (map unat ?as)" by (subst expand_from_masked) simp_all
  moreover have "distinct ?as" by (rule distinct_expand_from) simp
  then have "distinct (map ipv4_string ?as)"
    by (simp add: distinct_map inj_on_subset [OF inj_ipv4_string])
  moreover have "set ?as = {a. unat a div 2 ^ ?h = unat w div 2 ^ ?h}" by (rule set_expand_from) simp
  ultimately show ?thesis by blast
qed

theorem ExpandCIDR_ipv4_exact_witness:
  "\<exists>as. ExpandCIDR ''10.0.0.6/30'' = Inr (map ipv4_string as) \<and> sorted (map unat as)
    \<and> distinct (map ipv4_string as) \<and> set as = {a. unat a div 4 = unat (167772166 :: 32 word) div 4}"
proof -
  have "parse_prefix ''10.0.0.6/30'' = Some (V4 167772166, 30)" by (simp add: netip_eval)
  from ExpandCIDR_ipv4_exact [OF this] show ?thesis by (simp add: maxExpandHostBits_def)
qed

text \<open>Whenever \<open>ExpandCIDR\<close> succeeds, \<open>CountCIDR\<close> succeeds on the same input and, read as a
  signed 64-bit integer, is the number of addresses in the expansion, at most \<open>2^20\<close>.\<close>

theorem ExpandCIDR_agrees_CountCIDR:
  assumes "ExpandCIDR cidr = Inr ips"
  shows "\<exists>c. CountCIDR cidr = Inr c \<and> sint c = int (length ips) \<and> length ips \<le> 1048576"
proof -
  from assms obtain a n h where h: "parse_prefix cidr = Some (a, n)" "h = bit_len a - n" "h \<le> 20" "length ips = 2 ^ h"
    by (rule ExpandCIDR_Inr)
  then have "CountCIDR cidr = Inr (push_bit h 1)"
    by (simp add: CountCIDR_def parseBoundedPrefix_def maxCountHostBits_def Let_def)
  moreover have "sint (push_bit h 1 :: 64 word) = int (length ips)"
    using h by (simp add: sint_shift_one)
  moreover have "length ips \<le> 2 ^ 20" unfolding h(4) using h(3) by (rule power_increasing) simp
  ultimately show ?thesis by auto
qed

theorem ExpandCIDR_agrees_CountCIDR_witness:
  "\<exists>ips c. ExpandCIDR ''10.0.0.6/31'' = Inr ips \<and> CountCIDR ''10.0.0.6/31'' = Inr c \<and> sint c = int (length ips)"
proof -
  have "parse_prefix ''10.0.0.6/31'' = Some (V4 167772166, 31)" by (simp add: netip_eval)
  then obtain ips where "ExpandCIDR ''10.0.0.6/31'' = Inr ips"
    by (simp add: ExpandCIDR_def parseBoundedPrefix_def maxExpandHostBits_def Let_def)
  with ExpandCIDR_agrees_CountCIDR [OF this] show ?thesis by blast
qed

text \<open>C27. A count that \<open>CountCIDR\<close> returns is the exact number of addresses: the shift of the
  64-bit integer never overflows and the result is positive.\<close>

theorem CountCIDR_exact:
  assumes "CountCIDR cidr = Inr c"
  shows "\<exists>a n. parse_prefix cidr = Some (a, n) \<and> sint c = 2 ^ (bit_len a - n) \<and> 0 < sint c"
proof -
  from assms obtain a h where p: "parseBoundedPrefix cidr maxCountHostBits = Inr (a, h)" and c: "c = push_bit h 1"
    by (auto simp: CountCIDR_def split: sum.splits)
  from p obtain n where "parse_prefix cidr = Some (a, n)" "h = bit_len a - n" "h \<le> 62"
    by (auto simp: parseBoundedPrefix_Inr_iff maxCountHostBits_def)
  with c show ?thesis by (auto simp: sint_shift_one)
qed

theorem CountCIDR_exact_witness:
  "\<exists>a n c. CountCIDR ''::/66'' = Inr c \<and> parse_prefix ''::/66'' = Some (a, n) \<and> sint c = 4611686018427387904"
proof -
  have p: "parse_prefix ''::/66'' = Some (V6 0 [], 66)" by (simp add: netip_eval)
  then have "CountCIDR ''::/66'' = Inr (push_bit 62 1)"
    by (simp add: CountCIDR_def parseBoundedPrefix_def maxCountHostBits_def Let_def)
  from CountCIDR_exact [OF this] this p show ?thesis by auto
qed

end
