(* ===== verification/Ipv6Text.thy ===== *)
theory Ipv6Text
  imports IpUtils
begin

text \<open>
  The text of an IPv6 address: what \<open>Addr.String\<close> of \<open>net/netip\<close> prints, in groups with the longest run of
  zeros left out and with dots when an IPv4 address is mapped, \<open>ParseAddr\<close> reads back as that address. With the round
  trip for IPv4 in \<open>IpUtils\<close> this says what an expanded range is taken for when its addresses are read again.
\<close>

section \<open>Hexadecimal groups\<close>

lemma is_hex_digit_digit_char [simp]: "d < 16 \<Longrightarrow> is_hex_digit (digit_char d)"
  by (simp add: is_hex_digit_def)

lemma digits_base_16_hex: "b = 16 \<Longrightarrow> c \<in> set (digits_base b n) \<Longrightarrow> is_hex_digit c"
proof (induction b n rule: digits_base.induct)
  case (1 b n)
  show ?case
  proof (cases "n < 16")
    case True
    with "1.prems" show ?thesis by (subst (asm) digits_base.simps) simp
  next
    case False
    with "1.prems" have "c \<in> set (digits_base b (n div b)) \<or> c = digit_char (n mod b)"
      by (auto simp: digits_base_step)
    with "1.IH" "1.prems" False show ?thesis by auto
  qed
qed

lemma hex_digits: "c \<in> set (hex n) \<Longrightarrow> is_hex_digit c"
  by (simp add: hex_def digits_base_16_hex)

lemma hex_nonempty [simp]: "hex n \<noteq> []"
  by (simp add: hex_def)

lemma length_digits_base: "2 \<le> b \<Longrightarrow> n < b ^ Suc k \<Longrightarrow> length (digits_base b n) \<le> Suc k"
proof (induction k arbitrary: n)
  case 0
  then show ?case by (subst digits_base.simps) simp
next
  case (Suc k)
  show ?case
  proof (cases "n < b")
    case True
    then show ?thesis by (subst digits_base.simps) simp
  next
    case False
    have "n div b < b ^ Suc k"
      using Suc.prems by (intro less_mult_imp_div_less) (simp add: mult.commute)
    with Suc.IH [of "n div b"] Suc.prems False show ?thesis
      by (simp add: digits_base_step)
  qed
qed

lemma length_hex: "n < 65536 \<Longrightarrow> length (hex n) \<le> 4"
  using length_digits_base [of 16 n 3] by (simp add: hex_def)

lemma digits_value_hex [simp]: "digits_value 16 0 (hex n) = Some n"
  by (simp add: hex_def digits_value_digits_base)

lemma takeWhile_hex:
  "takeWhile is_hex_digit (hex n) = hex n" "dropWhile is_hex_digit (hex n) = []"
  "\<not> is_hex_digit c \<Longrightarrow> takeWhile is_hex_digit (hex n @ c # r) = hex n"
  "\<not> is_hex_digit c \<Longrightarrow> dropWhile is_hex_digit (hex n @ c # r) = c # r"
  using hex_digits [of _ n] by (simp_all add: takeWhile_eq_all_conv dropWhile_eq_Nil_conv takeWhile_append dropWhile_append)

lemma marks_not_hex [simp]: "\<not> is_hex_digit CHR '':''" "\<not> is_hex_digit CHR ''.''" "\<not> is_hex_digit CHR ''%''"
  by (simp_all add: is_hex_digit_def digit_val_def is_digit_def char_code_def)

lemma parse_groups_last:
  "g < 65536 \<Longrightarrow> parse_groups (Suc r) acc ell (hex g) = Some (acc @ [g], ell)"
  using length_hex [of g] by (simp add: takeWhile_hex Let_def)

lemma parse_groups_colon:
  "g < 65536 \<Longrightarrow> rest \<noteq> [] \<Longrightarrow> hd rest \<noteq> CHR '':'' \<Longrightarrow>
    parse_groups (Suc r) acc ell (hex g @ CHR '':'' # rest) = parse_groups r (acc @ [g]) ell rest"
  using length_hex [of g] by (cases rest) (simp_all add: takeWhile_hex Let_def)

lemma parse_groups_ellipsis:
  "g < 65536 \<Longrightarrow> parse_groups (Suc r) acc None (hex g @ CHR '':'' # CHR '':'' # rest) =
    (if rest = [] then Some (acc @ [g], Some (length acc + 1))
     else parse_groups r (acc @ [g]) (Some (length acc + 1)) rest)"
  using length_hex [of g] by (simp add: takeWhile_hex Let_def)

lemma join_hex_nonempty [simp]: "join sep (map hex gs) = [] \<longleftrightarrow> gs = []"
  by (cases "(sep, map hex gs)" rule: join.cases) auto

lemma hd_join_hex: "gs \<noteq> [] \<Longrightarrow> is_hex_digit (hd (join sep (map hex gs)))"
proof -
  assume "gs \<noteq> []"
  moreover have "is_hex_digit (hd (hex n))" for n
    by (rule hex_digits [of _ n]) simp
  ultimately show ?thesis
    by (cases "(sep, map hex gs)" rule: join.cases) (auto simp: hd_append)
qed

lemma hd_join_hex_colon: "gs \<noteq> [] \<Longrightarrow> hd (join sep (map hex gs) @ t) \<noteq> CHR '':''"
  using hd_join_hex [of gs sep] by (auto simp: hd_append)

text \<open>All groups, and the groups in front of an ellipsis.\<close>

lemma parse_groups_join:
  "gs \<noteq> [] \<Longrightarrow> list_all (\<lambda>g. g < 65536) gs \<Longrightarrow> length gs \<le> r \<Longrightarrow>
    parse_groups r acc ell (join '':'' (map hex gs)) = Some (acc @ gs, ell)"
proof (induction gs arbitrary: r acc)
  case (Cons g gs)
  then obtain q where q: "r = Suc q" by (cases r) auto
  show ?case
  proof (cases "gs = []")
    case True
    then show ?thesis using Cons.prems q by (simp add: parse_groups_last del: parse_groups.simps)
  next
    case False
    have "parse_groups r acc ell (hex g @ CHR '':'' # join '':'' (map hex gs)) = parse_groups q (acc @ [g]) ell (join '':'' (map hex gs))"
      unfolding q using Cons.prems False hd_join_hex_colon [of gs "'':''" "[]"] by (intro parse_groups_colon) auto
    then show ?thesis
      using Cons q False by (simp add: join_Cons del: parse_groups.simps)
  qed
qed simp

lemma parse_groups_before:
  "gs \<noteq> [] \<Longrightarrow> list_all (\<lambda>g. g < 65536) gs \<Longrightarrow> length gs \<le> r \<Longrightarrow>
    parse_groups r acc None (join '':'' (map hex gs) @ CHR '':'' # CHR '':'' # rest) =
      (if rest = [] then Some (acc @ gs, Some (length acc + length gs))
       else parse_groups (r - length gs) (acc @ gs) (Some (length acc + length gs)) rest)"
proof (induction gs arbitrary: r acc)
  case (Cons g gs)
  then obtain q where q: "r = Suc q" by (cases r) auto
  show ?case
  proof (cases "gs = []")
    case True
    then show ?thesis using Cons.prems q by (simp add: parse_groups_ellipsis del: parse_groups.simps)
  next
    case False
    let ?rest = "join '':'' (map hex gs) @ CHR '':'' # CHR '':'' # rest"
    have "parse_groups r acc None (hex g @ CHR '':'' # ?rest) = parse_groups q (acc @ [g]) None ?rest"
      unfolding q using Cons.prems False hd_join_hex_colon [of gs "'':''"] by (intro parse_groups_colon) auto
    then show ?thesis
      using Cons q False by (simp add: join_Cons del: parse_groups.simps)
  qed
qed simp

section \<open>The longest run of zeros\<close>

definition zeros_at :: "nat list \<Rightarrow> nat \<times> nat \<Rightarrow> bool" where
  "zeros_at gs p = (fst p + snd p \<le> length gs \<and> take (fst p) gs @ replicate (snd p) 0 @ drop (fst p + snd p) gs = gs)"

lemma zeros_at_here:
  assumes "i \<le> length gs"
  shows "zeros_at gs (i, length (takeWhile (\<lambda>g. g = 0) (drop i gs)))"
proof -
  let ?k = "length (takeWhile (\<lambda>g. g = 0) (drop i gs))"
  have zeros: "takeWhile (\<lambda>g. g = 0) (drop i gs) = replicate ?k 0"
    by (rule replicate_eqI) (auto dest: set_takeWhileD)
  have "drop i gs = takeWhile (\<lambda>g. g = 0) (drop i gs) @ drop ?k (drop i gs)"
    by (metis append_take_drop_id takeWhile_eq_take)
  then have "drop i gs = replicate ?k 0 @ drop (i + ?k) gs"
    using zeros by (simp add: add.commute)
  moreover have "?k \<le> length (drop i gs)"
    by (rule length_takeWhile_le)
  ultimately show ?thesis
    using assms unfolding zeros_at_def by (metis append_take_drop_id fst_conv snd_conv length_drop le_diff_conv2 add.commute)
qed

lemma zero_run_zeros: "zeros_at gs (zero_run gs)"
proof -
  have "zeros_at gs (foldl (\<lambda>(st, l) i. let k = length (takeWhile (\<lambda>g. g = 0) (drop i gs)) in
      if 2 \<le> k \<and> l < k then (i, k) else (st, l)) p is)" if "zeros_at gs p" "\<forall>i \<in> set is. i \<le> length gs" for p "is"
    using that by (induction "is" arbitrary: p) (auto simp: Let_def zeros_at_here split: prod.split)
  then show ?thesis
    unfolding zero_run_def by (simp add: zeros_at_def)
qed

section \<open>The groups of an address\<close>

lemma groups_value_zeros: "groups_value (replicate n 0) = 0"
  by (induction n) (simp_all add: groups_value_def)

lemma groups_value_snoc: "groups_value (gs @ [g]) = groups_value gs * 65536 + g"
  by (simp add: groups_value_def)

lemma groups_value_digits:
  "groups_value (map (\<lambda>i. n div 65536 ^ (k - Suc i) mod 65536) [0..<k]) = n mod 65536 ^ k"
proof (induction k arbitrary: n)
  case (Suc k)
  have "map (\<lambda>i. n div 65536 ^ (Suc k - Suc i) mod 65536) [0..<k]
      = map (\<lambda>i. n div 65536 div 65536 ^ (k - Suc i) mod 65536) [0..<k]"
  proof (intro map_cong refl)
    fix i
    assume "i \<in> set [0..<k]"
    then have "Suc k - Suc i = Suc (k - Suc i)"
      by auto
    then show "n div 65536 ^ (Suc k - Suc i) mod 65536 = n div 65536 div 65536 ^ (k - Suc i) mod 65536"
      by (simp only: power_Suc div_mult2_eq)
  qed
  then have "map (\<lambda>i. n div 65536 ^ (Suc k - Suc i) mod 65536) [0..<Suc k]
      = map (\<lambda>i. n div 65536 div 65536 ^ (k - Suc i) mod 65536) [0..<k] @ [n mod 65536]"
    by (simp only: upt_Suc_append le0 map_append list.map diff_self_eq_0 power_0 div_by_1)
  then have "groups_value (map (\<lambda>i. n div 65536 ^ (Suc k - Suc i) mod 65536) [0..<Suc k])
      = (n div 65536 mod 65536 ^ k) * 65536 + n mod 65536"
    by (simp only: groups_value_snoc Suc.IH)
  also have "\<dots> = n mod 65536 ^ Suc k"
    by (simp add: mod_mult2_eq mult.commute)
  finally show ?case .
qed (simp add: groups_value_def)

lemma groups_value_ipv6_groups: "groups_value (ipv6_groups w) = unat w"
proof -
  have "ipv6_groups w = map (\<lambda>i. unat w div 65536 ^ (8 - Suc i) mod 65536) [0..<8]"
    by (simp add: ipv6_groups_def)
  moreover have "unat w < 65536 ^ 8"
    using unsigned_less [of w] by simp
  ultimately show ?thesis
    using groups_value_digits [of "unat w" 8] by (simp del: upt_Suc)
qed

lemma ipv6_groups_small: "list_all (\<lambda>g. g < 65536) (ipv6_groups w)"
  by (simp add: ipv6_groups_def list_all_iff)

lemma length_ipv6_groups [simp]: "length (ipv6_groups w) = 8"
  by (simp add: ipv6_groups_def)

section \<open>The round trip\<close>

lemma find_mark:
  "\<forall>c \<in> set u. is_hex_digit c \<Longrightarrow> find (\<lambda>c. c \<in> {CHR ''.'', CHR '':'', CHR ''%''}) (u @ CHR '':'' # r) = Some CHR '':''"
  by (induction u) auto

lemma join_hex_chars: "c \<in> set (join '':'' (map hex gs)) \<Longrightarrow> is_hex_digit c \<or> c = CHR '':''"
  using set_join [of "'':''" "map hex gs"] hex_digits by fastforce

text \<open>A text that starts with a group and a colon.\<close>

lemma parse_addr_group:
  assumes s: "s = hex g @ CHR '':'' # r" and zone: "CHR ''%'' \<notin> set s"
  shows "parse_addr s = (case parse_groups 8 [] None s of
      None \<Rightarrow> None
    | Some (gs, ell) \<Rightarrow> map_option (\<lambda>gs'. V6 (word_of_nat (groups_value gs')) []) (expand_ellipsis gs ell))"
proof -
  have "hd s \<noteq> CHR '':''" "s \<noteq> []"
    using hex_digits [of "hd (hex g)" g] by (auto simp: s hd_append)
  then have "\<not> has_prefix s ''::''" "s \<noteq> ''::''"
    by (auto simp: has_prefix_def prefix_def)
  moreover have "find (\<lambda>c. c \<in> {CHR ''.'', CHR '':'', CHR ''%''}) s = Some CHR '':''"
    unfolding s by (rule find_mark) (use hex_digits in blast)
  ultimately show ?thesis
    using zone by (simp add: parse_addr_def parse_ipv6_def del: parse_groups.simps)
qed

text \<open>A text that starts with an ellipsis.\<close>

lemma parse_addr_ellipsis:
  assumes "t \<noteq> []" and "CHR ''%'' \<notin> set t"
  shows "parse_addr (''::'' @ t) = (case parse_groups 8 [] (Some 0) t of
      None \<Rightarrow> None
    | Some (gs, ell) \<Rightarrow> map_option (\<lambda>gs'. V6 (word_of_nat (groups_value gs')) []) (expand_ellipsis gs ell))"
  using assms by (simp add: parse_addr_def parse_ipv6_def has_prefix_def del: parse_groups.simps)

lemma parse_addr_ipv6_string [simp]: "parse_addr (ipv6_string w) = Some (V6 w [])"
proof -
  let ?gs = "ipv6_groups w"
  obtain st l where run: "zero_run ?gs = (st, l)"
    by (metis surj_pair)
  then have zeros: "st + l \<le> 8" "take st ?gs @ replicate l 0 @ drop (st + l) ?gs = ?gs"
    using zero_run_zeros [of ?gs] by (simp_all add: zeros_at_def)
  have small: "list_all (\<lambda>g. g < 65536) (take k ?gs)" "list_all (\<lambda>g. g < 65536) (drop k ?gs)" for k
    using ipv6_groups_small [of w] by (auto simp: list_all_iff dest: in_set_takeD in_set_dropD)
  have zone: "CHR ''%'' \<notin> set (join '':'' (map hex gs))" for gs
    using join_hex_chars [of "CHR ''%''" gs] by auto
  have whole: "word_of_nat (groups_value ?gs) = w"
    by (simp add: groups_value_ipv6_groups)
  consider (full) "l = 0" | (front) "0 < l" "st = 0" | (later) "0 < l" "0 < st"
    by blast
  then show ?thesis
  proof cases
    case full
    then have printed: "ipv6_string w = join '':'' (map hex ?gs)"
      using run by (simp add: ipv6_string_def Let_def)
    obtain g gs where gs: "?gs = g # gs" "gs \<noteq> []"
    proof (cases ?gs)
      case (Cons g gs)
      then have "length gs = 7"
        using length_ipv6_groups [of w] by simp
      then have "gs \<noteq> []"
        by auto
      then show thesis
        by (rule that [OF Cons])
    qed (use length_ipv6_groups [of w] in simp)
    have ne: "?gs \<noteq> []"
      using gs by simp
    have "ipv6_string w = hex g @ CHR '':'' # join '':'' (map hex gs)"
      unfolding printed gs(1) using gs(2) by (simp add: join_Cons)
    moreover have "parse_groups 8 [] None (ipv6_string w) = Some (?gs, None)"
      unfolding printed using parse_groups_join [of ?gs 8 "[]" None] ipv6_groups_small [of w] ne by simp
    moreover have "expand_ellipsis ?gs None = Some ?gs"
      by (simp add: expand_ellipsis_def)
    moreover have "CHR ''%'' \<notin> set (ipv6_string w)"
      unfolding printed by (rule zone)
    ultimately show ?thesis
      using parse_addr_group [of "ipv6_string w" g] whole by simp
  next
    case front
    then have printed: "ipv6_string w = ''::'' @ join '':'' (map hex (drop l ?gs))"
      using run by (simp add: ipv6_string_def Let_def)
    show ?thesis
    proof (cases "drop l ?gs = []")
      case True
      then have "?gs = replicate l 0" "l = 8"
        using zeros front by simp_all
      then have "unat w = 0"
        using groups_value_ipv6_groups [of w] by (metis groups_value_zeros)
      then show ?thesis
        using printed True by (simp add: parse_addr_def parse_ipv6_def unat_eq_zero)
    next
      case False
      have "expand_ellipsis (drop l ?gs) (Some 0) = Some ?gs"
        using zeros front by (simp add: expand_ellipsis_def)
      with False show ?thesis
        using parse_groups_join [of "drop l ?gs" 8 "[]" "Some 0"] small(2) [of l] whole zone
        by (simp add: printed parse_addr_ellipsis [simplified] del: parse_groups.simps)
    qed
  next
    case later
    let ?before = "take st ?gs" and ?after = "drop (st + l) ?gs"
    have ne: "?before \<noteq> []"
      using later by simp (metis length_ipv6_groups list.size(3) zero_neq_numeral)
    have printed: "ipv6_string w = join '':'' (map hex ?before) @ CHR '':'' # CHR '':'' # join '':'' (map hex ?after)"
      using run later by (simp add: ipv6_string_def Let_def)
    obtain g gs where g: "?before = g # gs"
      using ne by (cases ?before) auto
    then have "\<exists>r. ipv6_string w = hex g @ CHR '':'' # r"
      unfolding printed by (cases gs) (auto simp: join_Cons)
    then obtain r where "ipv6_string w = hex g @ CHR '':'' # r" ..
    moreover have "CHR ''%'' \<notin> set (ipv6_string w)"
      unfolding printed using zone by simp
    moreover have "parse_groups 8 [] None (ipv6_string w) = Some (?before @ ?after, Some st)"
    proof (cases "?after = []")
      case True
      then show ?thesis
        unfolding printed using parse_groups_before [of ?before 8 "[]" "[]"] ne small(1) [of st] zeros(1) by simp
    next
      case False
      have "parse_groups (8 - st) ?before (Some st) (join '':'' (map hex ?after)) = Some (?before @ ?after, Some st)"
        using parse_groups_join [of ?after "8 - st" ?before "Some st"] False small(2) [of "st + l"] zeros(1) by simp
      then show ?thesis
        unfolding printed using parse_groups_before [of ?before 8 "[]" "join '':'' (map hex ?after)"] ne small(1) [of st] zeros(1) False
        by simp
    qed
    moreover have "expand_ellipsis (?before @ ?after) (Some st) = Some ?gs"
      using zeros later by (simp add: expand_ellipsis_def)
    ultimately show ?thesis
      using parse_addr_group [of "ipv6_string w" g r] whole by (simp del: parse_groups.simps)
  qed
qed

text \<open>An IPv4 address behind the prefix of mapped addresses.\<close>

lemma digits_value_decimal: "list_all is_digit s \<Longrightarrow> \<exists>v. digits_value 16 acc s = Some v"
proof (induction s arbitrary: acc)
  case (Cons c s)
  then have "digit_val c = Some (char_code c - 48)" "char_code c - 48 < 16"
    by (auto simp: digit_val_def is_digit_def)
  with Cons show ?case by simp
qed simp

lemma parse_groups_ipv4:
  "parse_groups (Suc (Suc r)) acc (Some e) (ipv4_string v) = Some (acc @ [unat v div 65536, unat v mod 65536], Some e)"
proof -
  let ?a = "unat v div 16777216"
  have "unat v < 4294967296"
    using unsigned_less [of v] by simp
  then have a: "length (itoa ?a) \<le> 3"
    using length_digits_base [of 10 ?a 2] by (simp add: itoa_def less_mult_imp_div_less)
  obtain x where dotted: "ipv4_string v = itoa ?a @ CHR ''.'' # x"
    by (simp add: ipv4_string_def Let_def)
  have dec: "list_all is_digit (itoa ?a)"
    using itoa_digits by (simp add: list_all_iff)
  then have "list_all is_hex_digit (itoa ?a)"
    by (auto simp: list_all_iff is_hex_digit_def digit_val_def)
  then have "takeWhile is_hex_digit (ipv4_string v) = itoa ?a" "dropWhile is_hex_digit (ipv4_string v) = CHR ''.'' # x"
    unfolding dotted by (simp_all add: takeWhile_word)
  moreover obtain d where "digits_value 16 0 (itoa ?a) = Some d"
    using digits_value_decimal [OF dec] by blast
  ultimately show ?thesis
    using a by simp
qed

lemma parse_addr_mapped:
  "parse_addr (''::ffff:'' @ ipv4_string v) = Some (V6 (word_of_nat (65535 * 2 ^ 32 + unat v)) [])"
proof -
  let ?n = "unat v"
  have ffff: "hex 65535 = ''ffff''"
    using char_of_char [of "CHR ''f''"] by (simp add: hex_def digits_base.simps digit_char_def)
  have hd4: "hd (ipv4_string v) \<noteq> CHR '':''"
    using itoa_digits [of "hd (itoa (?n div 16777216))" "?n div 16777216"] by (auto simp: ipv4_string_def Let_def hd_append)
  have "parse_groups 8 [] (Some 0) (''ffff:'' @ ipv4_string v) = Some ([65535, ?n div 65536, ?n mod 65536], Some 0)"
    using parse_groups_colon [of 65535 "ipv4_string v" 7 "[]" "Some 0"] hd4 parse_groups_ipv4 [of 5 "[65535]" 0 v]
    by (simp add: ffff del: parse_groups.simps)
  moreover have "groups_value [0, 0, 0, 0, 0, 65535, ?n div 65536, ?n mod 65536] = 65535 * 2 ^ 32 + ?n"
    by (simp add: groups_value_def)
  moreover have "CHR ''%'' \<notin> set (''ffff:'' @ ipv4_string v)"
    using IsIP_chars [of "ipv4_string v" "CHR ''%''"] by (auto simp: addr_char_def digit_val_def is_digit_def char_code_def)
  ultimately show ?thesis
    using parse_addr_ellipsis [of "''ffff:'' @ ipv4_string v"]
    by (simp add: expand_ellipsis_def replicate_def del: parse_groups.simps)
qed

text \<open>Reading what is printed gives the address, for both families.\<close>

theorem parse_addr_addr_string: "zone a = [] \<Longrightarrow> parse_addr (addr_string a) = Some a"
proof (cases a)
  case (V6 w z)
  assume "zone a = []"
  then have z: "z = []"
    using V6 by simp
  show ?thesis
  proof (cases "unat w div 2 ^ 32 = 65535")
    case True
    have "65535 * 2 ^ 32 + unat w mod 2 ^ 32 = unat w"
      using True by (metis mult.commute div_mult_mod_eq)
    moreover have "unat (word_of_nat (unat w mod 2 ^ 32) :: 32 word) = unat w mod 2 ^ 32"
      by (rule unat_word_of_nat_less) simp
    ultimately show ?thesis
      using True V6 z parse_addr_mapped [of "word_of_nat (unat w mod 2 ^ 32)"] by (simp add: addr_string_def with_zone_def)
  next
    case False
    then show ?thesis
      using V6 z by (simp add: addr_string_def with_zone_def)
  qed
qed (simp add: addr_string_def)

end
