(* ===== verification/NetEndpoint.thy ===== *)
theory NetEndpoint
  imports Ipv6Text
begin

text \<open>
  \<open>core/net/netendpoint\<close> and \<open>core/net/netservice\<close>: the endpoint and service messages that every
  component passes around, and the conversions between endpoints, host strings and URI
  authorities. A message field that may be unset is an \<open>option\<close>; a getter on an unset message
  gives the field's zero value, as the generated Go getters do. Host names and addresses are
  strings, ports 32-bit words. The lemmas give the well-formedness of every endpoint the package
  builds, the round trips, and the order in which authorities are listed.
\<close>

section \<open>Messages\<close>

datatype endpoint_type =
  TYPE_UNSPECIFIED | IP | IP_PORT | HOSTNAME | HOSTNAME_PORT | IP_HOSTNAME | IP_HOSTNAME_PORT

datatype address_family = ADDRESS_FAMILY_UNSPECIFIED | IPV4 | IPV6

record ip_address =
  ip_addr :: string
  ip_family :: address_family

record network_endpoint =
  ep_type :: endpoint_type
  ep_ip :: "ip_address option"
  ep_hostname :: "string option"
  ep_port :: "32 word option"

definition empty_endpoint :: network_endpoint where
  "empty_endpoint = \<lparr>ep_type = TYPE_UNSPECIFIED, ep_ip = None, ep_hostname = None, ep_port = None\<rparr>"

definition ep_address :: "network_endpoint \<Rightarrow> string" where
  "ep_address e = (case ep_ip e of None \<Rightarrow> [] | Some a \<Rightarrow> ip_addr a)"

definition ep_host :: "network_endpoint \<Rightarrow> string" where
  "ep_host e = (case ep_hostname e of None \<Rightarrow> [] | Some h \<Rightarrow> h)"

definition ep_port_number :: "network_endpoint \<Rightarrow> 32 word" where
  "ep_port_number e = (case ep_port e of None \<Rightarrow> 0 | Some p \<Rightarrow> p)"

definition ep_is_ipv6 :: "network_endpoint \<Rightarrow> bool" where
  "ep_is_ipv6 e = (case ep_ip e of None \<Rightarrow> False | Some a \<Rightarrow> ip_family a = IPV6)"

datatype crawl_content_type = CONTENT_TYPE_UNSPECIFIED | CONTENT_TYPE_RAW | CONTENT_TYPE_HASH

record crawl_result =
  cr_url :: string
  cr_depth :: int
  cr_code :: int
  cr_content :: string
  cr_type :: crawl_content_type

record web_context =
  wc_root :: "string option"
  wc_software :: "string option"
  wc_versions :: "string list"
  wc_crawls :: "crawl_result list"

text \<open>A service context is unset, set with no web context, or set with one.\<close>

record network_service =
  sv_endpoint :: "network_endpoint option"
  sv_transport :: string
  sv_ssl :: "string list"
  sv_http_methods :: "string list"
  sv_context :: "web_context option option"

definition empty_web_context :: web_context where
  "empty_web_context = \<lparr>wc_root = None, wc_software = None, wc_versions = [], wc_crawls = []\<rparr>"

definition get_endpoint :: "network_service \<Rightarrow> network_endpoint" where
  "get_endpoint s = (case sv_endpoint s of None \<Rightarrow> empty_endpoint | Some e \<Rightarrow> e)"

definition get_web_context :: "network_service \<Rightarrow> web_context" where
  "get_web_context s = (case sv_context s of Some (Some w) \<Rightarrow> w | _ \<Rightarrow> empty_web_context)"

section \<open>\<open>host.go\<close>\<close>

datatype endpoint_error =
    ErrEndpointMissingAddress
  | ErrInvalidEndpointType endpoint_type
  | ErrTargetCIDR cidr_error

definition ToHost :: "network_endpoint \<Rightarrow> (endpoint_error, string) result" where
  "ToHost e =
     (let ip = ep_address e; hostname = ep_host e in
      if ip \<noteq> [] \<and> hostname \<noteq> [] then Inr (ip @ ''_'' @ hostname)
      else if ip \<noteq> [] then Inr ip
      else if hostname \<noteq> [] then Inr hostname
      else Inl ErrEndpointMissingAddress)"

definition SplitHost :: "string \<Rightarrow> string list" where
  "SplitHost host =
     (if host = [] then []
      else case cut_at CHR ''_'' host of
          None \<Rightarrow> [host]
        | Some (before, after) \<Rightarrow>
            if IsIP before then (if after = [] then [before] else [before, after]) else [host])"

section \<open>\<open>netendpoint.go\<close>\<close>

definition FromString :: "string \<Rightarrow> network_endpoint" where
  "FromString endpoint =
     (if \<not> IsIP endpoint
      then \<lparr>ep_type = HOSTNAME, ep_ip = None, ep_hostname = Some endpoint, ep_port = None\<rparr>
      else \<lparr>ep_type = IP,
            ep_ip = Some \<lparr>ip_addr = endpoint, ip_family = (if IsIPv6 endpoint then IPV6 else IPV4)\<rparr>,
            ep_hostname = None, ep_port = None\<rparr>)"

definition FromTarget :: "string \<Rightarrow> (endpoint_error, network_endpoint list) result" where
  "FromTarget target =
     (if target = [] then Inl ErrEndpointMissingAddress
      else if CHR ''/'' \<notin> set target then Inr [FromString target]
      else case ExpandCIDR target of
          Inl e \<Rightarrow> Inl (ErrTargetCIDR e)
        | Inr ips \<Rightarrow> Inr (map FromString ips))"

definition port_type :: "endpoint_type \<Rightarrow> endpoint_type option" where
  "port_type t = (case t of
       IP \<Rightarrow> Some IP_PORT
     | HOSTNAME \<Rightarrow> Some HOSTNAME_PORT
     | IP_HOSTNAME \<Rightarrow> Some IP_HOSTNAME_PORT
     | _ \<Rightarrow> None)"

definition WithPort :: "network_endpoint \<Rightarrow> 32 word \<Rightarrow> (endpoint_error, network_endpoint) result" where
  "WithPort e port = (case port_type (ep_type e) of
       None \<Rightarrow> Inl (ErrInvalidEndpointType (ep_type e))
     | Some t \<Rightarrow> Inr \<lparr>ep_type = t, ep_ip = ep_ip e, ep_hostname = ep_hostname e, ep_port = Some port\<rparr>)"

definition append_port :: "network_endpoint \<Rightarrow> string \<Rightarrow> string" where
  "append_port e s = (case ep_port e of None \<Rightarrow> s | Some p \<Rightarrow> s @ '':'' @ itoa (unat p))"

definition ToURIAuthorities :: "network_endpoint \<Rightarrow> (endpoint_error, string list) result" where
  "ToURIAuthorities e =
     (let hosts = (if ep_host e \<noteq> [] then [append_port e (ep_host e)] else []);
          ips = (if ep_address e \<noteq> []
                 then [append_port e (if ep_is_ipv6 e then ''['' @ ep_address e @ '']'' else ep_address e)]
                 else [])
      in if hosts @ ips = [] then Inl ErrEndpointMissingAddress else Inr (hosts @ ips))"

definition ToURIAuthority :: "network_endpoint \<Rightarrow> (endpoint_error, string) result" where
  "ToURIAuthority e = (case ToURIAuthorities e of Inl err \<Rightarrow> Inl err | Inr as \<Rightarrow> Inr (hd as))"

section \<open>\<open>netservice.go\<close>\<close>

definition HasTLS :: "network_service \<Rightarrow> bool" where
  "HasTLS s = (sv_ssl s \<noteq> [])"

definition IsWebService :: "network_service \<Rightarrow> bool" where
  "IsWebService s = (sv_http_methods s \<noteq> [])"

definition BuildAllWebRoots :: "network_service \<Rightarrow> (endpoint_error, string list) result" where
  "BuildAllWebRoots s = (case ToURIAuthorities (get_endpoint s) of
       Inl e \<Rightarrow> Inl e
     | Inr as \<Rightarrow> Inr (map (\<lambda>a. (if HasTLS s then ''https'' else ''http'') @ ''://'' @ a) as))"

definition BuildWebRoot :: "network_service \<Rightarrow> (endpoint_error, string) result" where
  "BuildWebRoot s = (case BuildAllWebRoots s of Inl e \<Rightarrow> Inl e | Inr rs \<Rightarrow> Inr (hd rs))"

definition AddCrawlResults :: "network_service \<Rightarrow> crawl_result list \<Rightarrow> network_service" where
  "AddCrawlResults s rs =
     (let w = get_web_context s in s\<lparr>sv_context := Some (Some (w\<lparr>wc_crawls := wc_crawls w @ rs\<rparr>))\<rparr>)"

text \<open>
  \<open>absoluteURI\<close> resolves a reference against the web root with \<open>net/url\<close>, which is the parameter
  \<open>resolve\<close>: the resolved URL of a base and a reference, \<open>None\<close> when one of them does not parse.
\<close>

definition absoluteURI :: "(string \<Rightarrow> string \<Rightarrow> string option) \<Rightarrow> network_service \<Rightarrow> string \<Rightarrow> string option" where
  "absoluteURI resolve s uri = (case BuildWebRoot s of Inl _ \<Rightarrow> None | Inr root \<Rightarrow> resolve root uri)"

definition GetCrawlContent :: "(string \<Rightarrow> string \<Rightarrow> string option) \<Rightarrow> network_service \<Rightarrow> string
    \<Rightarrow> (string \<times> crawl_content_type) option" where
  "GetCrawlContent resolve s uri = (case absoluteURI resolve s uri of
       None \<Rightarrow> None
     | Some url \<Rightarrow> map_option (\<lambda>r. (cr_content r, cr_type r)) (find (\<lambda>r. cr_url r = url) (wc_crawls (get_web_context s))))"

definition WasCrawled :: "(string \<Rightarrow> string \<Rightarrow> string option) \<Rightarrow> network_service \<Rightarrow> string \<Rightarrow> bool" where
  "WasCrawled resolve s uri = (GetCrawlContent resolve s uri \<noteq> None)"

section \<open>Well-formed endpoints\<close>

text \<open>The type of an endpoint says exactly which of its fields are set.\<close>

definition wf_endpoint :: "network_endpoint \<Rightarrow> bool" where
  "wf_endpoint e = (case ep_type e of
       TYPE_UNSPECIFIED \<Rightarrow> False
     | IP \<Rightarrow> ep_ip e \<noteq> None \<and> ep_hostname e = None \<and> ep_port e = None
     | IP_PORT \<Rightarrow> ep_ip e \<noteq> None \<and> ep_hostname e = None \<and> ep_port e \<noteq> None
     | HOSTNAME \<Rightarrow> ep_ip e = None \<and> ep_hostname e \<noteq> None \<and> ep_port e = None
     | HOSTNAME_PORT \<Rightarrow> ep_ip e = None \<and> ep_hostname e \<noteq> None \<and> ep_port e \<noteq> None
     | IP_HOSTNAME \<Rightarrow> ep_ip e \<noteq> None \<and> ep_hostname e \<noteq> None \<and> ep_port e = None
     | IP_HOSTNAME_PORT \<Rightarrow> ep_ip e \<noteq> None \<and> ep_hostname e \<noteq> None \<and> ep_port e \<noteq> None)"

lemma wf_FromString [simp, inv_intros]: "wf_endpoint (FromString s)"
  by (simp add: FromString_def wf_endpoint_def)

lemma FromString_no_port [simp]: "ep_port (FromString s) = None"
  by (simp add: FromString_def)

lemma ToHost_FromString: "s \<noteq> [] \<Longrightarrow> ToHost (FromString s) = Inr s"
  by (simp add: ToHost_def FromString_def ep_address_def ep_host_def)

lemma wf_WithPort [inv_intros]: "wf_endpoint e \<Longrightarrow> WithPort e p = Inr e' \<Longrightarrow> wf_endpoint e'"
  by (auto simp: WithPort_def port_type_def wf_endpoint_def split: endpoint_type.splits option.splits)

lemma ToURIAuthorities_nonempty: "ToURIAuthorities e = Inr as \<Longrightarrow> as \<noteq> []"
  by (auto simp: ToURIAuthorities_def Let_def split: if_splits)

lemma ToURIAuthorities_Inl_iff:
  "ToURIAuthorities e = Inl err \<longleftrightarrow> err = ErrEndpointMissingAddress \<and> ep_host e = [] \<and> ep_address e = []"
  by (auto simp: ToURIAuthorities_def Let_def)

lemma IsIPv6_IsIP: "IsIPv6 s \<Longrightarrow> IsIP s"
  by (auto simp: IsIPv6_def IsIP_def split: option.splits)

lemma ep_fields_WithPort:
  "WithPort e p = Inr e' \<Longrightarrow> ep_host e' = ep_host e \<and> ep_address e' = ep_address e
    \<and> ep_is_ipv6 e' = ep_is_ipv6 e \<and> ep_port e' = Some p"
  by (auto simp: WithPort_def ep_host_def ep_address_def ep_is_ipv6_def split: option.splits)

section \<open>Properties\<close>

text \<open>What a target stands for: the endpoint of a single text, by what \<open>ParseAddr\<close> reads in it, and the addresses
  of a range with \<open>h\<close> host bits, from the first to the last.\<close>

definition ip_endpoint :: "address_family \<Rightarrow> string \<Rightarrow> network_endpoint" where
  "ip_endpoint family s =
     \<lparr>ep_type = IP, ep_ip = Some \<lparr>ip_addr = s, ip_family = family\<rparr>, ep_hostname = None, ep_port = None\<rparr>"

definition name_endpoint :: "string \<Rightarrow> network_endpoint" where
  "name_endpoint s = \<lparr>ep_type = HOSTNAME, ep_ip = None, ep_hostname = Some s, ep_port = None\<rparr>"

definition text_endpoint :: "string \<Rightarrow> network_endpoint" where
  "text_endpoint s = (case parse_addr s of
       None \<Rightarrow> name_endpoint s
     | Some (V4 w) \<Rightarrow> ip_endpoint IPV4 s
     | Some (V6 w z) \<Rightarrow> if z = [] then ip_endpoint IPV6 s else name_endpoint s)"

fun range_endpoints :: "nat \<Rightarrow> addr \<Rightarrow> network_endpoint list" where
  "range_endpoints h (V4 w) =
     map (\<lambda>k. ip_endpoint IPV4 (addr_string (V4 (word_of_nat (unat w div 2 ^ h * 2 ^ h + k))))) [0..<2 ^ h]"
| "range_endpoints h (V6 w z) =
     map (\<lambda>k. ip_endpoint IPV6 (addr_string (V6 (word_of_nat (unat w div 2 ^ h * 2 ^ h + k)) []))) [0..<2 ^ h]"

lemma FromString_text: "FromString s = text_endpoint s"
  by (auto simp: FromString_def text_endpoint_def ip_endpoint_def name_endpoint_def IsIP_def IsIPv6_def split: option.splits addr.splits)

lemma text_endpoint_addr_string:
  "text_endpoint (addr_string (V4 w)) = ip_endpoint IPV4 (addr_string (V4 w))"
  "text_endpoint (addr_string (V6 x [])) = ip_endpoint IPV6 (addr_string (V6 x []))"
  using parse_addr_addr_string [of "V4 w"] parse_addr_addr_string [of "V6 x []"] by (simp_all add: text_endpoint_def)

lemma parse_prefix_zone: "parse_prefix s = Some (a, n) \<Longrightarrow> zone a = [] \<and> n \<le> bit_len a"
  by (auto simp: parse_prefix_def split: option.splits prod.splits if_splits)

lemma expand_from_addresses:
  fixes w :: "'a::len word"
  assumes "h \<le> LENGTH('a)"
  shows "expand_from h (masked h w) (masked h w) = map (\<lambda>k. word_of_nat (unat w div 2 ^ h * 2 ^ h + k)) [0..<2 ^ h]"
proof -
  let ?b = "unat w div 2 ^ h * 2 ^ h"
  have "expand_from h (masked h w) (masked h w) = map word_of_nat (map unat (expand_from h (masked h w) (masked h w)))"
    by (simp add: comp_def)
  also have "\<dots> = map word_of_nat [?b ..< ?b + 2 ^ h]"
    by (simp only: expand_from_masked [OF assms])
  also have "[?b ..< ?b + 2 ^ h] = map (\<lambda>k. ?b + k) [0..<2 ^ h]"
    using map_add_upt [of ?b "2 ^ h"] by (simp add: add.commute [of _ ?b])
  finally show ?thesis by (simp add: comp_def)
qed

lemma FromTarget_range:
  assumes "parse_prefix target = Some (a, n)" "CHR ''/'' \<in> set target" "bit_len a - n \<le> maxExpandHostBits"
  shows "FromTarget target = Inr (range_endpoints (bit_len a - n) a)"
proof -
  note parsed = parse_prefix_zone [OF assms(1)]
  have bounded: "parseBoundedPrefix target maxExpandHostBits = Inr (a, bit_len a - n)"
    using assms by (simp add: parseBoundedPrefix_def Let_def)
  have "target \<noteq> []"
    using assms(2) by auto
  then show ?thesis
    using assms(2) bounded parsed
    by (cases a) (simp_all add: FromTarget_def ExpandCIDR_def Let_def FromString_text expand_from_addresses text_endpoint_addr_string)
qed

text \<open>C28. A scan target becomes exactly the endpoints that it stands for. A text without a slash is an IPv4
  or IPv6 address or, when it is neither or has a zone, a host name, as it is written. A range of at most 20 host
  bits gives one endpoint of type IP and of its family for each of its addresses, in order, for IPv4 and for IPv6; the empty
  target, a range that does not parse and one that is too large give their errors. All endpoints are
  well formed and have no port.\<close>

theorem FromTarget_exact:
  "FromTarget target =
     (if target = [] then Inl ErrEndpointMissingAddress
      else if CHR ''/'' \<notin> set target then Inr [text_endpoint target]
      else case parse_prefix target of
          None \<Rightarrow> Inl (ErrTargetCIDR ErrInvalidCIDR)
        | Some (a, n) \<Rightarrow>
            if 20 < bit_len a - n then Inl (ErrTargetCIDR ErrCIDRTooLarge)
            else Inr (range_endpoints (bit_len a - n) a))
   \<and> list_all (\<lambda>e. wf_endpoint e \<and> ep_port e = None) (case FromTarget target of Inl e \<Rightarrow> [] | Inr es \<Rightarrow> es)"
proof
  show "FromTarget target =
     (if target = [] then Inl ErrEndpointMissingAddress
      else if CHR ''/'' \<notin> set target then Inr [text_endpoint target]
      else case parse_prefix target of
          None \<Rightarrow> Inl (ErrTargetCIDR ErrInvalidCIDR)
        | Some (a, n) \<Rightarrow>
            if 20 < bit_len a - n then Inl (ErrTargetCIDR ErrCIDRTooLarge)
            else Inr (range_endpoints (bit_len a - n) a))"
    using FromTarget_range [of target]
    by (auto simp: FromTarget_def FromString_text maxExpandHostBits_def ExpandCIDR_def parseBoundedPrefix_def Let_def
        split: option.splits)
  show "list_all (\<lambda>e. wf_endpoint e \<and> ep_port e = None) (case FromTarget target of Inl e \<Rightarrow> [] | Inr es \<Rightarrow> es)"
    by (auto simp: FromTarget_def list_all_iff split: sum.splits)
qed

lemma FromTarget_single: "target \<noteq> [] \<Longrightarrow> CHR ''/'' \<notin> set target \<Longrightarrow> FromTarget target = Inr es \<Longrightarrow> map ToHost es = [Inr target]"
  by (auto simp: FromTarget_def ToHost_FromString)

text \<open>An IPv4 range of at most 20 host bits becomes one endpoint per address of the range, in
  order, each of type IP and family IPv4 and printing back to that address.\<close>

theorem FromTarget_ipv4_range:
  assumes "parse_prefix target = Some (V4 w, n)" and "32 - n \<le> maxExpandHostBits" and "CHR ''/'' \<in> set target"
  shows "\<exists>as es. FromTarget target = Inr es
    \<and> es = map (\<lambda>a. \<lparr>ep_type = IP, ep_ip = Some \<lparr>ip_addr = ipv4_string a, ip_family = IPV4\<rparr>,
                      ep_hostname = None, ep_port = None\<rparr>) as
    \<and> map ToHost es = map (\<lambda>a. Inr (ipv4_string a)) as
    \<and> sorted (map unat as) \<and> set as = {a. unat a div 2 ^ (32 - n) = unat w div 2 ^ (32 - n)}"
proof -
  from ExpandCIDR_ipv4_exact [OF assms(1,2)] obtain as where as: "ExpandCIDR target = Inr (map ipv4_string as)"
    "sorted (map unat as)" "set as = {a. unat a div 2 ^ (32 - n) = unat w div 2 ^ (32 - n)}" by blast
  have "FromTarget target = Inr (map FromString (map ipv4_string as))"
    using as(1) assms(3) by (auto simp: FromTarget_def)
  moreover have "FromString (ipv4_string a) = \<lparr>ep_type = IP,
      ep_ip = Some \<lparr>ip_addr = ipv4_string a, ip_family = IPV4\<rparr>, ep_hostname = None, ep_port = None\<rparr>" for a
    by (simp add: FromString_def)
  moreover have "ToHost (FromString (ipv4_string a)) = Inr (ipv4_string a)" for a
    by (rule ToHost_FromString) simp
  ultimately show ?thesis using as(2,3)
    by (intro exI [of _ as] exI [of _ "map (FromString \<circ> ipv4_string) as"]) simp
qed

theorem FromTarget_ipv4_range_witness:
  "\<exists>as es. FromTarget ''10.0.0.6/30'' = Inr es \<and> map ToHost es = map (\<lambda>a. Inr (ipv4_string a)) as
    \<and> set as = {a. unat a div 4 = unat (167772166 :: 32 word) div 4}"
proof -
  have "parse_prefix ''10.0.0.6/30'' = Some (V4 167772166, 30)" by (simp add: netip_eval)
  moreover have "32 - 30 \<le> maxExpandHostBits" "CHR ''/'' \<in> set ''10.0.0.6/30''"
    by (simp_all add: maxExpandHostBits_def)
  ultimately obtain as es where "FromTarget ''10.0.0.6/30'' = Inr es"
    "map ToHost es = map (\<lambda>a. Inr (ipv4_string a)) as"
    "set as = {a. unat a div 2 ^ (32 - 30) = unat (167772166 :: 32 word) div 2 ^ (32 - 30)}"
    using FromTarget_ipv4_range by blast
  then show ?thesis by (intro exI [of _ as] exI [of _ es]) simp
qed

text \<open>\<open>SplitHost\<close> inverts \<open>ToHost\<close>: an endpoint's host string splits into its address and
  its host name, whichever are present, provided the address is an IP address and a lone host
  name does not start with one followed by an underscore.\<close>

theorem SplitHost_ToHost:
  assumes "ToHost e = Inr h" and "ep_address e = [] \<or> IsIP (ep_address e)"
    and "ep_address e = [] \<Longrightarrow> \<not> IsIP (cut_before CHR ''_'' (ep_host e)) \<or> CHR ''_'' \<notin> set (ep_host e)"
  shows "SplitHost h = filter (\<lambda>s. s \<noteq> []) [ep_address e, ep_host e]"
proof (cases "ep_address e = []")
  case True
  then have h: "h = ep_host e" "h \<noteq> []" using assms(1) by (auto simp: ToHost_def Let_def split: if_splits)
  with True assms(3) show ?thesis
    by (cases "cut_at CHR ''_'' h") (auto simp: SplitHost_def cut_before_def cut_None_iff dest: cut_SomeD)
next
  case False
  with assms(2) have ip: "IsIP (ep_address e)" by simp
  then have cut: "CHR ''_'' \<notin> set (ep_address e)" by (rule IsIP_no_underscore)
  show ?thesis
  proof (cases "ep_host e = []")
    case True
    with False assms(1) have "h = ep_address e" by (simp add: ToHost_def)
    with True False cut show ?thesis by (simp add: SplitHost_def flip: cut_None_iff)
  next
    case host: False
    with False assms(1) have "h = ep_address e @ CHR ''_'' # ep_host e" by (simp add: ToHost_def)
    with host False cut ip show ?thesis by (simp add: SplitHost_def)
  qed
qed

theorem SplitHost_ToHost_witness:
  "SplitHost ''10.0.0.1_my_host'' = [''10.0.0.1'', ''my_host'']"
proof -
  let ?e = "\<lparr>ep_type = IP_HOSTNAME, ep_ip = Some \<lparr>ip_addr = ''10.0.0.1'', ip_family = IPV4\<rparr>,
    ep_hostname = Some ''my_host'', ep_port = None\<rparr>"
  have "IsIP ''10.0.0.1''" by (simp add: IsIP_def netip_eval)
  then show ?thesis
    using SplitHost_ToHost [of ?e "''10.0.0.1_my_host''"] by (simp add: ToHost_def ep_address_def ep_host_def)
qed

text \<open>Attaching a port to an endpoint that has none appends it, with a colon, to each of the
  endpoint's authorities and changes nothing else; the result is well formed when the endpoint is.\<close>

theorem WithPort_authorities:
  assumes "wf_endpoint e" and "ep_port e = None"
  shows "\<exists>e'. WithPort e p = Inr e' \<and> wf_endpoint e' \<and> ToHost e' = ToHost e \<and>
    ToURIAuthorities e' = map_sum id (map (\<lambda>a. a @ '':'' @ itoa (unat p))) (ToURIAuthorities e)"
proof -
  have "port_type (ep_type e) \<noteq> None"
    using assms by (auto simp: port_type_def wf_endpoint_def split: endpoint_type.splits)
  then obtain e' where e': "WithPort e p = Inr e'" by (auto simp: WithPort_def)
  then have "wf_endpoint e'" using assms(1) by (blast intro: wf_WithPort)
  moreover from ep_fields_WithPort [OF e'] have "ToHost e' = ToHost e" by (simp add: ToHost_def)
  moreover from ep_fields_WithPort [OF e'] assms(2)
  have "ToURIAuthorities e' = map_sum id (map (\<lambda>a. a @ '':'' @ itoa (unat p))) (ToURIAuthorities e)"
    by (simp add: ToURIAuthorities_def append_port_def Let_def)
  ultimately show ?thesis using e' by blast
qed

theorem WithPort_authorities_witness:
  "\<exists>e'. WithPort (FromString ''h.com'') 80 = Inr e' \<and> ToURIAuthorities e' = Inr [''h.com:'' @ itoa 80]"
proof -
  have "FromString ''h.com'' = \<lparr>ep_type = HOSTNAME, ep_ip = None, ep_hostname = Some ''h.com'', ep_port = None\<rparr>"
    by (simp add: FromString_def IsIP_def netip_eval)
  then have "ToURIAuthorities (FromString ''h.com'') = Inr [''h.com'']"
    by (simp add: ToURIAuthorities_def ep_host_def ep_address_def append_port_def)
  then show ?thesis
    using WithPort_authorities [OF wf_FromString FromString_no_port, of "''h.com''" 80] by auto
qed

end
