(* ===== verification/HttpClient.thy ===== *)
theory HttpClient
  imports NetEndpoint
begin

text \<open>
  \<open>core/net/http\<close> and its \<open>simpleclient\<close>: which redirects a client follows, the filter for
  destructive paths, the bounded body reader, the metrics wrapper and the retry loop for
  rate-limited responses. Durations are Go's \<open>time.Duration\<close>, signed 64-bit nanoseconds, kept as
  64-bit words, because a server chooses one of them. A compiled regular expression is the
  predicate that it computes. The network, the dates of \<open>http.ParseTime\<close> and the request body
  are parameters; the locale \<open>counted_client\<close> states what the retry loop needs of the client it
  wraps, and the metrics wrapper is its interpretation.
\<close>

section \<open>URLs\<close>

record url =
  u_scheme :: string
  u_host :: string
  u_path :: string
  u_raw_query :: string

text \<open>\<open>net/url\<close>'s split of the host field into \<open>Hostname()\<close> and \<open>Port()\<close>.\<close>

definition strip_brackets :: "string \<Rightarrow> string" where
  "strip_brackets h = (if has_prefix h ''['' \<and> has_suffix h '']'' \<and> 2 \<le> length h then butlast (tl h) else h)"

definition url_split_host :: "string \<Rightarrow> string \<times> string" where
  "url_split_host hp =
     (let (h, p) = (case cut_last CHR '':'' hp of
          None \<Rightarrow> (hp, [])
        | Some (h, p) \<Rightarrow> if list_all is_digit p then (h, p) else (hp, []))
      in (strip_brackets h, p))"

definition u_hostname :: "url \<Rightarrow> string" where
  "u_hostname u = fst (url_split_host (u_host u))"

definition u_port :: "url \<Rightarrow> string" where
  "u_port u = snd (url_split_host (u_host u))"

text \<open>\<open>net.SplitHostPort\<close>; \<open>None\<close> is any of its errors.\<close>

definition net_SplitHostPort :: "string \<Rightarrow> (string \<times> string) option" where
  "net_SplitHostPort hp = (case cut_last CHR '':'' hp of
       None \<Rightarrow> None
     | Some (before, port) \<Rightarrow>
         if has_prefix hp ''['' then
           (case cut_at CHR '']'' hp of
              None \<Rightarrow> None
            | Some (b, a) \<Rightarrow>
                if b @ '']'' \<noteq> before \<or> CHR ''['' \<in> set (tl hp) \<or> CHR '']'' \<in> set a then None
                else Some (tl b, port))
         else if CHR '':'' \<in> set before \<or> CHR ''['' \<in> set hp \<or> CHR '']'' \<in> set hp then None
         else Some (before, port))"

section \<open>\<open>filter.go\<close>\<close>

type_synonym regexp = "string \<Rightarrow> bool"

definition path_candidate :: "url \<Rightarrow> string" where
  "path_candidate u =
     clean_rooted (''/'' @ u_path u) @
     (if u_raw_query u \<noteq> []
      then ''?'' @ (case url_unescape True (u_raw_query u) of None \<Rightarrow> u_raw_query u | Some q \<Rightarrow> q)
      else [])"

definition IsURLPathForbidden :: "url option \<Rightarrow> regexp list \<Rightarrow> bool" where
  "IsURLPathForbidden target forbidden = (case target of
       None \<Rightarrow> False
     | Some u \<Rightarrow> if forbidden = [] then False else list_ex (\<lambda>re. re (path_candidate u)) forbidden)"

section \<open>\<open>options.go\<close>\<close>

record client_options =
  StoreCookies :: bool
  EnforceTLSCertVerification :: bool
  DisableFollowRedirects :: bool
  AllowedAuthorities :: "string list"
  ForbiddenPaths :: "regexp list"
  AllowRedirect :: "(url \<Rightarrow> bool) option"
  RetryOnRateLimit :: bool

definition DefaultClientOptions :: "regexp list \<Rightarrow> client_options" where
  "DefaultClientOptions defaultForbiddenPaths =
     \<lparr>StoreCookies = False, EnforceTLSCertVerification = False, DisableFollowRedirects = False,
      AllowedAuthorities = [], ForbiddenPaths = defaultForbiddenPaths, AllowRedirect = None,
      RetryOnRateLimit = False\<rparr>"

definition LoadAuthorities :: "client_options \<Rightarrow> network_service \<Rightarrow> (endpoint_error, client_options) result" where
  "LoadAuthorities co service = (case sv_endpoint service of
       None \<Rightarrow> Inr co
     | Some e \<Rightarrow> (case ToURIAuthorities e of
           Inl err \<Rightarrow> Inl err
         | Inr auths \<Rightarrow> Inr (co\<lparr>AllowedAuthorities := auths\<rparr>)))"

definition effective_port :: "url \<Rightarrow> string" where
  "effective_port u =
     (if u_port u = [] then
        (if equal_fold (u_scheme u) ''https'' then ''443''
         else if equal_fold (u_scheme u) ''http'' then ''80'' else [])
      else u_port u)"

definition authority_matches :: "url \<Rightarrow> string \<Rightarrow> bool" where
  "authority_matches u auth =
     (equal_fold (u_host u) auth \<or>
      (case net_SplitHostPort auth of
         None \<Rightarrow> equal_fold (u_hostname u) (trim_suffix (trim_prefix auth ''['') '']'')
       | Some (h, p) \<Rightarrow>
           equal_fold (u_hostname u) (trim_suffix (trim_prefix h ''['') '']'') \<and> effective_port u = p))"

definition IsAuthorityAllowed :: "client_options \<Rightarrow> url \<Rightarrow> bool" where
  "IsAuthorityAllowed co u =
     (AllowedAuthorities co = [] \<or> list_ex (authority_matches u) (AllowedAuthorities co))"

definition IsRedirectAllowed :: "client_options option \<Rightarrow> url option \<Rightarrow> bool" where
  "IsRedirectAllowed opts target = (case target of
       None \<Rightarrow> False
     | Some u \<Rightarrow> (case opts of
           None \<Rightarrow> True
         | Some co \<Rightarrow>
             \<not> DisableFollowRedirects co \<and> IsAuthorityAllowed co u
             \<and> \<not> IsURLPathForbidden target (ForbiddenPaths co)
             \<and> (case AllowRedirect co of None \<Rightarrow> True | Some f \<Rightarrow> f u)))"

section \<open>Redirects of \<open>simpleclient.go\<close>\<close>

datatype redirect_decision = FollowRedirect | ErrUseLastResponse | ErrTooManyRedirects

definition CheckRedirect :: "client_options \<Rightarrow> nat \<Rightarrow> url \<Rightarrow> url list \<Rightarrow> redirect_decision" where
  "CheckRedirect co maxRedirects u via =
     (if \<not> IsRedirectAllowed (Some co) (Some u) then ErrUseLastResponse
      else if maxRedirects \<le> length via then ErrTooManyRedirects
      else FollowRedirect)"

text \<open>
  The loop of \<open>net/http\<close> around the check: after the requests \<open>rs\<close> the server answers the last of
  them with a redirect to \<open>location rs\<close> or not, so that it may answer the same URL differently when
  it is asked again; \<open>via\<close> are the requests made so far. The result is the requests made and how the
  chain ended (\<open>None\<close>: a response that is no redirect).
\<close>

function follow :: "client_options \<Rightarrow> nat \<Rightarrow> (url list \<Rightarrow> url option) \<Rightarrow> url list \<Rightarrow> url
    \<Rightarrow> url list \<times> redirect_decision option" where
  "follow co mx location via u =
     (case location (via @ [u]) of
        None \<Rightarrow> (via @ [u], None)
      | Some next \<Rightarrow>
          if CheckRedirect co mx next (via @ [u]) = FollowRedirect then follow co mx location (via @ [u]) next
          else (via @ [u], Some (CheckRedirect co mx next (via @ [u]))))"
  by pat_completeness auto
termination
  by (relation "measure (\<lambda>(co, mx, location, via, u). mx - length via)")
     (auto simp: CheckRedirect_def split: if_splits)

declare follow.simps [simp del]

section \<open>\<open>utils.go\<close>\<close>

text \<open>
  A response body: the bytes that arrive and what ends them, the end of the file, the error
  \<open>io.ErrUnexpectedEOF\<close> of a connection that closes early, or another error. \<open>io.ReadFull\<close> uses
  the same \<open>io.ErrUnexpectedEOF\<close> for a body that ends before the buffer is full, so the code takes
  a body that was cut off for a whole one. The size is that of a buffer and not negative.
\<close>

datatype 'e body_end = EndOfFile | Truncated | Broken 'e

datatype 'e read_error = ErrPageTooBig | EOF | BodyError 'e

definition ReadBody :: "string \<times> 'e body_end \<Rightarrow> nat \<Rightarrow> ('e read_error, string) result" where
  "ReadBody body maxsize =
     (let (bytes, ending) = body in
      if maxsize \<le> length bytes then Inl ErrPageTooBig
      else case ending of
          EndOfFile \<Rightarrow> if bytes = [] then Inl EOF else Inr bytes
        | Truncated \<Rightarrow> Inr bytes
        | Broken e \<Rightarrow> Inl (BodyError e))"

text \<open>A body that is cut off is accepted as if it were complete, even when nothing of it arrived.\<close>

lemma truncated_body_accepted: "length bytes < maxsize \<Longrightarrow> ReadBody (bytes, Truncated) maxsize = Inr bytes"
  by (simp add: ReadBody_def)

section \<open>\<open>retries.go\<close>\<close>

type_synonym duration = "64 word"

definition second :: duration where
  "second = 1000000000"

text \<open>Seconds of a 32-bit configuration field as a duration.\<close>

definition seconds :: "32 word \<Rightarrow> duration" where
  "seconds n = scast n * second"

definition dmin :: "duration \<Rightarrow> duration \<Rightarrow> duration" where
  "dmin a b = (if sint b < sint a then b else a)"

definition dmax :: "duration \<Rightarrow> duration \<Rightarrow> duration" where
  "dmax a b = (if sint a < sint b then b else a)"

text \<open>
  \<open>until\<close> stands for \<open>http.ParseTime\<close> and \<open>time.Until\<close>: the time left until an HTTP date. The
  multiplication of a number of seconds is the wrapping one of \<open>int64\<close>.
\<close>

definition parseRetryAfter :: "(string \<Rightarrow> duration option) \<Rightarrow> string \<Rightarrow> duration option" where
  "parseRetryAfter until header =
     (if header = [] then None
      else case atoi header of
          Some sec \<Rightarrow>
            if 0 \<le> sec then Some (word_of_int sec * second) else map_option (dmax 0) (until header)
        | None \<Rightarrow> map_option (dmax 0) (until header))"

datatype 'e http_error = ErrRateLimited | ClientError 'e

definition retryDelay :: "(string \<Rightarrow> duration option) \<Rightarrow> string \<Rightarrow> duration \<Rightarrow> duration
    \<Rightarrow> ('e http_error, duration) result" where
  "retryDelay until retry_after backoff maxRetryAfter =
     (case parseRetryAfter until (trim_space retry_after) of
        Some delay \<Rightarrow> if sint maxRetryAfter < sint delay then Inl ErrRateLimited else Inr delay
      | None \<Rightarrow> Inr (dmin backoff maxRetryAfter))"

record http_response =
  rs_status :: nat
  rs_retry_after :: string
  rs_body :: string

text \<open>
  A client is a step of the world that yields a response or an error. The loop of
  \<open>retriableClient.Do\<close> also resets the request body and sleeps, each of which may fail (the reset
  by the request's \<open>GetBody\<close>, the sleep by the end of the request's context).
\<close>

type_synonym ('w, 'e) client = "'w \<Rightarrow> 'w \<times> ('e, http_response) result"

fun retry_loop :: "('w, 'e) client \<Rightarrow> ('w \<Rightarrow> 'w \<times> 'e option) \<Rightarrow> (duration \<Rightarrow> 'w \<Rightarrow> 'w \<times> 'e option)
    \<Rightarrow> (string \<Rightarrow> duration option) \<Rightarrow> nat \<Rightarrow> duration \<Rightarrow> duration \<Rightarrow> 'w \<Rightarrow> 'w \<times> ('e http_error, http_response) result" where
  "retry_loop send reset sleep until 0 backoff mx w = (w, Inl ErrRateLimited)"
| "retry_loop send reset sleep until (Suc attempts) backoff mx w =
     (case send w of
        (w1, Inl e) \<Rightarrow> (w1, Inl (ClientError e))
      | (w1, Inr resp) \<Rightarrow>
          if rs_status resp \<noteq> 429 then (w1, Inr resp)
          else if attempts = 0 then (w1, Inl ErrRateLimited)
          else case reset w1 of
              (w2, Some e) \<Rightarrow> (w2, Inl (ClientError e))
            | (w2, None) \<Rightarrow>
                (case retryDelay until (rs_retry_after resp) backoff mx of
                   Inl err \<Rightarrow> (w2, Inl err)
                 | Inr d \<Rightarrow>
                     (case sleep d w2 of
                        (w3, Some e) \<Rightarrow> (w3, Inl (ClientError e))
                      | (w3, None) \<Rightarrow> retry_loop send reset sleep until attempts (backoff * 2) mx w3)))"

record performance =
  p_max_concurrency :: "32 word"
  p_max_http_redirects :: "32 word"
  p_max_http_attempts :: "32 word"
  p_http_retry_initial_backoff :: "32 word"
  p_max_http_retry_after :: "32 word"

definition max_attempts :: "performance \<Rightarrow> nat" where
  "max_attempts perf = nat (max (sint (p_max_http_attempts perf)) 1)"

definition retriable_Do :: "('w, 'e) client \<Rightarrow> ('w \<Rightarrow> 'w \<times> 'e option) \<Rightarrow> (duration \<Rightarrow> 'w \<Rightarrow> 'w \<times> 'e option)
    \<Rightarrow> (string \<Rightarrow> duration option) \<Rightarrow> performance \<Rightarrow> 'w \<Rightarrow> 'w \<times> ('e http_error, http_response) result" where
  "retriable_Do send reset sleep until perf w =
     retry_loop send reset sleep until (max_attempts perf) (seconds (p_http_retry_initial_backoff perf))
       (seconds (p_max_http_retry_after perf)) w"

section \<open>\<open>metrics.go\<close>\<close>

text \<open>
  The world of a scan as the HTTP layer sees it: the two request counters, the waits it has
  made and the network, whose behaviour is the parameter \<open>inner\<close> of the metrics wrapper.
\<close>

record 'n http_world =
  hw_requests :: nat
  hw_errors :: nat
  hw_waits :: "duration list"
  hw_net :: 'n

definition metrics_Do :: "('n, 'e) client \<Rightarrow> ('n http_world, 'e) client" where
  "metrics_Do inner w =
     (let (n', r) = inner (hw_net w) in
      (w\<lparr>hw_net := n', hw_requests := hw_requests w + 1,
         hw_errors := hw_errors w + (if is_ok r then 0 else 1)\<rparr>, r))"

definition resetRequestBody :: "('n \<Rightarrow> 'n \<times> 'e option) \<Rightarrow> 'n http_world \<Rightarrow> 'n http_world \<times> 'e option" where
  "resetRequestBody get_body w = (let (n', e) = get_body (hw_net w) in (w\<lparr>hw_net := n'\<rparr>, e))"

definition sleep_or_done :: "(duration \<Rightarrow> 'n \<Rightarrow> 'n \<times> 'e option) \<Rightarrow> duration \<Rightarrow> 'n http_world \<Rightarrow> 'n http_world \<times> 'e option" where
  "sleep_or_done select d w =
     (let (n', e) = select d (hw_net w) in (w\<lparr>hw_net := n', hw_waits := hw_waits w @ [d]\<rparr>, e))"

section \<open>\<open>http.go\<close>\<close>

datatype 'c http_client = MetricsClient 'c | RetriableClient "'c http_client"

datatype 'f new_client_error = ConfigIsNil | NotRegistered string | FactoryError 'f

text \<open>The registry maps a name to a factory; registering a name again replaces its factory.\<close>

definition http_Register :: "string \<Rightarrow> 'f \<Rightarrow> (string \<rightharpoonup> 'f) \<Rightarrow> (string \<rightharpoonup> 'f)" where
  "http_Register name factory reg = reg(name \<mapsto> factory)"

definition NewClient :: "(string \<rightharpoonup> ('cfg \<Rightarrow> client_options option \<Rightarrow> ('f, 'c) result)) \<Rightarrow> ('cfg \<Rightarrow> string)
    \<Rightarrow> 'cfg option \<Rightarrow> client_options option \<Rightarrow> ('f new_client_error, 'c http_client) result" where
  "NewClient reg client_name cfg options = (case cfg of
       None \<Rightarrow> Inl ConfigIsNil
     | Some c \<Rightarrow> (case reg (client_name c) of
           None \<Rightarrow> Inl (NotRegistered (client_name c))
         | Some factory \<Rightarrow> (case factory c options of
               Inl e \<Rightarrow> Inl (FactoryError e)
             | Inr client \<Rightarrow>
                 if (case options of None \<Rightarrow> True | Some o' \<Rightarrow> \<not> RetryOnRateLimit o')
                 then Inr (MetricsClient client)
                 else Inr (RetriableClient (MetricsClient client)))))"

section \<open>The retry loop over any client that counts its requests\<close>

text \<open>One round of the loop: it stops after the request or the reset, or it sleeps for the delay
  that \<open>retryDelay\<close> gave and either stops or goes on with one attempt fewer.\<close>

lemma retry_loop_round:
  fixes send :: "('w, 'e) client"
  shows "fst (retry_loop send reset sleep until (Suc n) b mx w) \<in> {fst (send w), fst (reset (fst (send w)))} \<or>
    (\<exists>h d. (retryDelay until h b mx :: ('e http_error, _) result) = Inr d \<and> 0 < n \<and>
      (let w3 = fst (sleep d (fst (reset (fst (send w))))) in
         fst (retry_loop send reset sleep until (Suc n) b mx w) \<in>
           {w3, fst (retry_loop send reset sleep until n (b * 2) mx w3)}))"
proof (cases "send w")
  case (Pair w1 r)
  show ?thesis
  proof (cases r)
    case (Inr resp)
    obtain w2 re where "reset w1 = (w2, re)" by fastforce
    with Pair Inr show ?thesis
      by (cases re; cases "retryDelay until (rs_retry_after resp) b mx :: ('e http_error, _) result")
        (auto simp: Let_def split: prod.splits option.splits intro!: exI)
  qed (simp add: Pair)
qed

lemma retryDelay_le: "retryDelay until h b mx = Inr d \<Longrightarrow> sint d \<le> sint mx"
  by (auto simp: retryDelay_def dmin_def split: option.splits if_splits)

lemma retry_loop_not_429:
  "snd (retry_loop send reset sleep until n b mx w) = Inr resp \<Longrightarrow> rs_status resp \<noteq> 429"
proof (induction n arbitrary: b w)
  case (Suc n)
  then show ?case by (auto split: sum.splits prod.splits option.splits if_splits)
qed simp

locale counted_client =
  fixes send :: "('w, 'e) client"
    and reset :: "'w \<Rightarrow> 'w \<times> 'e option"
    and sleep :: "duration \<Rightarrow> 'w \<Rightarrow> 'w \<times> 'e option"
    and requests :: "'w \<Rightarrow> nat"
    and waits :: "'w \<Rightarrow> duration list"
  assumes send_requests [simp]: "requests (fst (send w)) = Suc (requests w)"
    and send_waits [simp]: "waits (fst (send w)) = waits w"
    and reset_requests [simp]: "requests (fst (reset w)) = requests w"
    and reset_waits [simp]: "waits (fst (reset w)) = waits w"
    and sleep_requests [simp]: "requests (fst (sleep d w)) = requests w"
    and sleep_waits [simp]: "waits (fst (sleep d w)) = waits w @ [d]"
begin

lemma requests_bound:
  "requests (fst (retry_loop send reset sleep until n b mx w)) \<le> requests w + n"
proof (induction n arbitrary: b w)
  case (Suc n)
  show ?case
    using retry_loop_round [of send reset sleep until n b mx w]
      Suc.IH [of "b * 2" "fst (sleep d (fst (reset (fst (send w)))))" for d]
    by (auto simp: Let_def)
qed simp

lemma waits_bound:
  "\<exists>ds. waits (fst (retry_loop send reset sleep until n b mx w)) = waits w @ ds \<and> length ds \<le> n - 1
    \<and> list_all (\<lambda>d. sint d \<le> sint mx) ds"
proof (induction n arbitrary: b w)
  case (Suc n)
  let ?w2 = "fst (reset (fst (send w)))"
  from retry_loop_round [of send reset sleep until n b mx w] consider
      (stop) "fst (retry_loop send reset sleep until (Suc n) b mx w) \<in> {fst (send w), ?w2}"
    | (sleep) d where "sint d \<le> sint mx" "0 < n"
        "fst (retry_loop send reset sleep until (Suc n) b mx w) = fst (sleep d ?w2)"
    | (again) d where "sint d \<le> sint mx" "0 < n"
        "fst (retry_loop send reset sleep until (Suc n) b mx w)
          = fst (retry_loop send reset sleep until n (b * 2) mx (fst (sleep d ?w2)))"
    by (auto simp: Let_def dest: retryDelay_le)
  then show ?case
  proof cases
    case stop
    then show ?thesis by auto
  next
    case sleep
    then show ?thesis by auto
  next
    case again
    from Suc.IH [of "b * 2" "fst (sleep d ?w2)"] again show ?thesis by auto
  qed
qed simp

end


lemma metrics_Do_requests [simp]: "hw_requests (fst (metrics_Do inner w)) = Suc (hw_requests w)"
  and metrics_Do_waits [simp]: "hw_waits (fst (metrics_Do inner w)) = hw_waits w"
  by (simp_all add: metrics_Do_def split: prod.splits)

interpretation mc: counted_client "metrics_Do inner" "resetRequestBody get_body" "sleep_or_done select"
    hw_requests hw_waits
  for inner :: "('n, 'e) client" and get_body :: "'n \<Rightarrow> 'n \<times> 'e option"
    and select :: "duration \<Rightarrow> 'n \<Rightarrow> 'n \<times> 'e option"
  by unfold_locales (simp_all add: resetRequestBody_def sleep_or_done_def split: prod.splits)

section \<open>Properties of the retry loop\<close>

text \<open>C29. A call of the retrying client sends at most \<open>max_http_attempts\<close> requests (one when the
  field is not positive), waits fewer times than it sends, and never waits for longer than
  \<open>max_http_retry_after\<close>, whatever the server answers; a response that it returns is never a
  rate-limited one.\<close>

theorem retriable_Do_bounded:
  fixes inner :: "('n, 'e) client"
  shows "case retriable_Do (metrics_Do inner) (resetRequestBody get_body) (sleep_or_done select) until perf w of
     (w', r) \<Rightarrow>
       hw_requests w' \<le> hw_requests w + max_attempts perf
       \<and> (\<exists>ds. hw_waits w' = hw_waits w @ ds \<and> length ds < max_attempts perf
            \<and> list_all (\<lambda>d. sint d \<le> sint (seconds (p_max_http_retry_after perf))) ds)
       \<and> (\<nexists>resp. r = Inr resp \<and> rs_status resp = 429)"
proof -
  let ?w' = "fst (retriable_Do (metrics_Do inner) (resetRequestBody get_body) (sleep_or_done select) until perf w)"
  let ?mx = "seconds (p_max_http_retry_after perf)"
  have "0 < max_attempts perf" by (simp add: max_attempts_def)
  moreover obtain ds where "hw_waits ?w' = hw_waits w @ ds" "length ds \<le> max_attempts perf - 1"
      "list_all (\<lambda>d. sint d \<le> sint ?mx) ds"
    unfolding retriable_Do_def using mc.waits_bound by blast
  moreover have "hw_requests ?w' \<le> hw_requests w + max_attempts perf"
    unfolding retriable_Do_def by (rule mc.requests_bound)
  moreover have "rs_status resp \<noteq> 429" if "snd (retriable_Do (metrics_Do inner) (resetRequestBody get_body)
      (sleep_or_done select) until perf w) = Inr resp" for resp
    using that unfolding retriable_Do_def by (rule retry_loop_not_429)
  ultimately show ?thesis by (auto split: prod.splits intro!: exI [of _ ds])
qed

lemma atoi_itoa: "n < 2 ^ 63 \<Longrightarrow> atoi (itoa n) = Some (int n)"
proof -
  assume n: "n < 2 ^ 63"
  obtain c cs where i: "itoa n = c # cs" by (cases "itoa n") auto
  then have "is_digit c" using itoa_digits [of c n] by simp
  then have "c \<noteq> CHR ''-''" "c \<noteq> CHR ''+''" by (auto simp: is_digit_def char_code_def)
  moreover have "parse_dec (c # cs) = Some n" using parse_dec_itoa [of n] by (simp add: i del: parse_dec_itoa)
  moreover have "int n < 2 ^ 63" using n by (metis of_nat_less_iff of_nat_numeral of_nat_power)
  ultimately show ?thesis using i by (simp add: atoi_def)
qed

lemma trim_space_itoa [simp]: "trim_space (itoa n) = itoa n"
proof -
  have "\<not> is_space c" if "c \<in> set (itoa n)" for c
    using itoa_digits [OF that] by (auto simp: is_digit_def is_space_def)
  then have "\<not> is_space (hd (itoa n))" "\<not> is_space (hd (rev (itoa n)))" by (simp_all add: hd_rev)
  then have "dropWhile is_space (itoa n) = itoa n" "dropWhile is_space (rev (itoa n)) = rev (itoa n)"
    by (simp_all only: dropWhile_eq_self_iff simp_thms)
  then show ?thesis by (simp add: trim_space_def trim_right_def)
qed

text \<open>A \<open>Retry-After\<close> header with a number of seconds is obeyed exactly, as long as the number
  of nanoseconds fits in 63 bits: the delay is that many seconds when the configured maximum
  allows it and the call gives up with \<open>ErrRateLimited\<close> when it does not.\<close>

theorem retryDelay_seconds:
  assumes "n * 10 ^ 9 < 2 ^ 63"
  shows "retryDelay until (itoa n) backoff mx =
    (if sint mx < int n * 10 ^ 9 then Inl ErrRateLimited else Inr (word_of_int (int n * 10 ^ 9)))"
proof -
  have n: "int n * 1000000000 < 9223372036854775808"
  proof -
    have "int (n * 10 ^ 9) < int (2 ^ 63)" using assms by (simp only: of_nat_less_iff)
    then show ?thesis by simp
  qed
  have "n < 2 ^ 63" using assms by simp
  then have a: "parseRetryAfter until (itoa n) = Some (word_of_int (int n) * second)"
    by (simp add: parseRetryAfter_def atoi_itoa)
  have w: "word_of_int (int n) * second = (word_of_int (int n * 10 ^ 9) :: 64 word)"
    by (simp add: second_def wi_hom_mult [symmetric])
  have "sint (word_of_int (int n * 10 ^ 9) :: 64 word) = int n * 10 ^ 9"
    using n by (subst signed_of_int) (simp add: signed_take_bit_int_eq_self_iff)
  with a w show ?thesis by (simp add: retryDelay_def)
qed

theorem retryDelay_seconds_witness:
  "(retryDelay (\<lambda>_. None) (itoa 7) second (second * 5) :: (nat http_error, _) result) = Inl ErrRateLimited"
  using retryDelay_seconds [of 7 "\<lambda>_. None" second "second * 5"] by (simp add: second_def)

text \<open>Beyond that bound the multiplication wraps: for a header of 9223372037 seconds (292 years)
  the delay is negative, so no maximum that is not negative rejects it and the retry happens at
  once.\<close>

theorem retryDelay_overflow:
  "\<exists>d. parseRetryAfter until (itoa 9223372037) = Some d \<and> sint d < 0
     \<and> (0 \<le> sint mx \<longrightarrow> retryDelay until (itoa 9223372037) backoff mx = (Inr d :: ('e http_error, _) result))"
proof -
  let ?d = "word_of_int 9223372037 * second :: duration"
  have a: "parseRetryAfter until (itoa 9223372037) = Some ?d"
    by (simp add: parseRetryAfter_def atoi_itoa)
  moreover have "sint ?d < 0" by (simp add: second_def)
  moreover have "retryDelay until (itoa 9223372037) backoff mx = (Inr ?d :: ('e http_error, _) result)"
    if "0 \<le> sint mx"
    using that a \<open>sint ?d < 0\<close> by (simp add: retryDelay_def)
  ultimately show ?thesis by blast
qed

theorem retryDelay_overflow_witness:
  "\<exists>d. retryDelay (\<lambda>_. None) (itoa 9223372037) second (second * 60) = (Inr d :: (nat http_error, _) result) \<and> sint d < 0"
  using retryDelay_overflow [of "\<lambda>_. None" "second * 60" second] by (fastforce simp: second_def)

section \<open>Properties of redirects\<close>

lemma follow_invariant:
  "\<exists>ws. fst (follow co mx location via u) = via @ u # ws
     \<and> length (via @ u # ws) \<le> max mx (Suc (length via))
     \<and> list_all (\<lambda>v. IsRedirectAllowed (Some co) (Some v)) ws
     \<and> map (\<lambda>n. location (via @ take n (u # ws))) [1..<length (u # ws)] = map Some ws"
proof (induction co mx location via u rule: follow.induct)
  case (1 co mx location via u)
  show ?case
  proof (cases "\<exists>v. location (via @ [u]) = Some v \<and> CheckRedirect co mx v (via @ [u]) = FollowRedirect")
    case True
    then obtain v where v: "location (via @ [u]) = Some v" "CheckRedirect co mx v (via @ [u]) = FollowRedirect" by blast
    then have chk: "IsRedirectAllowed (Some co) (Some v)" "Suc (length via) < mx"
      by (auto simp: CheckRedirect_def split: if_splits)
    from v have f: "follow co mx location via u = follow co mx location (via @ [u]) v"
      by (subst follow.simps) simp
    from "1.IH" [OF v] obtain ws where ws: "fst (follow co mx location (via @ [u]) v) = (via @ [u]) @ v # ws"
        "length ((via @ [u]) @ v # ws) \<le> max mx (Suc (length (via @ [u])))"
        "list_all (\<lambda>v. IsRedirectAllowed (Some co) (Some v)) ws"
        "map (\<lambda>n. location ((via @ [u]) @ take n (v # ws))) [1..<length (v # ws)] = map Some ws"
      by blast
    from ws(4) v have "map (\<lambda>n. location (via @ take n (u # v # ws))) [1..<length (u # v # ws)] = map Some (v # ws)"
      by (simp add: upt_conv_Cons map_Suc_upt [symmetric] comp_def del: upt_Suc)
    with ws chk show ?thesis unfolding f by (intro exI [of _ "v # ws"]) (auto simp: max_def split: if_splits)
  next
    case False
    then have "fst (follow co mx location via u) = via @ [u]"
      by (subst follow.simps) (auto split: option.splits)
    then show ?thesis by (intro exI [of _ "[]"]) simp
  qed
qed

text \<open>C7. A request that is redirected, over and over, makes at most \<open>max_http_redirects\<close> requests
  in all (one when the field is 0), each request after the first goes to the location that the
  server gave after the requests before it, and each of those locations passed \<open>IsRedirectAllowed\<close>: its authority
  is allowed and its path is not forbidden.\<close>

theorem follow_safe:
  "\<exists>ws. fst (follow co mx location [] u) = u # ws \<and> length (u # ws) \<le> max mx 1
     \<and> map (\<lambda>n. location (take n (u # ws))) [1..<length (u # ws)] = map Some ws
     \<and> list_all (\<lambda>v. IsAuthorityAllowed co v \<and> \<not> IsURLPathForbidden (Some v) (ForbiddenPaths co)
          \<and> \<not> DisableFollowRedirects co) ws"
proof -
  have "list_all (\<lambda>v. IsAuthorityAllowed co v \<and> \<not> IsURLPathForbidden (Some v) (ForbiddenPaths co)
      \<and> \<not> DisableFollowRedirects co) ws"
    if "list_all (\<lambda>v. IsRedirectAllowed (Some co) (Some v)) ws" for ws
    using that by (rule list.pred_mono_strong) (simp add: IsRedirectAllowed_def)
  then show ?thesis using follow_invariant [of co mx location "[]" u] by force
qed

section \<open>Authorities\<close>

definition plain_host :: "string \<Rightarrow> bool" where
  "plain_host h = (h \<noteq> [] \<and> list_all (\<lambda>c. c \<notin> set '':[]'') h)"

lemma plain_host_no [simp]:
  "plain_host h \<Longrightarrow> CHR '':'' \<notin> set h" "plain_host h \<Longrightarrow> CHR ''['' \<notin> set h" "plain_host h \<Longrightarrow> CHR '']'' \<notin> set h"
  by (auto simp: plain_host_def list_all_iff)

lemma not_digit_punct [simp]: "\<not> is_digit CHR '':''" "\<not> is_digit CHR ''[''" "\<not> is_digit CHR '']''"
  by (simp_all add: is_digit_def char_code_def)

lemma has_prefix_absent: "c \<notin> set s \<Longrightarrow> \<not> has_prefix s [c]"
  and has_suffix_absent: "c \<notin> set s \<Longrightarrow> \<not> suffix [c] s"
  by (auto simp: has_prefix_def prefix_def suffix_def)

lemma trim_plain [simp]: "plain_host h \<Longrightarrow> trim_suffix (trim_prefix h ''['') '']'' = h"
  by (simp add: trim_prefix_def has_prefix_absent trim_suffix_other has_suffix_absent)

lemma net_SplitHostPort_plain: "plain_host h \<Longrightarrow> net_SplitHostPort (h @ '':'' @ itoa p) = Some (h, itoa p)"
  by (simp add: net_SplitHostPort_def has_prefix_absent)

lemma url_split_host_plain:
  assumes "plain_host h"
  shows "url_split_host (h @ '':'' @ itoa p) = (h, itoa p)"
proof -
  have "strip_brackets h = h" using assms by (simp add: strip_brackets_def has_prefix_absent)
  moreover have "list_all is_digit (itoa p)" by (auto simp: list_all_iff itoa_digits)
  ultimately show ?thesis by (simp add: url_split_host_def)
qed

lemma to_lower_no_char:
  "to_lower s = to_lower t \<Longrightarrow> c \<notin> set t \<Longrightarrow> \<not> is_lower c \<Longrightarrow> \<not> is_upper c \<Longrightarrow> c \<notin> set s"
proof
  assume eq: "to_lower s = to_lower t" and c: "c \<notin> set t" "\<not> is_lower c" "\<not> is_upper c" and "c \<in> set s"
  then have "to_lower_char c = c" by (simp add: to_lower_char_def)
  with \<open>c \<in> set s\<close> eq have "c \<in> to_lower_char ` set t"
    by (metis imageI list.set_map to_lower_def)
  then obtain x where "x \<in> set t" "to_lower_char x = c" by auto
  with c to_lower_char_eq [of x c] show False by simp
qed

lemma equal_fold_authority:
  assumes "plain_host h" and "equal_fold s (h @ '':'' @ itoa p)"
  shows "\<exists>h'. s = h' @ '':'' @ itoa p \<and> plain_host h' \<and> equal_fold h' h"
proof -
  let ?h' = "take (length h) s" and ?r = "drop (length h) s"
  have eq: "to_lower ?h' @ to_lower ?r = to_lower h @ to_lower ('':'' @ itoa p)"
    using assms(2) by (simp add: equal_fold_def flip: to_lower_append)
  have "length s = length h + length ('':'' @ itoa p)"
    using arg_cong [OF assms(2) [unfolded equal_fold_def], of length] by simp
  then have "length (to_lower ?h') = length (to_lower h)" by simp
  with eq have h': "to_lower ?h' = to_lower h" and r: "to_lower ?r = to_lower ('':'' @ itoa p)"
    using append_eq_append_conv by blast+
  have "\<not> is_lower c" if "c \<in> set ('':'' @ itoa p)" for c
    using that by (auto dest!: itoa_digits simp: is_digit_def is_lower_def char_code_def)
  moreover have "to_lower ('':'' @ itoa p) = '':'' @ itoa p"
    using to_lower_itoa by (simp add: to_lower_def to_lower_char_def is_upper_def char_code_def)
  ultimately have "?r = '':'' @ itoa p" using r to_lower_eq_id by metis
  moreover have "plain_host ?h'"
  proof -
    have "c \<notin> set ?h'" if "c \<in> set '':[]''" for c
      using to_lower_no_char [OF h', of c] that assms(1)
      by (auto simp: is_lower_def is_upper_def char_code_def)
    moreover have "?h' \<noteq> []" using h' assms(1) by (auto simp: to_lower_def plain_host_def)
    ultimately show ?thesis by (auto simp: plain_host_def list_all_iff)
  qed
  ultimately show ?thesis using h' by (metis append_take_drop_id equal_fold_def)
qed

text \<open>C30. Once a service of a host name and a port is loaded, exactly the URLs with that host name,
  in any case, and that port, written or implied by the scheme, are allowed.\<close>

theorem LoadAuthorities_exact:
  assumes "sv_endpoint service = Some e" and "ep_hostname e = Some h" and "ep_ip e = None"
    and "ep_port e = Some p" and "plain_host h"
  shows "\<exists>co'. LoadAuthorities co service = Inr co' \<and>
    (\<forall>u. IsAuthorityAllowed co' u \<longleftrightarrow> equal_fold (u_hostname u) h \<and> effective_port u = itoa (unat p))"
proof -
  let ?auth = "h @ '':'' @ itoa (unat p)"
  have "h \<noteq> []" using assms(5) by (simp add: plain_host_def)
  with assms have load: "LoadAuthorities co service = Inr (co\<lparr>AllowedAuthorities := [?auth]\<rparr>)"
    by (simp add: LoadAuthorities_def ToURIAuthorities_def ep_host_def ep_address_def append_port_def Let_def)
  have "authority_matches u ?auth \<longleftrightarrow> equal_fold (u_hostname u) h \<and> effective_port u = itoa (unat p)" for u
  proof -
    have "equal_fold (u_hostname u) h \<and> effective_port u = itoa (unat p)" if eq: "equal_fold (u_host u) ?auth"
    proof -
      from equal_fold_authority [OF assms(5) eq] obtain h' where h': "u_host u = h' @ '':'' @ itoa (unat p)"
          "plain_host h'" "equal_fold h' h" by blast
      then have "url_split_host (u_host u) = (h', itoa (unat p))" by (simp only: url_split_host_plain)
      with h' show ?thesis by (simp add: u_hostname_def u_port_def effective_port_def)
    qed
    then show ?thesis
      unfolding authority_matches_def net_SplitHostPort_plain [OF assms(5)] by (auto simp: assms(5))
  qed
  with load show ?thesis by (simp add: IsAuthorityAllowed_def)
qed

theorem LoadAuthorities_exact_witness:
  "\<exists>co'. LoadAuthorities (DefaultClientOptions [])
      \<lparr>sv_endpoint = Some \<lparr>ep_type = HOSTNAME_PORT, ep_ip = None, ep_hostname = Some ''a.com'', ep_port = Some 443\<rparr>,
       sv_transport = [], sv_ssl = [], sv_http_methods = [], sv_context = None\<rparr> = Inr co'
    \<and> IsAuthorityAllowed co' \<lparr>u_scheme = ''https'', u_host = ''A.com'', u_path = [], u_raw_query = []\<rparr>
    \<and> \<not> IsAuthorityAllowed co' \<lparr>u_scheme = ''https'', u_host = ''b.com'', u_path = [], u_raw_query = []\<rparr>"
proof -
  let ?s = "\<lparr>sv_endpoint = Some \<lparr>ep_type = HOSTNAME_PORT, ep_ip = None, ep_hostname = Some ''a.com'', ep_port = Some 443\<rparr>,
       sv_transport = [], sv_ssl = [], sv_http_methods = [], sv_context = None\<rparr>"
  have i: "itoa (unat (443 :: 32 word)) = ''443''"
    by (simp add: itoa_def digits_base.simps digit_char_def char_of_def bit_0)
  have "plain_host ''a.com''" by (simp add: plain_host_def)
  then obtain co' where co': "LoadAuthorities (DefaultClientOptions []) ?s = Inr co'"
      "IsAuthorityAllowed co' u \<longleftrightarrow> equal_fold (u_hostname u) ''a.com'' \<and> effective_port u = ''443''" for u
    using LoadAuthorities_exact [of ?s "the (sv_endpoint ?s)" "''a.com''" 443 "DefaultClientOptions []"] i by auto
  have "url_split_host ''A.com'' = (''A.com'', [])" "url_split_host ''b.com'' = (''b.com'', [])"
    by (simp_all add: url_split_host_def cut_last_def strip_brackets_def has_prefix_def)
  moreover have "equal_fold ''A.com'' ''a.com''" "\<not> equal_fold ''b.com'' ''a.com''"
    "equal_fold ''https'' ''https''"
    by (simp_all add: equal_fold_def to_lower_def to_lower_char_def is_upper_def char_code_def char_of_def bit_0)
  ultimately show ?thesis
    using co' by (intro exI [of _ co']) (simp add: u_hostname_def u_port_def effective_port_def)
qed

end
