(* ===== verification/UrlParse.thy ===== *)
theory UrlParse
  imports HttpClient
begin

text \<open>
  The parts of the standard library package \<open>net/url\<close> that the callback server, its client and the
  crawler rely on: parsing of a URL reference into scheme, host, path and query, and the values of
  a query. The user part of an authority is checked and dropped, and so is an opaque part. The
  newest releases of Go also refuse a host with several colons and, between brackets, anything but
  an IPv6 address; the model accepts these like the releases before.
\<close>

definition ascii_control :: "char \<Rightarrow> bool" where
  "ascii_control c = (char_code c < 32 \<or> char_code c = 127)"

definition is_letter :: "char \<Rightarrow> bool" where
  "is_letter c = (is_lower c \<or> is_upper c)"

text \<open>\<open>getScheme\<close>: \<open>None\<close> is the error for a missing scheme.\<close>

fun scheme_prefix :: "string \<Rightarrow> string \<Rightarrow> (string \<times> string) option" where
  "scheme_prefix acc [] = None"
| "scheme_prefix acc (c # cs) =
     (if is_letter c then scheme_prefix (acc @ [c]) cs
      else if is_digit c \<or> c \<in> set ''+-.'' then (if acc = [] then None else scheme_prefix (acc @ [c]) cs)
      else if c = CHR '':'' then Some (acc, cs)
      else None)"

definition getScheme :: "string \<Rightarrow> (string \<times> string) option" where
  "getScheme s = (case scheme_prefix [] s of
       None \<Rightarrow> Some ([], s)
     | Some (sch, rest) \<Rightarrow> if sch = [] then None else Some (sch, rest))"

definition valid_port :: "string \<Rightarrow> bool" where
  "valid_port p = list_all is_digit p"

definition host_char :: "char \<Rightarrow> bool" where
  "host_char c = (is_letter c \<or> is_digit c \<or> 128 \<le> char_code c \<or> c \<in> set ''-_.~!$&()*+,;=:[]<>'' \<or> char_code c \<in> {34, 39})"

text \<open>A percent sign in a host only escapes bytes that are not ASCII, and itself.\<close>

fun host_unescape :: "string \<Rightarrow> string option" where
  "host_unescape [] = Some []"
| "host_unescape (c # cs) =
     (if c = CHR ''%'' then
        (case cs of
           x # y # r \<Rightarrow>
             (case (digit_val x, digit_val y) of
                (Some a, Some b) \<Rightarrow>
                  if a < 8 \<and> \<not> (a = 2 \<and> b = 5) then None
                  else map_option ((#) (char_of (16 * a + b))) (host_unescape r)
              | _ \<Rightarrow> None)
         | _ \<Rightarrow> None)
      else if host_char c then map_option ((#) c) (host_unescape cs) else None)"

text \<open>The zone of an IPv6 address begins with an escaped percent sign. In it an escape may also stand
  for a space or for a character that a host may hold.\<close>

fun cut_zone :: "string \<Rightarrow> string \<times> string" where
  "cut_zone [] = ([], [])"
| "cut_zone (c # cs) =
     (if has_prefix (c # cs) ''%25'' then ([], c # cs) else let (a, z) = cut_zone cs in (c # a, z))"

fun zone_unescape :: "string \<Rightarrow> string option" where
  "zone_unescape [] = Some []"
| "zone_unescape (c # cs) =
     (if c = CHR ''%'' then
        (case cs of
           x # y # r \<Rightarrow>
             (case (digit_val x, digit_val y) of
                (Some a, Some b) \<Rightarrow>
                  let v = char_of (16 * a + b) in
                  if v \<noteq> CHR ''%'' \<and> v \<noteq> CHR '' '' \<and> \<not> host_char v then None
                  else map_option ((#) v) (zone_unescape r)
              | _ \<Rightarrow> None)
         | _ \<Rightarrow> None)
      else if host_char c then map_option ((#) c) (zone_unescape cs) else None)"

definition literal_unescape :: "string \<Rightarrow> string \<Rightarrow> string option" where
  "literal_unescape b after =
     (case cut_zone b of (h, z) \<Rightarrow>
        if z = [] then host_unescape (b @ '']'' @ after)
        else (case (host_unescape h, zone_unescape z, host_unescape ('']'' @ after)) of
                (Some h1, Some h2, Some h3) \<Rightarrow> Some (h1 @ h2 @ h3)
              | _ \<Rightarrow> None))"

definition parse_host :: "string \<Rightarrow> string option" where
  "parse_host h =
     (if has_prefix h ''['' then
        (case cut_last CHR '']'' h of
           None \<Rightarrow> None
         | Some (b, after) \<Rightarrow>
             if after = [] \<or> (hd after = CHR '':'' \<and> valid_port (tl after)) then literal_unescape b after
             else None)
      else case cut_last CHR '':'' h of
          None \<Rightarrow> host_unescape h
        | Some (_, p) \<Rightarrow> if valid_port p then host_unescape h else None)"

definition userinfo_char :: "char \<Rightarrow> bool" where
  "userinfo_char c = (is_letter c \<or> is_digit c \<or> c \<in> set ''-._:~!$&()*+,;=%@'' \<or> char_code c = 39)"

definition parse_authority :: "string \<Rightarrow> string option" where
  "parse_authority a = (case cut_last CHR ''@'' a of
       None \<Rightarrow> parse_host a
     | Some (user, h) \<Rightarrow>
         if list_all userinfo_char user \<and> url_unescape False user \<noteq> None then parse_host h else None)"

text \<open>\<open>url.Parse\<close>.\<close>

definition url_Parse :: "string \<Rightarrow> url option" where
  "url_Parse raw =
     (let u = cut_before CHR ''#'' raw;
          frag = (case cut_at CHR ''#'' raw of None \<Rightarrow> [] | Some (_, f) \<Rightarrow> f)
      in if list_ex ascii_control u \<or> url_unescape False frag = None then None
      else case getScheme u of None \<Rightarrow> None | Some (sch, rest0) \<Rightarrow>
        let scheme = to_lower sch; rest = cut_before CHR ''?'' rest0;
            query = (case cut_at CHR ''?'' rest0 of None \<Rightarrow> [] | Some (_, q) \<Rightarrow> q)
        in
        if \<not> has_prefix rest ''/'' then
          (if scheme \<noteq> [] then Some \<lparr>u_scheme = scheme, u_host = [], u_path = [], u_raw_query = query\<rparr>
           else if CHR '':'' \<in> set (cut_before CHR ''/'' rest) then None
           else map_option (\<lambda>p. \<lparr>u_scheme = [], u_host = [], u_path = p, u_raw_query = query\<rparr>) (url_unescape False rest))
        else if has_prefix rest ''//'' \<and> (scheme \<noteq> [] \<or> \<not> has_prefix rest ''///'') then
          (let body = drop 2 rest; auth = cut_before CHR ''/'' body; path = drop (length auth) body in
           case (parse_authority auth, url_unescape False path) of
             (Some h, Some p) \<Rightarrow> Some \<lparr>u_scheme = scheme, u_host = h, u_path = p, u_raw_query = query\<rparr>
           | _ \<Rightarrow> None)
        else map_option (\<lambda>p. \<lparr>u_scheme = scheme, u_host = [], u_path = p, u_raw_query = query\<rparr>) (url_unescape False rest))"

text \<open>\<open>URL.Query\<close>: settings that do not parse are skipped.\<close>

definition parse_setting :: "string \<Rightarrow> (string \<times> string) option" where
  "parse_setting s =
     (if s = [] \<or> CHR '';'' \<in> set s then None
      else let k = cut_before CHR ''='' s; v = (case cut_at CHR ''='' s of None \<Rightarrow> [] | Some (_, v) \<Rightarrow> v) in
        case (url_unescape True k, url_unescape True v) of
          (Some k', Some v') \<Rightarrow> Some (k', v')
        | _ \<Rightarrow> None)"

definition query_values :: "string \<Rightarrow> (string \<times> string) list" where
  "query_values q = List.map_filter parse_setting (split_on CHR ''&'' q)"

section \<open>Parsing plain URLs\<close>

text \<open>Characters that stand for themselves in a path segment and in a query.\<close>

definition unreserved :: "char \<Rightarrow> bool" where
  "unreserved c = (is_letter c \<or> is_digit c \<or> c \<in> set ''-_.~'')"

lemma unreserved_not [simp]:
  "\<not> unreserved CHR ''%''" "\<not> unreserved CHR ''/''" "\<not> unreserved CHR ''#''" "\<not> unreserved CHR ''?''"
  "\<not> unreserved CHR '':''" "\<not> unreserved CHR ''@''" "\<not> unreserved CHR ''&''" "\<not> unreserved CHR ''=''"
  "\<not> unreserved CHR '';''" "\<not> unreserved CHR ''+''" "\<not> unreserved CHR ''[''" "\<not> unreserved CHR '']''"
  by (simp_all add: unreserved_def is_letter_def is_lower_def is_upper_def is_digit_def char_code_def)

lemma unreserved_absent: "list_all unreserved s \<Longrightarrow> \<not> unreserved c \<Longrightarrow> c \<notin> set s"
  by (auto simp: list_all_iff)

lemma url_unescape_plain: "CHR ''%'' \<notin> set s \<Longrightarrow> (q \<Longrightarrow> CHR ''+'' \<notin> set s) \<Longrightarrow> url_unescape q s = Some s"
  by (induction s) auto

lemma unreserved_unescape [simp]: "list_all unreserved s \<Longrightarrow> url_unescape q s = Some s"
  by (rule url_unescape_plain) (simp_all add: unreserved_absent)

lemma unreserved_control: "unreserved c \<Longrightarrow> \<not> ascii_control c"
  by (auto simp: unreserved_def ascii_control_def is_letter_def is_lower_def is_upper_def is_digit_def char_code_def)

lemma unreserved_host: "unreserved c \<Longrightarrow> host_char c"
  by (auto simp: unreserved_def host_char_def)

text \<open>An authority of a plain host name with an optional port.\<close>

definition plain_authority :: "string \<Rightarrow> bool" where
  "plain_authority a = (\<exists>h p. list_all unreserved h \<and> list_all is_digit p \<and> (a = h \<or> a = h @ '':'' @ p))"

lemma host_unescape_plain: "list_all (\<lambda>c. host_char c \<and> c \<noteq> CHR ''%'') s \<Longrightarrow> host_unescape s = Some s"
  by (induction s) auto

lemma is_digit_unreserved: "is_digit c \<Longrightarrow> unreserved c"
  by (simp add: unreserved_def)

lemma plain_authority_chars:
  "plain_authority a \<Longrightarrow> list_all (\<lambda>c. unreserved c \<or> c = CHR '':'') a"
  by (auto simp: plain_authority_def list_all_iff dest: is_digit_unreserved)

lemma plain_authority_absent:
  "plain_authority a \<Longrightarrow> \<not> unreserved c \<Longrightarrow> c \<noteq> CHR '':'' \<Longrightarrow> c \<notin> set a"
  using plain_authority_chars [of a] by (auto simp: list_all_iff)

lemma parse_authority_plain:
  assumes "plain_authority a"
  shows "parse_authority a = Some a"
proof -
  have colon: "host_char CHR '':''" by (simp add: host_char_def)
  have "list_all (\<lambda>c. host_char c \<and> c \<noteq> CHR ''%'') a"
    using plain_authority_chars [OF assms]
    by (rule list.pred_mono_strong) (use colon in \<open>auto simp: unreserved_host\<close>)
  then have h: "host_unescape a = Some a" by (rule host_unescape_plain)
  have "\<not> has_prefix a ''[''" "cut_last CHR ''@'' a = None"
    using plain_authority_absent [OF assms] by (auto simp: has_prefix_absent cut_last_def cut_None_iff)
  moreover have "valid_port p" if "cut_last CHR '':'' a = Some (b, p)" for b p
  proof -
    obtain h q where a: "list_all unreserved h" "list_all is_digit q" "a = h \<or> a = h @ '':'' @ q"
      using assms by (auto simp: plain_authority_def)
    have "CHR '':'' \<notin> set h" "CHR '':'' \<notin> set q"
      using a(1,2) by (auto simp: list_all_iff)
    with a(3) that have "p = q" by (auto simp: cut_last_def cut_None_iff)
    with a(2) show ?thesis by (simp add: valid_port_def)
  qed
  ultimately show ?thesis using h by (auto simp: parse_authority_def parse_host_def split: option.splits)
qed

text \<open>The parse of a plain absolute URL.\<close>

lemma url_Parse_plain:
  assumes sch: "sch = ''http'' \<or> sch = ''https''" and auth: "plain_authority a"
    and path: "list_all (\<lambda>c. unreserved c \<or> c = CHR ''/'') p" "p = [] \<or> hd p = CHR ''/''"
    and query: "list_all (\<lambda>c. unreserved c \<or> c = CHR ''='' \<or> c = CHR ''&'') q"
  shows "url_Parse (sch @ ''://'' @ a @ p @ (if q = [] then [] else ''?'' @ q))
    = Some \<lparr>u_scheme = sch, u_host = a, u_path = p, u_raw_query = q\<rparr>"
proof -
  let ?qq = "if q = [] then [] else ''?'' @ q"
  let ?raw = "sch @ ''://'' @ a @ p @ ?qq"
  have a_no: "CHR ''#'' \<notin> set a" "CHR ''?'' \<notin> set a" "CHR ''/'' \<notin> set a"
    using plain_authority_absent [OF auth] by simp_all
  have p_no: "CHR ''#'' \<notin> set p" "CHR ''?'' \<notin> set p" "CHR ''%'' \<notin> set p"
    using path(1) by (auto simp: list_all_iff)
  have q_no: "CHR ''#'' \<notin> set q" using query by (auto simp: list_all_iff)
  have "CHR ''#'' \<notin> set ?raw" using sch a_no p_no q_no by auto
  moreover have "\<not> list_ex ascii_control ?raw"
  proof -
    have punct: "\<not> ascii_control CHR '':''" "\<not> ascii_control CHR ''/''" "\<not> ascii_control CHR ''?''"
      "\<not> ascii_control CHR ''=''" "\<not> ascii_control CHR ''&''"
      by (simp_all add: ascii_control_def char_code_def)
    have "list_all (\<lambda>c. \<not> ascii_control c) a"
      using plain_authority_chars [OF auth] by (rule list.pred_mono_strong) (auto simp: unreserved_control punct)
    moreover have "list_all (\<lambda>c. \<not> ascii_control c) p"
      using path(1) by (rule list.pred_mono_strong) (auto simp: unreserved_control punct)
    moreover have "list_all (\<lambda>c. \<not> ascii_control c) q"
      using query by (rule list.pred_mono_strong) (auto simp: unreserved_control punct)
    moreover have "list_all (\<lambda>c. \<not> ascii_control c) sch"
      using sch by (auto simp: ascii_control_def char_code_def)
    ultimately have "list_all (\<lambda>c. \<not> ascii_control c) ?raw" by (simp add: punct)
    then show ?thesis by (simp add: list_ex_iff list_all_iff)
  qed
  moreover have "getScheme ?raw = Some (sch, ''//'' @ a @ p @ ?qq)"
    using sch by (auto simp: getScheme_def is_letter_def is_lower_def is_upper_def is_digit_def char_code_def)
  moreover have "to_lower sch = sch"
    using sch by (auto simp: to_lower_def to_lower_char_def is_upper_def char_code_def)
  moreover have "cut_before CHR ''?'' (''//'' @ a @ p @ ?qq) = ''//'' @ a @ p"
    using cut_before_append [of "CHR ''?''" "''//'' @ a @ p" q] cut_before_id [of "CHR ''?''" "''//'' @ a @ p"] a_no p_no
    by auto
  moreover have "(case cut_at CHR ''?'' (''//'' @ a @ p @ ?qq) of None \<Rightarrow> [] | Some (_, q) \<Rightarrow> q) = q"
    using cut_append [of "CHR ''?''" "''//'' @ a @ p" q] cut_at_no_sep [of "CHR ''?''" "''//'' @ a @ p"] a_no p_no
    by auto
  moreover have "has_prefix (''//'' @ a @ p) ''/''" "has_prefix (''//'' @ a @ p) ''//''"
    by (simp_all add: has_prefix_def)
  moreover have "cut_before CHR ''/'' (a @ p) = a"
    using path(2) a_no(3) cut_before_append [of "CHR ''/''" a "tl p"] by (cases p) auto
  moreover have "sch \<noteq> []" using sch by auto
  moreover have "url_unescape False p = Some p" using p_no(3) by (simp add: url_unescape_plain)
  ultimately show ?thesis unfolding url_Parse_def
    by (simp add: Let_def parse_authority_plain [OF auth])
qed

section \<open>The host of a rooted reference\<close>

lemma cut_before_skip: "c \<notin> set p \<Longrightarrow> cut_before c (p @ s) = p @ cut_before c s"
  by (induction p) (auto simp: cut_before_def split: option.splits)

lemma has_prefix_cut_before: "d \<noteq> c \<Longrightarrow> has_prefix s [d] \<Longrightarrow> has_prefix (cut_before c s) [d]"
  by (auto simp: cut_before_def has_prefix_def prefix_def split: option.splits)

lemma has_prefix_ConsE: "has_prefix s [c] \<Longrightarrow> (\<And>r. s = c # r \<Longrightarrow> P) \<Longrightarrow> P"
  by (auto simp: has_prefix_def prefix_def)

text \<open>An authority that the parser keeps as it is holds no character that would end it.\<close>

lemma host_unescape_length: "host_unescape s = Some t \<Longrightarrow> length t \<le> length s"
proof (induction s arbitrary: t rule: host_unescape.induct)
  case (2 c cs)
  then show ?case by (fastforce split: if_splits list.splits option.splits)
qed simp

lemma host_unescape_id: "host_unescape s = Some s \<Longrightarrow> list_all host_char s"
proof (induction s)
  case (Cons c cs)
  show ?case
  proof (cases "c = CHR ''%''")
    case True
    with Cons.prems obtain x y r r' where "cs = x # y # r" "host_unescape r = Some r'" "length (c # cs) = Suc (length r')"
      by (fastforce split: if_splits list.splits option.splits)
    then show ?thesis using host_unescape_length [of r r'] by simp
  next
    case False
    with Cons show ?thesis by (auto split: if_splits)
  qed
qed simp

lemma zone_unescape_length: "zone_unescape s = Some t \<Longrightarrow> length t \<le> length s"
proof (induction s arbitrary: t rule: zone_unescape.induct)
  case (2 c cs)
  then show ?case by (fastforce simp: Let_def split: if_splits list.splits option.splits)
qed simp

lemma zone_unescape_shorter:
  assumes "zone_unescape (CHR ''%'' # s) = Some t"
  shows "length t < length (CHR ''%'' # s)"
proof -
  from assms obtain x y r r' v where "s = x # y # r" "zone_unescape r = Some r'" "t = v # r'"
    by (auto simp: Let_def split: if_splits list.splits option.splits)
  then show ?thesis using zone_unescape_length [of r r'] by simp
qed

lemma cut_zone_append: "cut_zone s = (a, z) \<Longrightarrow> s = a @ z \<and> (z = [] \<or> hd z = CHR ''%'')"
  by (induction s arbitrary: a z)
     (auto simp: has_prefix_def prefix_def split: if_splits prod.splits)

lemma literal_unescape_length:
  assumes "literal_unescape b after = Some t"
  shows "length t < length (b @ '']'' @ after) \<or> host_unescape (b @ '']'' @ after) = Some t"
proof -
  obtain a z where z: "cut_zone b = (a, z)" by fastforce
  show ?thesis
  proof (cases z)
    case Nil
    with z assms show ?thesis by (simp add: literal_unescape_def)
  next
    case (Cons c z')
    then have c: "c = CHR ''%''" "b = a @ CHR ''%'' # z'" using cut_zone_append [OF z] by auto
    from assms z Cons c(1) obtain h1 h2 h3 where h: "host_unescape a = Some h1"
      "zone_unescape (CHR ''%'' # z') = Some h2" "host_unescape ('']'' @ after) = Some h3" "t = h1 @ h2 @ h3"
      by (auto simp: literal_unescape_def simp del: host_unescape.simps zone_unescape.simps split: option.splits)
    from host_unescape_length [OF h(1)] zone_unescape_shorter [OF h(2)] host_unescape_length [OF h(3)]
    show ?thesis by (simp add: h(4) c(2))
  qed
qed

lemma parse_host_shape: "parse_host h = Some t \<Longrightarrow> length t < length h \<or> host_unescape h = Some t"
  by (auto simp: parse_host_def dest!: cut_last_SomeD literal_unescape_length split: if_splits option.splits)

lemma parse_host_length: "parse_host h = Some t \<Longrightarrow> length t \<le> length h"
  using parse_host_shape [of h t] host_unescape_length [of h t] by auto

lemma parse_host_id: "parse_host h = Some h \<Longrightarrow> list_all host_char h"
  using parse_host_shape [of h h] host_unescape_id [of h] by auto

lemma parse_authority_id_chars:
  assumes "parse_authority a = Some a" and "c \<in> set ''/?#''"
  shows "c \<notin> set a"
proof -
  have "cut_last CHR ''@'' a = None"
  proof (rule ccontr)
    assume "cut_last CHR ''@'' a \<noteq> None"
    then obtain u h where cut: "cut_last CHR ''@'' a = Some (u, h)" by auto
    then have "parse_host h = Some a" using assms(1) by (auto simp: parse_authority_def split: if_splits)
    then have "length a \<le> length h" by (rule parse_host_length)
    moreover have "length h < length a" using cut_last_SomeD [OF cut] by simp
    ultimately show False by simp
  qed
  with assms(1) have "parse_host a = Some a" by (simp add: parse_authority_def)
  then have "list_all host_char a" by (rule parse_host_id)
  moreover have "\<not> host_char c"
    using assms(2) by (auto simp: host_char_def is_letter_def is_lower_def is_upper_def is_digit_def char_code_def)
  ultimately show ?thesis by (auto simp: list_all_iff)
qed

lemma getScheme_web:
  "sch = ''http'' \<or> sch = ''https'' \<Longrightarrow> getScheme (sch @ ''://'' @ s) = Some (sch, ''//'' @ s)"
  by (auto simp: getScheme_def is_letter_def is_lower_def is_upper_def is_digit_def char_code_def)

lemma to_lower_web: "sch = ''http'' \<or> sch = ''https'' \<Longrightarrow> to_lower sch = sch"
  by (auto simp: to_lower_def to_lower_char_def is_upper_def char_code_def)

lemma url_Parse_rooted:
  assumes sch: "sch = ''http'' \<or> sch = ''https''" and a: "parse_authority a = Some a"
    and uri: "has_prefix uri ''/''" and u: "url_Parse (sch @ ''://'' @ a @ uri) = Some u"
  shows "u_host u = a \<and> u_scheme u = sch"
proof -
  have chars: "CHR ''/'' \<notin> set a" "CHR ''?'' \<notin> set a" "CHR ''#'' \<notin> set a"
    by (rule parse_authority_id_chars [OF a]; simp)+
  let ?v = "cut_before CHR ''#'' uri"
  let ?p = "cut_before CHR ''?'' ?v"
  have pre: "CHR ''#'' \<notin> set (sch @ ''://'' @ a)" "CHR ''?'' \<notin> set (''//'' @ a)" using sch chars by auto
  have v: "cut_before CHR ''#'' (sch @ ''://'' @ a @ uri) = sch @ ''://'' @ a @ ?v"
    using cut_before_skip [OF pre(1), of uri] by simp
  have p: "cut_before CHR ''?'' (''//'' @ a @ ?v) = ''//'' @ a @ ?p"
    using cut_before_skip [OF pre(2), of ?v] by simp
  have "has_prefix ?p ''/''" using uri by (simp add: has_prefix_cut_before)
  then obtain r where r: "?p = CHR ''/'' # r" by (rule has_prefix_ConsE)
  have auth: "cut_before CHR ''/'' (a @ ?p) = a" unfolding r using chars by simp
  have "sch \<noteq> []" "has_prefix (''//'' @ a @ ?p) ''/''" "has_prefix (''//'' @ a @ ?p) ''//''"
    using sch by (auto simp: has_prefix_def)
  then have "url_Parse (sch @ ''://'' @ a @ uri) \<in>
      {None, map_option (\<lambda>p. \<lparr>u_scheme = sch, u_host = a, u_path = p,
        u_raw_query = (case cut_at CHR ''?'' (''//'' @ a @ ?v) of None \<Rightarrow> [] | Some (_, q) \<Rightarrow> q)\<rparr>) (url_unescape False ?p)}"
    unfolding url_Parse_def Let_def v getScheme_web [OF sch] option.case prod.case p to_lower_web [OF sch]
    by (cases "url_unescape False ?p") (simp_all add: auth a del: append_assoc)
  then show ?thesis unfolding u by (cases "url_unescape False ?p") auto
qed

end
