(* ===== verification/CrawlScope.thy ===== *)
theory CrawlScope
  imports UrlParse
begin

text \<open>
  \<open>common/clients/httpcrawler/scope\<close>: the scopes of a crawl, from the configuration and from the
  seed URLs, and the decision for a URL; with the functions of Go's \<open>path\<close> package that it calls.
\<close>

section \<open>Go's \<open>path\<close> package\<close>

definition after_last :: "char \<Rightarrow> string \<Rightarrow> string" where
  "after_last c s = (case cut_last c s of None \<Rightarrow> s | Some (_, a) \<Rightarrow> a)"

definition path_Base :: "string \<Rightarrow> string" where
  "path_Base p =
     (if p = [] then ''.''
      else let b = after_last CHR ''/'' (trim_right (\<lambda>c. c = CHR ''/'') p) in if b = [] then ''/'' else b)"

definition path_Dir :: "string \<Rightarrow> string" where
  "path_Dir p = path_Clean (case cut_last CHR ''/'' p of None \<Rightarrow> [] | Some (d, _) \<Rightarrow> d @ ''/'')"

section \<open>\<open>scope.go\<close>\<close>

datatype decision = DecisionUnknown | DecisionInScope | DecisionDomainMismatch | DecisionPathMismatch

datatype scope_error = ErrParseURL

record crawl_scope =
  sc_domain :: string
  sc_path :: string

datatype scope_policy = SCOPE_POLICY_UNSPECIFIED | SCOPE_POLICY_CONFIG_ONLY | SCOPE_POLICY_EXPAND

definition NormalizePath :: "string \<Rightarrow> string" where
  "NormalizePath url =
     (if has_suffix url ''/'' then url
      else if path_Base url = ''.'' \<or> \<not> str_contains (path_Base url) ''.'' then url @ ''/''
      else path_Dir url @ ''/'')"

definition FromProto :: "string \<Rightarrow> string \<Rightarrow> crawl_scope" where
  "FromProto domain path = \<lparr>sc_domain = domain, sc_path = NormalizePath path\<rparr>"

definition scope_host :: "url \<Rightarrow> string" where
  "scope_host u = u_hostname u @ (if u_port u \<noteq> [] then '':'' @ u_port u else [])"

definition FromURL :: "string \<Rightarrow> (scope_error, crawl_scope) result" where
  "FromURL targeturl = (case url_Parse targeturl of
       None \<Rightarrow> Inl ErrParseURL
     | Some u \<Rightarrow> Inr \<lparr>sc_domain = scope_host u, sc_path = NormalizePath (u_path u)\<rparr>)"

definition scope_Load :: "(string \<times> string) list \<Rightarrow> scope_policy \<Rightarrow> string list \<Rightarrow> (scope_error, crawl_scope list) result" where
  "scope_Load cfg_scopes policy urls =
     (let scopes = map (\<lambda>(d, p). FromProto d p) cfg_scopes in
      if policy = SCOPE_POLICY_CONFIG_ONLY then Inr scopes
      else case map_result FromURL urls of
          Inl e \<Rightarrow> Inl e
        | Inr seeds \<Rightarrow> Inr (scopes @ seeds))"

definition Decision :: "crawl_scope \<Rightarrow> string \<Rightarrow> (scope_error, decision) result" where
  "Decision cs targetURL = (case url_Parse targetURL of
       None \<Rightarrow> Inl ErrParseURL
     | Some u \<Rightarrow>
         Inr (if sc_domain cs \<noteq> scope_host u then DecisionDomainMismatch
              else if sc_path cs \<noteq> [] \<and> \<not> has_prefix (NormalizePath (u_path u)) (sc_path cs) then DecisionPathMismatch
              else DecisionInScope))"

definition Matches :: "crawl_scope \<Rightarrow> string \<Rightarrow> (scope_error, bool) result" where
  "Matches cs targetURL = (case Decision cs targetURL of Inl e \<Rightarrow> Inl e | Inr d \<Rightarrow> Inr (d = DecisionInScope))"

fun MatchAnyScope :: "string \<Rightarrow> crawl_scope list \<Rightarrow> (scope_error, bool) result" where
  "MatchAnyScope targetURL [] = Inr False"
| "MatchAnyScope targetURL (cs # scopes) = (case Matches cs targetURL of
       Inl e \<Rightarrow> Inl e
     | Inr match \<Rightarrow> if match then Inr True else MatchAnyScope targetURL scopes)"

section \<open>What a scope contains\<close>

lemma cut_last_None_iff: "cut_last c s = None \<longleftrightarrow> c \<notin> set s"
  using cut_None_iff [of c "rev s"] by (auto simp: cut_last_def split: option.splits)

lemma NormalizePath_slash: "suffix ''/'' (NormalizePath p)"
  by (simp add: NormalizePath_def has_suffix_def)

lemma trim_right_id: "s = [] \<or> \<not> P (last s) \<Longrightarrow> trim_right P s = s"
  by (cases s rule: rev_cases) (auto simp: trim_right_def)

text \<open>The path of a file directly below the root, \<open>/name.ext\<close>, becomes two slashes.\<close>

lemma NormalizePath_root_file:
  assumes "CHR ''/'' \<notin> set w" and "CHR ''.'' \<in> set w" and "w \<noteq> ''.''"
  shows "NormalizePath (CHR ''/'' # w) = ''//''"
proof -
  have "w \<noteq> []" using assms(2) by auto
  then have last: "last w \<noteq> CHR ''/''" using assms(1) last_in_set by metis
  have base: "path_Base (CHR ''/'' # w) = w"
  proof -
    have "trim_right (\<lambda>c. c = CHR ''/'') (CHR ''/'' # w) = CHR ''/'' # w"
      using last \<open>w \<noteq> []\<close> by (intro trim_right_id) simp
    moreover have "cut_last CHR ''/'' (CHR ''/'' # w) = Some ([], w)"
      using cut_last_append [of "CHR ''/''" w "[]"] assms(1) by simp
    ultimately show ?thesis using \<open>w \<noteq> []\<close> by (simp add: path_Base_def after_last_def Let_def)
  qed
  have "path_Dir (CHR ''/'' # w) = ''/''"
    using cut_last_append [of "CHR ''/''" w "[]"] assms(1)
    by (simp add: path_Dir_def path_Clean_def clean_rooted_def has_prefix_def)
  moreover have "\<not> suffix ''/'' (CHR ''/'' # w)"
  proof
    assume "suffix ''/'' (CHR ''/'' # w)"
    then obtain zs where "CHR ''/'' # w = zs @ ''/''" by (auto simp: suffix_def)
    then have "last (CHR ''/'' # w) = CHR ''/''" by simp
    with last \<open>w \<noteq> []\<close> show False by simp
  qed
  moreover have "str_contains w ''.''"
    using assms(2) by (auto simp: str_contains_def sublist_def in_set_conv_decomp)
  ultimately show ?thesis using base assms(3) by (simp add: NormalizePath_def has_suffix_def)
qed

lemma Matches_iff:
  "Matches cs t = Inr b \<longleftrightarrow> (\<exists>u. url_Parse t = Some u \<and>
     b = (sc_domain cs = scope_host u \<and> (sc_path cs = [] \<or> prefix (sc_path cs) (NormalizePath (u_path u)))))"
  by (auto simp: Matches_def Decision_def has_prefix_def split: option.splits)

lemma MatchAnyScope_iff:
  assumes "url_Parse t = Some u"
  shows "MatchAnyScope t scopes = Inr (list_ex (\<lambda>cs. sc_domain cs = scope_host u
    \<and> (sc_path cs = [] \<or> prefix (sc_path cs) (NormalizePath (u_path u)))) scopes)"
  using assms by (induction scopes) (auto simp: Matches_def Decision_def has_prefix_def)

text \<open>The segments of a normalised path, which ends in a slash.\<close>

definition segments :: "string \<Rightarrow> string list" where
  "segments p = split_on CHR ''/'' (butlast p)"

lemma split_on_append_sep: "split_on c (b @ c # a) = split_on c b @ split_on c a"
proof (induction b)
  case (Cons x b)
  then show ?case by (cases "split_on c b") auto
qed simp

lemma prefix_segments:
  assumes "suffix ''/'' p" and "suffix ''/'' q"
  shows "prefix p q \<longleftrightarrow> prefix (segments p) (segments q)"
proof -
  obtain b e where pq: "p = b @ ''/''" "q = e @ ''/''" using assms by (auto simp: suffix_def)
  have "prefix (b @ ''/'') (e @ ''/'') \<longleftrightarrow> prefix (split_on CHR ''/'' b) (split_on CHR ''/'' e)"
  proof
    assume "prefix (b @ ''/'') (e @ ''/'')"
    then obtain r where r: "e @ ''/'' = b @ ''/'' @ r" by (auto simp: prefix_def)
    show "prefix (split_on CHR ''/'' b) (split_on CHR ''/'' e)"
    proof (cases r rule: rev_cases)
      case Nil
      with r show ?thesis by simp
    next
      case (snoc r' x)
      with r have "e = b @ CHR ''/'' # r'" by simp
      then show ?thesis by (simp add: split_on_append_sep)
    qed
  next
    assume "prefix (split_on CHR ''/'' b) (split_on CHR ''/'' e)"
    then obtain rest where rest: "split_on CHR ''/'' e = split_on CHR ''/'' b @ rest" by (auto simp: prefix_def)
    have e: "e = join ''/'' (split_on CHR ''/'' b @ rest)" using join_split_on [of "CHR ''/''" e] rest by simp
    show "prefix (b @ ''/'') (e @ ''/'')"
    proof (cases "rest = []")
      case True
      with e show ?thesis by simp
    next
      case False
      have "join ''/'' (ws @ rest) = join ''/'' ws @ ''/'' @ join ''/'' rest" if "ws \<noteq> []" for ws
        using that False by (induction ws rule: induct_list012) (auto simp: join_Cons)
      from this [of "split_on CHR ''/'' b"] e show ?thesis by simp
    qed
  qed
  with pq show ?thesis by (simp add: segments_def)
qed

text \<open>C33. The scope of a seed URL contains the seed. It contains another URL exactly when the host and
  the port are the same and the segments of its directory extend those of the seed's directory,
  so a directory whose name merely starts like the seed's is outside. A seed that is a file
  directly below the root excludes even the root of its own site.\<close>

theorem seed_scope:
  assumes "url_Parse seed = Some u" and "url_Parse target = Some v" and "FromURL seed = Inr cs"
  shows "Matches cs seed = Inr True
    \<and> Matches cs target = Inr (scope_host v = scope_host u
        \<and> prefix (segments (NormalizePath (u_path u))) (segments (NormalizePath (u_path v))))
    \<and> (u_path u = CHR ''/'' # w \<and> CHR ''/'' \<notin> set w \<and> CHR ''.'' \<in> set w \<and> w \<noteq> ''.'' \<and> u_path v = ''/''
        \<longrightarrow> Matches cs target = Inr False)"
proof -
  have cs: "cs = \<lparr>sc_domain = scope_host u, sc_path = NormalizePath (u_path u)\<rparr>"
    using assms(1,3) by (simp add: FromURL_def)
  have ne: "NormalizePath p \<noteq> []" for p using NormalizePath_slash [of p] by auto
  have other: "Matches cs target = Inr (scope_host v = scope_host u
        \<and> prefix (segments (NormalizePath (u_path u))) (segments (NormalizePath (u_path v))))"
    unfolding Matches_iff using assms(2) prefix_segments [OF NormalizePath_slash NormalizePath_slash, of "u_path u" "u_path v"]
    by (auto simp: cs ne)
  moreover have "Matches cs seed = Inr True"
    unfolding Matches_iff using assms(1) by (simp add: cs)
  moreover have "Matches cs target = Inr False"
    if "u_path u = CHR ''/'' # w" "CHR ''/'' \<notin> set w" "CHR ''.'' \<in> set w" "w \<noteq> ''.''" "u_path v = ''/''"
    using other that NormalizePath_root_file [OF that(2-4)] by (simp add: NormalizePath_def has_suffix_def segments_def)
  ultimately show ?thesis by blast
qed

theorem seed_scope_witness:
  "Matches \<lparr>sc_domain = ''h'', sc_path = NormalizePath ''/a.b''\<rparr> ''http://h/'' = Inr False
   \<and> Matches \<lparr>sc_domain = ''h'', sc_path = NormalizePath ''/a.b''\<rparr> ''http://h/a.b'' = Inr True"
proof -
  have chars: "unreserved CHR ''h''" "unreserved CHR ''a''" "unreserved CHR ''b''" "unreserved CHR ''.''"
    by (simp_all add: unreserved_def is_letter_def is_lower_def is_upper_def char_code_def)
  then have h: "plain_authority ''h''"
    unfolding plain_authority_def by (intro exI [of _ "''h''"] exI [of _ "[]"]) simp
  have seed: "url_Parse ''http://h/a.b'' = Some \<lparr>u_scheme = ''http'', u_host = ''h'', u_path = ''/a.b'', u_raw_query = []\<rparr>"
    and target: "url_Parse ''http://h/'' = Some \<lparr>u_scheme = ''http'', u_host = ''h'', u_path = ''/'', u_raw_query = []\<rparr>"
    using url_Parse_plain [of "''http''" "''h''" "''/a.b''" "[]"] url_Parse_plain [of "''http''" "''h''" "''/''" "[]"] h
    by (simp_all add: chars)
  have "scope_host \<lparr>u_scheme = ''http'', u_host = ''h'', u_path = ''/a.b'', u_raw_query = []\<rparr> = ''h''"
    by (simp add: scope_host_def u_hostname_def u_port_def url_split_host_def strip_brackets_def cut_last_def has_prefix_def)
  then have "FromURL ''http://h/a.b'' = Inr \<lparr>sc_domain = ''h'', sc_path = NormalizePath ''/a.b''\<rparr>"
    using seed by (simp add: FromURL_def)
  from seed_scope [OF seed target this, of "''a.b''"] show ?thesis by (auto simp del: split_on.simps)
qed

end
