(* ===== verification/HtmlLinks.thy ===== *)
theory HtmlLinks
  imports UrlParse
begin

text \<open>
  \<open>common/clients/httpcrawler/parser\<close>: the links of an HTML page. The HTML parser of
  \<open>golang.org/x/net/html\<close> is a parameter that turns a page into a tree. The resolution of a
  reference against the page's URL is \<open>net/url\<close>'s, on escaped paths, without query and fragment,
  which the code removes.
\<close>

section \<open>References and their resolution\<close>

text \<open>A parsed reference: what \<open>URL.String\<close> and \<open>URL.ResolveReference\<close> read of it.\<close>

record reference =
  rf_scheme :: string
  rf_opaque :: string
  rf_user :: "(string \<times> string option) option"
  rf_host :: string
  rf_path :: string
  rf_has_query :: bool

definition sub_delim :: "char \<Rightarrow> bool" where
  "sub_delim c = (c \<in> set ''$&+,/:;=@'')"

definition url_unreserved :: "char \<Rightarrow> bool" where
  "url_unreserved c = (is_letter c \<or> is_digit c \<or> c \<in> set ''-_.~'')"

definition escape_with :: "(char \<Rightarrow> bool) \<Rightarrow> string \<Rightarrow> string" where
  "escape_with keep s = concat (map (\<lambda>c. if keep c then [c] else percent_encode c) s)"

definition escape_path :: "string \<Rightarrow> string" where
  "escape_path = escape_with (\<lambda>c. url_unreserved c \<or> sub_delim c)"

definition escape_user :: "string \<Rightarrow> string" where
  "escape_user = escape_with (\<lambda>c. url_unreserved c \<or> c \<in> set ''$&+,;='')"

definition escape_host :: "string \<Rightarrow> string" where
  "escape_host = escape_with (\<lambda>c. url_unreserved c \<or> c \<in> set ''!$&()*+,;=:[]<>'' \<or> char_code c \<in> {34, 39})"

definition valid_encoded :: "string \<Rightarrow> bool" where
  "valid_encoded = list_all (\<lambda>c. url_unreserved c \<or> sub_delim c \<or> c \<in> set ''!()*[]%'' \<or> char_code c = 39)"

text \<open>\<open>URL.EscapedPath\<close> of a URL whose path was parsed from the text \<open>p\<close>.\<close>

definition escaped_path :: "string \<Rightarrow> string" where
  "escaped_path p =
     (if valid_encoded p then p else case url_unescape False p of None \<Rightarrow> p | Some d \<Rightarrow> escape_path d)"

text \<open>The reference that \<open>url.Parse\<close> reads, when it accepts the text.\<close>

definition parse_userinfo :: "string \<Rightarrow> (string \<times> string option) option" where
  "parse_userinfo a = (case cut_last CHR ''@'' a of
       None \<Rightarrow> None
     | Some (user, _) \<Rightarrow>
         (let dec = (\<lambda>s. case url_unescape False s of None \<Rightarrow> s | Some d \<Rightarrow> d) in
          case cut_at CHR '':'' user of
            None \<Rightarrow> Some (dec user, None)
          | Some (n, p) \<Rightarrow> Some (dec n, Some (dec p))))"

definition parse_reference :: "string \<Rightarrow> reference option" where
  "parse_reference raw = (case url_Parse raw of
       None \<Rightarrow> None
     | Some u \<Rightarrow> (case getScheme (cut_before CHR ''#'' raw) of
           None \<Rightarrow> None
         | Some (sch, rest0) \<Rightarrow>
             let rest = cut_before CHR ''?'' rest0; query = u_raw_query u \<noteq> [] \<or> CHR ''?'' \<in> set rest0;
                 ref = \<lparr>rf_scheme = u_scheme u, rf_opaque = [], rf_user = None, rf_host = u_host u, rf_path = rest, rf_has_query = query\<rparr>
             in if \<not> has_prefix rest ''/'' then
                  Some (if u_scheme u \<noteq> [] then ref\<lparr>rf_opaque := rest, rf_path := []\<rparr> else ref)
                else if has_prefix rest ''//'' \<and> (u_scheme u \<noteq> [] \<or> \<not> has_prefix rest ''///'') then
                  (let body = drop 2 rest; auth = cut_before CHR ''/'' body in
                   Some (ref\<lparr>rf_user := parse_userinfo auth, rf_path := drop (length auth) body\<rparr>))
                else Some ref))"

text \<open>\<open>resolvePath\<close>: the state is the output after its first slash, and whether it is fresh.\<close>

fun resolve_segments :: "string list \<Rightarrow> string \<times> bool \<Rightarrow> string" where
  "resolve_segments [] (dst, first) = dst"
| "resolve_segments (e # es) (dst, first) =
     (if e = ''.'' then (if es = [] then dst @ ''/'' else resolve_segments es (dst, False))
      else if e = ''..'' then
        (case cut_last CHR ''/'' dst of
           None \<Rightarrow> if es = [] then ''/'' else resolve_segments es ([], True)
         | Some (b, _) \<Rightarrow> if es = [] then b @ ''/'' else resolve_segments es (b, first))
      else resolve_segments es (dst @ (if first then [] else ''/'') @ e, False))"

definition resolve_path :: "string \<Rightarrow> string \<Rightarrow> string" where
  "resolve_path base ref =
     (let full = (if ref = [] then base
          else if \<not> has_prefix ref ''/'' then (case cut_last CHR ''/'' base of None \<Rightarrow> ref | Some (b, _) \<Rightarrow> b @ ''/'' @ ref)
          else ref)
      in if full = [] then []
         else let r = resolve_segments (split_on CHR ''/'' full) ([], True) in
           if has_prefix r ''/'' then r else ''/'' @ r)"

definition ResolveReference :: "reference \<Rightarrow> reference \<Rightarrow> reference" where
  "ResolveReference u ref =
     (let url = ref\<lparr>rf_scheme := if rf_scheme ref = [] then rf_scheme u else rf_scheme ref\<rparr> in
      if rf_scheme ref \<noteq> [] \<or> rf_host ref \<noteq> [] \<or> rf_user ref \<noteq> None then
        url\<lparr>rf_path := resolve_path (escaped_path (rf_path ref)) []\<rparr>
      else if rf_opaque ref \<noteq> [] then url\<lparr>rf_user := None, rf_host := [], rf_path := []\<rparr>
      else if rf_path ref = [] \<and> rf_opaque u \<noteq> [] then
        url\<lparr>rf_opaque := rf_opaque u, rf_user := None, rf_host := [], rf_path := []\<rparr>
      else url\<lparr>rf_host := rf_host u, rf_user := rf_user u,
               rf_path := resolve_path (escaped_path (rf_path u)) (escaped_path (rf_path ref))\<rparr>)"

text \<open>\<open>URL.String\<close> of a URL without query and fragment.\<close>

definition reference_String :: "reference \<Rightarrow> string" where
  "reference_String u =
     (let sch = (if rf_scheme u \<noteq> [] then rf_scheme u @ '':'' else []) in
      if rf_opaque u \<noteq> [] then sch @ rf_opaque u
      else
        let user = (case rf_user u of None \<Rightarrow> []
              | Some (n, None) \<Rightarrow> escape_user n @ ''@''
              | Some (n, Some p) \<Rightarrow> escape_user n @ '':'' @ escape_user p @ ''@'');
            auth = (if (rf_scheme u \<noteq> [] \<or> rf_host u \<noteq> [] \<or> rf_user u \<noteq> None)
                        \<and> (rf_host u \<noteq> [] \<or> rf_path u \<noteq> [] \<or> rf_user u \<noteq> None)
                    then ''//'' @ user @ escape_host (rf_host u) else []);
            path = escaped_path (rf_path u);
            sep = (if path \<noteq> [] \<and> \<not> has_prefix path ''/'' \<and> rf_host u \<noteq> [] then ''/'' else []);
            dot = (if sch @ auth @ sep = [] \<and> CHR '':'' \<in> set (cut_before CHR ''/'' path) then ''./'' else [])
        in sch @ auth @ sep @ dot @ path)"

section \<open>\<open>parser.go\<close>\<close>

datatype 'e parser_error = ParserParseURL | ErrUnsupportedScheme string | HtmlError 'e

definition unsupportedPrefixes :: "string list" where
  "unsupportedPrefixes = [''data:'', ''javascript:'', ''mailto:'', ''tel:'']"

definition knownLinkAttributes :: "string list" where
  "knownLinkAttributes =
     [''action'', ''archive'', ''background'', ''cite'', ''codebase'', ''content'', ''data'', ''href'',
      ''longdesc'', ''profile'', ''src'', ''formaction'', ''manifest'', ''poster'', ''srcdoc'', ''ping'']"

text \<open>A node of the tree: its data, its attributes and its children.\<close>

datatype html_node = Node string "(string \<times> string) list" "html_node list"

definition parser_parseURL :: "string \<Rightarrow> string \<Rightarrow> ('e parser_error, string) result" where
  "parser_parseURL base redirect0 =
     (let redirect = trim_space redirect0 in
      if list_ex (\<lambda>p. length p \<le> length redirect \<and> equal_fold (take (length p) redirect) p) unsupportedPrefixes
      then Inr []
      else case parse_reference redirect of
          None \<Rightarrow> Inl ParserParseURL
        | Some ref \<Rightarrow>
            if rf_scheme ref \<noteq> [] \<and> rf_scheme ref \<noteq> ''http'' \<and> rf_scheme ref \<noteq> ''https''
            then Inl (ErrUnsupportedScheme (rf_scheme ref))
            else case parse_reference base of
                None \<Rightarrow> Inl ParserParseURL
              | Some root \<Rightarrow> Inr (reference_String (ResolveReference root ref)))"

text \<open>\<open>strings.Split\<close> with a separator of four bytes, \<open>url=\<close>.\<close>

fun split_url_eq :: "string \<Rightarrow> string list" where
  "split_url_eq [] = [[]]"
| "split_url_eq (c # cs) =
     (if has_prefix (c # cs) ''url='' then [] # split_url_eq (drop 3 cs)
      else (case split_url_eq cs of [] \<Rightarrow> [[c]] | w # ws \<Rightarrow> (c # w) # ws))"

definition parseContent :: "string \<Rightarrow> string \<Rightarrow> string \<Rightarrow> ('e parser_error, string) result" where
  "parseContent tag base content =
     (if to_lower tag \<noteq> ''meta'' then Inr []
      else let parts = split_url_eq (to_lower (filter (\<lambda>c. c \<noteq> CHR '' '') content)) in
        if length parts \<noteq> 2 then Inr [] else parser_parseURL base (parts ! 1))"

definition parser_dispatch :: "string \<Rightarrow> string \<Rightarrow> string \<Rightarrow> string \<Rightarrow> ('e parser_error, string) result" where
  "parser_dispatch tag key base redirect =
     (if key = ''content'' then parseContent tag base redirect else parser_parseURL base redirect)"

fun attribute_links :: "string \<Rightarrow> string \<Rightarrow> (string \<times> string) list \<Rightarrow> ('e parser_error, string list) result" where
  "attribute_links root tag [] = Inr []"
| "attribute_links root tag ((key, val) # attrs) =
     (if key \<notin> set knownLinkAttributes then attribute_links root tag attrs
      else case parser_dispatch tag key root val of
          Inl e \<Rightarrow> Inl e
        | Inr link \<Rightarrow> (case attribute_links root tag attrs of
              Inl e \<Rightarrow> Inl e
            | Inr links \<Rightarrow> Inr (if link = [] then links else link # links)))"

fun processHTMLNode :: "string \<Rightarrow> html_node \<Rightarrow> ('e parser_error, string list) result"
  and processHTMLNodes :: "string \<Rightarrow> html_node list \<Rightarrow> ('e parser_error, string list) result" where
  "processHTMLNode root (Node tag attrs children) = (case processHTMLNodes root children of
       Inl e \<Rightarrow> Inl e
     | Inr below \<Rightarrow> (case attribute_links root tag attrs of Inl e \<Rightarrow> Inl e | Inr own \<Rightarrow> Inr (below @ own)))"
| "processHTMLNodes root [] = Inr []"
| "processHTMLNodes root (n # ns) = (case processHTMLNode root n of
       Inl e \<Rightarrow> Inl e
     | Inr links \<Rightarrow> (case processHTMLNodes root ns of Inl e \<Rightarrow> Inl e | Inr links' \<Rightarrow> Inr (links @ links')))"

definition ExtractLinksFromHTML :: "(string \<Rightarrow> ('e, html_node list) result) \<Rightarrow> string \<Rightarrow> string
    \<Rightarrow> ('e parser_error, string list) result" where
  "ExtractLinksFromHTML parse rootURL content = (case parse content of
       Inl e \<Rightarrow> Inl (HtmlError e)
     | Inr nodes \<Rightarrow> processHTMLNodes rootURL nodes)"

section \<open>One link spoils a page\<close>

lemma processHTMLNodes_append:
  "processHTMLNodes root (ns @ ms) = (case processHTMLNodes root ns of
     Inl e \<Rightarrow> Inl e
   | Inr ls \<Rightarrow> (case processHTMLNodes root ms of Inl e \<Rightarrow> Inl e | Inr ms \<Rightarrow> Inr (ls @ ms)))"
  by (induction ns) (auto split: sum.splits)

lemma attribute_links_unsupported:
  fixes err :: "'e parser_error"
  assumes "key \<in> set knownLinkAttributes" and "key \<noteq> ''content''" and "parser_parseURL root val = Inl err"
  shows "\<exists>err :: 'e parser_error. attribute_links root tag (as @ (key, val) # bs) = Inl err"
  using assms by (induction as) (auto simp: parser_dispatch_def split: sum.splits)

text \<open>A link that \<open>parseURL\<close> rejects, for its scheme say, makes the extraction fail, whatever other
  links the page has.\<close>

lemma ExtractLinksFromHTML_spoiled:
  fixes err :: "'e parser_error" and parse :: "string \<Rightarrow> ('e, html_node list) result"
  assumes "parse content = Inr (ns @ Node tag (as @ (key, val) # bs) children # ms)"
    and "key \<in> set knownLinkAttributes" and "key \<noteq> ''content''" and "parser_parseURL root val = Inl err"
  shows "\<exists>err. ExtractLinksFromHTML parse root content = Inl err"
proof -
  obtain e :: "'e parser_error" where "attribute_links root tag (as @ (key, val) # bs) = Inl e"
    using attribute_links_unsupported [OF assms(2-4)] by blast
  then show ?thesis using assms(1)
    by (auto simp: ExtractLinksFromHTML_def processHTMLNodes_append split: sum.splits)
qed

end
