(* ===== verification/Crawler.thy ===== *)
theory Crawler
  imports CrawlScope HtmlLinks "HOL-Library.Multiset"
begin

text \<open>
  \<open>common/clients/httpcrawler\<close>: the crawler as a state machine. Pages wait in a queue, workers crawl
  them in parallel, the links they find are queued in turn, and a watcher closes the queue when no
  page is waiting or in progress. A step is one section that the code runs under its mutex or
  between two of them, so every interleaving of the workers is a sequence of steps. A page that a
  goroutine waits to send and one in the channel are both in the queue, and any of them may be
  the next to be received. The server, the callback and the HTML parser are parameters.
\<close>

section \<open>\<open>crawlrun.go\<close>: visited pages\<close>

definition maxDecodeIterations :: nat where
  "maxDecodeIterations = 10"

fun decode_loop :: "nat \<Rightarrow> string \<Rightarrow> string" where
  "decode_loop 0 s = s"
| "decode_loop (Suc n) s = (case url_unescape False s of
       None \<Rightarrow> s
     | Some decoded \<Rightarrow> if decoded = s then s else decode_loop n decoded)"

definition fullyDecode :: "string \<Rightarrow> string" where
  "fullyDecode = decode_loop maxDecodeIterations"

definition normalizeURL :: "string \<Rightarrow> string" where
  "normalizeURL rawurl =
     trim_right (\<lambda>c. c = CHR ''/'') (takeWhile (\<lambda>c. c \<notin> set ''?#'') (fullyDecode rawurl))"

section \<open>Configuration and state\<close>

record crawler_config =
  cc_max_concurrency :: int
  cc_max_page_size :: int
  cc_max_depth :: int
  cc_max_requests :: int
  cc_exclusions :: "string list"
  cc_policy :: scope_policy
  cc_scopes :: "(string \<times> string) list"

text \<open>The defaults of the configuration's fields, and the default exclusions.\<close>

definition DefaultClientConfig :: "string list \<Rightarrow> crawler_config" where
  "DefaultClientConfig defaultForbiddenPathPatterns =
     \<lparr>cc_max_concurrency = 1, cc_max_page_size = 1048576, cc_max_depth = 1, cc_max_requests = 100,
      cc_exclusions = defaultForbiddenPathPatterns, cc_policy = SCOPE_POLICY_EXPAND, cc_scopes = []\<rparr>"

text \<open>What the code does with the user's configuration; \<open>None\<close> is the panic of \<open>MustCompile\<close>.\<close>

definition NewSimpleCrawler :: "(string \<Rightarrow> regexp option) \<Rightarrow> string list \<Rightarrow> crawler_config option
    \<Rightarrow> (crawler_config \<times> regexp list) option" where
  "NewSimpleCrawler compile defaults user =
     (let cfg = (case user of
          None \<Rightarrow> DefaultClientConfig defaults
        | Some u \<Rightarrow> if cc_exclusions u = [] then u\<lparr>cc_exclusions := defaults\<rparr> else u)
      in case map_result (\<lambda>p. case compile p of None \<Rightarrow> Inl p | Some re \<Rightarrow> Inr re) (cc_exclusions cfg) of
          Inl _ \<Rightarrow> None
        | Inr res \<Rightarrow> Some (cfg, res))"

record page_info =
  pg_url :: string
  pg_depth :: int

text \<open>What a request ends in; a maximal page size below 0, for which \<open>make\<close> panics, is read as 0.\<close>

datatype crawl_failure = DeadlineExceeded | OtherFailure

datatype fetch_outcome = RequestFailed crawl_failure | Response string "crawl_failure body_end"

record crawler =
  cw_config :: crawler_config
  cw_exclusions :: "regexp list"
  cw_scopes :: "crawl_scope list"
  cw_fetch :: "nat \<Rightarrow> string \<Rightarrow> fetch_outcome"
  cw_callback :: "page_info \<Rightarrow> string \<Rightarrow> bool"
  cw_html :: "string \<Rightarrow> (unit, html_node list) result"

text \<open>
  Where a worker is: at the start of \<open>crawlPage\<close>, before the request, in the loop over the links
  with the links left, before a link is marked as visited, before it is queued, and before the
  deferred \<open>PageDone\<close>, with or without an error.
\<close>

datatype work =
    Start
  | Fetching
  | Linking "string list"
  | Adding string "string list"
  | Queueing string "string list"
  | Ending bool

record crawl_state =
  cs_queue :: "page_info list"
  cs_active :: "(page_info \<times> work) list"
  cs_visited :: "string list"
  cs_work_count :: int
  cs_sent :: int
  cs_cancelled :: bool
  cs_failed :: bool
  cs_closed :: bool
  cs_requests :: "string list"
  cs_found :: "(page_info \<times> string list) list"

text \<open>The last two fields are a log: the requests made, and the links found on a page. \<open>int32\<close> wraps.\<close>

definition int32 :: "int \<Rightarrow> int" where
  "int32 n = signed_take_bit 31 n"

definition AlreadyVisited :: "string \<Rightarrow> crawl_state \<Rightarrow> bool" where
  "AlreadyVisited rawurl s = (normalizeURL rawurl \<in> set (cs_visited s))"

definition AddToVisited :: "string \<Rightarrow> crawl_state \<Rightarrow> crawl_state" where
  "AddToVisited rawurl s = s\<lparr>cs_visited := List.insert (normalizeURL rawurl) (cs_visited s)\<rparr>"


definition CountPending :: "crawl_state \<Rightarrow> int" where
  "CountPending s = cs_work_count s"

definition QueuePage :: "string \<Rightarrow> int \<Rightarrow> crawl_state \<Rightarrow> crawl_state" where
  "QueuePage url depth s =
     s\<lparr>cs_work_count := cs_work_count s + 1, cs_queue := cs_queue s @ [\<lparr>pg_url = url, pg_depth = depth\<rparr>]\<rparr>"

definition PageDone :: "crawl_state \<Rightarrow> crawl_state" where
  "PageDone s = s\<lparr>cs_work_count := cs_work_count s - 1\<rparr>"

section \<open>\<open>httpcrawler.go\<close>\<close>

definition isExcluded :: "crawler \<Rightarrow> string \<Rightarrow> bool" where
  "isExcluded c rawURL = (case url_Parse rawURL of
       None \<Rightarrow> False
     | Some u \<Rightarrow> IsURLPathForbidden (Some u) (cw_exclusions c))"

definition checkAndIncreaseRequestCount :: "crawler_config \<Rightarrow> crawl_state \<Rightarrow> crawl_state \<times> bool" where
  "checkAndIncreaseRequestCount cfg s =
     (if cc_max_requests cfg < int32 (cs_sent s + 1) then (s, False)
      else (s\<lparr>cs_sent := int32 (cs_sent s + 1)\<rparr>, True))"

text \<open>The checks of \<open>queueForCrawl\<close>, up to the test whether the URL was visited.\<close>

datatype queue_check = Rejected scope_error | Skipped | Fresh

definition queue_checks :: "crawler \<Rightarrow> string \<Rightarrow> int \<Rightarrow> crawl_state \<Rightarrow> queue_check" where
  "queue_checks c url depth s =
     (if cc_max_depth (cw_config c) < depth then Skipped
      else case MatchAnyScope url (cw_scopes c) of
          Inl e \<Rightarrow> Rejected e
        | Inr inScope \<Rightarrow>
            if \<not> inScope \<or> isExcluded c url \<or> AlreadyVisited url s then Skipped else Fresh)"

text \<open>\<open>queueForCrawl\<close> with nothing in between, as \<open>Crawl\<close> runs it for the seeds.\<close>

definition queueForCrawl :: "crawler \<Rightarrow> string \<Rightarrow> int \<Rightarrow> crawl_state \<Rightarrow> (scope_error, crawl_state) result" where
  "queueForCrawl c url depth s = (case queue_checks c url depth s of
       Rejected e \<Rightarrow> Inl e
     | Skipped \<Rightarrow> Inr s
     | Fresh \<Rightarrow> Inr (QueuePage url depth (AddToVisited url s)))"

fun queue_seeds :: "crawler \<Rightarrow> string list \<Rightarrow> crawl_state \<Rightarrow> (scope_error, crawl_state) result" where
  "queue_seeds c [] s = Inr s"
| "queue_seeds c (url # urls) s = (case queueForCrawl c url 0 s of
       Inl e \<Rightarrow> Inl e
     | Inr s' \<Rightarrow> queue_seeds c urls s')"

definition new_run :: "int \<Rightarrow> crawl_state" where
  "new_run sent = \<lparr>cs_queue = [], cs_active = [], cs_visited = [], cs_work_count = 0, cs_sent = sent,
     cs_cancelled = False, cs_failed = False, cs_closed = False, cs_requests = [], cs_found = []\<rparr>"

text \<open>The redirects that the crawler's HTTP client follows.\<close>

definition crawl_options :: "regexp list \<Rightarrow> regexp list \<Rightarrow> crawl_scope list \<Rightarrow> (url \<Rightarrow> string) \<Rightarrow> client_options" where
  "crawl_options defaults exclusions scopes url_String =
     (DefaultClientOptions defaults)\<lparr>ForbiddenPaths := exclusions,
        AllowRedirect := Some (\<lambda>target. MatchAnyScope (url_String target) scopes = Inr True)\<rparr>"

text \<open>
  The start of \<open>Crawl\<close>, up to the watcher: the scopes are loaded and the seeds are queued. A nil
  callback and a client that cannot be made are the other errors.
\<close>

datatype crawl_error = ErrNoCallback | ErrCrawlRequest | ErrScope scope_error

definition crawl_start :: "crawler \<Rightarrow> bool \<Rightarrow> bool \<Rightarrow> int \<Rightarrow> string list
    \<Rightarrow> (crawl_error, crawler \<times> crawl_state) result" where
  "crawl_start base has_callback client_ok sent urls =
     (if \<not> has_callback then Inl ErrNoCallback
      else case scope_Load (cc_scopes (cw_config base)) (cc_policy (cw_config base)) urls of
          Inl e \<Rightarrow> Inl (ErrScope e)
        | Inr scopes \<Rightarrow>
            if \<not> client_ok then Inl ErrCrawlRequest
            else let c = base\<lparr>cw_scopes := scopes\<rparr> in
              case queue_seeds c urls (new_run sent) of
                Inl e \<Rightarrow> Inl (ErrScope e)
              | Inr s \<Rightarrow> Inr (c, s))"

definition processResponse :: "crawler \<Rightarrow> page_info \<Rightarrow> string \<Rightarrow> crawl_state \<Rightarrow> work \<times> crawl_state" where
  "processResponse c page content s =
     (if cw_callback c page content then (Ending True, s)
      else case ExtractLinksFromHTML (cw_html c) (pg_url page) content of
          Inl _ \<Rightarrow> (Ending False, s)
        | Inr links \<Rightarrow> (Linking links, s\<lparr>cs_found := cs_found s @ [(page, links)]\<rparr>))"

definition fetch_page :: "crawler \<Rightarrow> page_info \<Rightarrow> crawl_state \<Rightarrow> work \<times> crawl_state" where
  "fetch_page c page s =
     (let s' = s\<lparr>cs_requests := cs_requests s @ [pg_url page]\<rparr> in
      case cw_fetch c (length (cs_requests s)) (pg_url page) of
        RequestFailed e \<Rightarrow> (Ending (e \<noteq> DeadlineExceeded), s')
      | Response body ending \<Rightarrow>
          (case ReadBody (body, ending) (nat (cc_max_page_size (cw_config c))) of
             Inl ErrPageTooBig \<Rightarrow> (Ending False, s')
           | Inl EOF \<Rightarrow> (Ending False, s')
           | Inl (BodyError e) \<Rightarrow> (Ending (e \<noteq> DeadlineExceeded), s')
           | Inr content \<Rightarrow> processResponse c page content s'))"

text \<open>A step of \<open>crawlPage\<close> by the worker of a page; the step that ends it is not one of these.\<close>

fun crawlPage_step :: "crawler \<Rightarrow> page_info \<Rightarrow> work \<Rightarrow> crawl_state \<Rightarrow> work \<times> crawl_state" where
  "crawlPage_step c page Start s =
     (if cs_cancelled s \<or> url_Parse (pg_url page) = None then (Ending True, s)
      else case checkAndIncreaseRequestCount (cw_config c) s of
          (s', True) \<Rightarrow> (Fetching, s')
        | (s', False) \<Rightarrow> (Ending False, s'))"
| "crawlPage_step c page Fetching s = fetch_page c page s"
| "crawlPage_step c page (Linking []) s = (Ending False, s)"
| "crawlPage_step c page (Linking (link # links)) s =
     (case queue_checks c link (int32 (pg_depth page + 1)) s of
        Rejected e \<Rightarrow> (Ending True, s)
      | Skipped \<Rightarrow> (Linking links, s)
      | Fresh \<Rightarrow> (Adding link links, s))"
| "crawlPage_step c page (Adding link links) s = (Queueing link links, AddToVisited link s)"
| "crawlPage_step c page (Queueing link links) s =
     (Linking links, QueuePage link (int32 (pg_depth page + 1)) s)"
| "crawlPage_step c page (Ending failed) s = (Ending failed, s)"

text \<open>The loop of \<open>Crawl\<close> may start a worker: \<open>SetLimit\<close> with a negative limit means no limit.\<close>

definition slot_free :: "crawler_config \<Rightarrow> crawl_state \<Rightarrow> bool" where
  "slot_free cfg s = (cc_max_concurrency cfg < 0 \<or> int (length (cs_active s)) < cc_max_concurrency cfg)"

inductive crawl_step :: "crawler \<Rightarrow> crawl_state \<Rightarrow> crawl_state \<Rightarrow> bool" for c where
  dispatch: "cs_queue s = qs @ page # qs' \<Longrightarrow> slot_free (cw_config c) s \<Longrightarrow>
    crawl_step c s (s\<lparr>cs_queue := qs @ qs', cs_active := cs_active s @ [(page, Start)]\<rparr>)"
| work: "cs_active s = as @ (page, w) # as' \<Longrightarrow> (\<And>failed. w \<noteq> Ending failed) \<Longrightarrow>
    crawlPage_step c page w s = (w', s') \<Longrightarrow>
    crawl_step c s (s'\<lparr>cs_active := as @ (page, w') # as'\<rparr>)"
| finish: "cs_active s = as @ (page, Ending failed) # as' \<Longrightarrow>
    crawl_step c s ((PageDone s)\<lparr>cs_active := as @ as', cs_failed := cs_failed s \<or> failed,
      cs_cancelled := cs_cancelled s \<or> failed\<rparr>)"
| watcher: "\<not> cs_closed s \<Longrightarrow> CountPending s = 0 \<Longrightarrow> crawl_step c s (s\<lparr>cs_closed := True\<rparr>)"
| cancel: "\<not> cs_cancelled s \<Longrightarrow> crawl_step c s (s\<lparr>cs_cancelled := True\<rparr>)"

inductive_cases crawl_stepE: "crawl_step c s s'"




section \<open>What a step of a worker changes\<close>

definition spawns :: "page_info \<Rightarrow> work \<Rightarrow> page_info list" where
  "spawns p w = (case w of Queueing l ls \<Rightarrow> [\<lparr>pg_url = l, pg_depth = int32 (pg_depth p + 1)\<rparr>] | _ \<Rightarrow> [])"

lemma fetch_page_frame:
  assumes "fetch_page c p s = (w', s')"
  shows "cs_queue s' = cs_queue s" "cs_work_count s' = cs_work_count s" "cs_visited s' = cs_visited s"
    "cs_sent s' = cs_sent s" "cs_closed s' = cs_closed s" "cs_failed s' = cs_failed s" "cs_cancelled s' = cs_cancelled s"
    "cs_active s' = cs_active s" "cs_requests s' = cs_requests s @ [pg_url p]"
    "(\<exists>b. w' = Ending b \<and> cs_found s' = cs_found s) \<or> (\<exists>ls. w' = Linking ls \<and> cs_found s' = cs_found s @ [(p, ls)])"
  using assms
  by (auto simp: fetch_page_def processResponse_def Let_def
      split: fetch_outcome.splits sum.splits read_error.splits if_splits)

lemma crawlPage_step_frame:
  assumes "crawlPage_step c p w s = (w', s')"
  shows "cs_queue s' = cs_queue s @ spawns p w" "cs_work_count s' = cs_work_count s + int (length (spawns p w))"
    "cs_closed s' = cs_closed s" "cs_failed s' = cs_failed s" "cs_cancelled s' = cs_cancelled s" "cs_active s' = cs_active s"
    "set (cs_visited s) \<subseteq> set (cs_visited s')" "distinct (cs_visited s) \<Longrightarrow> distinct (cs_visited s')"
    "cs_requests s' = cs_requests s @ (if w = Fetching then [pg_url p] else [])"
    "w \<noteq> Fetching \<Longrightarrow> cs_found s' = cs_found s"
  using assms fetch_page_frame
  by (cases "(c, p, w, s)" rule: crawlPage_step.cases;
      force simp: spawns_def QueuePage_def AddToVisited_def checkAndIncreaseRequestCount_def
        split: if_splits queue_check.splits prod.splits bool.splits)+

section \<open>The invariant\<close>

definition eligible :: "crawler \<Rightarrow> string \<Rightarrow> bool" where
  "eligible c url = (MatchAnyScope url (cw_scopes c) = Inr True \<and> \<not> isExcluded c url)"

definition visited :: "crawl_state \<Rightarrow> string \<Rightarrow> bool" where
  "visited s url = (normalizeURL url \<in> set (cs_visited s))"

definition page_ok :: "crawler \<Rightarrow> crawl_state \<Rightarrow> page_info \<Rightarrow> bool" where
  "page_ok c s p = (eligible c (pg_url p) \<and> pg_depth p \<le> cc_max_depth (cw_config c) \<and> visited s (pg_url p))"

definition work_ok :: "crawler \<Rightarrow> crawl_state \<Rightarrow> page_info \<Rightarrow> work \<Rightarrow> bool" where
  "work_ok c s p w = (page_ok c s p \<and> (case w of
       Adding l ls \<Rightarrow> eligible c l \<and> int32 (pg_depth p + 1) \<le> cc_max_depth (cw_config c)
     | Queueing l ls \<Rightarrow> page_ok c s \<lparr>pg_url = l, pg_depth = int32 (pg_depth p + 1)\<rparr>
     | _ \<Rightarrow> True))"

definition count_inv :: "crawl_state \<Rightarrow> bool" where
  "count_inv s = (cs_work_count s = int (length (cs_queue s) + length (cs_active s))
     \<and> (cs_closed s \<longrightarrow> cs_queue s = [] \<and> cs_active s = []) \<and> distinct (cs_visited s))"

definition pages_inv :: "crawler \<Rightarrow> crawl_state \<Rightarrow> bool" where
  "pages_inv c s = (list_all (page_ok c s) (cs_queue s) \<and> list_all (\<lambda>(p, w). work_ok c s p w) (cs_active s)
     \<and> list_all (\<lambda>u. eligible c u \<and> visited s u) (cs_requests s))"

lemma queue_checks_Fresh:
  "queue_checks c url depth s = Fresh \<Longrightarrow> eligible c url \<and> depth \<le> cc_max_depth (cw_config c)"
  by (auto simp: queue_checks_def eligible_def split: if_splits sum.splits)

lemma queue_checks_Skipped:
  "queue_checks c url depth s = Skipped \<Longrightarrow> eligible c url \<Longrightarrow> depth \<le> cc_max_depth (cw_config c) \<Longrightarrow> visited s url"
  by (auto simp: queue_checks_def eligible_def visited_def AlreadyVisited_def split: if_splits sum.splits)

lemma visited_mono: "set (cs_visited s) \<subseteq> set (cs_visited s') \<Longrightarrow> visited s u \<Longrightarrow> visited s' u"
  by (auto simp: visited_def)

lemma page_ok_mono: "set (cs_visited s) \<subseteq> set (cs_visited s') \<Longrightarrow> page_ok c s p \<Longrightarrow> page_ok c s' p"
  by (auto simp: page_ok_def dest: visited_mono)

lemma work_ok_mono: "set (cs_visited s) \<subseteq> set (cs_visited s') \<Longrightarrow> work_ok c s p w \<Longrightarrow> work_ok c s' p w"
  by (auto simp: work_ok_def dest: page_ok_mono split: work.splits)

lemma work_ok_Start [simp]: "work_ok c s p Start = page_ok c s p"
  by (simp add: work_ok_def)

lemma same_visited:
  assumes "cs_visited s' = cs_visited s"
  shows "visited s' = visited s" "page_ok c s' = page_ok c s" "work_ok c s' = work_ok c s"
proof -
  show v: "visited s' = visited s" using assms by (simp add: fun_eq_iff visited_def)
  show p: "page_ok c s' = page_ok c s" by (simp add: fun_eq_iff page_ok_def v)
  show "work_ok c s' = work_ok c s" by (simp add: fun_eq_iff work_ok_def p cong: work.case_cong)
qed

lemma count_inv_step: "crawl_step c s s' \<Longrightarrow> count_inv s \<Longrightarrow> count_inv s'"
proof (induction rule: crawl_step.induct)
  case (work s as page w as' w' s')
  note f = crawlPage_step_frame [OF work.hyps(3)]
  have "\<not> cs_closed s" using work by (auto simp: count_inv_def)
  with work f(1-8) show ?case by (auto simp: count_inv_def)
next
  case (watcher s)
  then have "int (length (cs_queue s) + length (cs_active s)) = 0" by (simp add: count_inv_def CountPending_def)
  with watcher show ?case by (simp add: count_inv_def CountPending_def del: of_nat_add)
qed (auto simp: count_inv_def PageDone_def)

text \<open>The state of a worker after its step, in the state after the step.\<close>

lemma work_ok_step:
  assumes "crawlPage_step c p w s = (w', s')" and "work_ok c s p w"
  shows "work_ok c s' p w'"
proof -
  have p: "page_ok c s' p"
    using assms page_ok_mono [OF crawlPage_step_frame(7) [OF assms(1)]] by (simp add: work_ok_def)
  show ?thesis
  proof (cases w)
    case Start
    with assms(1) p show ?thesis
      by (auto simp: work_ok_def split: if_splits prod.splits bool.splits)
  next
    case Fetching
    with assms(1) fetch_page_frame(10) [of c p s w' s'] p show ?thesis by (auto simp: work_ok_def)
  next
    case (Linking ls)
    with assms p show ?thesis
      by (cases ls) (auto simp: work_ok_def dest: queue_checks_Fresh split: queue_check.splits)
  next
    case (Adding l ls)
    with assms p show ?thesis
      by (auto simp: work_ok_def page_ok_def visited_def AddToVisited_def)
  next
    case (Queueing l ls)
    with assms(1) p show ?thesis by (auto simp: work_ok_def)
  next
    case (Ending b)
    with assms(1) p show ?thesis by (auto simp: work_ok_def)
  qed
qed

lemma pages_inv_step: "crawl_step c s s' \<Longrightarrow> pages_inv c s \<Longrightarrow> pages_inv c s'"
proof (induction rule: crawl_step.induct)
  case (work s as page w as' w' s')
  note f = crawlPage_step_frame [OF work.hyps(3)]
  let ?t = "s'\<lparr>cs_active := as @ (page, w') # as'\<rparr>"
  have sub: "set (cs_visited s) \<subseteq> set (cs_visited ?t)" using f(7) by simp
  have w: "work_ok c s page w" using work by (simp add: pages_inv_def)
  have same: "work_ok c s' = work_ok c ?t" by (rule same_visited(3) [symmetric]) simp
  have "list_all (\<lambda>(p, w). work_ok c s p w) (as @ as')" using work by (simp add: pages_inv_def)
  then have "list_all (\<lambda>(p, w). work_ok c ?t p w) (as @ as')"
    by (rule list.pred_mono_strong) (auto dest: work_ok_mono [OF sub])
  moreover have "list_all (page_ok c ?t) (cs_queue s)" "list_all (\<lambda>u. eligible c u \<and> visited ?t u) (cs_requests s)"
    using work page_ok_mono [OF sub] visited_mono [OF sub] by (auto simp: pages_inv_def list_all_iff)
  moreover have "list_all (page_ok c ?t) (spawns page w)"
    using w page_ok_mono [OF sub] by (cases w) (auto simp: spawns_def work_ok_def)
  moreover have "work_ok c ?t page w'"
    using work_ok_step [OF work.hyps(3) w] unfolding same .
  moreover have "eligible c (pg_url page) \<and> visited ?t (pg_url page)"
    using w visited_mono [OF sub] by (simp add: work_ok_def page_ok_def)
  ultimately show ?case using f(1,9) by (auto simp: pages_inv_def)
next
  case (dispatch s qs page qs')
  let ?t = "s\<lparr>cs_queue := qs @ qs', cs_active := cs_active s @ [(page, Start)]\<rparr>"
  have "cs_visited ?t = cs_visited s" by simp
  note same = same_visited [OF this]
  show ?case unfolding pages_inv_def same using dispatch by (simp add: pages_inv_def)
next
  case (finish s as page failed as')
  let ?t = "(PageDone s)\<lparr>cs_active := as @ as', cs_failed := cs_failed s \<or> failed, cs_cancelled := cs_cancelled s \<or> failed\<rparr>"
  have "cs_visited ?t = cs_visited s" by (simp add: PageDone_def)
  note same = same_visited [OF this]
  show ?case unfolding pages_inv_def same using finish by (simp add: pages_inv_def PageDone_def)
next
  case (watcher s)
  have "cs_visited (s\<lparr>cs_closed := True\<rparr>) = cs_visited s" by simp
  note same = same_visited [OF this]
  show ?case unfolding pages_inv_def same using watcher by (simp add: pages_inv_def)
next
  case (cancel s)
  have "cs_visited (s\<lparr>cs_cancelled := True\<rparr>) = cs_visited s" by simp
  note same = same_visited [OF this]
  show ?case unfolding pages_inv_def same using cancel by (simp add: pages_inv_def)
qed

section \<open>The budget and the links that were found\<close>

definition in_flight :: "crawl_state \<Rightarrow> nat" where
  "in_flight s = length (filter (\<lambda>(p, w). w = Fetching) (cs_active s))"

definition budget_inv :: "crawler \<Rightarrow> int \<Rightarrow> crawl_state \<Rightarrow> bool" where
  "budget_inv c sent0 s = (int (length (cs_requests s)) + int (in_flight s) = cs_sent s - sent0
     \<and> cs_sent s \<le> max sent0 (cc_max_requests (cw_config c)))"

definition pending :: "work \<Rightarrow> string list" where
  "pending w = (case w of Linking ls \<Rightarrow> ls | Adding l ls \<Rightarrow> l # ls | Queueing l ls \<Rightarrow> ls | _ \<Rightarrow> [])"

definition owed :: "crawl_state \<Rightarrow> page_info \<Rightarrow> string \<Rightarrow> bool" where
  "owed s p l = (cs_failed s \<or> (\<exists>w. (p, w) \<in> set (cs_active s) \<and> (w = Ending True \<or> l \<in> set (pending w))))"

definition wanted :: "crawler \<Rightarrow> page_info \<Rightarrow> string \<Rightarrow> bool" where
  "wanted c p l = (eligible c l \<and> int32 (pg_depth p + 1) \<le> cc_max_depth (cw_config c))"

definition found_inv :: "crawler \<Rightarrow> crawl_state \<Rightarrow> bool" where
  "found_inv c s = (\<forall>p ls l. (p, ls) \<in> set (cs_found s) \<longrightarrow> l \<in> set ls \<longrightarrow> wanted c p l \<longrightarrow> visited s l \<or> owed s p l)"

lemma int32_id: "- (2 ^ 31) \<le> n \<Longrightarrow> n < 2 ^ 31 \<Longrightarrow> int32 n = n"
  by (simp add: int32_def signed_take_bit_int_eq_self)

lemma crawlPage_step_sent:
  assumes "crawlPage_step c p w s = (w', s')" and "0 \<le> cs_sent s" and "cs_sent s < 2 ^ 31 - 1"
  shows "cs_sent s' = cs_sent s + (if w' = Fetching then 1 else 0) \<and> (w' = Fetching \<longrightarrow> w = Start \<and> cs_sent s' \<le> cc_max_requests (cw_config c))
    \<or> w = Ending True \<or> w = Ending False"
proof (cases w)
  case Start
  have "int32 (cs_sent s + 1) = cs_sent s + 1" using assms(2,3) by (intro int32_id) simp_all
  with Start assms(1) show ?thesis
    by (auto simp: checkAndIncreaseRequestCount_def split: if_splits)
next
  case Fetching
  with assms(1) fetch_page_frame(4,10) [of c p s w' s'] show ?thesis by auto
next
  case (Linking ls)
  with assms(1) show ?thesis by (cases ls) (auto split: queue_check.splits)
next
  case (Ending b)
  then show ?thesis by (cases b) auto
qed (use assms(1) in \<open>auto simp: AddToVisited_def QueuePage_def\<close>)

lemma budget_inv_step:
  assumes "crawl_step c s s'" and "budget_inv c sent0 s"
    and "0 \<le> sent0" and "sent0 < 2 ^ 31 - 1" and "cc_max_requests (cw_config c) < 2 ^ 31 - 1"
  shows "budget_inv c sent0 s'"
  using assms
proof (induction rule: crawl_step.induct)
  case (work s as page w as' w' s')
  have sent: "0 \<le> cs_sent s" "cs_sent s < 2 ^ 31 - 1"
    using work.prems by (auto simp: budget_inv_def)
  show ?case
    using crawlPage_step_sent [OF work.hyps(3) sent] crawlPage_step_frame(9) [OF work.hyps(3)] work.hyps(1,2) work.prems(1)
    by (auto simp: budget_inv_def in_flight_def)
qed (auto simp: budget_inv_def in_flight_def PageDone_def)

lemma owed_mono:
  assumes "cs_failed s \<Longrightarrow> cs_failed s'" and "set (cs_active s) \<subseteq> set (cs_active s')" and "owed s p l"
  shows "owed s' p l"
  using assms by (auto simp: owed_def)

lemma pending_step:
  assumes "crawlPage_step c p w s = (w', s')" and "l \<in> set (pending w)" and "wanted c p l"
  shows "visited s' l \<or> w' = Ending True \<or> l \<in> set (pending w')"
proof (cases w)
  case (Linking ls)
  with assms(2) obtain l' ls' where ls: "ls = l' # ls'" by (cases ls) (auto simp: pending_def)
  with Linking assms show ?thesis
    using queue_checks_Skipped [of c l' "int32 (pg_depth p + 1)" s]
    by (auto simp: pending_def wanted_def split: queue_check.splits)
qed (use assms in \<open>auto simp: pending_def visited_def AddToVisited_def\<close>)

lemma found_inv_step: "crawl_step c s s' \<Longrightarrow> found_inv c s \<Longrightarrow> found_inv c s'"
proof (induction rule: crawl_step.induct)
  case (work s as page w as' w' s')
  note f = crawlPage_step_frame [OF work.hyps(3)]
  let ?t = "s'\<lparr>cs_active := as @ (page, w') # as'\<rparr>"
  have vis: "visited s l \<Longrightarrow> visited ?t l" for l using visited_mono [of s ?t] f(7) by simp
  show ?case unfolding found_inv_def
  proof (intro allI impI)
    fix p ls l
    assume entry: "(p, ls) \<in> set (cs_found ?t)" "l \<in> set ls" "wanted c p l"
    show "visited ?t l \<or> owed ?t p l"
    proof (cases "(p, ls) \<in> set (cs_found s)")
      case True
      with work.prems entry have "visited s l \<or> owed s p l" by (auto simp: found_inv_def)
      then consider "visited s l" | "cs_failed s" | (here) "p = page" "l \<in> set (pending w)"
        | (other) w0 where "(p, w0) \<in> set (as @ as')" "w0 = Ending True \<or> l \<in> set (pending w0)"
        using work.hyps(1,2) by (auto simp: owed_def)
      then show ?thesis
      proof cases
        case here
        with pending_step [OF work.hyps(3) here(2)] entry(3) show ?thesis by (auto simp: owed_def visited_def)
      qed (use vis f(4) in \<open>auto simp: owed_def\<close>)
    next
      case False
      have "(p, ls) \<in> set (cs_found s')" using entry(1) by simp
      with False f(10) have "w = Fetching" by metis
      with False entry(1) work.hyps(3) fetch_page_frame(10) [of c page s w' s'] have "w' = Linking ls" "p = page" by auto
      with entry(2) show ?thesis by (auto simp: owed_def pending_def)
    qed
  qed
next
  case (finish s as page failed as')
  let ?t = "(PageDone s)\<lparr>cs_active := as @ as', cs_failed := cs_failed s \<or> failed, cs_cancelled := cs_cancelled s \<or> failed\<rparr>"
  have "owed ?t p l" if "owed s p l" for p l
    using that finish.hyps by (auto simp: owed_def pending_def)
  moreover have "cs_found ?t = cs_found s" "visited ?t = visited s"
    by (simp_all add: PageDone_def visited_def fun_eq_iff)
  ultimately show ?case using finish.prems unfolding found_inv_def by metis
next
  case (dispatch s qs page qs')
  let ?t = "s\<lparr>cs_queue := qs @ qs', cs_active := cs_active s @ [(page, Start)]\<rparr>"
  have "owed ?t p l" if "owed s p l" for p l
    using owed_mono [of s ?t p l] that by auto
  moreover have "cs_found ?t = cs_found s" "visited ?t = visited s"
    by (simp_all add: visited_def fun_eq_iff)
  ultimately show ?case using dispatch.prems unfolding found_inv_def by metis
qed (auto simp: found_inv_def owed_def visited_def)

section \<open>Reachable states\<close>

lemma queue_seeds_inv:
  "queue_seeds c urls s = Inr s' \<Longrightarrow> count_inv s \<Longrightarrow> pages_inv c s \<Longrightarrow> cs_active s = [] \<Longrightarrow> \<not> cs_closed s \<Longrightarrow>
    count_inv s' \<and> pages_inv c s' \<and> cs_active s' = [] \<and> \<not> cs_closed s' \<and> cs_sent s' = cs_sent s
      \<and> cs_requests s' = cs_requests s \<and> cs_found s' = cs_found s"
proof (induction urls arbitrary: s)
  case (Cons url urls)
  show ?case
  proof (cases "queue_checks c url 0 s")
    case Fresh
    let ?t = "QueuePage url 0 (AddToVisited url s)"
    have sub: "set (cs_visited s) \<subseteq> set (cs_visited ?t)" by (auto simp: QueuePage_def AddToVisited_def)
    have "count_inv ?t" using Cons.prems by (auto simp: count_inv_def QueuePage_def AddToVisited_def)
    moreover have "pages_inv c ?t"
    proof -
      have "list_all (page_ok c ?t) (cs_queue s)" "list_all (\<lambda>u. eligible c u \<and> visited ?t u) (cs_requests s)"
        using Cons.prems page_ok_mono [OF sub] visited_mono [OF sub] by (auto simp: pages_inv_def list_all_iff)
      moreover have "page_ok c ?t \<lparr>pg_url = url, pg_depth = 0\<rparr>"
        using queue_checks_Fresh [OF Fresh] by (auto simp: page_ok_def visited_def QueuePage_def AddToVisited_def)
      ultimately show ?thesis using Cons.prems by (simp add: pages_inv_def QueuePage_def AddToVisited_def)
    qed
    moreover have "queue_seeds c urls ?t = Inr s'" using Cons.prems Fresh by (simp add: queueForCrawl_def)
    ultimately show ?thesis
      using Cons.IH [of ?t] Cons.prems by (simp add: QueuePage_def AddToVisited_def)
  qed (use Cons in \<open>auto simp: queueForCrawl_def\<close>)
qed simp

lemma crawl_start_inv:
  assumes "crawl_start base hc ok sent0 urls = Inr (c, s)"
  shows "count_inv s" "pages_inv c s" "cs_sent s = sent0" "cs_requests s = []" "cs_found s = []" "cs_active s = []"
    "cw_config c = cw_config base"
proof -
  obtain scopes where q: "queue_seeds c urls (new_run sent0) = Inr s" "c = base\<lparr>cw_scopes := scopes\<rparr>"
    using assms by (auto simp: crawl_start_def Let_def split: if_splits sum.splits)
  have "count_inv (new_run sent0)" "pages_inv c (new_run sent0)" "cs_active (new_run sent0) = []" "\<not> cs_closed (new_run sent0)"
    by (simp_all add: new_run_def count_inv_def pages_inv_def)
  from queue_seeds_inv [OF q(1) this] q(2)
  show "count_inv s" "pages_inv c s" "cs_sent s = sent0" "cs_requests s = []" "cs_found s = []" "cs_active s = []"
    "cw_config c = cw_config base"
    by (simp_all add: new_run_def)
qed

lemma reachable_inv:
  assumes "crawl_start base hc ok sent0 urls = Inr (c, s0)" and "(crawl_step c)\<^sup>*\<^sup>* s0 s"
  shows "count_inv s \<and> pages_inv c s \<and> found_inv c s"
  using assms(2)
proof (induction rule: rtranclp_induct)
  case base
  from crawl_start_inv [OF assms(1)] show ?case by (simp add: found_inv_def)
next
  case (step s s')
  then show ?case using count_inv_step pages_inv_step found_inv_step by blast
qed

lemma reachable_budget:
  assumes "crawl_start base hc ok sent0 urls = Inr (c, s0)" and "(crawl_step c)\<^sup>*\<^sup>* s0 s"
    and "0 \<le> sent0" and "sent0 < 2 ^ 31 - 1" and "cc_max_requests (cw_config base) < 2 ^ 31 - 1"
  shows "budget_inv c sent0 s"
  using assms(2)
proof (induction rule: rtranclp_induct)
  case base
  from crawl_start_inv [OF assms(1)] show ?case by (simp add: budget_inv_def in_flight_def)
next
  case (step s s')
  with budget_inv_step [OF step.hyps(2)] assms(3-5) crawl_start_inv(7) [OF assms(1)] show ?case by simp
qed

text \<open>C1. In every state that any interleaving of the workers reaches, the queue is closed only when no
  page waits or is in progress, so no goroutine ever sends on a closed channel; the work count is
  exactly the number of those pages; the requests stay within what the budget, shared by all
  crawls, has left; and every URL that was requested is in scope, not excluded and marked as
  visited, at a depth within the limit.\<close>

theorem crawl_safe:
  assumes "crawl_start base True ok sent0 urls = Inr (c, s0)" and "(crawl_step c)\<^sup>*\<^sup>* s0 s"
    and "0 \<le> sent0" and "sent0 < 2 ^ 31 - 1" and "cc_max_requests (cw_config base) < 2 ^ 31 - 1"
  shows "(cs_closed s \<longrightarrow> cs_queue s = [] \<and> cs_active s = [])
    \<and> CountPending s = int (length (cs_queue s) + length (cs_active s))
    \<and> int (length (cs_requests s)) \<le> max 0 (cc_max_requests (cw_config base) - sent0)
    \<and> list_all (\<lambda>u. MatchAnyScope u (cw_scopes c) = Inr True \<and> \<not> isExcluded c u \<and> AlreadyVisited u s) (cs_requests s)
    \<and> list_all (\<lambda>p. pg_depth p \<le> cc_max_depth (cw_config base)) (cs_queue s @ map fst (cs_active s))
    \<and> distinct (cs_visited s)"
proof -
  note inv = reachable_inv [OF assms(1,2)]
  have "int (length (cs_requests s)) \<le> max 0 (cc_max_requests (cw_config base) - sent0)"
    using reachable_budget [OF assms] crawl_start_inv(7) [OF assms(1)] by (auto simp: budget_inv_def)
  moreover have "list_all (\<lambda>p. pg_depth p \<le> cc_max_depth (cw_config base)) (cs_queue s @ map fst (cs_active s))"
    using inv crawl_start_inv(7) [OF assms(1)]
    by (auto simp: pages_inv_def list_all_iff page_ok_def work_ok_def)
  ultimately show ?thesis
    using inv by (auto simp: count_inv_def pages_inv_def CountPending_def eligible_def visited_def AlreadyVisited_def list_all_iff)
qed

section \<open>Termination\<close>



definition entry_order :: "((nat \<times> nat \<times> nat) \<times> (nat \<times> nat \<times> nat)) set" where
  "entry_order = less_than <*lex*> less_than <*lex*> less_than"





lemma trans_entry_order: "trans entry_order"
  by (simp add: entry_order_def trans_lex_prod)











section \<open>A race, and a limit that blocks\<close>

text \<open>
  The test and the marking of a URL are two sections: two workers that both find the same new link
  before one of them marks it queue it twice, and it is requested twice.
\<close>

lemma crawl_duplicate_race:
  assumes "cs_active s = [(p, Linking (l # ls)), (q, Linking (l # ls'))]"
    and "queue_checks c l (int32 (pg_depth p + 1)) s = Fresh" and "queue_checks c l (int32 (pg_depth q + 1)) s = Fresh"
  shows "\<exists>s'. (crawl_step c)\<^sup>*\<^sup>* s s' \<and> map pg_url (cs_queue s') = map pg_url (cs_queue s) @ [l, l]"
proof -
  let ?p = "\<lparr>pg_url = l, pg_depth = int32 (pg_depth p + 1)\<rparr>" and ?q = "\<lparr>pg_url = l, pg_depth = int32 (pg_depth q + 1)\<rparr>"
  let ?s1 = "s\<lparr>cs_active := [] @ (p, Adding l ls) # [(q, Linking (l # ls'))]\<rparr>"
  let ?s2 = "?s1\<lparr>cs_active := [(p, Adding l ls)] @ (q, Adding l ls') # []\<rparr>"
  let ?s3 = "(AddToVisited l ?s2)\<lparr>cs_active := [] @ (p, Queueing l ls) # [(q, Adding l ls')]\<rparr>"
  let ?s4 = "(AddToVisited l ?s3)\<lparr>cs_active := [(p, Queueing l ls)] @ (q, Queueing l ls') # []\<rparr>"
  let ?s5 = "(QueuePage l (int32 (pg_depth p + 1)) ?s4)\<lparr>cs_active := [] @ (p, Linking ls) # [(q, Queueing l ls')]\<rparr>"
  let ?s6 = "(QueuePage l (int32 (pg_depth q + 1)) ?s5)\<lparr>cs_active := [(p, Linking ls)] @ (q, Linking ls') # []\<rparr>"
  have "queue_checks c l (int32 (pg_depth q + 1)) ?s1 = Fresh"
    using assms(3) by (auto simp: queue_checks_def AlreadyVisited_def split: if_splits sum.splits)
  then have "crawl_step c ?s1 ?s2"
    by (intro crawl_step.work [of ?s1 "[(p, Adding l ls)]" q "Linking (l # ls')" "[]"]) simp_all
  moreover have "crawl_step c s ?s1"
    by (rule crawl_step.work [of s "[]" p "Linking (l # ls)" "[(q, Linking (l # ls'))]"]) (simp_all add: assms)
  moreover have "crawl_step c ?s2 ?s3"
    by (rule crawl_step.work [of ?s2 "[]" p "Adding l ls" "[(q, Adding l ls')]"]) simp_all
  moreover have "crawl_step c ?s3 ?s4"
    by (rule crawl_step.work [of ?s3 "[(p, Queueing l ls)]" q "Adding l ls'" "[]"]) simp_all
  moreover have "crawl_step c ?s4 ?s5"
    by (rule crawl_step.work [of ?s4 "[]" p "Queueing l ls" "[(q, Queueing l ls')]"]) simp_all
  moreover have "crawl_step c ?s5 ?s6"
    by (rule crawl_step.work [of ?s5 "[(p, Linking ls)]" q "Queueing l ls'" "[]"]) simp_all
  ultimately have "(crawl_step c)\<^sup>*\<^sup>* s ?s6"
    by (elim converse_rtranclp_into_rtranclp) (rule rtranclp.rtrancl_refl)
  moreover have "map pg_url (cs_queue ?s6) = map pg_url (cs_queue s) @ [l, l]"
    by (simp add: QueuePage_def AddToVisited_def)
  ultimately show ?thesis by blast
qed

text \<open>\<open>SetLimit(0)\<close> blocks every \<open>group.Go\<close>: a page that waits is never crawled.\<close>

lemma crawl_concurrency_zero:
  assumes "(crawl_step c)\<^sup>*\<^sup>* s0 s" and "cc_max_concurrency (cw_config c) = 0" and "cs_active s0 = []"
  shows "cs_active s = [] \<and> cs_queue s = cs_queue s0"
  using assms(1)
proof (induction rule: rtranclp_induct)
  case base
  from assms(3) show ?case by simp
next
  case (step s s')
  from step.hyps(2) step.IH assms(2) show ?case
    by (cases rule: crawl_step.cases) (auto simp: slot_free_def)
qed

section \<open>Witnesses\<close>

definition sample_crawler :: crawler where
  "sample_crawler = \<lparr>cw_config = DefaultClientConfig [], cw_exclusions = [], cw_scopes = [],
     cw_fetch = \<lambda>_ _. RequestFailed DeadlineExceeded, cw_callback = \<lambda>_ _. False, cw_html = \<lambda>_. Inr []\<rparr>"

definition sample_scopes :: "crawl_scope list" where
  "sample_scopes = [\<lparr>sc_domain = ''h'', sc_path = ''/''\<rparr>]"

definition sample_page :: page_info where
  "sample_page = \<lparr>pg_url = ''http://h/'', pg_depth = 0\<rparr>"

definition sample_seeded :: crawl_state where
  "sample_seeded = QueuePage ''http://h/'' 0 (AddToVisited ''http://h/'' (new_run 7))"

lemma parse_sample: "url_Parse ''http://h/'' = Some \<lparr>u_scheme = ''http'', u_host = ''h'', u_path = ''/'', u_raw_query = []\<rparr>"
proof -
  have "unreserved CHR ''h''" by (simp add: unreserved_def is_letter_def is_lower_def char_code_def)
  then have "plain_authority ''h''"
    unfolding plain_authority_def by (intro exI [of _ "''h''"] exI [of _ "[]"]) simp
  from url_Parse_plain [OF _ this, of "''http''" "''/''" "[]"] show ?thesis by simp
qed

lemma sample_start:
  "crawl_start sample_crawler True True 7 [''http://h/''] = Inr (sample_crawler\<lparr>cw_scopes := sample_scopes\<rparr>, sample_seeded)"
proof -
  have host: "scope_host \<lparr>u_scheme = ''http'', u_host = ''h'', u_path = ''/'', u_raw_query = []\<rparr> = ''h''"
    by (simp add: scope_host_def u_hostname_def u_port_def url_split_host_def strip_brackets_def cut_last_def has_prefix_def)
  have slash: "NormalizePath ''/'' = ''/''" by (simp add: NormalizePath_def has_suffix_def)
  have "scope_Load [] SCOPE_POLICY_EXPAND [''http://h/''] = Inr sample_scopes"
    by (simp add: scope_Load_def FromURL_def parse_sample host slash sample_scopes_def)
  moreover have "MatchAnyScope ''http://h/'' sample_scopes = Inr True"
    unfolding MatchAnyScope_iff [OF parse_sample] by (simp add: sample_scopes_def host slash)
  then have "queue_seeds (sample_crawler\<lparr>cw_scopes := sample_scopes\<rparr>) [''http://h/''] (new_run 7) = Inr sample_seeded"
    by (simp add: queueForCrawl_def queue_checks_def sample_crawler_def DefaultClientConfig_def isExcluded_def parse_sample
        IsURLPathForbidden_def AlreadyVisited_def new_run_def sample_seeded_def)
  ultimately show ?thesis
    by (simp add: crawl_start_def sample_crawler_def DefaultClientConfig_def Let_def)
qed

theorem crawl_safe_witness:
  "\<exists>s. (crawl_step (sample_crawler\<lparr>cw_scopes := sample_scopes\<rparr>))\<^sup>*\<^sup>* sample_seeded s
     \<and> cs_requests s = [''http://h/''] \<and> CountPending s = int (length (cs_queue s) + length (cs_active s))
     \<and> int (length (cs_requests s)) \<le> 93"
proof -
  let ?c = "sample_crawler\<lparr>cw_scopes := sample_scopes\<rparr>" and ?p = sample_page
  let ?s1 = "sample_seeded\<lparr>cs_queue := [] @ [], cs_active := cs_active sample_seeded @ [(?p, Start)]\<rparr>"
  let ?s2 = "?s1\<lparr>cs_sent := 8, cs_active := [] @ (?p, Fetching) # []\<rparr>"
  let ?s3 = "?s2\<lparr>cs_requests := cs_requests ?s2 @ [pg_url ?p], cs_active := [] @ (?p, Ending False) # []\<rparr>"
  have q: "cs_queue sample_seeded = [] @ ?p # []" "cs_active sample_seeded = []"
    by (simp_all add: sample_seeded_def QueuePage_def AddToVisited_def new_run_def sample_page_def)
  have "crawl_step ?c sample_seeded ?s1"
    by (rule crawl_step.dispatch [OF q(1)]) (simp add: slot_free_def q(2) sample_crawler_def DefaultClientConfig_def)
  moreover have start: "crawlPage_step ?c ?p Start ?s1 = (Fetching, ?s1\<lparr>cs_sent := 8\<rparr>)"
    by (simp add: sample_seeded_def QueuePage_def AddToVisited_def new_run_def sample_page_def parse_sample
        checkAndIncreaseRequestCount_def int32_id sample_crawler_def DefaultClientConfig_def)
  have "crawl_step ?c ?s1 ?s2"
    by (rule crawl_step.work [OF _ _ start]) (simp_all add: q(2))
  moreover have fetch: "crawlPage_step ?c ?p Fetching ?s2 = (Ending False, ?s2\<lparr>cs_requests := cs_requests ?s2 @ [pg_url ?p]\<rparr>)"
    by (simp add: fetch_page_def sample_crawler_def)
  have "crawl_step ?c ?s2 ?s3"
    by (rule crawl_step.work [OF _ _ fetch]) simp_all
  ultimately have reach: "(crawl_step ?c)\<^sup>*\<^sup>* sample_seeded ?s3"
    by (elim converse_rtranclp_into_rtranclp) (rule rtranclp.rtrancl_refl)
  have "cc_max_requests (cw_config sample_crawler) = 100" by (simp add: sample_crawler_def DefaultClientConfig_def)
  with crawl_safe [OF sample_start reach]
  have "CountPending ?s3 = int (length (cs_queue ?s3) + length (cs_active ?s3)) \<and> int (length (cs_requests ?s3)) \<le> 93"
    by (auto simp: max_def split: if_splits)
  moreover have "cs_requests ?s3 = [''http://h/'']"
    by (simp add: sample_seeded_def QueuePage_def AddToVisited_def new_run_def sample_page_def)
  ultimately show ?thesis using reach by blast
qed


end
