(* ===== verification/HashRegistry.thy ===== *)
theory HashRegistry
  imports GoPrelude
begin

text \<open>
  \<open>plugins/fingerprint/webidentity/hash\<close> and \<open>storage\<close>: the hash of a response, the registry of known
  hashes with its conflict rule, the identities it finds, and the storage budget. The hash
  functions of the murmur3 package and the intersection of two string sets are parameters.
\<close>

section \<open>\<open>hash.go\<close>\<close>

record identity =
  id_software :: string
  id_roots :: "string list"
  id_versions :: "string list"

text \<open>\<open>intersect\<close> is the sorted list of the elements that two lists share.\<close>

definition IntersectVersions :: "(string list \<Rightarrow> string list \<Rightarrow> string list) \<Rightarrow> identity option \<Rightarrow> identity \<Rightarrow> identity" where
  "IntersectVersions intersect newmatch id0 = (case newmatch of
       None \<Rightarrow> id0
     | Some m \<Rightarrow>
         if id_software m \<noteq> id_software id0 then id0
         else let versions = intersect (id_versions m) (id_versions id0) in
           if versions = [] then id0 else id0\<lparr>id_versions := versions\<rparr>)"

fun le_bytes :: "nat \<Rightarrow> nat \<Rightarrow> string" where
  "le_bytes 0 w = []"
| "le_bytes (Suc n) w = char_of (w mod 256) # le_bytes n (w div 256)"

text \<open>The hash object is the text it was given so far; \<open>sum128\<close> is murmur3's sum of a text.\<close>

definition hash_New :: "32 word \<Rightarrow> string \<Rightarrow> string" where
  "hash_New status content_type = le_bytes 4 (unat status) @ content_type"

definition hash_Update :: "string \<Rightarrow> string \<Rightarrow> string" where
  "hash_Update s buffer = s @ buffer"

definition FromResponse :: "32 word \<Rightarrow> string \<Rightarrow> string \<Rightarrow> string" where
  "FromResponse status content_type content = hash_Update (hash_New status content_type) content"

definition hash_Hex :: "(string \<Rightarrow> 64 word \<times> 64 word) \<Rightarrow> string \<Rightarrow> string" where
  "hash_Hex sum128 s = (let (high, low) = sum128 s in hex_encode (le_bytes 8 (unat high) @ le_bytes 8 (unat low)))"

section \<open>\<open>registry.go\<close>\<close>

record content_hash =
  ch_path :: string
  ch_hashes :: "string list"

record hash_version =
  hv_hash :: string
  hv_versions :: "string list"

record fingerprints =
  fp_software :: string
  fp_contents :: "content_hash list"
  fp_versions :: "hash_version list"

text \<open>The known hashes; \<open>Some None\<close> is the nil entry of a hash with a conflict.\<close>

type_synonym hash_registry = "64 word \<rightharpoonup> identity option"

definition NewHashRegistry :: hash_registry where
  "NewHashRegistry = Map.empty"

definition stripQueryAndFragment :: "string \<Rightarrow> string" where
  "stripQueryAndFragment raw = cut_before CHR ''?'' (cut_before CHR ''#'' raw)"

definition addSoftware :: "64 word \<Rightarrow> string \<Rightarrow> hash_registry \<Rightarrow> hash_registry" where
  "addSoftware h software r = (case r h of
       Some None \<Rightarrow> r(h \<mapsto> None)
     | Some (Some i) \<Rightarrow> if id_software i \<noteq> software then r(h \<mapsto> None) else r
     | None \<Rightarrow> r(h \<mapsto> Some \<lparr>id_software = software, id_roots = [], id_versions = []\<rparr>))"

definition add_new :: "string \<Rightarrow> string list \<Rightarrow> string list" where
  "add_new x xs = (if x \<in> set xs then xs else xs @ [x])"

definition addPath :: "64 word \<Rightarrow> string \<Rightarrow> string \<Rightarrow> hash_registry \<Rightarrow> hash_registry" where
  "addPath h software path r =
     (let r' = addSoftware h software r in
      case r' h of
        Some (Some i) \<Rightarrow> r'(h \<mapsto> Some (i\<lparr>id_roots := add_new path (id_roots i)\<rparr>))
      | _ \<Rightarrow> r')"

definition addVersions :: "64 word \<Rightarrow> string \<Rightarrow> string list \<Rightarrow> hash_registry \<Rightarrow> hash_registry" where
  "addVersions h software versions r =
     (let r' = addSoftware h software r in
      case r' h of
        Some (Some i) \<Rightarrow> r'(h \<mapsto> Some (i\<lparr>id_versions := fold add_new versions (id_versions i)\<rparr>))
      | _ \<Rightarrow> r')"

text \<open>The loop over the hashes of the contents, and over the versions; \<open>empties\<close> are the hashes that
  were seen with an empty path.\<close>

fun load_hashes :: "(string \<Rightarrow> 64 word) \<Rightarrow> string \<Rightarrow> string \<Rightarrow> string list \<Rightarrow> hash_registry \<times> 64 word list
    \<Rightarrow> hash_registry \<times> 64 word list" where
  "load_hashes sum64 software path [] (r, empties) = (r, empties)"
| "load_hashes sum64 software path (h # hs) (r, empties) =
     load_hashes sum64 software path hs
       (if path = [] then (r, sum64 h # empties) else (addPath (sum64 h) software path r, empties))"

fun load_contents :: "(string \<Rightarrow> 64 word) \<Rightarrow> string \<Rightarrow> content_hash list \<Rightarrow> hash_registry \<times> 64 word list
    \<Rightarrow> hash_registry \<times> 64 word list" where
  "load_contents sum64 software [] s = s"
| "load_contents sum64 software (c # cs) s =
     load_contents sum64 software cs (load_hashes sum64 software (stripQueryAndFragment (ch_path c)) (ch_hashes c) s)"

fun load_versions :: "(string \<Rightarrow> 64 word) \<Rightarrow> string \<Rightarrow> 64 word list \<Rightarrow> hash_version list \<Rightarrow> hash_registry \<Rightarrow> hash_registry" where
  "load_versions sum64 software empties [] r = r"
| "load_versions sum64 software empties (hv # hvs) r =
     load_versions sum64 software empties hvs
       (let h = sum64 (hv_hash hv) in
        if h \<in> set empties \<and> r h = None then r else addVersions h software (hv_versions hv) r)"

definition registry_Load :: "(string \<Rightarrow> 64 word) \<Rightarrow> fingerprints \<Rightarrow> hash_registry \<Rightarrow> hash_registry" where
  "registry_Load sum64 fp r =
     (let (r', empties) = load_contents sum64 (fp_software fp) (fp_contents fp) (r, [])
      in load_versions sum64 (fp_software fp) empties (fp_versions fp) r')"

definition registry_Find :: "(string \<Rightarrow> 64 word) \<Rightarrow> hash_registry \<Rightarrow> string \<Rightarrow> string \<Rightarrow> identity option" where
  "registry_Find sum64 r hash path = (case r (sum64 hash) of
       Some (Some i) \<Rightarrow>
         let roots = List.map_filter (cut_suffix (stripQueryAndFragment path)) (id_roots i) in
         if id_roots i \<noteq> [] \<and> roots = [] then None
         else Some \<lparr>id_software = id_software i, id_roots = roots, id_versions = id_versions i\<rparr>
     | _ \<Rightarrow> None)"

section \<open>\<open>storage.go\<close>\<close>

text \<open>Sizes are Go's \<open>int64\<close>, whose sum wraps.\<close>

record storage =
  st_enforce :: bool
  st_max :: "64 word"
  st_used :: "64 word"

definition storage_New :: "bool \<Rightarrow> 64 word \<Rightarrow> storage" where
  "storage_New enforce maxSize = \<lparr>st_enforce = enforce, st_max = maxSize, st_used = 0\<rparr>"

definition Reserve :: "64 word \<Rightarrow> storage \<Rightarrow> storage \<times> bool" where
  "Reserve n s =
     (if \<not> st_enforce s then (s, True)
      else if sint (st_max s) < sint (st_used s + n) then (s, False)
      else (s\<lparr>st_used := st_used s + n\<rparr>, True))"

definition Release :: "64 word \<Rightarrow> storage \<Rightarrow> storage" where
  "Release n s =
     (if \<not> st_enforce s then s
      else if sint (st_used s) < sint n then s\<lparr>st_used := 0\<rparr> else s\<lparr>st_used := st_used s - n\<rparr>)"

section \<open>What the fingerprints claim\<close>

text \<open>
  A claim on a hash names a software, and a path or versions for it. The claims of the fingerprints in the
  order in which they are loaded: the paths of a fingerprint, then its versions. The versions of a
  fingerprint that has the hash on an empty path count only when the hash is claimed already.
\<close>

datatype claim = PathClaim string | VersionClaim "string list"

definition content_claims :: "(string \<Rightarrow> 64 word) \<Rightarrow> 64 word \<Rightarrow> fingerprints \<Rightarrow> (string \<times> claim) list" where
  "content_claims sum64 h fp =
     concat (map (\<lambda>c. if stripQueryAndFragment (ch_path c) = [] then []
         else map (\<lambda>_. (fp_software fp, PathClaim (stripQueryAndFragment (ch_path c)))) (filter (\<lambda>x. sum64 x = h) (ch_hashes c)))
       (fp_contents fp))"

definition on_empty_path :: "(string \<Rightarrow> 64 word) \<Rightarrow> 64 word \<Rightarrow> fingerprints \<Rightarrow> bool" where
  "on_empty_path sum64 h fp =
     (\<exists>c \<in> set (fp_contents fp). stripQueryAndFragment (ch_path c) = [] \<and> h \<in> sum64 ` set (ch_hashes c))"

definition version_claims :: "(string \<Rightarrow> 64 word) \<Rightarrow> 64 word \<Rightarrow> fingerprints \<Rightarrow> (string \<times> claim) list" where
  "version_claims sum64 h fp =
     map (\<lambda>hv. (fp_software fp, VersionClaim (hv_versions hv))) (filter (\<lambda>hv. sum64 (hv_hash hv) = h) (fp_versions fp))"

definition add_claims :: "(string \<Rightarrow> 64 word) \<Rightarrow> 64 word \<Rightarrow> fingerprints \<Rightarrow> (string \<times> claim) list \<Rightarrow> (string \<times> claim) list" where
  "add_claims sum64 h fp cs =
     (let cs' = cs @ content_claims sum64 h fp
      in if cs' = [] \<and> on_empty_path sum64 h fp then [] else cs' @ version_claims sum64 h fp)"

definition hash_claims :: "(string \<Rightarrow> 64 word) \<Rightarrow> fingerprints list \<Rightarrow> 64 word \<Rightarrow> (string \<times> claim) list" where
  "hash_claims sum64 fps h = fold (add_claims sum64 h) fps []"

text \<open>The first occurrences of the elements of a list, in their order.\<close>

definition first_occurrences :: "string list \<Rightarrow> string list" where
  "first_occurrences xs = rev (remdups (rev xs))"

definition claimed_paths :: "(string \<times> claim) list \<Rightarrow> string list" where
  "claimed_paths cs = first_occurrences (concat (map (\<lambda>c. case snd c of PathClaim p \<Rightarrow> [p] | VersionClaim vs \<Rightarrow> []) cs))"

definition claimed_versions :: "(string \<times> claim) list \<Rightarrow> string list" where
  "claimed_versions cs = first_occurrences (concat (map (\<lambda>c. case snd c of PathClaim p \<Rightarrow> [] | VersionClaim vs \<Rightarrow> vs) cs))"

text \<open>Two claims conflict when they name different programs.\<close>

definition in_conflict :: "(string \<times> claim) list \<Rightarrow> bool" where
  "in_conflict cs = (1 < card (fst ` set cs))"

definition claimed :: "(string \<times> claim) list \<Rightarrow> identity option option" where
  "claimed cs =
     (if cs = [] then None
      else if in_conflict cs then Some None
      else Some (Some \<lparr>id_software = fst (hd cs), id_roots = claimed_paths cs, id_versions = claimed_versions cs\<rparr>))"

lemma in_conflict_iff: "in_conflict cs \<longleftrightarrow> (\<exists>c \<in> set cs. fst c \<noteq> fst (hd cs))"
proof -
  have "card A \<le> 1 \<longleftrightarrow> (\<forall>b \<in> A. b = a)" if "a \<in> A" "finite A" for A :: "string set" and a
    using that card_le_Suc0_iff_eq [of A] unfolding One_nat_def by (metis (full_types))
  from this [of "fst (hd cs)" "fst ` set cs"] show ?thesis
    by (cases cs) (auto simp: in_conflict_def not_le [symmetric])
qed

lemma in_conflict_snoc: "cs \<noteq> [] \<Longrightarrow> in_conflict (cs @ [c]) \<longleftrightarrow> in_conflict cs \<or> fst c \<noteq> fst (hd cs)"
  by (auto simp: in_conflict_iff)

lemma first_occurrences_snoc: "first_occurrences (xs @ [x]) = add_new x (first_occurrences xs)"
  by (simp add: first_occurrences_def add_new_def)

lemma first_occurrences_append: "first_occurrences (xs @ ys) = fold add_new ys (first_occurrences xs)"
proof (induction ys rule: rev_induct)
  case (snoc y ys)
  then show ?case
    using first_occurrences_snoc [of "xs @ ys" y] by simp
qed simp

lemma claimed_snoc_simps [simp]:
  "claimed_paths (cs @ [(s, PathClaim p)]) = add_new p (claimed_paths cs)"
  "claimed_versions (cs @ [(s, PathClaim p)]) = claimed_versions cs"
  "claimed_paths (cs @ [(s, VersionClaim vs)]) = claimed_paths cs"
  "claimed_versions (cs @ [(s, VersionClaim vs)]) = fold add_new vs (claimed_versions cs)"
  by (simp_all add: claimed_paths_def claimed_versions_def first_occurrences_snoc first_occurrences_append)

lemma claimed_single [simp]:
  "claimed [(s, PathClaim p)] = Some (Some \<lparr>id_software = s, id_roots = [p], id_versions = []\<rparr>)"
  "claimed [(s, VersionClaim vs)] = Some (Some \<lparr>id_software = s, id_roots = [], id_versions = fold add_new vs []\<rparr>)"
  using first_occurrences_append [of "[]" vs]
  by (simp_all add: claimed_def in_conflict_def claimed_paths_def claimed_versions_def first_occurrences_def)

lemma claimed_None_iff [simp]: "claimed cs = None \<longleftrightarrow> cs = []"
  by (simp add: claimed_def)

lemma addPath_other: "h' \<noteq> h \<Longrightarrow> addPath h software path r h' = r h'"
  by (auto simp: addPath_def addSoftware_def Let_def split: option.splits)

lemma addVersions_other: "h' \<noteq> h \<Longrightarrow> addVersions h software vs r h' = r h'"
  by (auto simp: addVersions_def addSoftware_def Let_def split: option.splits)

lemma addPath_claimed:
  assumes "r h = claimed cs"
  shows "addPath h software path r h = claimed (cs @ [(software, PathClaim path)])"
proof (cases "cs = []")
  case True
  then show ?thesis
    using assms by (simp add: addPath_def addSoftware_def Let_def claimed_def [of "[]"] add_new_def)
next
  case False
  then show ?thesis
    using assms by (auto simp: addPath_def addSoftware_def Let_def claimed_def in_conflict_snoc)
qed

lemma addVersions_claimed:
  assumes "r h = claimed cs"
  shows "addVersions h software vs r h = claimed (cs @ [(software, VersionClaim vs)])"
proof (cases "cs = []")
  case True
  then show ?thesis
    using assms by (simp add: addVersions_def addSoftware_def Let_def claimed_def [of "[]"])
next
  case False
  then show ?thesis
    using assms by (auto simp: addVersions_def addSoftware_def Let_def claimed_def in_conflict_snoc)
qed

lemma load_hashes_claimed:
  assumes "\<And>h. r h = claimed (cs h)" and "load_hashes sum64 software path hs (r, e) = (r', e')"
  shows "r' h = claimed (cs h @ (if path = [] then [] else map (\<lambda>_. (software, PathClaim path)) (filter (\<lambda>x. sum64 x = h) hs)))
    \<and> set e' = set e \<union> (if path = [] then sum64 ` set hs else {})"
  using assms
proof (induction hs arbitrary: r e cs)
  case (Cons x xs)
  show ?case
  proof (cases "path = []")
    case True
    with Cons.IH [OF Cons.prems(1)] Cons.prems(2) show ?thesis
      by (simp add: insert_commute)
  next
    case False
    let ?r = "addPath (sum64 x) software path r"
    let ?cs = "\<lambda>h. cs h @ (if sum64 x = h then [(software, PathClaim path)] else [])"
    have "?r h = claimed (?cs h)" for h
      using Cons.prems(1) [of h] addPath_claimed [of r h "cs h" software path] addPath_other [of h "sum64 x" software path r]
      by (cases "sum64 x = h") auto
    from Cons.IH [where r = ?r and cs = ?cs, OF this] Cons.prems(2) False show ?thesis
      by simp
  qed
qed auto

lemma load_contents_claimed:
  assumes "\<And>h. r h = claimed (cs h)" and "load_contents sum64 (fp_software fp) contents (r, e) = (r', e')"
  shows "r' h = claimed (cs h @ content_claims sum64 h (fp\<lparr>fp_contents := contents\<rparr>))
    \<and> (h \<in> set e' \<longleftrightarrow> h \<in> set e \<or> on_empty_path sum64 h (fp\<lparr>fp_contents := contents\<rparr>))"
  using assms
proof (induction contents arbitrary: r e cs)
  case Nil
  then show ?case
    by (auto simp: content_claims_def on_empty_path_def)
next
  case (Cons c contents)
  let ?p = "stripQueryAndFragment (ch_path c)"
  let ?new = "\<lambda>h. if ?p = [] then [] else map (\<lambda>_. (fp_software fp, PathClaim ?p)) (filter (\<lambda>x. sum64 x = h) (ch_hashes c))"
  obtain r1 e1 where one: "load_hashes sum64 (fp_software fp) ?p (ch_hashes c) (r, e) = (r1, e1)"
    by (metis surj_pair)
  note first = load_hashes_claimed [OF Cons.prems(1) one]
  have "r1 h = claimed (cs h @ ?new h)" for h
    using first by blast
  moreover have "load_contents sum64 (fp_software fp) contents (r1, e1) = (r', e')"
    using Cons.prems(2) one by simp
  ultimately have rest: "r' h = claimed ((cs h @ ?new h) @ content_claims sum64 h (fp\<lparr>fp_contents := contents\<rparr>))"
      "h \<in> set e' \<longleftrightarrow> h \<in> set e1 \<or> on_empty_path sum64 h (fp\<lparr>fp_contents := contents\<rparr>)"
    using Cons.IH [where cs = "\<lambda>h. cs h @ ?new h" and r = r1 and e = e1] by blast+
  have "content_claims sum64 h (fp\<lparr>fp_contents := c # contents\<rparr>) = ?new h @ content_claims sum64 h (fp\<lparr>fp_contents := contents\<rparr>)"
    by (simp add: content_claims_def cong: if_cong)
  moreover have "on_empty_path sum64 h (fp\<lparr>fp_contents := c # contents\<rparr>) \<longleftrightarrow>
      ?p = [] \<and> h \<in> sum64 ` set (ch_hashes c) \<or> on_empty_path sum64 h (fp\<lparr>fp_contents := contents\<rparr>)"
    by (simp add: on_empty_path_def)
  moreover have "h \<in> set e1 \<longleftrightarrow> h \<in> set e \<or> ?p = [] \<and> h \<in> sum64 ` set (ch_hashes c)"
    using first by simp
  ultimately show ?case
    using rest by simp
qed

lemma load_versions_claimed:
  assumes "\<And>h. r h = claimed (cs h)"
  shows "load_versions sum64 (fp_software fp) e hvs r h =
    claimed (if cs h = [] \<and> h \<in> set e then [] else cs h @ version_claims sum64 h (fp\<lparr>fp_versions := hvs\<rparr>))"
  using assms
proof (induction hvs arbitrary: r cs)
  case Nil
  then show ?case
    by (simp add: version_claims_def)
next
  case (Cons hv hvs)
  let ?x = "sum64 (hv_hash hv)"
  let ?r = "if ?x \<in> set e \<and> r ?x = None then r else addVersions ?x (fp_software fp) (hv_versions hv) r"
  let ?cs = "\<lambda>h. if cs h = [] \<and> h \<in> set e then [] else cs h @ (if ?x = h then [(fp_software fp, VersionClaim (hv_versions hv))] else [])"
  have "?r h = claimed (?cs h)" for h
  proof (cases "?x = h")
    case True
    then show ?thesis
      using Cons.prems [of h] addVersions_claimed [of r h "cs h" "fp_software fp" "hv_versions hv"] by simp
  next
    case False
    then show ?thesis
      using Cons.prems [of h] addVersions_other [of h ?x "fp_software fp" "hv_versions hv" r] by auto
  qed
  from Cons.IH [where r = ?r and cs = ?cs, OF this] show ?case
    by (auto simp: version_claims_def Let_def)
qed

lemma registry_Load_claimed:
  assumes "\<And>h. r h = claimed (cs h)"
  shows "registry_Load sum64 fp r h = claimed (add_claims sum64 h fp (cs h))"
proof -
  obtain r1 e where one: "load_contents sum64 (fp_software fp) (fp_contents fp) (r, []) = (r1, e)"
    by (metis surj_pair)
  note contents = load_contents_claimed [OF assms one]
  have "r1 h = claimed (cs h @ content_claims sum64 h fp)" for h
    using contents by simp
  from load_versions_claimed [where cs = "\<lambda>h. cs h @ content_claims sum64 h fp" and fp = fp and hvs = "fp_versions fp", OF this]
  show ?thesis
    using contents [of h] one by (simp add: registry_Load_def add_claims_def Let_def)
qed

lemma registry_claimed: "fold (registry_Load sum64) fps NewHashRegistry h = claimed (hash_claims sum64 fps h)"
proof (induction fps arbitrary: h rule: rev_induct)
  case Nil
  then show ?case
    by (simp add: hash_claims_def NewHashRegistry_def claimed_def)
next
  case (snoc fp fps)
  from registry_Load_claimed [OF snoc, where fp = fp] show ?case
    by (simp add: hash_claims_def)
qed

lemma map_filter_cut_suffix:
  "List.map_filter (cut_suffix u) ps = map (\<lambda>p. take (length u - length p) u) (filter (\<lambda>p. suffix p u) ps)"
  by (induction ps) (auto simp: map_filter_simps has_suffix_def cut_suffix_def split: option.splits)

text \<open>C16. What is found for a page after any fingerprints were loaded, in any order, is exactly what these
  claim for its hash. Nothing is found for a hash without a claim, nor for one that two programs claim,
  by a path or by versions, at any time. Otherwise the identity is of the one software that claims
  the hash, its roots are the page's address without each of the claimed paths that it ends in, in their
  order and each once, and its versions are all the claimed versions, each once; nothing is found
  when paths are claimed and the address ends in none of them.\<close>

theorem registry_Find_exact:
  "registry_Find sum64 (fold (registry_Load sum64) fps NewHashRegistry) hash url =
    (let cs = hash_claims sum64 fps (sum64 hash);
         u = stripQueryAndFragment url;
         matching = filter (\<lambda>p. suffix p u) (claimed_paths cs)
     in if cs = [] \<or> in_conflict cs \<or> claimed_paths cs \<noteq> [] \<and> matching = [] then None
        else Some \<lparr>id_software = fst (hd cs), id_roots = map (\<lambda>p. take (length u - length p) u) matching,
                   id_versions = claimed_versions cs\<rparr>)"
  by (auto simp: registry_Find_def registry_claimed claimed_def map_filter_cut_suffix Let_def)

text \<open>A hash with a path and a version, and the conflict with a program that only claims a version.\<close>

definition sample_fingerprints :: "string \<Rightarrow> content_hash list \<Rightarrow> fingerprints" where
  "sample_fingerprints software contents =
     \<lparr>fp_software = software, fp_contents = contents, fp_versions = [\<lparr>hv_hash = ''x'', hv_versions = [''1'', ''2'']\<rparr>]\<rparr>"

lemma sample_find:
  "registry_Find (\<lambda>_. 7) (fold (registry_Load (\<lambda>_. 7))
      [sample_fingerprints ''S'' [\<lparr>ch_path = ''/a#z'', ch_hashes = [''x'']\<rparr>]] NewHashRegistry) ''x'' ''http://h/a?q''
    = Some \<lparr>id_software = ''S'', id_roots = [''http://h''], id_versions = [''1'', ''2'']\<rparr>"
  "registry_Find (\<lambda>_. 7) (fold (registry_Load (\<lambda>_. 7))
      [sample_fingerprints ''S'' [\<lparr>ch_path = ''/a#z'', ch_hashes = [''x'']\<rparr>], sample_fingerprints ''T'' []] NewHashRegistry)
      ''x'' ''http://h/a?q'' = None"
  by code_simp+

section \<open>Versions and storage\<close>

text \<open>Versions that are learned after an identity without versions are lost: their intersection is empty,
  and an empty intersection is ignored.\<close>

lemma IntersectVersions_lost:
  assumes "\<And>a b. set (intersect a b) = set a \<inter> set b" and "id_versions known = []"
  shows "IntersectVersions intersect (Some m) known = known"
proof -
  have "set (intersect (id_versions m) []) = {}" using assms(1) by simp
  then show ?thesis using assms(2) by (simp add: IntersectVersions_def Let_def)
qed

lemma Reserve_within:
  assumes "st_enforce s" and "Reserve n s = (s', True)"
  shows "sint (st_used s') \<le> sint (st_max s')"
  using assms by (auto simp: Reserve_def split: if_splits)

end
