(* ===== verification/WebIdentity.thy ===== *)
theory WebIdentity
  imports HashRegistry UrlParse "HOL-Library.Multiset"
begin

text \<open>
  \<open>plugins/fingerprint/webidentity\<close>: the fingerprinter of web applications. It crawls each endpoint of
  a service, matches the hashes of the pages against the registry, makes one service for each
  identity, and reconciles the services that the endpoints have in common. A Go map is a list of
  entries, in the order in which a loop visits it. The crawler, the hash functions, the file
  system and the decoding of signatures are parameters.
\<close>

section \<open>\<open>runinfo.go\<close>\<close>

record run_info =
  ri_matches :: "(string \<times> identity list) list"
  ri_results :: "(string \<times> crawl_result) list"

definition new_run_info :: run_info where
  "new_run_info = \<lparr>ri_matches = [], ri_results = []\<rparr>"

definition shares_root :: "identity \<Rightarrow> identity \<Rightarrow> bool" where
  "shares_root new known = list_ex (\<lambda>n. list_ex (\<lambda>k. has_prefix n k) (id_roots known)) (id_roots new)"

text \<open>The loop over the known identities of the software: the first that shares a root is narrowed down.\<close>

fun merge_identity :: "(string list \<Rightarrow> string list \<Rightarrow> string list) \<Rightarrow> identity \<Rightarrow> identity list \<Rightarrow> identity list" where
  "merge_identity intersect new [] = [new]"
| "merge_identity intersect new (k # ks) =
     (if shares_root new k then IntersectVersions intersect (Some new) k # ks
      else k # merge_identity intersect new ks)"

definition AddMatch :: "(string list \<Rightarrow> string list \<Rightarrow> string list) \<Rightarrow> identity \<Rightarrow> run_info \<Rightarrow> run_info" where
  "AddMatch intersect i ri =
     ri\<lparr>ri_matches := upsert (id_software i) [] (merge_identity intersect i) (ri_matches ri)\<rparr>"

definition AddVisited :: "string \<Rightarrow> int \<Rightarrow> int \<Rightarrow> string \<Rightarrow> run_info \<Rightarrow> run_info" where
  "AddVisited url depth status content ri =
     (let r = \<lparr>cr_url = url, cr_depth = depth, cr_code = status, cr_content = content, cr_type = CONTENT_TYPE_HASH\<rparr>
      in ri\<lparr>ri_results := upsert url r (\<lambda>_. r) (ri_results ri)\<rparr>)"

definition CrawlResults :: "run_info \<Rightarrow> crawl_result list" where
  "CrawlResults ri = map snd (ri_results ri)"

definition Matches_of :: "run_info \<Rightarrow> (string \<times> identity list) list" where
  "Matches_of ri = ri_matches ri"

section \<open>Pages and artifacts\<close>

datatype fp_error =
    ErrNoFingerprintsDirectory
  | ErrSignaturesRead
  | ErrSignaturesUnmarshal
  | ErrArtifactsWrite
  | WebRootError endpoint_error
  | CrawlError

record fp_config =
  fc_signatures_directory :: string
  fc_write_html :: bool
  fc_max_file_size :: "64 word"
  fc_max_storage :: "64 word"

text \<open>
  The environment of the module: the hash functions, the set intersection, the directory for
  artifacts if it can be made, and which writes succeed.
\<close>

record fp_env =
  fe_sum64 :: "string \<Rightarrow> 64 word"
  fe_sum128 :: "string \<Rightarrow> 64 word \<times> 64 word"
  fe_intersect :: "string list \<Rightarrow> string list \<Rightarrow> string list"
  fe_artifacts :: "string option"
  fe_write_ok :: "string \<Rightarrow> bool"

record fp_module =
  fm_config :: fp_config
  fm_storage :: storage
  fm_registry :: hash_registry
  fm_files :: "string \<rightharpoonup> string"

record page =
  p_url :: string
  p_depth :: int
  p_status :: int
  p_content_type :: string
  p_content :: string

definition file_path :: "string \<Rightarrow> string \<Rightarrow> string" where
  "file_path dir name = dir @ ''/'' @ name"

definition writeToArtifacts :: "fp_env \<Rightarrow> string \<Rightarrow> string \<Rightarrow> fp_module \<Rightarrow> fp_module \<times> (fp_error, 64 word) result" where
  "writeToArtifacts fe hexHash content m = (case fe_artifacts fe of
       None \<Rightarrow> (m, Inl ErrArtifactsWrite)
     | Some dir \<Rightarrow>
         let path = file_path dir hexHash; contentSize = word_of_nat (length content) :: 64 word in
         if fm_files m path \<noteq> None then (m, Inr 0)
         else if sint (fc_max_file_size (fm_config m)) < sint contentSize then (m, Inr 0)
         else case Reserve contentSize (fm_storage m) of
             (st, False) \<Rightarrow> (m, Inr 0)
           | (st, True) \<Rightarrow>
               if \<not> fe_write_ok fe path then (m\<lparr>fm_storage := Release contentSize st\<rparr>, Inl ErrArtifactsWrite)
               else (m\<lparr>fm_storage := st, fm_files := (fm_files m)(path \<mapsto> content)\<rparr>, Inr contentSize))"

definition processPage :: "fp_env \<Rightarrow> page \<Rightarrow> run_info \<times> fp_module \<Rightarrow> (run_info \<times> fp_module) \<times> (fp_error, 64 word) result" where
  "processPage fe p s =
     (let (ri, m) = s;
          hexHash = hash_Hex (fe_sum128 fe) (FromResponse (word_of_int (p_status p)) (p_content_type p) (p_content p));
          ri1 = AddVisited (p_url p) (p_depth p) (p_status p) hexHash ri;
          ri2 = (case registry_Find (fe_sum64 fe) (fm_registry m) hexHash (p_url p) of
              None \<Rightarrow> ri1
            | Some i \<Rightarrow> AddMatch (fe_intersect fe) i ri1)
      in if \<not> fc_write_html (fm_config m) then ((ri2, m), Inr 0)
         else case writeToArtifacts fe hexHash (p_content p) m of (m', r) \<Rightarrow> ((ri2, m'), r))"

text \<open>The callback on the pages in the order in which the crawler hands them over, up to an error.\<close>

fun process_pages :: "fp_env \<Rightarrow> page list \<Rightarrow> run_info \<times> fp_module \<Rightarrow> (run_info \<times> fp_module) \<times> fp_error option" where
  "process_pages fe [] s = (s, None)"
| "process_pages fe (p # ps) s = (case processPage fe p s of
       (s', Inl e) \<Rightarrow> (s', Some e)
     | (s', Inr n) \<Rightarrow> process_pages fe ps s')"

text \<open>\<open>crawl\<close> gives the pages that a crawl of the seeds reaches, and whether the crawl fails.\<close>

definition module_crawl :: "fp_env \<Rightarrow> (string list \<Rightarrow> page list \<times> bool) \<Rightarrow> network_service \<Rightarrow> run_info \<times> fp_module
    \<Rightarrow> (run_info \<times> fp_module) \<times> fp_error option" where
  "module_crawl fe crawl service s = (case BuildWebRoot service of
       Inl e \<Rightarrow> (s, Some (WebRootError e))
     | Inr webroot \<Rightarrow> (case crawl [webroot @ ''/''] of (pages, fails) \<Rightarrow>
           (case process_pages fe pages s of
              (s', Some e) \<Rightarrow> (s', Some e)
            | (s', None) \<Rightarrow> (s', if fails then Some CrawlError else None))))"

section \<open>Services\<close>

definition under_root :: "string \<Rightarrow> crawl_result \<Rightarrow> bool" where
  "under_root root r = has_prefix (cr_url r) root"

definition set_web_context :: "(web_context \<Rightarrow> web_context) \<Rightarrow> network_service \<Rightarrow> network_service" where
  "set_web_context f s = s\<lparr>sv_context := Some (Some (f (get_web_context s)))\<rparr>"

definition identityToNewService :: "network_service \<Rightarrow> crawl_result list \<Rightarrow> identity \<Rightarrow> network_service" where
  "identityToNewService service crawls i =
     (let results = concat (map (\<lambda>root. filter (under_root root) crawls) (id_roots i))
      in set_web_context
           (\<lambda>w. w\<lparr>wc_software := Some (id_software i), wc_versions := id_versions i,
                   wc_root := (case id_roots i of [r] \<Rightarrow> Some r | _ \<Rightarrow> wc_root w)\<rparr>)
           (AddCrawlResults service results))"

definition serviceFromUnidentifiedCrawls :: "network_service \<Rightarrow> string list \<Rightarrow> crawl_result list \<Rightarrow> network_service option" where
  "serviceFromUnidentifiedCrawls service knownRoots crawls =
     (let unidentified = filter (\<lambda>r. \<not> list_ex (\<lambda>root. under_root root r) knownRoots) crawls
      in if unidentified = [] then None else Some (AddCrawlResults service unidentified))"

definition matching :: "run_info \<Rightarrow> network_service \<Rightarrow> network_service list" where
  "matching ri service =
     (let crawls = CrawlResults ri; identities = concat (map snd (Matches_of ri)) in
      if Matches_of ri = [] then [AddCrawlResults service crawls]
      else map (identityToNewService service crawls) identities
        @ (case serviceFromUnidentifiedCrawls service (concat (map id_roots identities)) crawls of
             None \<Rightarrow> [] | Some s \<Rightarrow> [s]))"

definition fingerprintEndpoint :: "fp_env \<Rightarrow> (string list \<Rightarrow> page list \<times> bool) \<Rightarrow> network_service \<Rightarrow> fp_module
    \<Rightarrow> fp_module \<times> (fp_error, network_service list) result" where
  "fingerprintEndpoint fe crawl service m = (case module_crawl fe crawl service (new_run_info, m) of
       ((ri, m'), Some e) \<Rightarrow> (m', Inl e)
     | ((ri, m'), None) \<Rightarrow> (m', Inr (matching ri service)))"

definition splitServiceByEndpoint :: "network_service \<Rightarrow> network_service list" where
  "splitServiceByEndpoint service =
     (let e = get_endpoint service in
      if ep_hostname e = None \<or> ep_ip e = None then [service]
      else [service\<lparr>sv_endpoint := Some \<lparr>ep_type = (if ep_port e \<noteq> None then HOSTNAME_PORT else HOSTNAME),
              ep_ip = None, ep_hostname = ep_hostname e, ep_port = ep_port e\<rparr>\<rparr>,
            service\<lparr>sv_endpoint := Some \<lparr>ep_type = (if ep_port e \<noteq> None then IP_PORT else IP),
              ep_ip = ep_ip e, ep_hostname = None, ep_port = ep_port e\<rparr>\<rparr>])"

definition extractPath :: "string \<Rightarrow> string" where
  "extractPath rawURL = (case url_Parse rawURL of None \<Rightarrow> rawURL | Some u \<Rightarrow> u_path u)"

text \<open>The Go map of paths and contents: the last entry of a path wins.\<close>

definition crawlHashes :: "web_context \<Rightarrow> string \<rightharpoonup> string" where
  "crawlHashes w = map_of (rev (map (\<lambda>r. (extractPath (cr_url r), cr_content r)) (wc_crawls w)))"

definition get_root :: "web_context \<Rightarrow> string" where
  "get_root w = (case wc_root w of None \<Rightarrow> [] | Some r \<Rightarrow> r)"

text \<open>\<open>maps.Equal\<close> compares the entries of the paths that occur in one of the maps.\<close>

definition maps_equal :: "string list \<Rightarrow> (string \<rightharpoonup> string) \<Rightarrow> (string \<rightharpoonup> string) \<Rightarrow> bool" where
  "maps_equal keys m m' = list_all (\<lambda>k. m k = m' k) keys"

definition areServicesIdentical :: "network_service \<Rightarrow> network_service \<Rightarrow> bool" where
  "areServicesIdentical s1 s2 =
     (let w1 = get_web_context s1; w2 = get_web_context s2 in
      if wc_software w1 \<noteq> None \<and> wc_software w2 \<noteq> None then
        wc_software w1 = wc_software w2 \<and> extractPath (get_root w1) = extractPath (get_root w2)
      else if (wc_software w1 \<noteq> None) \<noteq> (wc_software w2 \<noteq> None) then False
      else maps_equal (map (\<lambda>r. extractPath (cr_url r)) (wc_crawls w1 @ wc_crawls w2)) (crawlHashes w1) (crawlHashes w2))"

fun merge_service :: "network_service \<Rightarrow> network_service \<Rightarrow> network_service list \<Rightarrow> network_service list" where
  "merge_service base s [] = [s]"
| "merge_service base s (r # rs) =
     (if areServicesIdentical r s
      then AddCrawlResults (r\<lparr>sv_endpoint := sv_endpoint base\<rparr>) (wc_crawls (get_web_context s)) # rs
      else r # merge_service base s rs)"

definition reconcileServices :: "network_service \<Rightarrow> network_service list \<Rightarrow> network_service list" where
  "reconcileServices base services = fold (merge_service base) services []"

fun fingerprint_endpoints :: "fp_env \<Rightarrow> (string list \<Rightarrow> page list \<times> bool) \<Rightarrow> network_service list \<Rightarrow> fp_module
    \<Rightarrow> fp_module \<times> (fp_error, network_service list) result" where
  "fingerprint_endpoints fe crawl [] m = (m, Inr [])"
| "fingerprint_endpoints fe crawl (s # ss) m = (case fingerprintEndpoint fe crawl s m of
       (m', Inl e) \<Rightarrow> (m', Inl e)
     | (m', Inr services) \<Rightarrow> (case fingerprint_endpoints fe crawl ss m' of
           (m'', Inl e) \<Rightarrow> (m'', Inl e)
         | (m'', Inr others) \<Rightarrow> (m'', Inr (services @ others))))"

definition Fingerprint :: "fp_env \<Rightarrow> (string list \<Rightarrow> page list \<times> bool) \<Rightarrow> network_service \<Rightarrow> fp_module
    \<Rightarrow> fp_module \<times> (fp_error, network_service list) result" where
  "Fingerprint fe crawl service m =
     (if \<not> IsWebService service then (m, Inr [service])
      else case fingerprint_endpoints fe crawl (splitServiceByEndpoint service) m of
          (m', Inl e) \<Rightarrow> (m', Inl e)
        | (m', Inr services) \<Rightarrow> (m', Inr (reconcileServices service services)))"

section \<open>Loading signatures\<close>

text \<open>The entries of the signatures directory: name, whether it is a directory, and its content.\<close>

type_synonym dir_entry = "string \<times> bool \<times> string option"

fun load_entries :: "(string \<Rightarrow> 64 word) \<Rightarrow> (string \<Rightarrow> fingerprints option) \<Rightarrow> dir_entry list \<Rightarrow> hash_registry
    \<Rightarrow> (fp_error, hash_registry) result" where
  "load_entries sum64 unmarshal [] r = Inr r"
| "load_entries sum64 unmarshal ((name, is_dir, content) # es) r =
     (if is_dir \<or> \<not> has_suffix name ''.binproto'' then load_entries sum64 unmarshal es r
      else case content of
          None \<Rightarrow> Inl ErrSignaturesRead
        | Some bytes \<Rightarrow> (case unmarshal bytes of
              None \<Rightarrow> Inl ErrSignaturesUnmarshal
            | Some fp \<Rightarrow> load_entries sum64 unmarshal es (registry_Load sum64 fp r)))"

definition loadAllFingerprints :: "(string \<Rightarrow> 64 word) \<Rightarrow> (string \<Rightarrow> fingerprints option) \<Rightarrow> (string \<Rightarrow> dir_entry list option)
    \<Rightarrow> fp_config \<Rightarrow> hash_registry \<Rightarrow> (fp_error, hash_registry) result" where
  "loadAllFingerprints sum64 unmarshal readdir cfg r = (case readdir (fc_signatures_directory cfg) of
       None \<Rightarrow> Inl ErrSignaturesRead
     | Some entries \<Rightarrow> load_entries sum64 unmarshal entries r)"

definition newWithRegistry :: "fp_config \<Rightarrow> hash_registry \<Rightarrow> (string \<rightharpoonup> string) \<Rightarrow> fp_module" where
  "newWithRegistry cfg r files =
     \<lparr>fm_config = cfg, fm_storage = storage_New (fc_write_html cfg) (fc_max_storage cfg), fm_registry = r, fm_files = files\<rparr>"

definition webidentity_New :: "(string \<Rightarrow> 64 word) \<Rightarrow> (string \<Rightarrow> fingerprints option) \<Rightarrow> (string \<Rightarrow> dir_entry list option)
    \<Rightarrow> fp_config \<Rightarrow> (string \<rightharpoonup> string) \<Rightarrow> (fp_error, fp_module) result" where
  "webidentity_New sum64 unmarshal readdir cfg files =
     (if fc_signatures_directory cfg = [] then Inl ErrNoFingerprintsDirectory
      else case loadAllFingerprints sum64 unmarshal readdir cfg NewHashRegistry of
          Inl e \<Rightarrow> Inl e
        | Inr r \<Rightarrow> Inr (newWithRegistry cfg r files))"

section \<open>Reconciliation groups services by what they are\<close>

text \<open>What a service is: its software and the path of its root, or the contents of its pages.\<close>

definition svc_key :: "network_service \<Rightarrow> (string \<times> string) + (string \<rightharpoonup> string)" where
  "svc_key s = (let w = get_web_context s in
     case wc_software w of Some n \<Rightarrow> Inl (n, extractPath (get_root w)) | None \<Rightarrow> Inr (crawlHashes w))"

abbreviation crawls_of :: "network_service \<Rightarrow> crawl_result list" where
  "crawls_of s \<equiv> wc_crawls (get_web_context s)"

definition merge_pair :: "network_service \<Rightarrow> network_service \<Rightarrow> network_service \<Rightarrow> network_service" where
  "merge_pair base r s = AddCrawlResults (r\<lparr>sv_endpoint := sv_endpoint base\<rparr>) (crawls_of s)"

definition merge_all :: "network_service \<Rightarrow> network_service list \<Rightarrow> network_service" where
  "merge_all base ss = foldl (merge_pair base) (hd ss) (tl ss)"

lemma crawlHashes_other: "k \<notin> set (map (\<lambda>r. extractPath (cr_url r)) (wc_crawls w)) \<Longrightarrow> crawlHashes w k = None"
  by (auto simp: crawlHashes_def map_of_eq_None_iff)

lemma areServicesIdentical_iff: "areServicesIdentical s1 s2 \<longleftrightarrow> svc_key s1 = svc_key s2"
proof -
  have "maps_equal (map (\<lambda>r. extractPath (cr_url r)) (wc_crawls w1 @ wc_crawls w2)) (crawlHashes w1) (crawlHashes w2)
      \<longleftrightarrow> crawlHashes w1 = crawlHashes w2" for w1 w2
  proof
    assume eq: "maps_equal (map (\<lambda>r. extractPath (cr_url r)) (wc_crawls w1 @ wc_crawls w2)) (crawlHashes w1) (crawlHashes w2)"
    show "crawlHashes w1 = crawlHashes w2"
    proof
      fix k
      show "crawlHashes w1 k = crawlHashes w2 k"
      proof (cases "k \<in> set (map (\<lambda>r. extractPath (cr_url r)) (wc_crawls w1 @ wc_crawls w2))")
        case True
        with eq show ?thesis unfolding maps_equal_def list_all_iff by blast
      next
        case False
        then show ?thesis by (simp add: crawlHashes_other)
      qed
    qed
  qed (simp add: maps_equal_def list_all_iff)
  then show ?thesis by (auto simp: areServicesIdentical_def svc_key_def Let_def split: option.splits)
qed

lemma get_web_context_AddCrawlResults:
  "get_web_context (AddCrawlResults s rs) = (get_web_context s)\<lparr>wc_crawls := crawls_of s @ rs\<rparr>"
  by (simp add: AddCrawlResults_def get_web_context_def Let_def split: option.splits)

lemma crawls_merge_pair: "crawls_of (merge_pair base r s) = crawls_of r @ crawls_of s"
  by (simp add: merge_pair_def get_web_context_AddCrawlResults) (simp add: get_web_context_def)

lemma svc_key_merge_pair:
  assumes "svc_key r = svc_key s"
  shows "svc_key (merge_pair base r s) = svc_key r"
proof -
  have ctx: "get_web_context (merge_pair base r s) = (get_web_context r)\<lparr>wc_crawls := crawls_of r @ crawls_of s\<rparr>"
    by (simp add: merge_pair_def get_web_context_AddCrawlResults) (simp add: get_web_context_def)
  show ?thesis
  proof (cases "wc_software (get_web_context r)")
    case (Some n)
    then show ?thesis by (simp add: svc_key_def ctx get_root_def)
  next
    case None
    with assms have "wc_software (get_web_context s) = None" "crawlHashes (get_web_context r) = crawlHashes (get_web_context s)"
      by (auto simp: svc_key_def Let_def split: option.splits)
    then have "crawlHashes ((get_web_context r)\<lparr>wc_crawls := crawls_of r @ crawls_of s\<rparr>) = crawlHashes (get_web_context r)"
      by (simp add: crawlHashes_def map_add_def fun_eq_iff split: option.splits)
    with None show ?thesis by (simp add: svc_key_def ctx)
  qed
qed

lemma merge_service_map:
  assumes "distinct ks" and "\<And>k. k \<in> set ks \<Longrightarrow> svc_key (G k) = k"
  shows "merge_service base s (map G ks) =
    (if svc_key s \<in> set ks then map (\<lambda>k. if k = svc_key s then merge_pair base (G k) s else G k) ks else map G ks @ [s])"
  using assms
proof (induction ks)
  case (Cons k ks)
  show ?case
  proof (cases "k = svc_key s")
    case True
    then have "map (\<lambda>k. if k = svc_key s then merge_pair base (G k) s else G k) ks = map G ks"
      using Cons.prems(1) by (intro map_cong) auto
    with True Cons.prems show ?thesis by (simp add: areServicesIdentical_iff merge_pair_def)
  next
    case False
    with Cons show ?thesis by (simp add: areServicesIdentical_iff)
  qed
qed simp

lemma svc_key_merge_all:
  "ss \<noteq> [] \<Longrightarrow> (\<And>s. s \<in> set ss \<Longrightarrow> svc_key s = k) \<Longrightarrow> svc_key (merge_all base ss) = k"
proof (induction ss rule: rev_induct)
  case (snoc s ss)
  show ?case
  proof (cases "ss = []")
    case False
    then have "svc_key (merge_all base ss) = k" using snoc by simp
    moreover have "merge_all base (ss @ [s]) = merge_pair base (merge_all base ss) s"
      using False by (simp add: merge_all_def)
    ultimately show ?thesis using svc_key_merge_pair [of "merge_all base ss" s base] snoc.prems(2) by simp
  qed (use snoc in \<open>simp add: merge_all_def\<close>)
qed simp

lemma reconcile_groups:
  "reconcileServices base services =
     map (\<lambda>k. merge_all base (filter (\<lambda>s. svc_key s = k) services)) (firsts (map svc_key services))"
proof (induction services rule: rev_induct)
  case Nil
  then show ?case by (simp add: reconcileServices_def)
next
  case (snoc s ss)
  let ?G = "\<lambda>ss k. merge_all base (filter (\<lambda>s. svc_key s = k) ss)"
  let ?ks = "firsts (map svc_key ss)"
  have keys: "svc_key (?G ss k) = k" if "k \<in> set ?ks" for k
    using that by (intro svc_key_merge_all) (auto simp: filter_empty_conv)
  have step: "reconcileServices base (ss @ [s]) = merge_service base s (map (?G ss) ?ks)"
    using snoc by (simp add: reconcileServices_def)
  have merged: "merge_service base s (map (?G ss) ?ks) =
      (if svc_key s \<in> set ?ks then map (\<lambda>k. if k = svc_key s then merge_pair base (?G ss k) s else ?G ss k) ?ks
       else map (?G ss) ?ks @ [s])"
    by (rule merge_service_map) (simp_all only: distinct_firsts keys)
  have other: "?G (ss @ [s]) k = ?G ss k" if "k \<noteq> svc_key s" for k
    using that by simp
  show ?case
  proof (cases "svc_key s \<in> set ?ks")
    case True
    then have ne: "filter (\<lambda>x. svc_key x = svc_key s) ss \<noteq> []" by (auto simp: filter_empty_conv)
    then have "?G (ss @ [s]) (svc_key s) = merge_pair base (?G ss (svc_key s)) s"
      by (simp add: merge_all_def)
    then have "map (\<lambda>k. if k = svc_key s then merge_pair base (?G ss k) s else ?G ss k) ?ks = map (?G (ss @ [s])) ?ks"
      using other by (intro map_cong) auto
    moreover have "firsts (map svc_key (ss @ [s])) = ?ks" using True by (simp add: firsts_snoc)
    ultimately show ?thesis unfolding step merged using True by (simp only: if_True)
  next
    case False
    then have "filter (\<lambda>x. svc_key x = svc_key s) ss = []" by (auto simp: filter_empty_conv) (metis imageI)
    then have "?G (ss @ [s]) (svc_key s) = s" by (simp add: merge_all_def)
    moreover have "map (?G (ss @ [s])) ?ks = map (?G ss) ?ks"
      using other False by (intro map_cong) auto
    moreover have "firsts (map svc_key (ss @ [s])) = ?ks @ [svc_key s]" using False by (simp add: firsts_snoc)
    ultimately show ?thesis unfolding step merged using False by (simp only: if_False map_append list.map)
  qed
qed

lemma merge_service_crawls:
  "mset (concat (map crawls_of (merge_service base s rs))) = mset (concat (map crawls_of rs)) + mset (crawls_of s)"
  by (induction rs) (simp_all add: crawls_merge_pair [unfolded merge_pair_def])

lemma reconcile_crawls:
  "mset (concat (map crawls_of (reconcileServices base services))) = mset (concat (map crawls_of services))"
  by (induction services rule: rev_induct) (simp_all add: reconcileServices_def merge_service_crawls)

text \<open>C18. Reconciliation returns one service for each application that the endpoints show, in the order in
  which they appear: services with the same software and the same root path, or without software
  and with the same pages, become one; the first of them gives the details, a merged one has the
  endpoint of the original service, and no crawled page is lost or made twice.\<close>

theorem reconcile_exact:
  "reconcileServices base services =
     map (\<lambda>k. merge_all base (filter (\<lambda>s. svc_key s = k) services)) (firsts (map svc_key services))
   \<and> map svc_key (reconcileServices base services) = firsts (map svc_key services)
   \<and> mset (concat (map crawls_of (reconcileServices base services))) = mset (concat (map crawls_of services))"
proof -
  have "map svc_key (reconcileServices base services) = map (\<lambda>k. k) (firsts (map svc_key services))"
    unfolding reconcile_groups map_map
  proof (rule map_cong [OF refl])
    fix k assume k: "k \<in> set (firsts (map svc_key services))"
    show "(svc_key \<circ> (\<lambda>k. merge_all base (filter (\<lambda>s. svc_key s = k) services))) k = k"
      unfolding comp_def by (rule svc_key_merge_all) (use k in \<open>auto simp: filter_empty_conv\<close>)
  qed
  with reconcile_groups [of base services] reconcile_crawls [of base services] show ?thesis by simp
qed

end
