(* ===== verification/Metrics.thy ===== *)
theory Metrics
  imports GoPrelude "HOL-Library.Product_Lexorder" "HOL-Library.Multiset"
begin

text \<open>
  \<open>core/metrics\<close>: metric declarations, label normalisation, the encoding of a series key, the
  in-memory collector with its cap on the series of a metric, the recorder that is installed, and
  the export. The maps of the collector are association lists, so that the theorems can say that
  the export does not depend on the order in which Go iterates over them. Samples are of any type
  \<open>'f\<close> with the addition, minimum and maximum of \<open>float64\<close> as a parameter. Counter totals are
  64-bit words, as in the code.
\<close>

section \<open>\<open>label.go\<close> and \<open>metric.go\<close>\<close>

datatype label = Label (lb_key: string) (lb_value: string)

text \<open>Labels are ordered by key, then by value, as \<open>compareSeries\<close> does.\<close>

instantiation label :: linorder
begin

definition less_eq_label :: "label \<Rightarrow> label \<Rightarrow> bool" where
  "less_eq_label a b = ((lb_key a, lb_value a) \<le> (lb_key b, lb_value b))"

definition less_label :: "label \<Rightarrow> label \<Rightarrow> bool" where
  "less_label a b = ((lb_key a, lb_value a) < (lb_key b, lb_value b))"

instance
  by standard (auto simp: less_eq_label_def less_label_def label.expand intro: label.expand)

end

datatype unit_kind = UnitCount | UnitSeconds | UnitBytes

datatype metric_kind = CounterKind | DistributionKind

record metric =
  m_name :: string
  m_description :: string
  m_unit :: unit_kind
  m_labelKeys :: "string list"
  m_kind :: metric_kind

definition maxLabelValueLength :: nat where
  "maxLabelValueLength = 128"

definition control_char :: "char \<Rightarrow> bool" where
  "control_char c = (char_code c < 32 \<or> char_code c = 127)"

definition sanitizeValue :: "string \<Rightarrow> string" where
  "sanitizeValue value =
     (if trim_space value = [] then ''unknown''
      else take maxLabelValueLength (map (\<lambda>c. if control_char c then CHR ''_'' else c) (trim_space value)))"

text \<open>The loop of \<open>normalize\<close>: undeclared keys and repeated keys are dropped.\<close>

fun keep_labels :: "metric \<Rightarrow> string list \<Rightarrow> label list \<Rightarrow> label list" where
  "keep_labels m seen [] = []"
| "keep_labels m seen (l # ls) =
     (if lb_key l \<notin> set (m_labelKeys m) then keep_labels m seen ls
      else if lb_key l \<in> set seen then keep_labels m seen ls
      else Label (lb_key l) (sanitizeValue (lb_value l)) # keep_labels m (lb_key l # seen) ls)"

definition normalize :: "metric \<Rightarrow> label list \<Rightarrow> label list" where
  "normalize m labels = sort_func (\<lambda>a b. strings_compare (lb_key a) (lb_key b)) (keep_labels m [] labels)"

section \<open>Declarations\<close>

definition segment_ok :: "string \<Rightarrow> bool" where
  "segment_ok w = (w \<noteq> [] \<and> is_lower (hd w) \<and> list_all (\<lambda>c. is_lower c \<or> is_digit c \<or> c = CHR ''_'') (tl w))"

text \<open>\<open>metricNameRe\<close>: slash separated segments of a lower-case letter, then lower-case letters, digits
  and underscores.\<close>

definition metric_name_ok :: "string \<Rightarrow> bool" where
  "metric_name_ok n = list_all segment_ok (split_on CHR ''/'' n)"

datatype declare_panic =
    InvalidMetricName string
  | NoDescription string
  | EmptyLabelKey string
  | DuplicateLabelKey string string
  | DeclaredTwice string

fun check_keys :: "string \<Rightarrow> string list \<Rightarrow> string list \<Rightarrow> declare_panic option" where
  "check_keys name seen [] = None"
| "check_keys name seen (k # ks) =
     (if k = [] then Some (EmptyLabelKey name)
      else if k \<in> set seen then Some (DuplicateLabelKey name k)
      else check_keys name (k # seen) ks)"

definition register_metric :: "metric \<Rightarrow> (string \<times> metric) list \<Rightarrow> (declare_panic, (string \<times> metric) list) result" where
  "register_metric m registry =
     (if \<not> metric_name_ok (m_name m) then Inl (InvalidMetricName (m_name m))
      else if m_description m = [] then Inl (NoDescription (m_name m))
      else case check_keys (m_name m) [] (m_labelKeys m) of
          Some p \<Rightarrow> Inl p
        | None \<Rightarrow>
            (case map_of registry (m_name m) of
               Some _ \<Rightarrow> Inl (DeclaredTwice (m_name m))
             | None \<Rightarrow> Inr ((m_name m, m) # registry)))"

definition Declared :: "(string \<times> metric) list \<Rightarrow> metric list" where
  "Declared registry = sort_func (\<lambda>a b. strings_compare (m_name a) (m_name b)) (map snd registry)"

definition counter_metric :: "string \<Rightarrow> string \<Rightarrow> string list \<Rightarrow> metric" where
  "counter_metric name description keys =
     \<lparr>m_name = name, m_description = description, m_unit = UnitCount, m_labelKeys = keys, m_kind = CounterKind\<rparr>"

definition distribution_metric :: "string \<Rightarrow> string \<Rightarrow> unit_kind \<Rightarrow> string list \<Rightarrow> metric" where
  "distribution_metric name description u keys =
     \<lparr>m_name = name, m_description = description, m_unit = u, m_labelKeys = keys, m_kind = DistributionKind\<rparr>"

text \<open>The constructors register what they build; an error is the panic of \<open>register\<close>.\<close>

definition NewCounter :: "string \<Rightarrow> string \<Rightarrow> string list \<Rightarrow> (string \<times> metric) list
    \<Rightarrow> (declare_panic, metric \<times> (string \<times> metric) list) result" where
  "NewCounter name description keys registry =
     (let c = counter_metric name description keys in map_sum id (Pair c) (register_metric c registry))"

definition NewDistribution :: "string \<Rightarrow> string \<Rightarrow> unit_kind \<Rightarrow> string list \<Rightarrow> (string \<times> metric) list
    \<Rightarrow> (declare_panic, metric \<times> (string \<times> metric) list) result" where
  "NewDistribution name description u keys registry =
     (let d = distribution_metric name description u keys in map_sum id (Pair d) (register_metric d registry))"

section \<open>\<open>catalog.go\<close>\<close>

definition catalog :: "metric list" where
  "catalog =
     [distribution_metric ''scan/duration'' ''Wall time of a scan, end to end.'' UnitSeconds [],
      distribution_metric ''scan/duration/portscan'' ''Wall time of the port scanning phase.'' UnitSeconds [],
      distribution_metric ''scan/duration/fingerprint'' ''Wall time of the fingerprinting phase.'' UnitSeconds [],
      distribution_metric ''scan/duration/detect'' ''Wall time of the vulnerability detection phase.'' UnitSeconds [],
      counter_metric ''services/discovered'' ''Network services discovered by the port scanner.'' [],
      counter_metric ''module/errors'' ''Module invocations that returned an error.'' [''module'', ''error_class''],
      distribution_metric ''module/duration'' ''Latency of a module invocation.'' UnitSeconds [''module''],
      counter_metric ''findings'' ''Vulnerabilities reported by detectors.'' [''module''],
      counter_metric ''budget/exhausted'' ''Times a configured limit stopped work early.'' [''module'', ''limit_name''],
      counter_metric ''http/requests'' ''Outbound HTTP requests.'' [],
      counter_metric ''http/requests/error'' ''Outbound HTTP requests that failed before a response.'' [''error_class''],
      counter_metric ''llm/tokens'' ''Tokens consumed by the LLM client.'' [''model''],
      counter_metric ''llm/tokens/input'' ''Prompt tokens sent to the model.'' [''model''],
      counter_metric ''llm/tokens/input/cached'' ''Prompt tokens served from cached content, a subset of llm/tokens/input.'' [''model''],
      counter_metric ''llm/tokens/output'' ''Tokens generated by the model.'' [''model''],
      counter_metric ''llm/tokens/thoughts'' ''Tokens spent on the model's internal reasoning.'' [''model''],
      counter_metric ''llm/tokens/tool_input'' ''Tokens of tool results fed back to the model as input.'' [''model''],
      distribution_metric ''llm/duration'' ''Wall time of an LLM agent run.'' UnitSeconds [''error_class'']]"

text \<open>What \<open>errors.Is\<close> and \<open>errors.As\<close> answer about an error.\<close>

record go_error =
  is_deadline :: bool
  is_canceled :: bool
  is_eof :: bool
  net_timeout :: "bool option"
  is_op_error :: bool

definition classifyError :: "go_error option \<Rightarrow> string" where
  "classifyError err = (case err of
       None \<Rightarrow> ''none''
     | Some e \<Rightarrow>
         if is_deadline e then ''deadline_exceeded''
         else if is_canceled e then ''canceled''
         else if is_eof e then ''eof''
         else case net_timeout e of
             Some t \<Rightarrow> if t then ''timeout'' else ''network''
           | None \<Rightarrow> if is_op_error e then ''network'' else ''other'')"

definition ErrorClass :: "go_error option \<Rightarrow> label" where
  "ErrorClass err = Label ''error_class'' (classifyError err)"

section \<open>\<open>series.go\<close>\<close>

record 'f float_ops =
  f_zero :: 'f
  f_add :: "'f \<Rightarrow> 'f \<Rightarrow> 'f"
  f_min :: "'f \<Rightarrow> 'f \<Rightarrow> 'f"
  f_max :: "'f \<Rightarrow> 'f \<Rightarrow> 'f"

record 'f stats =
  st_count :: nat
  st_sum :: 'f
  st_min :: 'f
  st_max :: 'f

definition zero_stats :: "'f float_ops \<Rightarrow> 'f stats" where
  "zero_stats fo = \<lparr>st_count = 0, st_sum = f_zero fo, st_min = f_zero fo, st_max = f_zero fo\<rparr>"

definition stats_observe :: "'f float_ops \<Rightarrow> 'f \<Rightarrow> 'f stats \<Rightarrow> 'f stats" where
  "stats_observe fo v s =
     \<lparr>st_count = st_count s + 1, st_sum = f_add fo (st_sum s) v,
      st_min = (if st_count s = 0 then v else f_min fo (st_min s) v),
      st_max = (if st_count s = 0 then v else f_max fo (st_max s) v)\<rparr>"

record 'f series =
  sr_metric :: metric
  sr_labels :: "label list"
  sr_value :: "64 word"
  sr_stats :: "'f stats"

fun compare_labels :: "label list \<Rightarrow> label list \<Rightarrow> int" where
  "compare_labels (a # as) (b # bs) =
     (if strings_compare (lb_key a) (lb_key b) \<noteq> 0 then strings_compare (lb_key a) (lb_key b)
      else if strings_compare (lb_value a) (lb_value b) \<noteq> 0 then strings_compare (lb_value a) (lb_value b)
      else compare_labels as bs)"
| "compare_labels as bs = int (length as) - int (length bs)"

definition compareSeries :: "'f series \<Rightarrow> 'f series \<Rightarrow> int" where
  "compareSeries a b =
     (let diff = strings_compare (m_name (sr_metric a)) (m_name (sr_metric b)) in
      if diff \<noteq> 0 then diff else compare_labels (sr_labels a) (sr_labels b))"

definition writeLengthPrefixed :: "string \<Rightarrow> string" where
  "writeLengthPrefixed v = itoa (length v) @ '':'' @ v"

definition seriesKey :: "metric \<Rightarrow> label list \<Rightarrow> string" where
  "seriesKey m labels = writeLengthPrefixed (m_name m) @
     concat (map (\<lambda>l. writeLengthPrefixed (lb_key l) @ writeLengthPrefixed (lb_value l)) labels)"

section \<open>\<open>collector.go\<close>\<close>

record 'f collector =
  c_max :: int
  c_series :: "(string \<times> 'f series) list"
  c_perMetric :: "(string \<times> nat) list"
  c_dropped :: "(string \<times> nat) list"
  c_capReported :: "string list"

definition DefaultMaxSeriesPerMetric :: int where
  "DefaultMaxSeriesPerMetric = 200"

text \<open>\<open>NewCollector\<close> with the option \<open>WithMaxSeriesPerMetric\<close>, if it is given.\<close>

definition NewCollector :: "int option \<Rightarrow> 'f collector" where
  "NewCollector mx = \<lparr>c_max = (case mx of None \<Rightarrow> DefaultMaxSeriesPerMetric | Some k \<Rightarrow> k),
     c_series = [], c_perMetric = [], c_dropped = [], c_capReported = []\<rparr>"

definition count_of :: "(string \<times> nat) list \<Rightarrow> string \<Rightarrow> nat" where
  "count_of m k = (case map_of m k of None \<Rightarrow> 0 | Some n \<Rightarrow> n)"

text \<open>The series is returned by its key in the map; \<open>None\<close> is the nil series of a metric at its cap.\<close>

definition lookupOrCreate :: "'f float_ops \<Rightarrow> metric \<Rightarrow> label list \<Rightarrow> 'f collector \<Rightarrow> 'f collector \<times> string option" where
  "lookupOrCreate fo m labels c =
     (let key = seriesKey m labels; name = m_name m in
      if map_of (c_series c) key \<noteq> None then (c, Some key)
      else if 0 < c_max c \<and> c_max c \<le> int (count_of (c_perMetric c) name)
      then (c\<lparr>c_dropped := upsert name 0 Suc (c_dropped c),
              c_capReported := (if name \<in> set (c_capReported c) then c_capReported c else name # c_capReported c)\<rparr>, None)
      else (c\<lparr>c_series := c_series c @ [(key, \<lparr>sr_metric = m, sr_labels = labels, sr_value = 0, sr_stats = zero_stats fo\<rparr>)],
              c_perMetric := upsert name 0 Suc (c_perMetric c)\<rparr>, Some key))"

definition update_series :: "string \<Rightarrow> ('f series \<Rightarrow> 'f series) \<Rightarrow> 'f collector \<Rightarrow> 'f collector" where
  "update_series key f c = c\<lparr>c_series := map (\<lambda>(k, s). (k, if k = key then f s else s)) (c_series c)\<rparr>"

definition Collector_Add :: "'f float_ops \<Rightarrow> metric \<Rightarrow> 64 word \<Rightarrow> label list \<Rightarrow> 'f collector \<Rightarrow> 'f collector" where
  "Collector_Add fo m delta labels c = (case lookupOrCreate fo m labels c of
       (c', None) \<Rightarrow> c'
     | (c', Some key) \<Rightarrow> update_series key (\<lambda>s. s\<lparr>sr_value := sr_value s + delta\<rparr>) c')"

definition Collector_Observe :: "'f float_ops \<Rightarrow> metric \<Rightarrow> 'f \<Rightarrow> label list \<Rightarrow> 'f collector \<Rightarrow> 'f collector" where
  "Collector_Observe fo m v labels c = (case lookupOrCreate fo m labels c of
       (c', None) \<Rightarrow> c'
     | (c', Some key) \<Rightarrow> update_series key (\<lambda>s. s\<lparr>sr_stats := stats_observe fo v (sr_stats s)\<rparr>) c')"

definition Collector_Series :: "'f collector \<Rightarrow> 'f series list" where
  "Collector_Series c = sort_func compareSeries (map snd (c_series c))"

definition Collector_Value :: "metric \<Rightarrow> label list \<Rightarrow> 'f collector \<Rightarrow> 64 word" where
  "Collector_Value m labels c = (case map_of (c_series c) (seriesKey m (normalize m labels)) of
       None \<Rightarrow> 0 | Some s \<Rightarrow> sr_value s)"

definition Collector_Stats :: "metric \<Rightarrow> label list \<Rightarrow> 'f collector \<Rightarrow> 'f stats option" where
  "Collector_Stats m labels c = map_option sr_stats (map_of (c_series c) (seriesKey m (normalize m labels)))"

definition DroppedObservations :: "metric \<Rightarrow> 'f collector \<Rightarrow> nat" where
  "DroppedObservations m c = count_of (c_dropped c) (m_name m)"

section \<open>\<open>recorder.go\<close>, \<open>counter.go\<close> and \<open>distribution.go\<close>\<close>

datatype 'f recorder = NoopRecorder | Installed "'f collector"

definition SetRecorder :: "'f collector option \<Rightarrow> 'f recorder" where
  "SetRecorder r = (case r of None \<Rightarrow> NoopRecorder | Some c \<Rightarrow> Installed c)"

definition recorder_Add :: "'f float_ops \<Rightarrow> metric \<Rightarrow> 64 word \<Rightarrow> label list \<Rightarrow> 'f recorder \<Rightarrow> 'f recorder" where
  "recorder_Add fo m delta labels r = (case r of
       NoopRecorder \<Rightarrow> NoopRecorder
     | Installed c \<Rightarrow> Installed (Collector_Add fo m delta labels c))"

definition recorder_Observe :: "'f float_ops \<Rightarrow> metric \<Rightarrow> 'f \<Rightarrow> label list \<Rightarrow> 'f recorder \<Rightarrow> 'f recorder" where
  "recorder_Observe fo m v labels r = (case r of
       NoopRecorder \<Rightarrow> NoopRecorder
     | Installed c \<Rightarrow> Installed (Collector_Observe fo m v labels c))"

definition Counter_Add :: "'f float_ops \<Rightarrow> metric \<Rightarrow> 64 word \<Rightarrow> label list \<Rightarrow> 'f recorder \<Rightarrow> 'f recorder" where
  "Counter_Add fo m delta labels r =
     (if sint delta < 0 then r else recorder_Add fo m delta (normalize m labels) r)"

definition Distribution_Observe :: "'f float_ops \<Rightarrow> metric \<Rightarrow> 'f \<Rightarrow> label list \<Rightarrow> 'f recorder \<Rightarrow> 'f recorder" where
  "Distribution_Observe fo m v labels r = recorder_Observe fo m v (normalize m labels) r"

section \<open>\<open>export.go\<close>\<close>

datatype 'f exported_value = ExCounter "64 word" | ExDistribution "'f stats"

record 'f exported_series =
  ex_name :: string
  ex_labels :: "label list"
  ex_value :: "'f exported_value"

definition exportSeries :: "'f series \<Rightarrow> 'f exported_series" where
  "exportSeries s = \<lparr>ex_name = m_name (sr_metric s), ex_labels = sr_labels s,
     ex_value = (case m_kind (sr_metric s) of
        CounterKind \<Rightarrow> ExCounter (sr_value s)
      | DistributionKind \<Rightarrow> ExDistribution (sr_stats s))\<rparr>"

definition exportDropped :: "'f collector \<Rightarrow> (string \<times> nat) list" where
  "exportDropped c = map (\<lambda>n. (n, count_of (c_dropped c) n)) (sort_func strings_compare (map fst (c_dropped c)))"

definition Export :: "'f collector \<Rightarrow> 'f exported_series list \<times> (string \<times> nat) list" where
  "Export c = (map exportSeries (Collector_Series c), exportDropped c)"

section \<open>The series key is an encoding\<close>

text \<open>An encoding whose words can be cut off the front of any string.\<close>

locale prefix_code =
  fixes enc :: "'a \<Rightarrow> string"
  assumes enc_cancel: "enc a @ r = enc b @ s \<longleftrightarrow> a = b \<and> r = s"
    and enc_nonempty: "enc a \<noteq> []"
begin

lemma concat_inject: "concat (map enc xs) = concat (map enc ys) \<longleftrightarrow> xs = ys"
proof (induction xs arbitrary: ys)
  case Nil
  then show ?case by (cases ys) (auto simp: enc_nonempty)
next
  case (Cons x xs)
  then show ?case by (cases ys) (auto simp: enc_nonempty enc_cancel)
qed

end

interpretation length_prefixed: prefix_code writeLengthPrefixed
proof
  fix a r b s
  show "writeLengthPrefixed a @ r = writeLengthPrefixed b @ s \<longleftrightarrow> a = b \<and> r = s"
  proof
    assume eq: "writeLengthPrefixed a @ r = writeLengthPrefixed b @ s"
    have cut: "cut_at CHR '':'' (writeLengthPrefixed x @ t) = Some (itoa (length x), x @ t)" for x t
      by (simp add: writeLengthPrefixed_def is_digit_def char_code_def)
    from cut [of a r] cut [of b s] eq have "length a = length b" "a @ r = b @ s" by simp_all
    then show "a = b \<and> r = s" by simp
  qed simp
qed (simp add: writeLengthPrefixed_def)

lemma seriesKey_words:
  "seriesKey m ls = concat (map writeLengthPrefixed (m_name m # concat (map (\<lambda>l. [lb_key l, lb_value l]) ls)))"
  by (induction ls) (simp_all add: seriesKey_def)

lemma label_words_inject:
  "concat (map (\<lambda>l. [lb_key l, lb_value l]) ls) = concat (map (\<lambda>l. [lb_key l, lb_value l]) ls') \<longleftrightarrow> ls = ls'"
proof (induction ls arbitrary: ls')
  case Nil
  then show ?case by (cases ls') auto
next
  case (Cons l ls)
  then show ?case by (cases ls') (auto intro: label.expand)
qed

text \<open>C24. Two series have the same key only if they have the same metric name and the same labels:
  no choice of names, keys and values, with colons and digits in them, makes two series collide.\<close>

theorem seriesKey_inject: "seriesKey m ls = seriesKey m' ls' \<longleftrightarrow> m_name m = m_name m' \<and> ls = ls'"
  unfolding seriesKey_words length_prefixed.concat_inject by (simp add: label_words_inject)

section \<open>Normalised labels\<close>

abbreviation label_pairs :: "label list \<Rightarrow> (string \<times> string) list" where
  "label_pairs ls \<equiv> map (\<lambda>l. (lb_key l, lb_value l)) ls"

lemma keep_labels_keys: "lb_key ` set (keep_labels m seen ls) \<subseteq> set (m_labelKeys m) - set seen"
  by (induction m seen ls rule: keep_labels.induct) auto

lemma keep_labels_distinct: "distinct (map lb_key (keep_labels m seen ls))"
proof (induction m seen ls rule: keep_labels.induct)
  case (2 m seen l ls)
  then show ?case using keep_labels_keys [of m "lb_key l # seen" ls] by auto
qed simp

lemma keep_labels_map_of:
  "map_of (label_pairs (keep_labels m seen ls)) k =
    (if k \<in> set (m_labelKeys m) - set seen then map_option sanitizeValue (map_of (label_pairs ls) k) else None)"
  by (induction m seen ls rule: keep_labels.induct) auto

lemma normalize_sort: "normalize m ls = sort_key lb_key (keep_labels m [] ls)"
  by (simp add: normalize_def sort_func_key)

text \<open>C31. Normalised labels are a canonical form: they are sorted by key with no key twice, and they
  say for each declared key the sanitised first value that was given for it, and nothing else; so
  the order in which the labels of an observation are written does not matter.\<close>

theorem normalize_canonical:
  "sorted_wrt (<) (map lb_key (normalize m ls)) \<and>
   map_of (label_pairs (normalize m ls)) k =
     (if k \<in> set (m_labelKeys m) then map_option sanitizeValue (map_of (label_pairs ls) k) else None)"
proof
  have d: "distinct (map lb_key (normalize m ls))"
    using keep_labels_distinct [of m "[]" ls] by (simp add: normalize_sort distinct_map)
  moreover have "sorted (map lb_key (normalize m ls))" by (simp add: normalize_sort)
  ultimately show "sorted_wrt (<) (map lb_key (normalize m ls))" by (simp add: strict_sorted_iff)
  have "map fst (label_pairs xs) = map lb_key xs" for xs by simp
  then have "map_of (label_pairs (normalize m ls)) = map_of (label_pairs (keep_labels m [] ls))"
    using d keep_labels_distinct [of m "[]" ls]
    by (subst map_of_inject_set) (simp_all add: normalize_sort comp_def)
  then show "map_of (label_pairs (normalize m ls)) k =
     (if k \<in> set (m_labelKeys m) then map_option sanitizeValue (map_of (label_pairs ls) k) else None)"
    by (simp add: keep_labels_map_of)
qed

section \<open>What the collector holds after any run\<close>

datatype 'f observation = ObsAdd metric "64 word" "label list" | ObsSample metric 'f "label list"

fun ob_name :: "'f observation \<Rightarrow> string" where
  "ob_name (ObsAdd m _ _) = m_name m"
| "ob_name (ObsSample m _ _) = m_name m"

fun ob_labels :: "'f observation \<Rightarrow> label list" where
  "ob_labels (ObsAdd _ _ ls) = ls"
| "ob_labels (ObsSample _ _ ls) = ls"

fun ob_metric :: "'f observation \<Rightarrow> metric" where
  "ob_metric (ObsAdd m _ _) = m"
| "ob_metric (ObsSample m _ _) = m"

fun ob_delta :: "'f observation \<Rightarrow> 64 word" where
  "ob_delta (ObsAdd _ d _) = d"
| "ob_delta (ObsSample _ _ _) = 0"

fun ob_samples :: "'f observation \<Rightarrow> 'f list" where
  "ob_samples (ObsAdd _ _ _) = []"
| "ob_samples (ObsSample _ v _) = [v]"

fun collect :: "'f float_ops \<Rightarrow> 'f observation \<Rightarrow> 'f collector \<Rightarrow> 'f collector" where
  "collect fo (ObsAdd m d ls) c = Collector_Add fo m d ls c"
| "collect fo (ObsSample m v ls) c = Collector_Observe fo m v ls c"

text \<open>The specification over the list of observations: the label combinations of a metric in the order
  in which they first occur, the ones kept under the cap, and the observations of one series.\<close>

definition kept :: "int \<Rightarrow> string \<Rightarrow> 'f observation list \<Rightarrow> label list list" where
  "kept mx n os = (let ls = firsts (map ob_labels (filter (\<lambda>o'. ob_name o' = n) os)) in
     if 0 < mx then take (nat mx) ls else ls)"

definition of_series :: "string \<Rightarrow> label list \<Rightarrow> 'f observation list \<Rightarrow> 'f observation list" where
  "of_series n ls os = filter (\<lambda>o'. ob_name o' = n \<and> ob_labels o' = ls) os"

definition apply_obs :: "'f float_ops \<Rightarrow> 'f observation \<Rightarrow> 'f series \<Rightarrow> 'f series" where
  "apply_obs fo o' s = s\<lparr>sr_value := sr_value s + ob_delta o',
     sr_stats := fold (stats_observe fo) (ob_samples o') (sr_stats s)\<rparr>"

lemma apply_obs_simps:
  "apply_obs fo (ObsAdd m d ls) = (\<lambda>s. s\<lparr>sr_value := sr_value s + d\<rparr>)"
  "apply_obs fo (ObsSample m v ls) = (\<lambda>s. s\<lparr>sr_stats := stats_observe fo v (sr_stats s)\<rparr>)"
  by (simp_all add: apply_obs_def fun_eq_iff)

lemma collect_eq:
  "collect fo o' c = (case lookupOrCreate fo (ob_metric o') (ob_labels o') c of
       (c', None) \<Rightarrow> c' | (c', Some key) \<Rightarrow> update_series key (apply_obs fo o') c')"
  by (cases o') (simp_all add: Collector_Add_def Collector_Observe_def apply_obs_simps)

lemma ob_name_metric [simp]: "m_name (ob_metric o') = ob_name o'"
  by (cases o') simp_all

lemma kept_snoc:
  "kept mx n (os @ [o']) =
    (if ob_name o' = n \<and> ob_labels o' \<notin> set (kept mx n os) \<and> (mx \<le> 0 \<or> int (length (kept mx n os)) < mx)
     then kept mx n os @ [ob_labels o'] else kept mx n os)"
proof -
  let ?ls = "map ob_labels (filter (\<lambda>o'. ob_name o' = n) os)"
  show ?thesis
  proof (cases "0 < mx \<and> nat mx < length (firsts ?ls)")
    case True
    then show ?thesis by (auto simp: kept_def firsts_snoc min_def)
  next
    case False
    then have "take (nat mx) (firsts ?ls) = firsts ?ls" if "0 < mx" using that by simp
    then show ?thesis using False
      by (auto simp: kept_def firsts_snoc Let_def nat_less_iff less_Suc_eq)
  qed
qed

text \<open>The state agrees with the observations made so far.\<close>

definition series_of :: "'f float_ops \<Rightarrow> string \<Rightarrow> label list \<Rightarrow> 'f observation list \<Rightarrow> 64 word \<times> 'f stats" where
  "series_of fo n ls os =
     (sum_list (map ob_delta (of_series n ls os)),
      fold (stats_observe fo) (concat (map ob_samples (of_series n ls os))) (zero_stats fo))"

definition agrees :: "'f float_ops \<Rightarrow> 'f observation list \<Rightarrow> 'f collector \<Rightarrow> bool" where
  "agrees fo os c \<longleftrightarrow>
     list_all (\<lambda>(k, s). k = seriesKey (sr_metric s) (sr_labels s)) (c_series c)
     \<and> distinct (map fst (c_series c))
     \<and> (\<forall>n. map sr_labels (filter (\<lambda>s. m_name (sr_metric s) = n) (map snd (c_series c))) = kept (c_max c) n os)
     \<and> (\<forall>n. count_of (c_perMetric c) n = length (kept (c_max c) n os))
     \<and> list_all (\<lambda>s. (sr_value s, sr_stats s) = series_of fo (m_name (sr_metric s)) (sr_labels s) os) (map snd (c_series c))
     \<and> (\<forall>n. count_of (c_dropped c) n =
          length (filter (\<lambda>o'. ob_name o' = n \<and> ob_labels o' \<notin> set (kept (c_max c) n os)) os))"

lemma count_of_upsert: "count_of (upsert k 0 Suc m) n = count_of m n + (if n = k then 1 else 0)"
  by (auto simp: count_of_def map_of_upsert split: option.splits)

lemma series_of_snoc:
  "series_of fo n ls (os @ [o']) =
     (if ob_name o' = n \<and> ob_labels o' = ls
      then (fst (series_of fo n ls os) + ob_delta o', fold (stats_observe fo) (ob_samples o') (snd (series_of fo n ls os)))
      else series_of fo n ls os)"
  by (simp add: series_of_def of_series_def)

lemma agrees_keys:
  assumes "agrees fo os c"
  shows "fst ` set (c_series c) = (\<lambda>s. seriesKey (sr_metric s) (sr_labels s)) ` set (map snd (c_series c))"
proof -
  have "fst p = seriesKey (sr_metric (snd p)) (sr_labels (snd p))" if "p \<in> set (c_series c)" for p
    using assms that by (auto simp: agrees_def list_all_iff)
  then show ?thesis by (auto simp: image_iff)
qed

lemma agrees_labels:
  assumes "agrees fo os c"
  shows "set (kept (c_max c) n os) = sr_labels ` {s \<in> set (map snd (c_series c)). m_name (sr_metric s) = n}"
proof -
  have "kept (c_max c) n os = map sr_labels (filter (\<lambda>s. m_name (sr_metric s) = n) (map snd (c_series c)))"
    using assms by (simp add: agrees_def)
  then show ?thesis by (simp only: list.set_map set_filter)
qed

lemma agrees_key_iff:
  assumes "agrees fo os c"
  shows "map_of (c_series c) (seriesKey m ls) = None \<longleftrightarrow> ls \<notin> set (kept (c_max c) (m_name m) os)"
  unfolding map_of_eq_None_iff agrees_keys [OF assms] agrees_labels [OF assms]
  by (auto simp: seriesKey_inject image_iff simp del: list.set_map set_map)

lemma update_series_fields [simp]:
  "c_max (update_series key f c) = c_max c"
  "c_perMetric (update_series key f c) = c_perMetric c"
  "c_dropped (update_series key f c) = c_dropped c"
  "c_capReported (update_series key f c) = c_capReported c"
  "map fst (c_series (update_series key f c)) = map fst (c_series c)"
  by (simp_all add: update_series_def split_beta)

lemma update_series_snd:
  assumes "list_all (\<lambda>(k, s). k = seriesKey (sr_metric s) (sr_labels s)) (c_series c)"
  shows "map snd (c_series (update_series key f c)) =
    map (\<lambda>s. if seriesKey (sr_metric s) (sr_labels s) = key then f s else s) (map snd (c_series c))"
  using assms by (auto simp: update_series_def list_all_iff)

lemma apply_obs_fields [simp]:
  "sr_metric (apply_obs fo o' s) = sr_metric s" "sr_labels (apply_obs fo o' s) = sr_labels s"
  by (simp_all add: apply_obs_def)

lemma update_agrees:
  fixes o' :: "'f observation"
  defines "key \<equiv> seriesKey (ob_metric o') (ob_labels o')"
  assumes keys: "list_all (\<lambda>(k, s). k = seriesKey (sr_metric s) (sr_labels s)) (c_series c)"
    and distinct: "distinct (map fst (c_series c))"
    and labels: "\<And>n. map sr_labels (filter (\<lambda>s. m_name (sr_metric s) = n) (map snd (c_series c)))
        = kept (c_max c) n (os @ [o'])"
    and counts: "\<And>n. count_of (c_perMetric c) n = length (kept (c_max c) n (os @ [o']))"
    and vals: "list_all (\<lambda>s. (sr_value s, sr_stats s) = series_of fo (m_name (sr_metric s)) (sr_labels s) os)
        (map snd (c_series c))"
    and dropped: "\<And>n. count_of (c_dropped c) n = length (filter (\<lambda>p. ob_name p = n
        \<and> ob_labels p \<notin> set (kept (c_max c) n (os @ [o']))) (os @ [o']))"
  shows "agrees fo (os @ [o']) (update_series key (apply_obs fo o') c)"
proof -
  let ?c' = "update_series key (apply_obs fo o') c"
  let ?f = "\<lambda>s. if seriesKey (sr_metric s) (sr_labels s) = key then apply_obs fo o' s else s"
  have snd: "map snd (c_series ?c') = map ?f (map snd (c_series c))"
    by (rule update_series_snd [OF keys])
  have "list_all (\<lambda>(k, s). k = seriesKey (sr_metric s) (sr_labels s)) (c_series ?c')"
    using keys by (auto simp: list_all_iff update_series_def)
  moreover have "map sr_labels (filter (\<lambda>s. m_name (sr_metric s) = n) (map snd (c_series ?c')))
      = map sr_labels (filter (\<lambda>s. m_name (sr_metric s) = n) (map snd (c_series c)))" for n
    unfolding snd filter_map by (simp add: comp_def if_distrib cong: if_cong)
  moreover have "list_all (\<lambda>s. (sr_value s, sr_stats s) = series_of fo (m_name (sr_metric s)) (sr_labels s) (os @ [o']))
      (map snd (c_series ?c'))"
    unfolding snd list.pred_map [of _ ?f] comp_def
  proof (rule list.pred_mono_strong [OF vals])
    fix s :: "'f series" assume s: "(sr_value s, sr_stats s) = series_of fo (m_name (sr_metric s)) (sr_labels s) os"
    show "(sr_value (?f s), sr_stats (?f s))
        = series_of fo (m_name (sr_metric (?f s))) (sr_labels (?f s)) (os @ [o'])"
      using s [symmetric] by (auto simp: series_of_snoc key_def seriesKey_inject apply_obs_def)
  qed
  ultimately show ?thesis using distinct labels counts dropped by (simp add: agrees_def)
qed

lemma kept_open:
  "mx \<le> 0 \<or> int (length (kept mx n os)) < mx \<Longrightarrow> set (kept mx n os) = ob_labels ` {p \<in> set os. ob_name p = n}"
  by (auto simp: kept_def Let_def split: if_splits)

lemma agrees_new:
  assumes "agrees fo os c" and "ob_labels o' \<notin> set (kept (c_max c) (ob_name o') os)"
    and "c_max c \<le> 0 \<or> int (length (kept (c_max c) (ob_name o') os)) < c_max c"
  shows "of_series (ob_name o') (ob_labels o') os = []"
  using assms(2) unfolding kept_open [OF assms(3)] by (auto simp: of_series_def filter_empty_conv image_iff)

lemma collect_agrees [inv_intros]:
  assumes "agrees fo os c"
  shows "agrees fo (os @ [o']) (collect fo o' c)"
proof -
  let ?n = "ob_name o'" and ?ls = "ob_labels o'" and ?key = "seriesKey (ob_metric o') (ob_labels o')"
  note a = assms [unfolded agrees_def]
  have counts: "count_of (c_perMetric c) n = length (kept (c_max c) n os)" for n using a by blast
  consider (known) "?ls \<in> set (kept (c_max c) ?n os)"
    | (capped) "?ls \<notin> set (kept (c_max c) ?n os)" "0 < c_max c" "c_max c \<le> int (length (kept (c_max c) ?n os))"
    | (new) "?ls \<notin> set (kept (c_max c) ?n os)" "c_max c \<le> 0 \<or> int (length (kept (c_max c) ?n os)) < c_max c"
    by linarith
  then show ?thesis
  proof cases
    case known
    then have "lookupOrCreate fo (ob_metric o') ?ls c = (c, Some ?key)"
      using agrees_key_iff [OF assms, of "ob_metric o'" ?ls] by (auto simp: lookupOrCreate_def Let_def)
    moreover have "kept (c_max c) n (os @ [o']) = kept (c_max c) n os" for n
      using known by (auto simp: kept_snoc)
    moreover from this have "agrees fo (os @ [o']) (update_series ?key (apply_obs fo o') c)"
      using a known by (intro update_agrees) auto
    ultimately show ?thesis by (simp add: collect_eq)
  next
    case capped
    have "map_of (c_series c) ?key = None" using agrees_key_iff [OF assms, of "ob_metric o'" ?ls] capped by simp
    then have "collect fo o' c = c\<lparr>c_dropped := upsert ?n 0 Suc (c_dropped c),
        c_capReported := (if ?n \<in> set (c_capReported c) then c_capReported c else ?n # c_capReported c)\<rparr>"
      using capped by (simp add: collect_eq lookupOrCreate_def Let_def counts)
    moreover have k: "kept (c_max c) n (os @ [o']) = kept (c_max c) n os" for n
      using capped by (auto simp: kept_snoc)
    moreover have "series_of fo (m_name (sr_metric s)) (sr_labels s) (os @ [o'])
        = series_of fo (m_name (sr_metric s)) (sr_labels s) os" if "s \<in> set (map snd (c_series c))" for s
    proof -
      have "sr_labels s \<in> set (kept (c_max c) (m_name (sr_metric s)) os)"
        using that unfolding agrees_labels [OF assms] by blast
      then show ?thesis using capped(1) by (auto simp: series_of_snoc)
    qed
    ultimately show ?thesis
      using a capped(1) by (auto simp: agrees_def k count_of_upsert list_all_iff)
  next
    case new
    let ?s = "\<lparr>sr_metric = ob_metric o', sr_labels = ?ls, sr_value = 0, sr_stats = zero_stats fo\<rparr>"
    let ?c1 = "c\<lparr>c_series := c_series c @ [(?key, ?s)], c_perMetric := upsert ?n 0 Suc (c_perMetric c)\<rparr>"
    have none: "map_of (c_series c) ?key = None"
      using agrees_key_iff [OF assms, of "ob_metric o'" ?ls] new by simp
    then have "lookupOrCreate fo (ob_metric o') ?ls c = (?c1, Some ?key)"
      using new(2) by (auto simp: lookupOrCreate_def Let_def counts)
    moreover have k: "kept (c_max c) n (os @ [o']) = (if n = ?n then kept (c_max c) n os @ [?ls] else kept (c_max c) n os)" for n
      using new by (auto simp: kept_snoc)
    moreover have "series_of fo ?n ?ls os = (0, zero_stats fo)"
      using agrees_new [OF assms new] by (simp add: series_of_def)
    moreover have "filter (\<lambda>p. ob_name p = ?n \<and> ob_labels p \<notin> insert ?ls (set (kept (c_max c) ?n os))) os
        = filter (\<lambda>p. ob_name p = ?n \<and> ob_labels p \<notin> set (kept (c_max c) ?n os)) os"
      using agrees_new [OF assms new] by (intro filter_cong) (auto simp: of_series_def filter_empty_conv)
    ultimately have "agrees fo (os @ [o']) (update_series ?key (apply_obs fo o') ?c1)"
      using a none by (intro update_agrees) (auto simp: count_of_upsert map_of_eq_None_iff)
    with \<open>lookupOrCreate fo (ob_metric o') ?ls c = (?c1, Some ?key)\<close> show ?thesis by (simp add: collect_eq)
  qed
qed

lemma agrees_New: "agrees fo [] (NewCollector mx)"
  by (simp add: agrees_def NewCollector_def kept_def count_of_def)

lemma collect_max [simp]: "c_max (collect fo o' c) = c_max c"
  by (auto simp: collect_eq lookupOrCreate_def Let_def split: option.splits)

lemma collect_run:
  "agrees fo os (fold (collect fo) os (NewCollector mx)) \<and>
   c_max (fold (collect fo) os (NewCollector mx)) = (case mx of None \<Rightarrow> DefaultMaxSeriesPerMetric | Some k \<Rightarrow> k)"
proof (induction os rule: rev_induct)
  case Nil
  then show ?case by (simp add: agrees_New) (simp add: NewCollector_def)
next
  case (snoc o' os)
  then show ?case by (simp add: collect_agrees)
qed

text \<open>C9. After any sequence of observations the collector holds exactly this: for each metric the
  first label combinations up to the cap, in order of first use; for each of them the sum of all
  its increments and the summary of all its samples; and as dropped the number of observations
  of the other combinations. Nothing is lost or counted twice.\<close>

theorem collector_exact:
  fixes fo :: "'f float_ops"
  defines "cap mx \<equiv> (case mx of None \<Rightarrow> DefaultMaxSeriesPerMetric | Some k \<Rightarrow> k)"
  shows "case fold (collect fo) os (NewCollector mx) of c \<Rightarrow>
     map sr_labels (filter (\<lambda>s. m_name (sr_metric s) = m_name m) (map snd (c_series c))) = kept (cap mx) (m_name m) os
     \<and> map_option (\<lambda>s. (sr_value s, sr_stats s)) (map_of (c_series c) (seriesKey m ls))
         = (if ls \<in> set (kept (cap mx) (m_name m) os) then Some (series_of fo (m_name m) ls os) else None)
     \<and> DroppedObservations m c
         = length (filter (\<lambda>o'. ob_name o' = m_name m \<and> ob_labels o' \<notin> set (kept (cap mx) (m_name m) os)) os)"
proof -
  let ?c = "fold (collect fo) os (NewCollector mx)"
  have a: "agrees fo os ?c" and mx: "c_max ?c = cap mx" using collect_run by (auto simp: cap_def)
  note ag = a [unfolded agrees_def mx]
  have "map_option (\<lambda>s. (sr_value s, sr_stats s)) (map_of (c_series ?c) (seriesKey m ls)) = Some (series_of fo (m_name m) ls os)"
    if "map_of (c_series ?c) (seriesKey m ls) = Some s" for s
  proof -
    have "(seriesKey m ls, s) \<in> set (c_series ?c)" using that by (rule map_of_SomeD)
    with ag have "seriesKey m ls = seriesKey (sr_metric s) (sr_labels s)"
        "(sr_value s, sr_stats s) = series_of fo (m_name (sr_metric s)) (sr_labels s) os"
      by (force simp: list_all_iff)+
    then have "(sr_value s, sr_stats s) = series_of fo (m_name m) ls os" by (simp add: seriesKey_inject)
    with that show ?thesis by simp
  qed
  moreover have "map_of (c_series ?c) (seriesKey m ls) = None \<longleftrightarrow> ls \<notin> set (kept (cap mx) (m_name m) os)"
    using agrees_key_iff [OF a] by (simp add: mx)
  ultimately show ?thesis using ag by (cases "map_of (c_series ?c) (seriesKey m ls)") (simp_all add: DroppedObservations_def)
qed

section \<open>The export does not depend on the iteration order\<close>

lemma strings_compare_eq [simp]: "strings_compare s t = 0 \<longleftrightarrow> s = t"
  by (auto simp: strings_compare_def)

lemma label_le_iff: "a \<le> b \<longleftrightarrow> (if lb_key a = lb_key b then lb_value a \<le> lb_value b else lb_key a \<le> lb_key b)"
  by (auto simp: less_eq_label_def)

lemma compare_labels_le: "compare_labels as bs \<le> 0 \<longleftrightarrow> as \<le> bs"
proof (induction as bs rule: compare_labels.induct)
  case (1 a as b bs)
  then show ?case
    by (cases a; cases b) (auto simp: label_le_iff less_le)
qed auto

definition series_order :: "'f series \<Rightarrow> string \<times> label list" where
  "series_order s = (m_name (sr_metric s), sr_labels s)"

lemma compareSeries_le: "compareSeries a b \<le> 0 \<longleftrightarrow> series_order a \<le> series_order b"
  by (auto simp: compareSeries_def series_order_def Let_def compare_labels_le)

lemma Collector_Series_sort: "Collector_Series c = sort_key series_order (map snd (c_series c))"
  unfolding Collector_Series_def by (rule sort_func_key) (rule compareSeries_le)

definition order_key :: "string \<times> label list \<Rightarrow> string" where
  "order_key p = writeLengthPrefixed (fst p) @
     concat (map (\<lambda>l. writeLengthPrefixed (lb_key l) @ writeLengthPrefixed (lb_value l)) (snd p))"

lemma agrees_series_distinct: "agrees fo os c \<Longrightarrow> distinct (map series_order (map snd (c_series c)))"
proof -
  assume a: "agrees fo os c"
  have "order_key (series_order (snd p)) = fst p" if "p \<in> set (c_series c)" for p
    using a that by (auto simp: agrees_def list_all_iff series_order_def seriesKey_def order_key_def)
  then have "map order_key (map series_order (map snd (c_series c))) = map fst (c_series c)" by simp
  with a show ?thesis by (metis agrees_def distinct_map)
qed

lemma collect_dropped_distinct: "distinct (map fst (c_dropped c)) \<Longrightarrow> distinct (map fst (c_dropped (collect fo o' c)))"
  by (auto simp: collect_eq lookupOrCreate_def Let_def split: option.splits)

lemma run_dropped_distinct: "distinct (map fst (c_dropped (fold (collect fo) os (NewCollector mx))))"
  by (induction os rule: rev_induct) (simp_all add: collect_dropped_distinct, simp add: NewCollector_def)

text \<open>The export of a collector is a function of what it holds: any collector with the same
  series and dropped counts in another iteration order exports the same list, sorted by metric
  name and labels.\<close>

theorem Export_order_irrelevant:
  assumes "c = fold (collect fo) os (NewCollector mx)"
    and "mset (c_series c') = mset (c_series c)" and "mset (c_dropped c') = mset (c_dropped c)"
  shows "Export c' = Export c \<and> sorted_wrt (<) (map (\<lambda>s. (ex_name s, ex_labels s)) (fst (Export c)))"
proof -
  let ?sr = "\<lambda>c. map snd (c_series c)"
  have a: "agrees fo os c" using collect_run assms(1) by blast
  have sm: "mset (?sr c') = mset (?sr c)" using assms(2) by (metis mset_map)
  then have d: "distinct (map series_order (?sr c'))"
    using agrees_series_distinct [OF a] by (metis mset_eq_imp_distinct_iff mset_map)
  have sr: "Collector_Series c' = Collector_Series c"
    unfolding Collector_Series_sort using d agrees_series_distinct [OF a] mset_eq_setD [OF sm]
    by (rule sort_key_order_irrelevant [rotated])
  have "distinct (map fst (c_dropped c))" using run_dropped_distinct assms(1) by blast
  moreover from this have "distinct (map fst (c_dropped c'))"
    using assms(3) by (metis mset_eq_imp_distinct_iff mset_map)
  ultimately have dd: "map_of (c_dropped c') = map_of (c_dropped c)"
    using mset_eq_setD [OF assms(3)] by (simp only: map_of_inject_set)
  have "exportDropped c' = exportDropped c"
  proof -
    have "sort (map fst (c_dropped c')) = sort (map fst (c_dropped c))"
      using assms(3) by (metis mset_map sorted_list_of_multiset_mset)
    with dd show ?thesis by (simp add: exportDropped_def count_of_def sort_func_strings)
  qed
  moreover have "map (\<lambda>s. (ex_name s, ex_labels s)) (fst (Export c)) = map series_order (Collector_Series c)"
    by (simp add: Export_def exportSeries_def series_order_def)
  moreover have "sorted_wrt (<) (map series_order (Collector_Series c))"
    using agrees_series_distinct [OF a] unfolding Collector_Series_sort strict_sorted_iff
    by (metis mset_eq_imp_distinct_iff mset_map mset_sort sorted_sort_key)
  ultimately have "sorted_wrt (<) (map (\<lambda>s. (ex_name s, ex_labels s)) (fst (Export c)))" by simp
  with sr \<open>exportDropped c' = exportDropped c\<close> show ?thesis by (simp add: Export_def)
qed

theorem Export_order_irrelevant_witness:
  "\<exists>c c'. c = fold (collect \<lparr>f_zero = 0 :: nat, f_add = (+), f_min = min, f_max = max\<rparr>) [ObsAdd (counter_metric ''b'' ''d'' []) 1 [], ObsAdd (counter_metric ''a'' ''d'' []) 2 []] (NewCollector None)
     \<and> c_series c' = rev (c_series c) \<and> c_series c' \<noteq> c_series c \<and> Export c' = Export c"
proof -
  obtain c where c: "c = fold (collect \<lparr>f_zero = 0 :: nat, f_add = (+), f_min = min, f_max = max\<rparr>) [ObsAdd (counter_metric ''b'' ''d'' []) 1 [], ObsAdd (counter_metric ''a'' ''d'' []) 2 []] (NewCollector None)"
    by blast
  have "Export (c\<lparr>c_series := rev (c_series c)\<rparr>) = Export c"
    using Export_order_irrelevant [OF c, of "c\<lparr>c_series := rev (c_series c)\<rparr>"] by simp
  moreover have "map (\<lambda>p. m_name (sr_metric (snd p))) (c_series c) = [''b'', ''a'']"
    by (simp add: c Collector_Add_def lookupOrCreate_def NewCollector_def DefaultMaxSeriesPerMetric_def
        update_series_def seriesKey_inject count_of_def counter_metric_def Let_def)
  then have "rev (map (\<lambda>p. m_name (sr_metric (snd p))) (c_series c)) \<noteq> map (\<lambda>p. m_name (sr_metric (snd p))) (c_series c)"
    by simp
  then have "rev (c_series c) \<noteq> c_series c" by (metis rev_map)
  ultimately show ?thesis using c by (intro exI [of _ c] exI [of _ "c\<lparr>c_series := rev (c_series c)\<rparr>"]) simp
qed

section \<open>The catalog\<close>

definition declaration_ok :: "metric \<Rightarrow> bool" where
  "declaration_ok m = (metric_name_ok (m_name m) \<and> m_description m \<noteq> [] \<and>
     check_keys (m_name m) [] (m_labelKeys m) = None)"

lemma register_metrics:
  assumes "list_all declaration_ok ms" and "distinct (map m_name ms)" and "set (map m_name ms) \<inter> fst ` set reg = {}"
  shows "fold (\<lambda>m r. case r of Inl p \<Rightarrow> Inl p | Inr reg \<Rightarrow> register_metric m reg) ms (Inr reg)
    = Inr (rev (map (\<lambda>m. (m_name m, m)) ms) @ reg)"
  using assms
proof (induction ms arbitrary: reg)
  case (Cons m ms)
  then have "map_of reg (m_name m) = None" by (auto simp: map_of_eq_None_iff)
  with Cons.prems have "register_metric m reg = Inr ((m_name m, m) # reg)"
    by (simp add: register_metric_def declaration_ok_def)
  with Cons show ?case by auto
qed simp

lemma catalog_names:
  "map m_name catalog =
     [''scan/duration'', ''scan/duration/portscan'', ''scan/duration/fingerprint'', ''scan/duration/detect'',
      ''services/discovered'', ''module/errors'', ''module/duration'', ''findings'', ''budget/exhausted'',
      ''http/requests'', ''http/requests/error'', ''llm/tokens'', ''llm/tokens/input'', ''llm/tokens/input/cached'',
      ''llm/tokens/output'', ''llm/tokens/thoughts'', ''llm/tokens/tool_input'', ''llm/duration'']"
  by (simp add: catalog_def counter_metric_def distribution_metric_def)

lemma catalog_names_ok: "list_all metric_name_ok (map m_name catalog)"
  unfolding catalog_names
  by (simp add: metric_name_ok_def segment_ok_def is_lower_def is_digit_def char_code_def)

lemma catalog_ok: "list_all (\<lambda>m. m_description m \<noteq> [] \<and> check_keys (m_name m) [] (m_labelKeys m) = None) catalog"
  by (simp add: catalog_def counter_metric_def distribution_metric_def)

text \<open>The declarations of the catalog never panic when the package is initialised: every name is
  well formed, every metric is described, and no name or label key occurs twice.\<close>

theorem catalog_declares:
  "fold (\<lambda>m r. case r of Inl p \<Rightarrow> Inl p | Inr reg \<Rightarrow> register_metric m reg) catalog (Inr [])
     = Inr (rev (map (\<lambda>m. (m_name m, m)) catalog))"
proof -
  have "list_all declaration_ok catalog"
    using catalog_names_ok catalog_ok by (simp add: list_all_iff declaration_ok_def)
  moreover have "distinct (map m_name catalog)" unfolding catalog_names by simp
  ultimately show ?thesis using register_metrics [of catalog "[]"] by simp
qed

end
