(* ===== verification/Config.thy ===== *)
theory Config
  imports GoPrelude
begin

text \<open>
  The configuration of the scanner, \<open>src/core/config/config.go\<close> and \<open>overrides.go\<close>: the record of a
  configuration with its directories, and the overrides of the command line, which address a field
  of the protocol buffer by its path. A message is a map from the names of its fields that are set
  to values; what the code asks of reflection (the fields of a message, their kind and whether they
  are repeated) is a descriptor. \<open>config_descriptor\<close> is the one of \<open>src/core/config/config.proto\<close>
  and of the files it imports; no message there has a \<open>oneof\<close>, so setting a field never clears another.
\<close>

section \<open>Messages and their descriptors\<close>

datatype cardinality = Singular | Repeated | MapField

datatype field_kind =
    StringKind | EnumKind "(string \<times> int) list" | BoolKind
  | Int32Kind | Sint32Kind | Sfixed32Kind | Int64Kind | Sint64Kind | Sfixed64Kind
  | Uint32Kind | Fixed32Kind | Uint64Kind | Fixed64Kind
  | FloatKind | DoubleKind | BytesKind | GroupKind | MessageKind descriptor
and descriptor = Descriptor (descriptor_fields: "(string \<times> cardinality \<times> field_kind) list")

datatype pb_value =
    VString string | VEnum int | VBool bool
  | VInt32 "32 word" | VInt64 "64 word" | VUint32 "32 word" | VUint64 "64 word"
  | VList "pb_value list"
  | VMessage "string \<Rightarrow> pb_value option"
  | VOpaque \<comment> \<open>a value of a kind that no override can write\<close>

type_synonym pb_message = "string \<Rightarrow> pb_value option"

definition field_of :: "descriptor \<Rightarrow> string \<Rightarrow> (cardinality \<times> field_kind) option" where
  "field_of d name = map_of (descriptor_fields d) name"

text \<open>\<open>Mutable\<close> of a field: the value it has, and an empty message or list when it is not set.\<close>

definition message_of :: "pb_value option \<Rightarrow> pb_message" where
  "message_of v = (case v of Some (VMessage m) \<Rightarrow> m | _ \<Rightarrow> Map.empty)"

lemma message_of_simps [simp]: "message_of None = Map.empty" "message_of (Some (VMessage m)) = m"
  by (simp_all add: message_of_def)

section \<open>Parsing of values\<close>

datatype config_error =
    ErrUninitialized | ErrWorkDirEmpty | ErrWorkDirAccess | ErrCreateDir | ErrRemoveDir
  | ErrConfigRead | ErrConfigUnmarshal | ErrInvalidOverrideFormat | ErrFieldNotFound
  | ErrFieldNotMessage | ErrUnsupportedFieldKind

text \<open>\<open>strconv.ParseInt(s, 10, bits)\<close>, \<open>strconv.ParseUint(s, 10, bits)\<close> and \<open>strconv.ParseBool\<close>.\<close>

definition parse_int :: "nat \<Rightarrow> string \<Rightarrow> int option" where
  "parse_int bits s =
     (case atoi s of
        None \<Rightarrow> None
      | Some v \<Rightarrow> if - (2 ^ (bits - 1)) \<le> v \<and> v < 2 ^ (bits - 1) then Some v else None)"

definition parse_uint :: "nat \<Rightarrow> string \<Rightarrow> nat option" where
  "parse_uint bits s =
     (case parse_dec s of None \<Rightarrow> None | Some n \<Rightarrow> if n < 2 ^ bits then Some n else None)"

definition parse_bool :: "string \<Rightarrow> bool option" where
  "parse_bool s =
     (if s \<in> {''1'', ''t'', ''T'', ''true'', ''TRUE'', ''True''} then Some True
      else if s \<in> {''0'', ''f'', ''F'', ''false'', ''FALSE'', ''False''} then Some False
      else None)"

definition parseEnumValue :: "(string \<times> int) list \<Rightarrow> string \<Rightarrow> (config_error, pb_value) result" where
  "parseEnumValue values s =
     (case map_of values s of
        Some n \<Rightarrow> Inr (VEnum n)
      | None \<Rightarrow>
          (case parse_int 32 s of
             Some n \<Rightarrow> if n \<in> snd ` set values then Inr (VEnum n) else Inl ErrConfigUnmarshal
           | None \<Rightarrow> Inl ErrConfigUnmarshal))"

definition or_unmarshal :: "('a \<Rightarrow> pb_value) \<Rightarrow> 'a option \<Rightarrow> (config_error, pb_value) result" where
  "or_unmarshal f r = (case r of None \<Rightarrow> Inl ErrConfigUnmarshal | Some v \<Rightarrow> Inr (f v))"

definition int32_value :: "string \<Rightarrow> (config_error, pb_value) result" where
  "int32_value s = or_unmarshal (\<lambda>i. VInt32 (word_of_int i)) (parse_int 32 s)"

definition int64_value :: "string \<Rightarrow> (config_error, pb_value) result" where
  "int64_value s = or_unmarshal (\<lambda>i. VInt64 (word_of_int i)) (parse_int 64 s)"

definition uint32_value :: "string \<Rightarrow> (config_error, pb_value) result" where
  "uint32_value s = or_unmarshal (\<lambda>i. VUint32 (of_nat i)) (parse_uint 32 s)"

definition uint64_value :: "string \<Rightarrow> (config_error, pb_value) result" where
  "uint64_value s = or_unmarshal (\<lambda>i. VUint64 (of_nat i)) (parse_uint 64 s)"

fun parseValue :: "field_kind \<Rightarrow> string \<Rightarrow> (config_error, pb_value) result" where
  "parseValue StringKind s = Inr (VString s)"
| "parseValue (EnumKind values) s = parseEnumValue values s"
| "parseValue BoolKind s = or_unmarshal VBool (parse_bool s)"
| "parseValue Int32Kind s = int32_value s"
| "parseValue Sint32Kind s = int32_value s"
| "parseValue Sfixed32Kind s = int32_value s"
| "parseValue Int64Kind s = int64_value s"
| "parseValue Sint64Kind s = int64_value s"
| "parseValue Sfixed64Kind s = int64_value s"
| "parseValue Uint32Kind s = uint32_value s"
| "parseValue Fixed32Kind s = uint32_value s"
| "parseValue Uint64Kind s = uint64_value s"
| "parseValue Fixed64Kind s = uint64_value s"
| "parseValue _ s = Inl ErrUnsupportedFieldKind"

section \<open>Setting a field\<close>

text \<open>
  The loop over the elements of a repeated field appends each value to the list of the message as
  it is parsed: when one fails, those before it stay. \<open>processLeaf\<close>, \<open>setField\<close> and the overrides
  return the message as the call leaves it, and the error.
\<close>

fun append_values :: "field_kind \<Rightarrow> string list \<Rightarrow> pb_value list \<Rightarrow> pb_value list \<times> config_error option" where
  "append_values kind [] acc = (acc, None)"
| "append_values kind (v # vs) acc =
     (case parseValue kind v of
        Inl e \<Rightarrow> (acc, Some e)
      | Inr pv \<Rightarrow> append_values kind vs (acc @ [pv]))"

definition processLeaf :: "pb_message \<Rightarrow> string \<Rightarrow> cardinality \<times> field_kind \<Rightarrow> string \<Rightarrow> pb_message \<times> config_error option" where
  "processLeaf m name fd value =
     (if fst fd = Repeated then
        if value = [] then (m(name \<mapsto> VList []), None)
        else
          let (vs, err) = append_values (snd fd) (split_on CHR '','' value) [] in
          (m(name \<mapsto> VList vs), err)
      else
        case parseValue (snd fd) value of
          Inl e \<Rightarrow> (m, Some e)
        | Inr pv \<Rightarrow> (m(name \<mapsto> pv), None))"

text \<open>The message of an intermediate field with its descriptor, created when the field is not set.\<close>

definition processMiddleNode :: "pb_message \<Rightarrow> string \<Rightarrow> cardinality \<times> field_kind \<Rightarrow> (config_error, pb_message \<times> descriptor \<times> pb_message) result" where
  "processMiddleNode m name fd =
     (case fd of
        (Singular, MessageKind d) \<Rightarrow>
          let m' = (if m name = None then m(name \<mapsto> VMessage Map.empty) else m) in
          Inr (m', d, message_of (m' name))
      | _ \<Rightarrow> Inl ErrFieldNotMessage)"

function setField :: "descriptor \<Rightarrow> pb_message \<Rightarrow> string \<Rightarrow> string \<Rightarrow> pb_message \<times> config_error option" where
  "setField d m key value =
     (case cut_at CHR ''.'' key of
        None \<Rightarrow>
          (case field_of d key of
             None \<Rightarrow> (m, Some ErrFieldNotFound)
           | Some fd \<Rightarrow> processLeaf m key fd value)
      | Some (name, rest) \<Rightarrow>
          (case field_of d name of
             None \<Rightarrow> (m, Some ErrFieldNotFound)
           | Some fd \<Rightarrow>
               (case processMiddleNode m name fd of
                  Inl e \<Rightarrow> (m, Some e)
                | Inr (m', d', next_msg) \<Rightarrow>
                    let (next_msg', err) = setField d' next_msg rest value in
                    (m'(name \<mapsto> VMessage next_msg'), err))))"
  by pat_completeness auto
termination
  by (relation "measure (\<lambda>(_, _, key, _). length key)") (auto dest!: cut_SomeD)

declare setField.simps [simp del]

section \<open>Overrides\<close>

record config =
  cfg_proto :: pb_message
  cfg_work_dir :: string
  cfg_temp_dir :: string
  cfg_artifacts_dir :: string
  cfg_cache_dir :: string

definition aliases :: "(string \<times> string) list" where
  "aliases =
     [(''ports'', ''globalcfg.ports_to_scan''),
      (''http_client'', ''globalcfg.http_client''),
      (''portscan'', ''workflowcfg.portscan''),
      (''fingerprinters.require'', ''workflowcfg.fingerprinters.require''),
      (''fingerprinters.ignore'', ''workflowcfg.fingerprinters.ignore''),
      (''detectors.require'', ''workflowcfg.detectors.require''),
      (''detectors.ignore'', ''workflowcfg.detectors.ignore'')]"

definition unalias :: "string \<Rightarrow> string" where
  "unalias key = (case map_of aliases key of Some aliased \<Rightarrow> aliased | None \<Rightarrow> key)"

definition applyOverride :: "descriptor \<Rightarrow> config \<Rightarrow> string \<Rightarrow> config \<times> config_error option" where
  "applyOverride d c override =
     (case cut_at CHR ''='' override of
        None \<Rightarrow> (c, Some ErrInvalidOverrideFormat)
      | Some (key, value) \<Rightarrow>
          let (m, err) = setField d (cfg_proto c) (unalias key) value in
          (c\<lparr>cfg_proto := m\<rparr>, err))"

fun ApplyOverrides :: "descriptor \<Rightarrow> config \<Rightarrow> string list \<Rightarrow> config \<times> config_error option" where
  "ApplyOverrides d c [] = (c, None)"
| "ApplyOverrides d c (override # overrides) =
     (case applyOverride d c override of
        (c', Some e) \<Rightarrow> (c', Some e)
      | (c', None) \<Rightarrow> ApplyOverrides d c' overrides)"

section \<open>Creation, directories and accessors\<close>

definition config_FromProto :: "pb_message option \<Rightarrow> config" where
  "config_FromProto m = \<lparr>cfg_proto = (case m of None \<Rightarrow> Map.empty | Some m \<Rightarrow> m), cfg_work_dir = [],
     cfg_temp_dir = [], cfg_artifacts_dir = [], cfg_cache_dir = []\<rparr>"

definition config_Default :: config where
  "config_Default = config_FromProto (Some Map.empty)"

text \<open>\<open>os.ReadFile\<close> and \<open>prototext.Unmarshal\<close> are arguments.\<close>

definition FromFile :: "(string \<Rightarrow> string option) \<Rightarrow> (string \<Rightarrow> pb_message option) \<Rightarrow> string \<Rightarrow> (config_error, config) result" where
  "FromFile read unmarshal file =
     (case read file of
        None \<Rightarrow> Inl ErrConfigRead
      | Some data \<Rightarrow>
          (case unmarshal data of
             None \<Rightarrow> Inl ErrConfigUnmarshal
           | Some m \<Rightarrow> Inr (config_FromProto (Some m))))"

text \<open>\<open>path.Join\<close>: the elements that are not empty, joined by slashes and cleaned.\<close>

definition path_join :: "string list \<Rightarrow> string" where
  "path_join ws =
     (case filter (\<lambda>w. w \<noteq> []) ws of [] \<Rightarrow> [] | ws' \<Rightarrow> path_Clean (join ''/'' ws'))"

text \<open>
  The file system is a state \<open>'w\<close> with the operations the code calls: whether a path exists
  (\<open>os.Stat\<close>), \<open>os.MkdirAll\<close> and \<open>os.RemoveAll\<close> with whether they succeeded.
\<close>

record 'w file_ops =
  fs_stat :: "string \<Rightarrow> 'w \<Rightarrow> bool"
  fs_mkdir_all :: "string \<Rightarrow> 'w \<Rightarrow> 'w \<times> bool"
  fs_remove_all :: "string \<Rightarrow> 'w \<Rightarrow> 'w \<times> bool"

definition CreateDirectories :: "'w file_ops \<Rightarrow> config \<Rightarrow> string \<Rightarrow> 'w \<Rightarrow> 'w \<times> config \<times> config_error option" where
  "CreateDirectories fs c workdir w =
     (if workdir = [] then (w, c, Some ErrWorkDirEmpty)
      else if \<not> fs_stat fs workdir w then (w, c, Some ErrWorkDirAccess)
      else
        let c1 = c\<lparr>cfg_work_dir := workdir, cfg_temp_dir := path_join [workdir, ''tempfiles'']\<rparr> in
        case fs_mkdir_all fs (cfg_temp_dir c1) w of
          (w1, False) \<Rightarrow> (w1, c1, Some ErrCreateDir)
        | (w1, True) \<Rightarrow>
            let c2 = c1\<lparr>cfg_artifacts_dir := path_join [workdir, ''artifacts'']\<rparr> in
            (case fs_mkdir_all fs (cfg_artifacts_dir c2) w1 of
               (w2, False) \<Rightarrow> (w2, c2, Some ErrCreateDir)
             | (w2, True) \<Rightarrow>
                 let c3 = c2\<lparr>cfg_cache_dir := path_join [workdir, ''cache'']\<rparr> in
                 (case fs_mkdir_all fs (cfg_cache_dir c3) w2 of
                    (w3, False) \<Rightarrow> (w3, c3, Some ErrCreateDir)
                  | (w3, True) \<Rightarrow> (w3, c3, None))))"

definition config_Close :: "'w file_ops \<Rightarrow> config \<Rightarrow> 'w \<Rightarrow> 'w \<times> config_error option" where
  "config_Close fs c w =
     (if cfg_temp_dir c = [] then (w, Some ErrUninitialized)
      else case fs_remove_all fs (cfg_temp_dir c) w of
             (w', ok) \<Rightarrow> (w', if ok then None else Some ErrRemoveDir))"

definition directory_for :: "'w file_ops \<Rightarrow> string \<Rightarrow> string \<Rightarrow> 'w \<Rightarrow> 'w \<times> (config_error, string) result" where
  "directory_for fs parent moduleName w =
     (if parent = [] then (w, Inl ErrUninitialized)
      else
        let dir = path_join [parent, moduleName] in
        case fs_mkdir_all fs dir w of
          (w', False) \<Rightarrow> (w', Inl ErrCreateDir)
        | (w', True) \<Rightarrow> (w', Inr dir))"

definition ArtifactsForModule :: "'w file_ops \<Rightarrow> config \<Rightarrow> string \<Rightarrow> 'w \<Rightarrow> 'w \<times> (config_error, string) result" where
  "ArtifactsForModule fs c = directory_for fs (cfg_artifacts_dir c)"

definition GetCacheForModule :: "'w file_ops \<Rightarrow> config \<Rightarrow> string \<Rightarrow> 'w \<Rightarrow> 'w \<times> (config_error, string) result" where
  "GetCacheForModule fs c = directory_for fs (cfg_cache_dir c)"

text \<open>
  The generated getters return the message of a field, an empty one when it is not set, and the
  value of a field or the default its definition names. A duration counts nanoseconds in 64 bits.
\<close>

definition sub_message :: "string \<Rightarrow> pb_message \<Rightarrow> pb_message" where
  "sub_message name m = message_of (m name)"

definition GlobalConfig :: "config \<Rightarrow> pb_message" where
  "GlobalConfig c = sub_message ''globalcfg'' (cfg_proto c)"

definition ClientsConfig :: "config \<Rightarrow> pb_message" where
  "ClientsConfig c = sub_message ''clients'' (cfg_proto c)"

definition PluginsConfig :: "config \<Rightarrow> pb_message" where
  "PluginsConfig c = sub_message ''plugins'' (cfg_proto c)"

definition WorkflowConfig :: "config \<Rightarrow> pb_message" where
  "WorkflowConfig c = sub_message ''workflowcfg'' (cfg_proto c)"

definition get_int32 :: "string \<Rightarrow> 32 word \<Rightarrow> pb_message \<Rightarrow> 32 word" where
  "get_int32 name def m = (case m name of Some (VInt32 w) \<Rightarrow> w | _ \<Rightarrow> def)"

definition TimeoutPerRequest :: "config \<Rightarrow> 64 word" where
  "TimeoutPerRequest c =
     (scast (get_int32 ''timeout_per_request_seconds'' 10
       (sub_message ''performance'' (GlobalConfig c))) :: 64 word) * 1000000000"

section \<open>The descriptor of the configuration\<close>

text \<open>The messages of \<open>src/core/config/config.proto\<close> and of the files it imports, innermost first.\<close>

definition Performance_descriptor :: descriptor where
  "Performance_descriptor = Descriptor
     [(''max_concurrency'', Singular, Int32Kind),
      (''timeout_per_request_seconds'', Singular, Int32Kind),
      (''max_packets_per_second'', Singular, Int32Kind),
      (''max_http_requests_per_second'', Singular, Int32Kind),
      (''max_http_redirects'', Singular, Int32Kind),
      (''max_http_attempts_when_ratelimit'', Singular, Int32Kind),
      (''http_retry_initial_backoff_seconds'', Singular, Int32Kind),
      (''max_http_retry_after_seconds'', Singular, Int32Kind)]"

definition GlobalConfig_descriptor :: descriptor where
  "GlobalConfig_descriptor = Descriptor
     [(''performance'', Singular, MessageKind Performance_descriptor),
      (''ports_to_scan'', Repeated, Uint32Kind),
      (''user_agent'', Singular, StringKind),
      (''http_client'', Singular, StringKind)]"

definition NmapClientConfig_descriptor :: descriptor where
  "NmapClientConfig_descriptor = Descriptor
     [(''binary_path'', Singular, StringKind),
      (''timeout_seconds'', Singular, Int32Kind),
      (''scan_technique'', Singular, EnumKind [(''UNKNOWN'', 0), (''CONNECT'', 1), (''UDP'', 2)]),
      (''scan_intensity'', Singular, Uint32Kind),
      (''enable_host_discovery'', Singular, BoolKind),
      (''enable_version_detection'', Singular, BoolKind),
      (''version_intensity'', Singular, Uint32Kind),
      (''enable_http_methods_detection'', Singular, BoolKind),
      (''enable_ssl_detection'', Singular, BoolKind),
      (''min_rate'', Singular, Int32Kind)]"

definition Scope_descriptor :: descriptor where
  "Scope_descriptor = Descriptor
     [(''domain'', Singular, StringKind),
      (''path'', Singular, StringKind)]"

definition HttpCrawlerClientConfig_descriptor :: descriptor where
  "HttpCrawlerClientConfig_descriptor = Descriptor
     [(''max_concurrency'', Singular, Int32Kind),
      (''max_page_size_bytes'', Singular, Int32Kind),
      (''max_depth'', Singular, Int32Kind),
      (''max_requests'', Singular, Int32Kind),
      (''exclusions'', Repeated, StringKind),
      (''scope_policy'', Singular, EnumKind [(''SCOPE_POLICY_UNSPECIFIED'', 0), (''SCOPE_POLICY_CONFIG_ONLY'', 1), (''SCOPE_POLICY_EXPAND'', 2)]),
      (''scopes'', Repeated, MessageKind Scope_descriptor)]"

definition HttpClientConfig_descriptor :: descriptor where
  "HttpClientConfig_descriptor = Descriptor
     [(''allowed_methods'', Repeated, StringKind),
      (''max_requests_per_service'', Singular, Int32Kind),
      (''max_answer_size_bytes'', Singular, Int32Kind),
      (''forbidden_paths'', Repeated, StringKind)]"

definition ToolConfig_descriptor :: descriptor where
  "ToolConfig_descriptor = Descriptor
     [(''http_client_config'', Singular, MessageKind HttpClientConfig_descriptor)]"

definition LlmClientConfig_descriptor :: descriptor where
  "LlmClientConfig_descriptor = Descriptor
     [(''timeout_per_request_seconds'', Singular, Int32Kind),
      (''max_attempts'', Singular, Int32Kind),
      (''retry_delay_seconds'', Singular, Int32Kind),
      (''tools'', Singular, MessageKind ToolConfig_descriptor),
      (''lite_model'', Singular, StringKind),
      (''fast_model'', Singular, StringKind),
      (''pro_model'', Singular, StringKind),
      (''dump_trajectories'', Singular, BoolKind)]"

definition EndpointConfig_descriptor :: descriptor where
  "EndpointConfig_descriptor = Descriptor
     [(''mode'', Singular, EnumKind [(''MODE_UNSPECIFIED'', 0), (''MODE_START_LOCAL_SERVER'', 1), (''MODE_USE_REMOTE_SERVER'', 2)]),
      (''public_uri'', Singular, StringKind),
      (''bind_address'', Singular, StringKind),
      (''bind_port'', Singular, Uint32Kind)]"

definition CallbackserverConfig_descriptor :: descriptor where
  "CallbackserverConfig_descriptor = Descriptor
     [(''http_poll_config'', Singular, MessageKind EndpointConfig_descriptor),
      (''http_record_config'', Singular, MessageKind EndpointConfig_descriptor),
      (''dns_record_config'', Singular, MessageKind EndpointConfig_descriptor),
      (''interaction_ttl_seconds'', Singular, Uint32Kind),
      (''cleanup_interval_seconds'', Singular, Uint32Kind)]"

definition SSHClientConfig_descriptor :: descriptor where
  "SSHClientConfig_descriptor = Descriptor
     [(''timeout_seconds'', Singular, Int32Kind)]"

definition ClientsConfig_descriptor :: descriptor where
  "ClientsConfig_descriptor = Descriptor
     [(''nmap'', Singular, MessageKind NmapClientConfig_descriptor),
      (''http_crawler'', Singular, MessageKind HttpCrawlerClientConfig_descriptor),
      (''llm'', Singular, MessageKind LlmClientConfig_descriptor),
      (''callback_server'', Singular, MessageKind CallbackserverConfig_descriptor),
      (''ssh'', Singular, MessageKind SSHClientConfig_descriptor)]"

definition WebIdentityFpConfig_descriptor :: descriptor where
  "WebIdentityFpConfig_descriptor = Descriptor
     [(''signatures_directory'', Singular, StringKind),
      (''write_html_to_file'', Singular, BoolKind),
      (''maximum_file_size_bytes'', Singular, Int64Kind),
      (''maximum_storage_space_bytes'', Singular, Int64Kind)]"

definition HttpScanPluginConfig_descriptor :: descriptor where
  "HttpScanPluginConfig_descriptor = Descriptor
     [(''invalid_exit_codes'', Repeated, Int32Kind)]"

definition BruteForceConfig_descriptor :: descriptor where
  "BruteForceConfig_descriptor = Descriptor
     [(''max_attempts_per_service'', Singular, Int32Kind),
      (''max_concurrency'', Singular, Int32Kind),
      (''max_requests_per_second'', Singular, Int32Kind),
      (''stop_at_first_valid_credentials'', Singular, BoolKind)]"

definition PluginsConfig_descriptor :: descriptor where
  "PluginsConfig_descriptor = Descriptor
     [(''webidentity'', Singular, MessageKind WebIdentityFpConfig_descriptor),
      (''httpscan'', Singular, MessageKind HttpScanPluginConfig_descriptor),
      (''bruteforce'', Singular, MessageKind BruteForceConfig_descriptor)]"

definition ModuleFilter_descriptor :: descriptor where
  "ModuleFilter_descriptor = Descriptor
     [(''require'', Repeated, StringKind),
      (''ignore'', Repeated, StringKind)]"

definition WorkflowConfiguration_descriptor :: descriptor where
  "WorkflowConfiguration_descriptor = Descriptor
     [(''portscan'', Singular, StringKind),
      (''fingerprinters'', Singular, MessageKind ModuleFilter_descriptor),
      (''detectors'', Singular, MessageKind ModuleFilter_descriptor)]"

definition config_descriptor :: descriptor where
  "config_descriptor = Descriptor
     [(''globalcfg'', Singular, MessageKind GlobalConfig_descriptor),
      (''clients'', Singular, MessageKind ClientsConfig_descriptor),
      (''plugins'', Singular, MessageKind PluginsConfig_descriptor),
      (''workflowcfg'', Singular, MessageKind WorkflowConfiguration_descriptor)]"

lemmas descriptor_defs = Performance_descriptor_def GlobalConfig_descriptor_def NmapClientConfig_descriptor_def Scope_descriptor_def HttpCrawlerClientConfig_descriptor_def HttpClientConfig_descriptor_def ToolConfig_descriptor_def LlmClientConfig_descriptor_def EndpointConfig_descriptor_def CallbackserverConfig_descriptor_def SSHClientConfig_descriptor_def ClientsConfig_descriptor_def WebIdentityFpConfig_descriptor_def HttpScanPluginConfig_descriptor_def BruteForceConfig_descriptor_def PluginsConfig_descriptor_def ModuleFilter_descriptor_def WorkflowConfiguration_descriptor_def config_descriptor_def

section \<open>What an override means\<close>

text \<open>
  The reference: an override names a path of fields and a value for the last of them. Whether it is
  accepted depends on the descriptor alone, never on the message, and an accepted override puts the
  value at the path.
\<close>

fun resolve :: "descriptor \<Rightarrow> string list \<Rightarrow> (config_error, cardinality \<times> field_kind) result" where
  "resolve d [] = Inl ErrFieldNotFound"
| "resolve d [name] = (case field_of d name of None \<Rightarrow> Inl ErrFieldNotFound | Some fd \<Rightarrow> Inr fd)"
| "resolve d (name # n # ns) =
     (case field_of d name of
        None \<Rightarrow> Inl ErrFieldNotFound
      | Some (Singular, MessageKind d') \<Rightarrow> resolve d' (n # ns)
      | Some _ \<Rightarrow> Inl ErrFieldNotMessage)"

definition parse_field :: "cardinality \<times> field_kind \<Rightarrow> string \<Rightarrow> (config_error, pb_value) result" where
  "parse_field fd value =
     (if fst fd = Repeated then
        map_sum id VList (if value = [] then Inr [] else map_result (parseValue (snd fd)) (split_on CHR '','' value))
      else parseValue (snd fd) value)"

definition override_target :: "descriptor \<Rightarrow> string \<Rightarrow> (config_error, string list \<times> pb_value) result" where
  "override_target d override =
     (case cut_at CHR ''='' override of
        None \<Rightarrow> Inl ErrInvalidOverrideFormat
      | Some (key, value) \<Rightarrow>
          (case resolve d (split_on CHR ''.'' (unalias key)) of
             Inl e \<Rightarrow> Inl e
           | Inr fd \<Rightarrow> map_sum id (Pair (split_on CHR ''.'' (unalias key))) (parse_field fd value)))"

definition override_path :: "string \<Rightarrow> string list option" where
  "override_path override = map_option (\<lambda>(key, _). split_on CHR ''.'' (unalias key)) (cut_at CHR ''='' override)"

fun put :: "string list \<Rightarrow> pb_value \<Rightarrow> pb_message \<Rightarrow> pb_message" where
  "put [] v m = m"
| "put [name] v m = m(name \<mapsto> v)"
| "put (name # n # ns) v m = m(name \<mapsto> VMessage (put (n # ns) v (message_of (m name))))"

fun get :: "string list \<Rightarrow> pb_message \<Rightarrow> pb_value option" where
  "get [] m = None"
| "get [name] m = m name"
| "get (name # n # ns) m = get (n # ns) (message_of (m name))"

definition apart :: "string list \<Rightarrow> string list \<Rightarrow> bool" where
  "apart p q \<longleftrightarrow> \<not> prefix p q \<and> \<not> prefix q p"

lemma apart_simps [simp]:
  "\<not> apart [] q" "\<not> apart p []"
  "apart (a # p) (b # q) \<longleftrightarrow> a \<noteq> b \<or> apart p q"
  by (auto simp: apart_def)

lemma get_Cons: "q \<noteq> [] \<Longrightarrow> get (name # q) m = get q (message_of (m name))"
  by (cases q) auto

lemma put_Cons: "q \<noteq> [] \<Longrightarrow> put (name # q) v m = m(name \<mapsto> VMessage (put q v (message_of (m name))))"
  by (cases q) auto

lemma get_cong_field: "m name = m' name \<Longrightarrow> get (name # q) m = get (name # q) m'"
  by (cases q) auto

lemma get_put: "p \<noteq> [] \<Longrightarrow> get p (put p v m) = Some v"
  by (induction p v m rule: put.induct) (auto simp: get_Cons)

lemma get_put_apart: "apart p q \<Longrightarrow> get q (put p v m) = get q m"
proof (induction p v m arbitrary: q rule: put.induct)
  case (2 name v m)
  then show ?case by (cases q) (auto intro: get_cong_field)
next
  case (3 name n ns v m)
  from 3(2) obtain b q' where q: "q = b # q'" by (cases q) auto
  show ?case
  proof (cases "b = name")
    case True
    with 3 q have "apart (n # ns) q'" by auto
    moreover from this have "q' \<noteq> []" by auto
    ultimately show ?thesis using 3(1) q True by (simp add: get_Cons)
  qed (auto simp: q intro: get_cong_field)
qed auto

section \<open>The code meets the reference\<close>

lemma append_values_ok: "map_result (parseValue kind) vs = Inr pvs \<Longrightarrow> append_values kind vs acc = (acc @ pvs, None)"
  by (induction vs arbitrary: acc pvs) (auto split: sum.splits)

lemma append_values_error: "map_result (parseValue kind) vs = Inl e \<Longrightarrow> snd (append_values kind vs acc) = Some e"
  by (induction vs arbitrary: acc) (auto split: sum.splits)

lemma processLeaf_ok: "parse_field fd value = Inr v \<Longrightarrow> processLeaf m name fd value = (m(name \<mapsto> v), None)"
  by (cases "map_result (parseValue (snd fd)) (split_on CHR '','' value)")
    (auto simp: parse_field_def processLeaf_def append_values_ok split: if_splits)

lemma processLeaf_error: "parse_field fd value = Inl e \<Longrightarrow> snd (processLeaf m name fd value) = Some e"
  by (cases "map_result (parseValue (snd fd)) (split_on CHR '','' value)")
    (auto simp: parse_field_def processLeaf_def append_values_error split: if_splits prod.splits sum.splits
      dest: append_values_error [where acc = "[]"])

lemma processLeaf_other: "n \<noteq> name \<Longrightarrow> fst (processLeaf m name fd value) n = m n"
  by (auto simp: processLeaf_def split: prod.splits sum.splits)

lemma split_on_cut: "split_on c s = (case cut_at c s of None \<Rightarrow> [s] | Some (b, a) \<Rightarrow> b # split_on c a)"
  by (auto simp: cut_None_iff dest: cut_SomeD split: option.splits)

lemma resolve_Cons:
  "ns \<noteq> [] \<Longrightarrow> resolve d (name # ns) =
     (case field_of d name of
        None \<Rightarrow> Inl ErrFieldNotFound
      | Some (Singular, MessageKind d') \<Rightarrow> resolve d' ns
      | Some _ \<Rightarrow> Inl ErrFieldNotMessage)"
  by (cases ns) auto

text \<open>\<open>setField\<close> in terms of the path of its key: what it returns and what it leaves alone.\<close>

lemma processMiddleNode_simps [simp]:
  "processMiddleNode m name (Singular, MessageKind d) =
     Inr (if m name = None then m(name \<mapsto> VMessage Map.empty) else m, d, message_of (m name))"
  "c \<noteq> Singular \<Longrightarrow> processMiddleNode m name (c, k) = Inl ErrFieldNotMessage"
  "(\<And>d. k \<noteq> MessageKind d) \<Longrightarrow> processMiddleNode m name (c, k) = Inl ErrFieldNotMessage"
  by (auto simp: processMiddleNode_def split: cardinality.splits field_kind.splits)

lemma setField_leaf:
  "CHR ''.'' \<notin> set key \<Longrightarrow> setField d m key value =
     (case field_of d key of None \<Rightarrow> (m, Some ErrFieldNotFound) | Some fd \<Rightarrow> processLeaf m key fd value)"
  by (subst setField.simps) simp

lemma setField_node:
  assumes "CHR ''.'' \<notin> set name"
  shows "setField d m (name @ CHR ''.'' # rest) value =
     (case field_of d name of
        None \<Rightarrow> (m, Some ErrFieldNotFound)
      | Some (Singular, MessageKind d') \<Rightarrow>
          (let (sub, err) = setField d' (message_of (m name)) rest value in (m(name \<mapsto> VMessage sub), err))
      | Some _ \<Rightarrow> (m, Some ErrFieldNotMessage))"
  using assms
  by (subst setField.simps) (auto split: option.splits prod.splits cardinality.splits field_kind.splits)

lemma setField_exact:
  "snd (setField d m key value) =
     (case resolve d (split_on CHR ''.'' key) of
        Inl e \<Rightarrow> Some e
      | Inr fd \<Rightarrow> (case parse_field fd value of Inl e \<Rightarrow> Some e | Inr v \<Rightarrow> None)) \<and>
   (\<forall>fd v. resolve d (split_on CHR ''.'' key) = Inr fd \<and> parse_field fd value = Inr v \<longrightarrow>
      fst (setField d m key value) = put (split_on CHR ''.'' key) v m) \<and>
   (\<forall>q. apart (split_on CHR ''.'' key) q \<longrightarrow> get q (fst (setField d m key value)) = get q m)"
proof (induction "length key" arbitrary: d m key rule: less_induct)
  case less
  show ?case
  proof (cases "cut_at CHR ''.'' key")
    case None
    then have key: "CHR ''.'' \<notin> set key" by (simp add: cut_None_iff)
    have "get q (fst (setField d m key value)) = get q m" if "apart [key] q" for q
      using that key by (cases q) (auto simp: setField_leaf processLeaf_other intro: get_cong_field split: option.splits)
    with key show ?thesis
      by (auto simp: setField_leaf processLeaf_ok processLeaf_error split: option.splits sum.splits)
  next
    case (Some na)
    then obtain name rest where key: "key = name @ CHR ''.'' # rest" and name: "CHR ''.'' \<notin> set name"
      by (cases na) (auto dest: cut_SomeD)
    note IH = less [of rest, unfolded key, simplified]
    show ?thesis
    proof (cases "\<exists>d'. field_of d name = Some (Singular, MessageKind d')")
      case True
      then obtain d' where d': "field_of d name = Some (Singular, MessageKind d')" by blast
      let ?sub = "setField d' (message_of (m name)) rest value"
      have step: "setField d m key value = (m(name \<mapsto> VMessage (fst ?sub)), snd ?sub)"
        using d' by (simp add: key setField_node [OF name] split: prod.split)
      have "get q (fst (setField d m key value)) = get q m" if "apart (name # split_on CHR ''.'' rest) q" for q
      proof (cases q)
        case (Cons b q')
        with that IH [of d' "message_of (m name)"] show ?thesis
          by (cases "b = name"; cases "q' = []") (auto simp: step get_Cons intro: get_cong_field)
      qed (use that in simp)
      with IH [of d' "message_of (m name)"] d' show ?thesis
        by (auto simp: step [unfolded key] key name resolve_Cons put_Cons)
    next
      case False
      then show ?thesis
        by (auto simp: key setField_node [OF name] name resolve_Cons split: option.splits cardinality.splits field_kind.splits)
    qed
  qed
qed

section \<open>Conformance\<close>

text \<open>
  A message conforms to a descriptor when each field that is set is a field of the descriptor and
  its value is of the kind of the field; the entries of a map field are not looked at.
\<close>

inductive conforms :: "descriptor \<Rightarrow> pb_message \<Rightarrow> bool"
  and conforms_value :: "cardinality \<Rightarrow> field_kind \<Rightarrow> pb_value \<Rightarrow> bool"
where
  conforms_message: "(\<And>n v. m n = Some v \<Longrightarrow> \<exists>c k. field_of d n = Some (c, k) \<and> conforms_value c k v) \<Longrightarrow> conforms d m"
| conforms_repeated: "(\<And>v. v \<in> set vs \<Longrightarrow> conforms_value Singular k v) \<Longrightarrow> conforms_value Repeated k (VList vs)"
| conforms_sub: "conforms d m \<Longrightarrow> conforms_value Singular (MessageKind d) (VMessage m)"
| conforms_string: "conforms_value Singular StringKind (VString s)"
| conforms_enum: "conforms_value Singular (EnumKind values) (VEnum n)"
| conforms_bool: "conforms_value Singular BoolKind (VBool b)"
| conforms_int32: "k \<in> {Int32Kind, Sint32Kind, Sfixed32Kind} \<Longrightarrow> conforms_value Singular k (VInt32 w)"
| conforms_int64: "k \<in> {Int64Kind, Sint64Kind, Sfixed64Kind} \<Longrightarrow> conforms_value Singular k (VInt64 x)"
| conforms_uint32: "k \<in> {Uint32Kind, Fixed32Kind} \<Longrightarrow> conforms_value Singular k (VUint32 w)"
| conforms_uint64: "k \<in> {Uint64Kind, Fixed64Kind} \<Longrightarrow> conforms_value Singular k (VUint64 x)"
| conforms_opaque: "k \<in> {FloatKind, DoubleKind, BytesKind, GroupKind} \<Longrightarrow> conforms_value Singular k VOpaque"
| conforms_map: "conforms_value MapField k v"

inductive_cases conforms_value_messageE: "conforms_value Singular (MessageKind d) v"

lemma conforms_iff: "conforms d m \<longleftrightarrow> (\<forall>n v. m n = Some v \<longrightarrow> (\<exists>c k. field_of d n = Some (c, k) \<and> conforms_value c k v))"
  by (subst conforms.simps) blast

lemma conforms_empty [simp]: "conforms d Map.empty"
  by (simp add: conforms_iff)

lemma conforms_upd:
  "conforms d m \<Longrightarrow> field_of d n = Some (c, k) \<Longrightarrow> conforms_value c k v \<Longrightarrow> conforms d (m(n \<mapsto> v))"
  by (simp add: conforms_iff)

lemma conforms_message_of:
  assumes "conforms d m" and "field_of d n = Some (Singular, MessageKind d')"
  shows "conforms d' (message_of (m n))"
proof (cases "m n")
  case (Some v)
  with assms have "conforms_value Singular (MessageKind d') v" by (fastforce simp: conforms_iff)
  then show ?thesis using Some by (cases rule: conforms_value_messageE) auto
qed simp

lemma parseValue_conforms: "parseValue k s = Inr v \<Longrightarrow> conforms_value Singular k v"
  by (induction k s rule: parseValue.induct)
    (auto simp: parseEnumValue_def or_unmarshal_def int32_value_def int64_value_def uint32_value_def uint64_value_def
      split: option.splits if_splits
      intro: conforms_string conforms_enum conforms_bool conforms_int32 conforms_int64 conforms_uint32 conforms_uint64)

lemma append_values_conforms:
  assumes "\<And>v. v \<in> set acc \<Longrightarrow> conforms_value Singular k v" and "v \<in> set (fst (append_values k vs acc))"
  shows "conforms_value Singular k v"
  using assms
proof (induction vs arbitrary: acc)
  case (Cons s vs)
  show ?case
  proof (cases "parseValue k s")
    case (Inr pv)
    with Cons.prems show ?thesis
      by (intro Cons.IH [of "acc @ [pv]"]) (auto dest: parseValue_conforms)
  qed (use Cons.prems in simp)
qed simp

lemma processLeaf_conforms:
  assumes "conforms d m" and "field_of d name = Some (c, k)"
  shows "conforms d (fst (processLeaf m name (c, k) value))"
proof (cases "c = Repeated")
  case True
  then show ?thesis
    using assms append_values_conforms [of "[]" k _ "split_on CHR '','' value"]
    by (auto simp: processLeaf_def split: prod.split intro!: conforms_upd conforms_repeated)
next
  case False
  with assms show ?thesis
    by (cases c) (auto simp: processLeaf_def split: sum.split intro!: conforms_upd conforms_map parseValue_conforms)
qed

lemma setField_conforms: "conforms d m \<Longrightarrow> conforms d (fst (setField d m key value))"
proof (induction "length key" arbitrary: d m key rule: less_induct)
  case less
  show ?case
  proof (cases "cut_at CHR ''.'' key")
    case None
    with less.prems show ?thesis
      by (auto simp: cut_None_iff setField_leaf processLeaf_conforms split: option.split)
  next
    case (Some na)
    then obtain name rest where key: "key = name @ CHR ''.'' # rest" and name: "CHR ''.'' \<notin> set name"
      by (cases na) (auto dest: cut_SomeD)
    have "conforms d (m(name \<mapsto> VMessage (fst (setField d' (message_of (m name)) rest value))))"
      if "field_of d name = Some (Singular, MessageKind d')" for d'
      using less.hyps [of rest d'] conforms_message_of [OF less.prems that]
      by (intro conforms_upd [OF less.prems that] conforms_sub) (simp add: key)
    with less.prems show ?thesis
      by (auto simp: key setField_node [OF name] split: option.split prod.split cardinality.split field_kind.split)
  qed
qed

section \<open>Correctness of the overrides\<close>

lemmas setField_error = setField_exact [THEN conjunct1]
lemmas setField_put = setField_exact [THEN conjunct2, THEN conjunct1, rule_format, OF conjI]
lemmas setField_apart = setField_exact [THEN conjunct2, THEN conjunct2, rule_format]

lemma applyOverride_cases:
  obtains (format) "cut_at CHR ''='' override = None" "applyOverride d c override = (c, Some ErrInvalidOverrideFormat)"
  | (field) key v where "cut_at CHR ''='' override = Some (key, v)"
      "applyOverride d c override =
         (c\<lparr>cfg_proto := fst (setField d (cfg_proto c) (unalias key) v)\<rparr>, snd (setField d (cfg_proto c) (unalias key) v))"
proof (cases "cut_at CHR ''='' override")
  case None
  then show ?thesis by (intro format) (simp_all add: applyOverride_def)
next
  case (Some kv)
  then show ?thesis by (cases kv) (auto intro!: field simp: applyOverride_def split_beta)
qed

lemma applyOverride_exact:
  "snd (applyOverride d c override) = (case override_target d override of Inl e \<Rightarrow> Some e | Inr _ \<Rightarrow> None)"
  "override_target d override = Inr (p, v) \<Longrightarrow> cfg_proto (fst (applyOverride d c override)) = put p v (cfg_proto c)"
  "(\<And>p. override_path override = Some p \<Longrightarrow> apart p q) \<Longrightarrow>
     get q (cfg_proto (fst (applyOverride d c override))) = get q (cfg_proto c)"
  "conforms d (cfg_proto c) \<Longrightarrow> conforms d (cfg_proto (fst (applyOverride d c override)))"
  "(fst (applyOverride d c override))\<lparr>cfg_proto := m\<rparr> = c\<lparr>cfg_proto := m\<rparr>"
  by (cases rule: applyOverride_cases [of override d c];
      auto simp: override_target_def override_path_def setField_error setField_put setField_apart setField_conforms
        split: sum.splits)+

text \<open>The overrides one after the other: the first that is not accepted stops them.\<close>

lemma ApplyOverrides_fold:
  assumes "ApplyOverrides d c overrides = (c', e)"
  shows "e = (case map_result (override_target d) overrides of Inl err \<Rightarrow> Some err | Inr _ \<Rightarrow> None)"
    and "map_result (override_target d) overrides = Inr ts \<Longrightarrow>
      cfg_proto c' = fold (\<lambda>(p, v). put p v) ts (cfg_proto c)"
    and "(\<And>x p. x \<in> set overrides \<Longrightarrow> override_path x = Some p \<Longrightarrow> apart p q) \<Longrightarrow>
      get q (cfg_proto c') = get q (cfg_proto c)"
    and "conforms d (cfg_proto c) \<Longrightarrow> conforms d (cfg_proto c')"
    and "c'\<lparr>cfg_proto := m\<rparr> = c\<lparr>cfg_proto := m\<rparr>"
proof -
  have "e = (case map_result (override_target d) overrides of Inl err \<Rightarrow> Some err | Inr _ \<Rightarrow> None) \<and>
    (\<forall>ts. map_result (override_target d) overrides = Inr ts \<longrightarrow>
      cfg_proto c' = fold (\<lambda>(p, v). put p v) ts (cfg_proto c)) \<and>
    ((\<forall>x\<in>set overrides. \<forall>p. override_path x = Some p \<longrightarrow> apart p q) \<longrightarrow>
      get q (cfg_proto c') = get q (cfg_proto c)) \<and>
    (conforms d (cfg_proto c) \<longrightarrow> conforms d (cfg_proto c')) \<and>
    c'\<lparr>cfg_proto := m\<rparr> = c\<lparr>cfg_proto := m\<rparr>"
    using assms
  proof (induction overrides arbitrary: c)
    case (Cons override overrides)
    obtain c1 e1 where one: "applyOverride d c override = (c1, e1)" by fastforce
    note first = applyOverride_exact [where d = d and c = c and override = override, unfolded one fst_conv snd_conv]
    show ?case
    proof (cases e1)
      case None
      with Cons.prems one have "ApplyOverrides d c1 overrides = (c', e)" by simp
      from Cons.IH [OF this] first None show ?thesis
        by (auto split: sum.splits)
    next
      case (Some x)
      with Cons.prems one first show ?thesis
        by (auto split: sum.splits)
    qed
  qed simp
  then show
    "e = (case map_result (override_target d) overrides of Inl err \<Rightarrow> Some err | Inr _ \<Rightarrow> None)"
    "map_result (override_target d) overrides = Inr ts \<Longrightarrow>
      cfg_proto c' = fold (\<lambda>(p, v). put p v) ts (cfg_proto c)"
    "(\<And>x p. x \<in> set overrides \<Longrightarrow> override_path x = Some p \<Longrightarrow> apart p q) \<Longrightarrow>
      get q (cfg_proto c') = get q (cfg_proto c)"
    "conforms d (cfg_proto c) \<Longrightarrow> conforms d (cfg_proto c')"
    "c'\<lparr>cfg_proto := m\<rparr> = c\<lparr>cfg_proto := m\<rparr>"
    by blast+
qed

lemma override_target_path: "override_target d x = Inr (p, v) \<Longrightarrow> override_path x = Some p \<and> p \<noteq> []"
  by (auto simp: override_target_def override_path_def map_sum_def split: option.splits sum.splits)

lemma overrides_last:
  assumes "map_result (override_target d) overrides = Inr (ts @ [(p, v)])"
  shows "p \<noteq> []"
proof -
  from assms obtain x where "override_target d x = Inr (p, v)"
    by (auto simp: map_result_Inr_iff list_all2_append2 list_all2_Cons2)
  then show ?thesis by (simp add: override_target_path)
qed

text \<open>C11. The overrides of the command line, on a configuration that conforms to its descriptor: they
  fail exactly with the first error that the reference finds in the list, whatever the message holds;
  when all are accepted the configuration is the old one with each value put at its path in turn, so
  the last override reads back; whether or not they fail, every field apart from the paths they name
  keeps its value, the message still conforms, and the directories are untouched.\<close>

theorem ApplyOverrides_exact:
  assumes "conforms d (cfg_proto c)" and "ApplyOverrides d c overrides = (c', e)"
  shows "e = (case map_result (override_target d) overrides of Inl err \<Rightarrow> Some err | Inr _ \<Rightarrow> None) \<and>
    (\<forall>ts. map_result (override_target d) overrides = Inr ts \<longrightarrow>
       cfg_proto c' = fold (\<lambda>(p, v). put p v) ts (cfg_proto c)) \<and>
    (\<forall>ts p v. map_result (override_target d) overrides = Inr (ts @ [(p, v)]) \<longrightarrow> get p (cfg_proto c') = Some v) \<and>
    (\<forall>q. (\<forall>x \<in> set overrides. \<forall>p. override_path x = Some p \<longrightarrow> apart p q) \<longrightarrow>
       get q (cfg_proto c') = get q (cfg_proto c)) \<and>
    conforms d (cfg_proto c') \<and> c' = c\<lparr>cfg_proto := cfg_proto c'\<rparr>"
proof (intro conjI allI impI)
  note facts = ApplyOverrides_fold [OF assms(2)]
  show "e = (case map_result (override_target d) overrides of Inl err \<Rightarrow> Some err | Inr _ \<Rightarrow> None)"
    by (rule facts(1))
  show "cfg_proto c' = fold (\<lambda>(p, v). put p v) ts (cfg_proto c)" if "map_result (override_target d) overrides = Inr ts" for ts
    using that by (rule facts(2))
  show "get p (cfg_proto c') = Some v" if "map_result (override_target d) overrides = Inr (ts @ [(p, v)])" for ts p v
    using facts(2) [OF that] overrides_last [OF that] by (simp add: get_put)
  show "get q (cfg_proto c') = get q (cfg_proto c)"
    if "\<forall>x \<in> set overrides. \<forall>p. override_path x = Some p \<longrightarrow> apart p q" for q
    by (rule facts(3)) (use that in blast)
  show "conforms d (cfg_proto c')" by (rule facts(4) [OF assms(1)])
  show "c' = c\<lparr>cfg_proto := cfg_proto c'\<rparr>" using facts(5) [of "cfg_proto c'"] by simp
qed

lemmas override_eval = aliases_def unalias_def override_target_def override_path_def field_of_def
  descriptor_defs parse_field_def or_unmarshal_def int32_value_def uint32_value_def parse_int_def
  parse_uint_def parse_dec_def atoi_def digit_val_def is_digit_def char_code_def setField.simps
  processLeaf_def applyOverride_def

definition sample_overrides :: "string list" where
  "sample_overrides = [''ports=80,443'', ''globalcfg.performance.max_concurrency=10'']"

lemma sample_targets:
  "map_result (override_target config_descriptor) sample_overrides =
     Inr ([([''globalcfg'', ''ports_to_scan''], VList [VUint32 80, VUint32 443])] @
          [([''globalcfg'', ''performance'', ''max_concurrency''], VInt32 10)])"
  by (simp add: sample_overrides_def override_eval)

theorem ApplyOverrides_exact_witness:
  "snd (ApplyOverrides config_descriptor config_Default sample_overrides) = None \<and>
   get [''globalcfg'', ''performance'', ''max_concurrency'']
     (cfg_proto (fst (ApplyOverrides config_descriptor config_Default sample_overrides))) = Some (VInt32 10) \<and>
   get [''globalcfg'', ''user_agent'']
     (cfg_proto (fst (ApplyOverrides config_descriptor config_Default sample_overrides))) = None"
proof -
  obtain c' e where run: "ApplyOverrides config_descriptor config_Default sample_overrides = (c', e)"
    by fastforce
  have start: "conforms config_descriptor (cfg_proto config_Default)"
    by (simp add: config_Default_def config_FromProto_def)
  note facts = ApplyOverrides_exact [OF start run]
  then have last: "get [''globalcfg'', ''performance'', ''max_concurrency''] (cfg_proto c') = Some (VInt32 10)"
    using sample_targets by blast
  have "\<forall>x \<in> set sample_overrides. \<forall>p. override_path x = Some p \<longrightarrow> apart p [''globalcfg'', ''user_agent'']"
    by (simp add: sample_overrides_def override_path_def unalias_def aliases_def)
  with facts have "get [''globalcfg'', ''user_agent''] (cfg_proto c') = get [''globalcfg'', ''user_agent''] (cfg_proto config_Default)"
    by blast
  then have other: "get [''globalcfg'', ''user_agent''] (cfg_proto c') = None"
    by (simp add: config_Default_def config_FromProto_def)
  from facts have "e = None" by (simp add: sample_targets)
  with last other show ?thesis unfolding run fst_conv snd_conv by blast
qed

text \<open>A list whose second element is not a number fails, and the field has lost its old elements.\<close>

lemma list_override_truncates:
  "ApplyOverrides config_descriptor config_Default [''ports=22,23'', ''ports=80,x''] = (c', e) \<Longrightarrow>
     e = Some ErrConfigUnmarshal \<and> get [''globalcfg'', ''ports_to_scan''] (cfg_proto c') = Some (VList [VUint32 80])"
  by (auto simp: override_eval config_Default_def config_FromProto_def processMiddleNode_def split_beta)

text \<open>Every alias stands for a field of the configuration.\<close>

lemma aliases_resolve: "(k, key) \<in> set aliases \<Longrightarrow> is_ok (resolve config_descriptor (split_on CHR ''.'' key))"
  by (auto simp: aliases_def descriptor_defs field_of_def)

text \<open>A number that is accepted is stored without wrapping.\<close>

lemma int32_value_exact: "int32_value s = Inr v \<Longrightarrow> \<exists>i w. parse_int 32 s = Some i \<and> v = VInt32 w \<and> sint w = i"
  by (auto simp: int32_value_def or_unmarshal_def parse_int_def sint_sbintrunc' signed_take_bit_int_eq_self
      split: option.splits if_splits)

section \<open>Directories\<close>

lemma path_Clean_nonempty: "path_Clean p \<noteq> []"
  by (simp add: path_Clean_def clean_rooted_def Let_def)

lemma path_join_nonempty: "w \<noteq> [] \<Longrightarrow> path_join (w # ws) \<noteq> []"
  by (simp add: path_join_def path_Clean_nonempty)

text \<open>
  After \<open>CreateDirectories\<close> has succeeded no operation finds the configuration uninitialised, and
  the three directories are those below the working directory; closing removes the temporary one.
\<close>

lemma CreateDirectories_ready:
  assumes "CreateDirectories fs c workdir w = (w', c', None)"
  shows "workdir \<noteq> [] \<and> fs_stat fs workdir w \<and>
    cfg_temp_dir c' = path_join [workdir, ''tempfiles''] \<and>
    snd (config_Close fs c' w'') \<noteq> Some ErrUninitialized \<and>
    fst (config_Close fs c' w'') = fst (fs_remove_all fs (path_join [workdir, ''tempfiles'']) w'') \<and>
    snd (ArtifactsForModule fs c' m w'') \<noteq> Inl ErrUninitialized \<and>
    snd (GetCacheForModule fs c' m w'') \<noteq> Inl ErrUninitialized"
  using assms
  by (auto simp: CreateDirectories_def config_Close_def ArtifactsForModule_def GetCacheForModule_def directory_for_def
      path_join_nonempty Let_def split: if_splits prod.splits bool.splits)

lemma CreateDirectories_failed: "snd (snd (CreateDirectories fs c [] w)) = Some ErrWorkDirEmpty"
  by (simp add: CreateDirectories_def)

text \<open>The multiplication by a second cannot overflow, because the field has 32 bits.\<close>

lemma TimeoutPerRequest_exact:
  "sint (TimeoutPerRequest c) =
     sint (get_int32 ''timeout_per_request_seconds'' 10 (sub_message ''performance'' (GlobalConfig c))) * 1000000000"
proof -
  let ?w = "get_int32 ''timeout_per_request_seconds'' 10 (sub_message ''performance'' (GlobalConfig c)) :: 32 word"
  have bounds: "- (2 ^ 31) \<le> sint ?w" "sint ?w < 2 ^ 31"
    using sint_range_size [of ?w] by (simp_all add: word_size)
  have "TimeoutPerRequest c = word_of_int (sint ?w * 1000000000)"
    unfolding TimeoutPerRequest_def by (simp add: wi_hom_mult [symmetric])
  then have "sint (TimeoutPerRequest c) = signed_take_bit 63 (sint ?w * 1000000000)"
    by (simp only: sint_sbintrunc') simp
  also have "\<dots> = sint ?w * 1000000000"
    by (rule signed_take_bit_int_eq_self) (use bounds in simp_all)
  finally show ?thesis .
qed

end
