(* ===== verification/LlmClient.thy ===== *)
theory LlmClient
  imports Config HttpClient
begin

text \<open>
  The client of the language models, \<open>src/common/clients/llm\<close>: the consumption of the events of a
  turn with its accounting of tokens (\<open>turn.go\<close>, \<open>metrics.go\<close>), and the loop that asks again until a
  verifier accepts the answer (\<open>llm.go\<close>). The agent development kit, the clock and the contexts
  are operations on a world \<open>'w\<close>. The goroutines of a turn and the dump of a session are in theory \<open>LlmTurn\<close>.
\<close>

section \<open>Tokens\<close>

record usage =
  us_total :: "32 word"
  us_prompt :: "32 word"
  us_cached :: "32 word"
  us_candidates :: "32 word"
  us_thoughts :: "32 word"
  us_tool_prompt :: "32 word"

text \<open>The two counts of the client, and the additions to the metrics: name, value, model.\<close>

record token_state =
  total_token_count :: "32 word"
  cached_token_count :: "32 word"
  recorded_tokens :: "(string \<times> int \<times> string) list"

definition recordTokens :: "usage \<Rightarrow> string \<Rightarrow> (string \<times> int \<times> string) list" where
  "recordTokens u model =
     map (\<lambda>(name, v). (name, v, model)) (filter (\<lambda>(_, v). 0 < v)
       [(''LLMTokens'', sint (us_total u)),
        (''LLMInputTokens'', sint (us_prompt u)),
        (''LLMCachedTokens'', sint (us_cached u)),
        (''LLMOutputTokens'', sint (us_candidates u)),
        (''LLMThoughtTokens'', sint (us_thoughts u)),
        (''LLMToolInputTokens'', sint (us_tool_prompt u))])"

definition addUsage :: "usage option \<Rightarrow> string \<Rightarrow> token_state \<Rightarrow> token_state" where
  "addUsage usage model ts =
     (case usage of
        None \<Rightarrow> ts
      | Some u \<Rightarrow> \<lparr>total_token_count = total_token_count ts + us_total u,
                   cached_token_count = cached_token_count ts + us_cached u,
                   recorded_tokens = recorded_tokens ts @ recordTokens u model\<rparr>)"

section \<open>One turn\<close>

text \<open>An event of the runner; a part of its content is a text and whether it is a thought.\<close>

record llm_event =
  ev_partial :: bool
  ev_usage :: "usage option"
  ev_model :: string
  ev_parts :: "(string \<times> bool) list option"

text \<open>
  What the consumer of the events sees next: the context of the turn is done, the runner reports an
  error, or an event, with whether the context is done after it. The end of the list is the closed
  channel under a context that is not done.
\<close>

datatype turn_signal = TurnDone | ItemError | ItemEvent llm_event bool

definition appendEventText :: "string \<Rightarrow> llm_event \<Rightarrow> string" where
  "appendEventText b ev =
     (case ev_parts ev of
        None \<Rightarrow> b
      | Some parts \<Rightarrow> b @ concat (map fst (filter (\<lambda>(text, thought). text \<noteq> [] \<and> \<not> thought) parts)))"

text \<open>The deferred function of \<open>consumeEvents\<close> counts the last partial event.\<close>

definition count_partial :: "llm_event option \<Rightarrow> token_state \<Rightarrow> token_state" where
  "count_partial last_partial ts =
     (case last_partial of None \<Rightarrow> ts | Some ev \<Rightarrow> addUsage (ev_usage ev) (ev_model ev) ts)"

fun consumeEvents :: "turn_signal list \<Rightarrow> string \<Rightarrow> llm_event option \<Rightarrow> token_state \<Rightarrow> token_state \<times> string option" where
  "consumeEvents [] response last_partial ts = (count_partial last_partial ts, Some response)"
| "consumeEvents (TurnDone # _) response last_partial ts = (count_partial last_partial ts, None)"
| "consumeEvents (ItemError # _) response last_partial ts = (count_partial last_partial ts, None)"
| "consumeEvents (ItemEvent ev expired # items) response last_partial ts =
     (let (response', last_partial', ts') =
        (if ev_partial ev then (response, if ev_usage ev \<noteq> None then Some ev else last_partial, ts)
         else (appendEventText response ev, None, addUsage (ev_usage ev) (ev_model ev) ts))
      in if expired then (count_partial last_partial' ts', None)
         else consumeEvents items response' last_partial' ts')"

record content =
  ct_role :: string
  ct_text :: string

datatype llm_error =
    ErrMaxAttemptsReached | ErrAgentRun | ErrSessionService | ErrRunnerCreation | ErrContentRequired
  | ContextDone | VerifierAborted string

text \<open>
  The operations the client relies on: the clock in nanoseconds, whether the context of the caller
  is done, a new session, whether a runner can be built for the agent, and the events of a turn
  under a deadline. \<open>le_sleep deadline delay\<close> waits and says whether the delay passed before the
  deadline and the end of the context of the caller.
\<close>

record 'w llm_env =
  le_now :: "'w \<Rightarrow> int"
  le_caller_done :: "'w \<Rightarrow> bool"
  le_sleep :: "int \<Rightarrow> duration \<Rightarrow> 'w \<Rightarrow> 'w \<times> bool"
  le_new_session :: "'w \<Rightarrow> 'w \<times> string option"
  le_runner_ok :: bool
  le_signals :: "int \<Rightarrow> string \<Rightarrow> content \<Rightarrow> 'w \<Rightarrow> 'w \<times> turn_signal list"

type_synonym 'w llm_state = "'w \<times> token_state"

definition createSession :: "'w llm_env \<Rightarrow> 'w \<Rightarrow> 'w \<times> (llm_error, string) result" where
  "createSession le w =
     (case le_new_session le w of
        (w', None) \<Rightarrow> (w', Inl ErrSessionService)
      | (w', Some sid) \<Rightarrow> (w', Inr sid))"

definition runTurn :: "'w llm_env \<Rightarrow> duration \<Rightarrow> int \<Rightarrow> string \<Rightarrow> content \<Rightarrow> 'w llm_state \<Rightarrow> 'w llm_state \<times> (llm_error, string \<times> string) result" where
  "runTurn le timeout deadline sid content st =
     (case (if sid = [] then createSession le (fst st) else (fst st, Inr sid)) of
        (w, Inl e) \<Rightarrow> ((w, snd st), Inl e)
      | (w, Inr sid') \<Rightarrow>
          if \<not> le_runner_ok le then ((w, snd st), Inl ErrRunnerCreation)
          else
            (case le_signals le (min deadline (le_now le w + sint timeout)) sid' content w of
               (w', items) \<Rightarrow>
                 (case consumeEvents items [] None (snd st) of
                    (ts, None) \<Rightarrow> ((w', ts), Inl ErrAgentRun)
                  | (ts, Some response) \<Rightarrow> ((w', ts), Inr (sid', response)))))"

section \<open>The feedback loop\<close>

record verify_error =
  ve_abort :: bool
  ve_text :: string

type_synonym 's verifier = "string \<Rightarrow> 's \<Rightarrow> 's \<times> verify_error option"

definition feedbackContent :: "string \<Rightarrow> content" where
  "feedbackContent err =
     \<lparr>ct_role = ''user'',
      ct_text = ''Verification of your previous response failed:'' @ [CHR 0x0A] @ err @ [CHR 0x0A, CHR 0x0A]
        @ ''Please correct the issues and provide an updated response.''\<rparr>"

text \<open>
  The loop over the attempts, on any state: \<open>loop_done\<close> and \<open>caller_done\<close> say whether the two contexts
  are done, \<open>wait\<close> is the delay between attempts, \<open>turn\<close> a turn of a session. The first number is
  that of the attempts left.
\<close>

fun feedback_loop :: "('s \<Rightarrow> bool) \<Rightarrow> ('s \<Rightarrow> bool) \<Rightarrow> ('s \<Rightarrow> 's \<times> bool)
    \<Rightarrow> (string \<Rightarrow> content \<Rightarrow> 's \<Rightarrow> 's \<times> (llm_error, string \<times> string) result) \<Rightarrow> 's verifier option
    \<Rightarrow> content \<Rightarrow> nat \<Rightarrow> bool \<Rightarrow> string \<Rightarrow> content \<Rightarrow> 's \<Rightarrow> 's \<times> (llm_error, string) result" where
  "feedback_loop loop_done caller_done wait turn verifier start 0 first sid content s =
     (s, Inl ErrMaxAttemptsReached)"
| "feedback_loop loop_done caller_done wait turn verifier start (Suc n) first sid content s =
     (if loop_done s then (s, Inl ContextDone)
      else
        case (if first then (s, True) else wait s) of
          (s1, False) \<Rightarrow> (s1, Inl ContextDone)
        | (s1, True) \<Rightarrow>
            (case turn sid content s1 of
               (s2, Inl e) \<Rightarrow>
                 if caller_done s2 then (s2, Inl ContextDone)
                 else feedback_loop loop_done caller_done wait turn verifier start n False [] start s2
             | (s2, Inr (sid', resp)) \<Rightarrow>
                 (case (case verifier of None \<Rightarrow> (s2, None) | Some verify \<Rightarrow> verify resp s2) of
                    (s3, None) \<Rightarrow> (s3, Inr resp)
                  | (s3, Some err) \<Rightarrow>
                      if ve_abort err then (s3, Inl (VerifierAborted (ve_text err)))
                      else if caller_done s3 then (s3, Inl ContextDone)
                      else feedback_loop loop_done caller_done wait turn verifier start n False sid'
                             (feedbackContent (ve_text err)) s3)))"

record llm_config =
  lc_timeout_seconds :: "32 word"
  lc_max_attempts :: "32 word"
  lc_retry_delay_seconds :: "32 word"

definition get_string :: "string \<Rightarrow> string \<Rightarrow> pb_message \<Rightarrow> string" where
  "get_string name dflt m = (case m name of Some (VString s) \<Rightarrow> s | _ \<Rightarrow> dflt)"

datatype model_tier = ModelTierLite | ModelTierFast | ModelTierPro

definition GetModel :: "config \<Rightarrow> model_tier \<Rightarrow> string" where
  "GetModel c tier =
     (let m = sub_message ''llm'' (ClientsConfig c) in
      case tier of
        ModelTierLite \<Rightarrow> get_string ''lite_model'' ''gemini-3.5-flash-lite'' m
      | ModelTierFast \<Rightarrow> get_string ''fast_model'' ''gemini-3.6-flash'' m
      | ModelTierPro \<Rightarrow> get_string ''pro_model'' ''gemini-3.1-pro-preview'' m)"

definition llm_TimeoutPerRequest :: "config \<Rightarrow> duration" where
  "llm_TimeoutPerRequest c =
     seconds (get_int32 ''timeout_per_request_seconds'' 240 (sub_message ''llm'' (ClientsConfig c)))"

definition llm_New :: "config \<Rightarrow> llm_config" where
  "llm_New c =
     (let m = sub_message ''llm'' (ClientsConfig c) in
      \<lparr>lc_timeout_seconds = get_int32 ''timeout_per_request_seconds'' 240 m,
       lc_max_attempts = get_int32 ''max_attempts'' 3 m,
       lc_retry_delay_seconds = get_int32 ''retry_delay_seconds'' 10 m\<rparr>)"

definition loop_timeout :: "llm_config \<Rightarrow> duration" where
  "loop_timeout lc =
     (scast (lc_max_attempts lc) :: duration) * seconds (lc_timeout_seconds lc)
       + word_of_int (max 0 (sint (lc_max_attempts lc) - 1)) * seconds (lc_retry_delay_seconds lc)"

text \<open>
  A verifier may keep state of its own, of type \<open>'v\<close>, beside the world. The number of attempts is
  a signed number; when it is not positive the loop has no round.
\<close>

definition RunWithFeedbackLoop :: "'w llm_env \<Rightarrow> llm_config \<Rightarrow> content option \<Rightarrow> ('w \<times> 'v) verifier option
    \<Rightarrow> ('w \<times> 'v) \<times> token_state \<Rightarrow> (('w \<times> 'v) \<times> token_state) \<times> (llm_error, string) result" where
  "RunWithFeedbackLoop le lc content verifier st =
     (case content of
        None \<Rightarrow> (st, Inl ErrContentRequired)
      | Some c \<Rightarrow>
          if ct_role c = [] then (st, Inl ErrContentRequired)
          else
            let deadline = le_now le (fst (fst st)) + sint (loop_timeout lc) in
            feedback_loop
              (\<lambda>((w, v), ts). le_caller_done le w \<or> deadline \<le> le_now le w)
              (\<lambda>((w, v), ts). le_caller_done le w)
              (\<lambda>((w, v), ts). case le_sleep le deadline (seconds (lc_retry_delay_seconds lc)) w of
                 (w', ok) \<Rightarrow> (((w', v), ts), ok))
              (\<lambda>sid ct ((w, v), ts). case runTurn le (seconds (lc_timeout_seconds lc)) deadline sid ct (w, ts) of
                 ((w', ts'), r) \<Rightarrow> (((w', v), ts'), r))
              (map_option (\<lambda>verify resp (wv, ts). case verify resp wv of (wv', e) \<Rightarrow> ((wv', ts), e)) verifier)
              c (nat (sint (lc_max_attempts lc))) True [] c st)"

section \<open>Correctness of the loop\<close>

text \<open>The feedback loop over any turns: what it returns was accepted by the verifier, and it takes at
  most as many turns as it has attempts.\<close>

locale counted_turns =
  fixes loop_done caller_done :: "'s \<Rightarrow> bool"
    and wait :: "'s \<Rightarrow> 's \<times> bool"
    and turn :: "string \<Rightarrow> content \<Rightarrow> 's \<Rightarrow> 's \<times> (llm_error, string \<times> string) result"
    and verifier :: "'s verifier option"
    and turns :: "'s \<Rightarrow> nat"
  assumes turn_counts: "turns (fst (turn sid c s)) \<le> Suc (turns s)"
    and wait_counts: "turns (fst (wait s)) = turns s"
    and verifier_counts: "verifier = Some verify \<Longrightarrow> turns (fst (verify resp s)) = turns s"
begin

lemma loop_bounded:
  "turns (fst (feedback_loop loop_done caller_done wait turn verifier start n first sid c s)) \<le> turns s + n"
proof (induction n arbitrary: first sid c s)
  case (Suc n)
  have wait: "turns (fst (if first then (s, True) else wait s)) = turns s"
    by (simp add: wait_counts)
  show ?case
  proof (cases "if first then (s, True) else wait s")
    case (Pair s1 ok)
    with wait have s1: "turns s1 = turns s" by simp
    obtain s2 r where r: "turn sid c s1 = (s2, r)" by fastforce
    with turn_counts [of sid c s1] s1 have s2: "turns s2 \<le> Suc (turns s)" by simp
    have v: "turns (fst (case verifier of None \<Rightarrow> (s2, None) | Some verify \<Rightarrow> verify resp s2)) = turns s2" for resp
      by (auto simp: verifier_counts split: option.split)
    show ?thesis
    proof (cases r)
      case (Inl e)
      with Suc.IH [of False "[]" start s2] s1 s2 show ?thesis
        by (auto simp: Pair r simp del: if_split split: bool.split)
    next
      case (Inr sr)
      obtain sid' resp where sr: "sr = (sid', resp)" by fastforce
      obtain s3 e where e: "(case verifier of None \<Rightarrow> (s2, None) | Some verify \<Rightarrow> verify resp s2) = (s3, e)" by fastforce
      with v [of resp] have "turns s3 = turns s2" by simp
      with s1 s2 have "turns (fst (feedback_loop loop_done caller_done wait turn verifier start n False sid' ct s3)) \<le> Suc (turns s + n)"
        for ct using \<open>turns s3 = turns s2\<close> Suc.IH [of False sid' ct s3] by simp
      with \<open>turns s3 = turns s2\<close> s1 s2 show ?thesis
        by (auto simp: Pair r Inr sr e split: bool.split option.split)
    qed
  qed
qed simp

end

lemma feedback_loop_accepted:
  "feedback_loop loop_done caller_done wait turn (Some verify) start n first sid c s = (s', Inr resp) \<Longrightarrow>
     \<exists>s2. verify resp s2 = (s', None)"
proof (induction n arbitrary: first sid c s)
  case (Suc n)
  then show ?case
    by (auto split: if_splits prod.splits bool.splits sum.splits option.splits)
qed simp

lemma RunWithFeedbackLoop_accepted:
  assumes "RunWithFeedbackLoop le lc c (Some verify) st = (st', Inr resp)"
  shows "\<exists>wv. verify resp wv = (fst st', None)"
proof -
  from assms obtain s2 where "(case s2 of (wv, ts) \<Rightarrow> case verify resp wv of (wv', e) \<Rightarrow> ((wv', ts), e)) = (st', None)"
    by (auto simp: RunWithFeedbackLoop_def Let_def simp del: prod.case split: option.splits if_splits
        dest!: feedback_loop_accepted)
  then have "verify resp (fst s2) = (fst st', None)"
    by (cases s2) (auto split: prod.splits)
  then show ?thesis ..
qed

text \<open>
  The bound on the model itself: the environment is extended with a count of the turns whose events
  were asked for, and the verifier leaves the count alone.
\<close>

definition counted_env :: "'w llm_env \<Rightarrow> ('w \<times> nat) llm_env" where
  "counted_env le =
     \<lparr>le_now = \<lambda>(w, n). le_now le w, le_caller_done = \<lambda>(w, n). le_caller_done le w,
      le_sleep = \<lambda>deadline d (w, n). (case le_sleep le deadline d w of (w', ok) \<Rightarrow> ((w', n), ok)),
      le_new_session = \<lambda>(w, n). (case le_new_session le w of (w', sid) \<Rightarrow> ((w', n), sid)),
      le_runner_ok = le_runner_ok le,
      le_signals = \<lambda>deadline sid c (w, n). (case le_signals le deadline sid c w of (w', xs) \<Rightarrow> ((w', Suc n), xs))\<rparr>"

definition counted_verifier :: "('w \<times> 'v) verifier \<Rightarrow> (('w \<times> nat) \<times> 'v) verifier" where
  "counted_verifier verify = (\<lambda>resp ((w, n), v). case verify resp (w, v) of ((w', v'), e) \<Rightarrow> (((w', n), v'), e))"

lemma runTurn_counts: "snd (fst (fst (runTurn (counted_env le) timeout deadline sid ct ((w, n), ts)))) \<le> Suc n"
  by (auto simp: runTurn_def createSession_def counted_env_def split: prod.split sum.split option.split)

interpretation llm: counted_turns
  loop_done caller_done
  "\<lambda>((wn, v), ts). case le_sleep (counted_env le) deadline delay wn of (wn', ok) \<Rightarrow> (((wn', v), ts), ok)"
  "\<lambda>sid ct ((wn, v), ts). case runTurn (counted_env le) timeout deadline sid ct (wn, ts) of ((wn', ts'), r) \<Rightarrow> (((wn', v), ts'), r)"
  "map_option (\<lambda>verify resp (wv, ts). case verify resp wv of (wv', e) \<Rightarrow> ((wv', ts), e)) (map_option counted_verifier verifier)"
  "\<lambda>s. snd (fst (fst s))"
  for loop_done caller_done :: "(('w \<times> nat) \<times> 'v) \<times> token_state \<Rightarrow> bool" and le :: "'w llm_env"
    and deadline :: int and delay timeout :: duration and verifier :: "('w \<times> 'v) verifier option"
proof (unfold_locales, goal_cases)
  case (1 sid ct s)
  obtain w n v ts where s: "s = (((w, n), v), ts)" by (metis prod.exhaust)
  obtain w' n' ts' r where "runTurn (counted_env le) timeout deadline sid ct ((w, n), ts) = (((w', n'), ts'), r)"
    by (metis prod.exhaust)
  then show ?case
    using runTurn_counts [of le timeout deadline sid ct w n ts] by (simp add: s)
next
  case (2 s)
  show ?case by (simp add: counted_env_def split: prod.split)
next
  case (3 verify resp s)
  then show ?case by (auto simp: counted_verifier_def split: prod.split)
qed

lemma RunWithFeedbackLoop_bounded:
  "snd (fst (fst (fst (RunWithFeedbackLoop (counted_env le) lc c (map_option counted_verifier verifier) (((w, n), v), ts)))))
     \<le> n + nat (sint (lc_max_attempts lc))"
proof (cases "\<exists>ct. c = Some ct \<and> ct_role ct \<noteq> []")
  case True
  then obtain ct where "c = Some ct" "ct_role ct \<noteq> []" by blast
  then show ?thesis
    unfolding RunWithFeedbackLoop_def Let_def
    by (simp only: option.case if_False) (rule order_trans [OF llm.loop_bounded], simp)
qed (auto simp: RunWithFeedbackLoop_def split: option.split)

text \<open>
  When every event of a turn arrives, the answer is the text of the final events without the
  thoughts, and the tokens are those of the final events and of the last partial one after them.
\<close>

lemma consumeEvents_text:
  "snd (consumeEvents (map (\<lambda>ev. ItemEvent ev False) evs) response lp ts) =
     Some (response @ concat (map (appendEventText []) (filter (\<lambda>ev. \<not> ev_partial ev) evs)))"
  by (induction evs arbitrary: response lp ts) (auto simp: appendEventText_def split: option.split)

lemma total_addUsage:
  "total_token_count (addUsage u m ts) = total_token_count ts + (case u of None \<Rightarrow> 0 | Some u \<Rightarrow> us_total u)"
  by (simp add: addUsage_def split: option.split)

lemma consumeEvents_final_tokens:
  "(\<And>ev. ev \<in> set evs \<Longrightarrow> \<not> ev_partial ev) \<Longrightarrow>
     total_token_count (fst (consumeEvents (map (\<lambda>ev. ItemEvent ev False) evs) response None ts)) =
       total_token_count ts + sum_list (map (\<lambda>ev. case ev_usage ev of None \<Rightarrow> 0 | Some u \<Rightarrow> us_total u) evs)"
  by (induction evs arbitrary: response ts) (simp_all add: count_partial_def total_addUsage add.assoc)

end
