(* ===== verification/CallbackServer.thy ===== *)
theory CallbackServer
  imports UrlParse
begin

text \<open>
  The callback server (\<open>tools/callbackserver\<close>), the identifiers it shares with the scanner
  (\<open>common/callbackserver\<close>) and the scanner's client for it (\<open>common/clients/callbackserver\<close>). The
  locale \<open>interaction_store\<close> is the code's interface \<open>InteractionStore\<close> with the laws its clients
  rely on; the in-memory store is its interpretation. The digest SHA3-224, the JSON encoding of a
  polling result and the clock are parameters: a time is a number of nanoseconds. The
  loop of the DNS server is in theory \<open>DnsServer\<close>; sockets, the DNS wire format and the rest of the
  HTTP server of the standard library are not modelled.
\<close>

section \<open>\<open>cbid.go\<close>\<close>

datatype cb_error =
    ErrInvalidCBID
  | ErrInvalidDomain
  | ErrInvalidURL
  | ErrFailedToParseURL
  | ErrInvalidConfig
  | ErrPollingRequest

text \<open>Writing to the hash never fails, so neither does \<open>Generate\<close>.\<close>

definition Generate :: "(string \<Rightarrow> string) \<Rightarrow> string \<Rightarrow> (cb_error, string) result" where
  "Generate sha3 secret = Inr (hex_encode (sha3 secret))"

definition cbid_char :: "char \<Rightarrow> bool" where
  "cbid_char c = (is_digit c \<or> (97 \<le> char_code c \<and> char_code c \<le> 102))"

definition Validate :: "string \<Rightarrow> cb_error option" where
  "Validate cbid = (if length cbid = 56 \<and> list_all cbid_char cbid then None else Some ErrInvalidCBID)"

section \<open>\<open>netutils.go\<close>\<close>

definition CallbackURL :: "string \<Rightarrow> string \<Rightarrow> string" where
  "CallbackURL uri cbid = trim_suffix uri ''/'' @ ''/'' @ cbid"

definition CallbackDomain :: "string \<Rightarrow> string \<Rightarrow> (cb_error, string) result" where
  "CallbackDomain domain cbid = Inr (cbid @ ''.'' @ domain)"

definition IdentifierFromURL :: "string \<Rightarrow> (cb_error, string) result" where
  "IdentifierFromURL httpURL = (case url_Parse httpURL of
       None \<Rightarrow> Inl ErrFailedToParseURL
     | Some u \<Rightarrow>
         let path = trim_prefix (u_path u) ''/'' in
         if path = [] then Inl ErrInvalidURL
         else if CHR ''/'' \<in> set path then Inl ErrInvalidURL
         else case Validate path of Some e \<Rightarrow> Inl e | None \<Rightarrow> Inr path)"

definition IdentifierFromDomain :: "string \<Rightarrow> (cb_error, string) result" where
  "IdentifierFromDomain domain =
     (if IsIP domain then Inl ErrInvalidDomain
      else let parts = split_on CHR ''.'' domain in
        if length parts < 2 \<or> hd parts = [] then Inl ErrInvalidDomain
        else case Validate (hd parts) of Some e \<Rightarrow> Inl e | None \<Rightarrow> Inr (hd parts))"

section \<open>The interaction store\<close>

datatype interaction_type = UnknownInteraction | HTTPInteraction | DNSInteraction

record interaction =
  ia_type :: interaction_type
  ia_time :: nat

datatype store_error = ErrUnknownInteractionType

record mem_store =
  ms_storage :: "string \<rightharpoonup> interaction list"
  ms_ttl :: nat

definition NewInMemoryInteractionStore :: "nat \<Rightarrow> mem_store" where
  "NewInMemoryInteractionStore ttl = \<lparr>ms_storage = Map.empty, ms_ttl = ttl\<rparr>"

definition mem_Get :: "string \<Rightarrow> mem_store \<Rightarrow> interaction list" where
  "mem_Get cbid s = (case ms_storage s cbid of None \<Rightarrow> [] | Some is \<Rightarrow> is)"

definition mem_Register :: "nat \<Rightarrow> string \<Rightarrow> interaction_type \<Rightarrow> mem_store \<Rightarrow> (store_error, mem_store) result" where
  "mem_Register now cbid t s =
     (if t = UnknownInteraction then Inl ErrUnknownInteractionType
      else let refreshed = \<lparr>ia_type = t, ia_time = now\<rparr> # filter (\<lambda>i. ia_type i \<noteq> t) (mem_Get cbid s)
        in Inr (s\<lparr>ms_storage := (ms_storage s)(cbid \<mapsto> refreshed)\<rparr>))"

definition mem_Delete :: "string \<Rightarrow> mem_store \<Rightarrow> mem_store" where
  "mem_Delete cbid s = s\<lparr>ms_storage := (ms_storage s)(cbid := None)\<rparr>"

definition cleanup :: "nat \<Rightarrow> mem_store \<Rightarrow> mem_store" where
  "cleanup now s = s\<lparr>ms_storage := (\<lambda>cbid. map_option (filter (\<lambda>i. now \<le> ia_time i + ms_ttl s)) (ms_storage s cbid))\<rparr>"

section \<open>Recording over any store\<close>

definition quoted :: "nat \<Rightarrow> string \<Rightarrow> string" where
  "quoted q w = char_of q # w @ [char_of q]"

text \<open>A recording handler is given the store's \<open>Register\<close> at the time of the request.\<close>

type_synonym 's register_fn = "string \<Rightarrow> interaction_type \<Rightarrow> 's \<Rightarrow> (store_error, 's) result"

definition http_record :: "'s register_fn \<Rightarrow> string \<Rightarrow> string \<Rightarrow> 's \<Rightarrow> 's \<times> http_response" where
  "http_record register host requestURI s =
     (case IdentifierFromURL (''http://'' @ host @ requestURI) of
        Inl e \<Rightarrow> (s, \<lparr>rs_status = 500, rs_retry_after = [], rs_body = []\<rparr>)
      | Inr cbid \<Rightarrow> (case register cbid HTTPInteraction s of
            Inl e \<Rightarrow> (s, \<lparr>rs_status = 500, rs_retry_after = [], rs_body = []\<rparr>)
          | Inr s' \<Rightarrow> (s', \<lparr>rs_status = 200, rs_retry_after = [], rs_body = ''{'' @ quoted 34 ''status'' @ '':'' @ quoted 34 ''OK'' @ ''}''\<rparr>)))"

datatype rcode = RCodeRefused | RCodeNameError

definition shouldAnswer :: "string \<Rightarrow> string \<Rightarrow> bool" where
  "shouldAnswer handler_domain name =
     (let n = trim_suffix (to_lower name) ''.''; domain = trim_suffix (to_lower handler_domain) ''.''
      in n = domain \<or> has_suffix n (''.'' @ domain))"

text \<open>\<open>None\<close> as a query is a message that does not unpack or has no question: no answer is sent.\<close>

definition HandleDNS :: "'s register_fn \<Rightarrow> string \<Rightarrow> string option \<Rightarrow> 's \<Rightarrow> 's \<times> rcode option" where
  "HandleDNS register handler_domain question s = (case question of
       None \<Rightarrow> (s, None)
     | Some name \<Rightarrow>
         if \<not> shouldAnswer handler_domain name then (s, Some RCodeRefused)
         else case IdentifierFromDomain name of
             Inl e \<Rightarrow> (s, Some RCodeRefused)
           | Inr cbid \<Rightarrow> (case register cbid DNSInteraction s of
                 Inl e \<Rightarrow> (s, Some RCodeRefused)
               | Inr s' \<Rightarrow> (s', Some RCodeNameError)))"

section \<open>Polling\<close>

record polling_result =
  has_dns :: bool
  has_http :: bool

definition polling_result_of :: "interaction list \<Rightarrow> polling_result" where
  "polling_result_of is =
     \<lparr>has_dns = list_ex (\<lambda>i. ia_type i = DNSInteraction) is, has_http = list_ex (\<lambda>i. ia_type i = HTTPInteraction) is\<rparr>"

definition polling_ServeHTTP :: "(string \<Rightarrow> string) \<Rightarrow> (polling_result \<Rightarrow> string) \<Rightarrow> (string \<Rightarrow> interaction list)
    \<Rightarrow> string \<Rightarrow> http_response" where
  "polling_ServeHTTP sha3 marshal get raw_query =
     (case map_of (query_values raw_query) ''secret'' of
        None \<Rightarrow> \<lparr>rs_status = 200, rs_retry_after = [], rs_body = ''{}''\<rparr>
      | Some secret \<Rightarrow>
          if secret = [] then \<lparr>rs_status = 400, rs_retry_after = [], rs_body = ''required parameter '' @ quoted 39 ''secret'' @ '' not found.'' @ [char_of (10 :: nat)]\<rparr>
          else case Generate sha3 secret of
              Inl e \<Rightarrow> \<lparr>rs_status = 500, rs_retry_after = [], rs_body = []\<rparr>
            | Inr cbid \<Rightarrow>
                if get cbid = [] then \<lparr>rs_status = 404, rs_retry_after = [], rs_body = ''interaction with secret not found'' @ [char_of (10 :: nat)]\<rparr>
                else \<lparr>rs_status = 200, rs_retry_after = [], rs_body = marshal (polling_result_of (get cbid))\<rparr>)"

section \<open>The client\<close>

record cb_config =
  poll_uri :: string
  http_uri :: string
  dns_uri :: string

text \<open>A configuration that is missing is one with empty fields.\<close>

definition cb_new :: "cb_config option \<Rightarrow> cb_config" where
  "cb_new cfg = (case cfg of None \<Rightarrow> \<lparr>poll_uri = [], http_uri = [], dns_uri = []\<rparr> | Some c \<Rightarrow> c)"

definition IsCallbackServerEnabled :: "cb_config \<Rightarrow> bool" where
  "IsCallbackServerEnabled c = (poll_uri c \<noteq> [] \<and> http_uri c \<noteq> [] \<and> dns_uri c \<noteq> [])"

definition GetHTTPCallbackURI :: "(string \<Rightarrow> string) \<Rightarrow> cb_config \<Rightarrow> string \<Rightarrow> (cb_error, string) result" where
  "GetHTTPCallbackURI sha3 c secret =
     (if \<not> IsCallbackServerEnabled c then Inl ErrInvalidConfig
      else map_sum id (CallbackURL (http_uri c)) (Generate sha3 secret))"

definition GetDNSCallbackDomain :: "(string \<Rightarrow> string) \<Rightarrow> cb_config \<Rightarrow> string \<Rightarrow> (cb_error, string) result" where
  "GetDNSCallbackDomain sha3 c secret =
     (if \<not> IsCallbackServerEnabled c then Inl ErrInvalidConfig
      else case Generate sha3 secret of Inl e \<Rightarrow> Inl e | Inr id' \<Rightarrow> CallbackDomain (dns_uri c) id')"

text \<open>\<open>send\<close> is the shared HTTP client, \<open>unmarshal\<close> is \<open>protojson.Unmarshal\<close>.\<close>

definition cb_poll :: "(url \<Rightarrow> ('e, http_response) result) \<Rightarrow> (string \<Rightarrow> polling_result option) \<Rightarrow> cb_config \<Rightarrow> string
    \<Rightarrow> (cb_error, polling_result option) result" where
  "cb_poll send unmarshal c secret =
     (case url_Parse (trim_suffix (poll_uri c) ''/'' @ ''/?secret='' @ secret) of
        None \<Rightarrow> Inl ErrPollingRequest
      | Some u \<Rightarrow> (case send u of
            Inl e \<Rightarrow> Inl ErrPollingRequest
          | Inr resp \<Rightarrow>
              if rs_status resp \<noteq> 200 then Inr None
              else case ReadBody (rs_body resp, EndOfFile :: unit body_end) 1024 of
                  Inl e \<Rightarrow> Inl ErrPollingRequest
                | Inr body \<Rightarrow> (case unmarshal body of None \<Rightarrow> Inl ErrPollingRequest | Some r \<Rightarrow> Inr (Some r))))"

definition HasInteraction :: "(url \<Rightarrow> ('e, http_response) result) \<Rightarrow> (string \<Rightarrow> polling_result option) \<Rightarrow> cb_config \<Rightarrow> string
    \<Rightarrow> (cb_error, bool) result" where
  "HasInteraction send unmarshal c secret =
     (if \<not> IsCallbackServerEnabled c then Inl ErrInvalidConfig
      else case cb_poll send unmarshal c secret of
          Inl e \<Rightarrow> Inl e
        | Inr None \<Rightarrow> Inr False
        | Inr (Some r) \<Rightarrow> Inr (has_dns r \<or> has_http r))"

section \<open>The contract of a store\<close>

locale interaction_store =
  fixes register :: "nat \<Rightarrow> string \<Rightarrow> interaction_type \<Rightarrow> 's \<Rightarrow> (store_error, 's) result"
    and get :: "string \<Rightarrow> 's \<Rightarrow> interaction list"
    and delete :: "string \<Rightarrow> 's \<Rightarrow> 's"
  assumes register_known: "t \<noteq> UnknownInteraction \<Longrightarrow> \<exists>s'. register now cbid t s = Inr s'
      \<and> set (get cbid s') = insert \<lparr>ia_type = t, ia_time = now\<rparr> {i \<in> set (get cbid s). ia_type i \<noteq> t}
      \<and> (\<forall>other. other \<noteq> cbid \<longrightarrow> get other s' = get other s)"
    and register_unknown: "register now cbid UnknownInteraction s = Inl ErrUnknownInteractionType"
    and get_delete: "get other (delete cbid s) = (if other = cbid then [] else get other s)"
begin

lemma http_record_valid:
  assumes "IdentifierFromURL (''http://'' @ host @ uri) = Inr cbid"
  shows "\<exists>s'. fst (http_record (register now) host uri s) = s' \<and> rs_status (snd (http_record (register now) host uri s)) = 200
    \<and> \<lparr>ia_type = HTTPInteraction, ia_time = now\<rparr> \<in> set (get cbid s')"
  using register_known [of HTTPInteraction now cbid s] assms by (auto simp: http_record_def)

lemma HandleDNS_valid:
  assumes "shouldAnswer domain name" and "IdentifierFromDomain name = Inr cbid"
  shows "snd (HandleDNS (register now) domain (Some name) s) = Some RCodeNameError
    \<and> \<lparr>ia_type = DNSInteraction, ia_time = now\<rparr> \<in> set (get cbid (fst (HandleDNS (register now) domain (Some name) s)))"
  using register_known [of DNSInteraction now cbid s] assms by (auto simp: HandleDNS_def)

lemma record_other:
  "get cbid (fst (http_record (register now) host uri s)) = get cbid s \<or> IdentifierFromURL (''http://'' @ host @ uri) = Inr cbid"
  "get cbid (fst (HandleDNS (register now) domain (Some name) s)) = get cbid s \<or> IdentifierFromDomain name = Inr cbid"
proof -
  have keep: "get cbid s' = get cbid s" if "register now c t s = Inr s'" "c \<noteq> cbid" for c t s'
    using that register_known [of t now c s] register_unknown [of now c s]
    by (cases "t = UnknownInteraction") auto
  show "get cbid (fst (http_record (register now) host uri s)) = get cbid s \<or> IdentifierFromURL (''http://'' @ host @ uri) = Inr cbid"
    using keep by (auto simp: http_record_def split: sum.splits)
  show "get cbid (fst (HandleDNS (register now) domain (Some name) s)) = get cbid s \<or> IdentifierFromDomain name = Inr cbid"
    using keep by (auto simp: HandleDNS_def split: sum.splits)
qed

end

interpretation mem: interaction_store mem_Register mem_Get mem_Delete
  by unfold_locales (auto simp: mem_Register_def mem_Get_def mem_Delete_def Let_def)

section \<open>Identifiers\<close>

lemma length_hex_encode: "length (hex_encode bs) = 2 * length bs"
  by (induction bs) (simp_all add: hex_encode_def)

lemma cbid_char_digit_char: "d < 16 \<Longrightarrow> cbid_char (digit_char d)"
  by (auto simp: cbid_char_def digit_char_def is_digit_def)

lemma char_code_less [simp]: "char_code c < 256"
  by (simp add: char_code_def)

lemma hex_encode_chars: "list_all cbid_char (hex_encode bs)"
proof (induction bs)
  case (Cons b bs)
  have "char_code b div 16 < 16" using char_code_less [of b] by linarith
  with Cons show ?case by (simp add: hex_encode_def cbid_char_digit_char)
qed (simp add: hex_encode_def)

lemma cbid_char_unreserved: "cbid_char c \<Longrightarrow> unreserved c"
  by (auto simp: cbid_char_def unreserved_def is_letter_def is_lower_def)

lemma hex_encode_unreserved: "list_all unreserved (hex_encode bs)"
  using hex_encode_chars by (rule list.pred_mono_strong) (rule cbid_char_unreserved)

lemma Validate_hex: "length bs = 28 \<Longrightarrow> Validate (hex_encode bs) = None"
  by (simp add: Validate_def length_hex_encode hex_encode_chars)

text \<open>A public address: plain HTTP to a host name with an optional port and an optional slash.\<close>

definition base_uri :: "string \<Rightarrow> string \<Rightarrow> bool" where
  "base_uri uri host \<longleftrightarrow> plain_authority host \<and> (uri = ''http://'' @ host \<or> uri = ''http://'' @ host @ ''/'')"

lemma trim_base_uri:
  assumes "base_uri uri host" and "host \<noteq> []"
  shows "trim_suffix uri ''/'' = ''http://'' @ host"
proof -
  have "CHR ''/'' \<notin> set host" using assms(1) plain_authority_absent [of host "CHR ''/''"] by (simp add: base_uri_def)
  then have "\<not> suffix ''/'' (''http://'' @ host)"
    using assms(2) by (cases host rule: rev_cases) (auto simp: suffix_def)
  moreover have "trim_suffix ((''http://'' @ host) @ ''/'') ''/'' = ''http://'' @ host" by (rule trim_suffix_append)
  ultimately show ?thesis using assms(1) by (auto simp: base_uri_def trim_suffix_other)
qed

lemma IdentifierFromURL_plain:
  assumes "plain_authority host" and "list_all unreserved w" and "Validate w = None"
  shows "IdentifierFromURL (''http://'' @ host @ ''/'' @ w) = Inr w"
proof -
  have "list_all (\<lambda>c. unreserved c \<or> c = CHR ''/'') (''/'' @ w)"
    using assms(2) by (auto intro: list.pred_mono_strong)
  from url_Parse_plain [OF _ assms(1) this, of "''http''" "[]"]
  have "url_Parse (''http://'' @ host @ ''/'' @ w) = Some \<lparr>u_scheme = ''http'', u_host = host, u_path = ''/'' @ w, u_raw_query = []\<rparr>"
    by simp
  moreover have "w \<noteq> []" using assms(3) by (auto simp: Validate_def)
  moreover have "CHR ''/'' \<notin> set w" using assms(2) by (simp add: unreserved_absent)
  ultimately show ?thesis
    using assms(3) by (simp add: IdentifierFromURL_def trim_prefix_def has_prefix_def)
qed

lemma query_secret:
  assumes "list_all unreserved secret"
  shows "query_values (''secret='' @ secret) = [(''secret'', secret)]"
proof -
  have no: "CHR ''&'' \<notin> set secret" "CHR ''='' \<notin> set secret" "CHR '';'' \<notin> set secret"
    using assms by (simp_all add: unreserved_absent)
  then have "split_on CHR ''&'' (''secret='' @ secret) = [''secret='' @ secret]" by (intro split_on_no_sep) simp
  moreover have "cut_at CHR ''='' (''secret='' @ secret) = Some (''secret'', secret)"
    using cut_append [of "CHR ''=''" "''secret''" secret] by simp
  ultimately show ?thesis using assms no
    by (simp add: query_values_def parse_setting_def cut_before_def List.map_filter_simps)
qed

lemma poll_url:
  assumes "base_uri uri host" and "host \<noteq> []" and "list_all unreserved secret"
  shows "url_Parse (trim_suffix uri ''/'' @ ''/?secret='' @ secret)
    = Some \<lparr>u_scheme = ''http'', u_host = host, u_path = ''/'', u_raw_query = ''secret='' @ secret\<rparr>"
proof -
  have "list_all (\<lambda>c. unreserved c \<or> c = CHR ''='' \<or> c = CHR ''&'') (''secret='' @ secret)"
    using assms(3) by (auto simp: unreserved_def is_letter_def is_lower_def char_code_def intro: list.pred_mono_strong)
  moreover have "plain_authority host" using assms(1) by (simp add: base_uri_def)
  ultimately show ?thesis
    using url_Parse_plain [of "''http''" host "''/''" "''secret='' @ secret"] trim_base_uri [OF assms(1,2)] by simp
qed

text \<open>A polling server that answers every request from one state of the store.\<close>

definition poll_server :: "(string \<Rightarrow> string) \<Rightarrow> (polling_result \<Rightarrow> string) \<Rightarrow> mem_store \<Rightarrow> url \<Rightarrow> (unit, http_response) result" where
  "poll_server sha3 marshal s u = Inr (polling_ServeHTTP sha3 marshal (\<lambda>cbid. mem_Get cbid s) (u_raw_query u))"

lemma HasInteraction_exact:
  assumes "IsCallbackServerEnabled c" and "base_uri (poll_uri c) host" and "host \<noteq> []"
    and "list_all unreserved secret" and "secret \<noteq> []"
    and "\<And>r. unmarshal (marshal r) = Some r" and "\<And>r. marshal r \<noteq> [] \<and> length (marshal r) < 1024"
  shows "HasInteraction (poll_server sha3 marshal s) unmarshal c secret
    = Inr (list_ex (\<lambda>i. ia_type i \<noteq> UnknownInteraction) (mem_Get (hex_encode (sha3 secret)) s))"
proof -
  let ?is = "mem_Get (hex_encode (sha3 secret)) s"
  have "list_ex (\<lambda>i. ia_type i \<noteq> UnknownInteraction) ?is
      \<longleftrightarrow> has_dns (polling_result_of ?is) \<or> has_http (polling_result_of ?is)"
    unfolding polling_result_of_def list_ex_iff
    by simp (metis interaction_type.distinct(1,3) interaction_type.exhaust)
  then show ?thesis
    using assms(1,5-7) poll_url [OF assms(2-4)] query_secret [OF assms(4)]
    by (auto simp: HasInteraction_def cb_poll_def poll_server_def polling_ServeHTTP_def Generate_def ReadBody_def
        not_le [symmetric] split: if_splits)
qed

text \<open>C19. The whole HTTP path works: the callback URI that the client hands out for a secret, requested
  from the recording server, is recorded there under the identifier of the secret, and until the
  time to live has passed the client's polling for the same secret sees it, however often the
  store is cleaned up; and polling sees nothing for a secret whose identifier is not in the
  store.\<close>

theorem http_callback_round_trip:
  assumes digest: "length (sha3 secret) = 28" and "IsCallbackServerEnabled c"
    and "base_uri (http_uri c) host" and "host \<noteq> []" and "base_uri (poll_uri c) phost" and "phost \<noteq> []"
    and "list_all unreserved secret" and "secret \<noteq> []"
    and "\<And>r. unmarshal (marshal r) = Some r" and "\<And>r. marshal r \<noteq> [] \<and> length (marshal r) < 1024"
    and "later \<le> now + ms_ttl s"
  shows "\<exists>cbid. GetHTTPCallbackURI sha3 c secret = Inr (''http://'' @ host @ ''/'' @ cbid)
    \<and> rs_status (snd (http_record (mem_Register now) host (''/'' @ cbid) s)) = 200
    \<and> HasInteraction (poll_server sha3 marshal (cleanup later (fst (http_record (mem_Register now) host (''/'' @ cbid) s))))
        unmarshal c secret = Inr True
    \<and> (mem_Get cbid s = [] \<longrightarrow> HasInteraction (poll_server sha3 marshal s) unmarshal c secret = Inr False)"
proof -
  let ?id = "hex_encode (sha3 secret)"
  have id_url: "IdentifierFromURL (''http://'' @ host @ ''/'' @ ?id) = Inr ?id"
    using assms(3) by (intro IdentifierFromURL_plain) (simp_all add: base_uri_def hex_encode_unreserved Validate_hex digest)
  obtain s' where rec: "fst (http_record (mem_Register now) host (''/'' @ ?id) s) = s'"
      "rs_status (snd (http_record (mem_Register now) host (''/'' @ ?id) s)) = 200"
      "\<lparr>ia_type = HTTPInteraction, ia_time = now\<rparr> \<in> set (mem_Get ?id s')"
    using mem.http_record_valid [of host "''/'' @ ?id" ?id now s] id_url by auto
  have "ms_ttl s' = ms_ttl s"
    using rec(1) id_url by (auto simp: http_record_def mem_Register_def Let_def)
  then have "\<lparr>ia_type = HTTPInteraction, ia_time = now\<rparr> \<in> set (mem_Get ?id (cleanup later s'))"
    using rec(3) assms(11) by (auto simp: mem_Get_def cleanup_def split: option.splits)
  then have "list_ex (\<lambda>i. ia_type i \<noteq> UnknownInteraction) (mem_Get ?id (cleanup later s'))"
    by (force simp: list_ex_iff)
  moreover have "GetHTTPCallbackURI sha3 c secret = Inr (''http://'' @ host @ ''/'' @ ?id)"
    using assms(2) trim_base_uri [OF assms(3,4)] by (simp add: GetHTTPCallbackURI_def Generate_def CallbackURL_def)
  ultimately show ?thesis
    using rec HasInteraction_exact [of c phost secret unmarshal marshal sha3, OF assms(2) assms(5-10)]
    by (intro exI [of _ ?id]) simp
qed

section \<open>What the in-memory store holds\<close>

datatype store_event = EvRegister nat string interaction_type | EvDelete string | EvCleanup nat

fun ev_times :: "store_event \<Rightarrow> nat list" where
  "ev_times (EvRegister now _ _) = [now]"
| "ev_times (EvDelete _) = []"
| "ev_times (EvCleanup now) = [now]"

text \<open>An event that the store rejects leaves it as it is.\<close>

fun ev_step :: "store_event \<Rightarrow> mem_store \<Rightarrow> mem_store" where
  "ev_step (EvRegister now cbid t) s = (case mem_Register now cbid t s of Inl _ \<Rightarrow> s | Inr s' \<Rightarrow> s')"
| "ev_step (EvDelete cbid) s = mem_Delete cbid s"
| "ev_step (EvCleanup now) s = cleanup now s"

text \<open>The specification: the time of the last registration of a type since the last deletion.\<close>

fun last_registration :: "string \<Rightarrow> interaction_type \<Rightarrow> store_event \<Rightarrow> nat option \<Rightarrow> nat option" where
  "last_registration cbid t (EvRegister now cbid' t') r = (if cbid' = cbid \<and> t' = t then Some now else r)"
| "last_registration cbid t (EvDelete cbid') r = (if cbid' = cbid then None else r)"
| "last_registration cbid t (EvCleanup now) r = r"

lemma ttl_ev_step [simp]: "ms_ttl (ev_step e s) = ms_ttl s"
  by (cases e) (auto simp: mem_Register_def mem_Delete_def cleanup_def Let_def)

lemma Get_Register: "t \<noteq> UnknownInteraction \<Longrightarrow>
    set (mem_Get cbid (ev_step (EvRegister now cbid' t) s)) =
      (if cbid = cbid' then insert \<lparr>ia_type = t, ia_time = now\<rparr> {i \<in> set (mem_Get cbid s). ia_type i \<noteq> t}
       else set (mem_Get cbid s))"
  by (auto simp: mem_Register_def mem_Get_def Let_def)

lemma Get_cleanup: "set (mem_Get cbid (cleanup now s)) = {i \<in> set (mem_Get cbid s). now \<le> ia_time i + ms_ttl s}"
  by (auto simp: mem_Get_def cleanup_def split: option.splits)

definition stored :: "mem_store \<Rightarrow> string \<Rightarrow> interaction_type \<Rightarrow> nat \<Rightarrow> bool" where
  "stored s cbid t time \<longleftrightarrow> \<lparr>ia_type = t, ia_time = time\<rparr> \<in> set (mem_Get cbid s)"

lemma stored_step:
  "stored (ev_step (EvRegister now c ty) s) cbid t time \<longleftrightarrow>
     (if ty \<noteq> UnknownInteraction \<and> c = cbid \<and> ty = t then time = now else stored s cbid t time)"
  "stored (ev_step (EvDelete c) s) cbid t time \<longleftrightarrow> c \<noteq> cbid \<and> stored s cbid t time"
  "stored (ev_step (EvCleanup now) s) cbid t time \<longleftrightarrow> stored s cbid t time \<and> now \<le> time + ms_ttl s"
proof -
  show "stored (ev_step (EvRegister now c ty) s) cbid t time \<longleftrightarrow>
     (if ty \<noteq> UnknownInteraction \<and> c = cbid \<and> ty = t then time = now else stored s cbid t time)"
  proof (cases "ty = UnknownInteraction")
    case True
    then show ?thesis by (simp add: mem_Register_def)
  next
    case False
    then show ?thesis unfolding stored_def Get_Register [OF False] by auto
  qed
qed (auto simp: stored_def mem.get_delete Get_cleanup)

lemma stored_history:
  assumes "t \<noteq> UnknownInteraction" and "\<forall>n \<in> set (concat (map ev_times evs)). n \<le> now"
  shows "stored (fold ev_step evs (NewInMemoryInteractionStore ttl)) cbid t time \<and> now \<le> time + ttl
    \<longleftrightarrow> fold (last_registration cbid t) evs None = Some time \<and> now \<le> time + ttl"
  using assms(2)
proof (induction evs rule: rev_induct)
  case Nil
  then show ?case by (simp add: stored_def mem_Get_def NewInMemoryInteractionStore_def)
next
  case (snoc e evs)
  have "ms_ttl (fold ev_step evs s) = ms_ttl s" for s by (induction evs arbitrary: s) simp_all
  then have ttl: "ms_ttl (fold ev_step evs (NewInMemoryInteractionStore ttl)) = ttl"
    by (simp add: NewInMemoryInteractionStore_def)
  have IH: "stored (fold ev_step evs (NewInMemoryInteractionStore ttl)) cbid t time \<and> now \<le> time + ttl
      \<longleftrightarrow> fold (last_registration cbid t) evs None = Some time \<and> now \<le> time + ttl"
    using snoc by simp
  show ?case
  proof (cases e)
    case (EvRegister n c ty)
    with IH assms(1) show ?thesis
      by (auto simp del: ev_step.simps simp add: stored_step)
  next
    case (EvDelete c)
    with IH show ?thesis by (auto simp del: ev_step.simps simp add: stored_step)
  next
    case (EvCleanup n)
    then have "n \<le> now" using snoc.prems by simp
    with IH EvCleanup ttl show ?thesis by (auto simp del: ev_step.simps simp add: stored_step)
  qed
qed

text \<open>C15. After any history of registrations, deletions and clean-ups, and a clean-up that is not
  earlier than any of them, the store answers exactly with the interactions whose last
  registration since the last deletion is not older than the time to live, each with that time.\<close>

theorem mem_store_exact:
  assumes "\<forall>n \<in> set (concat (map ev_times evs)). n \<le> now" and "t \<noteq> UnknownInteraction"
  shows "\<lparr>ia_type = t, ia_time = time\<rparr> \<in> set (mem_Get cbid (cleanup now (fold ev_step evs (NewInMemoryInteractionStore ttl))))
    \<longleftrightarrow> fold (last_registration cbid t) evs None = Some time \<and> now \<le> time + ttl"
proof -
  have "ms_ttl (fold ev_step evs s) = ms_ttl s" for s by (induction evs arbitrary: s) simp_all
  then have "ms_ttl (fold ev_step evs (NewInMemoryInteractionStore ttl)) = ttl"
    by (simp add: NewInMemoryInteractionStore_def)
  with stored_history [OF assms(2,1)] show ?thesis by (simp add: Get_cleanup stored_def)
qed

theorem mem_store_exact_witness:
  "\<lparr>ia_type = DNSInteraction, ia_time = 7\<rparr> \<in> set (mem_Get ''c'' (cleanup 9
     (fold ev_step [EvRegister 3 ''c'' DNSInteraction, EvCleanup 5, EvRegister 7 ''c'' DNSInteraction] (NewInMemoryInteractionStore 4))))"
  using mem_store_exact [of "[EvRegister 3 ''c'' DNSInteraction, EvCleanup 5, EvRegister 7 ''c'' DNSInteraction]" 9
      DNSInteraction 7 "''c''" 4] by simp

text \<open>A clean-up drops interactions but never an identifier: the map only grows.\<close>

lemma cleanup_keeps_keys: "dom (ms_storage (cleanup now s)) = dom (ms_storage s)"
  by (auto simp: cleanup_def)

definition sample_marshal :: "polling_result \<Rightarrow> string" where
  "sample_marshal r = [if has_dns r then CHR ''1'' else CHR ''0'', if has_http r then CHR ''1'' else CHR ''0'']"

definition sample_unmarshal :: "string \<Rightarrow> polling_result option" where
  "sample_unmarshal b = (case b of [d, h] \<Rightarrow> Some \<lparr>has_dns = (d = CHR ''1''), has_http = (h = CHR ''1'')\<rparr> | _ \<Rightarrow> None)"

definition sample_cb :: cb_config where
  "sample_cb = \<lparr>poll_uri = ''http://cb.lan:8080/'', http_uri = ''http://cb.lan'', dns_uri = ''cb.lan''\<rparr>"

lemma plain_cb: "plain_authority ''cb.lan''" "plain_authority ''cb.lan:8080''"
proof -
  have "list_all unreserved ''cb.lan''" "list_all is_digit ''8080''"
    by (simp_all add: unreserved_def is_letter_def is_lower_def is_digit_def char_code_def)
  then show "plain_authority ''cb.lan''" "plain_authority ''cb.lan:8080''"
    unfolding plain_authority_def by (intro exI [of _ "''cb.lan''"] exI [of _ "''8080''"], simp)+
qed

theorem http_callback_round_trip_witness:
  "\<exists>cbid. GetHTTPCallbackURI (\<lambda>_. replicate 28 CHR ''x'') sample_cb ''k7'' = Inr (''http://cb.lan/'' @ cbid)
     \<and> HasInteraction (poll_server (\<lambda>_. replicate 28 CHR ''x'') sample_marshal
         (cleanup 12 (fst (http_record (mem_Register 5) ''cb.lan'' (''/'' @ cbid) (NewInMemoryInteractionStore 10)))))
         sample_unmarshal sample_cb ''k7'' = Inr True"
proof -
  have "IsCallbackServerEnabled sample_cb" "base_uri (http_uri sample_cb) ''cb.lan''" "base_uri (poll_uri sample_cb) ''cb.lan:8080''"
    using plain_cb by (simp_all add: sample_cb_def IsCallbackServerEnabled_def base_uri_def)
  moreover have "list_all unreserved ''k7''"
    by (simp add: unreserved_def is_letter_def is_lower_def is_digit_def char_code_def)
  moreover have "sample_unmarshal (sample_marshal r) = Some r" "sample_marshal r \<noteq> [] \<and> length (sample_marshal r) < 1024" for r
    by (cases r, simp_all add: sample_marshal_def sample_unmarshal_def)
  ultimately show ?thesis
    using http_callback_round_trip [of "\<lambda>_. replicate 28 CHR ''x''" "''k7''" sample_cb "''cb.lan''" "''cb.lan:8080''"
        sample_unmarshal sample_marshal 12 5 "NewInMemoryInteractionStore 10"]
    by (auto simp: NewInMemoryInteractionStore_def)
qed

section \<open>DNS callbacks\<close>

lemma split_on_snoc: "split_on c (s @ [c]) = split_on c s @ [[]]"
proof (induction s)
  case (Cons x xs)
  then show ?case by (cases "split_on c xs") auto
qed simp

lemma parse_ipv4_dot: "parse_ipv4 (s @ ''.'') = None"
proof -
  have "parse_octet [] = None" by (simp add: parse_octet_def parse_dec_def)
  then show ?thesis unfolding parse_ipv4_def split_on_snoc
    by (auto split: list.splits option.splits simp: append_eq_Cons_conv)
qed

lemma find_first: "list_all (\<lambda>c. \<not> P c) w \<Longrightarrow> P c \<Longrightarrow> find P (w @ c # r) = Some c"
  by (induction w) auto

text \<open>A name with its final dot, whose first label has only letters and digits, is no address.\<close>

lemma fqdn_not_IP:
  assumes "list_all unreserved w" and "CHR ''.'' \<notin> set w"
  shows "\<not> IsIP (w @ ''.'' @ d @ ''.'')"
proof -
  have "list_all (\<lambda>c. \<not> (c \<in> {CHR ''.'', CHR '':'', CHR ''%''})) w"
    using assms unreserved_absent [OF assms(1), of "CHR '':''"] unreserved_absent [OF assms(1), of "CHR ''%''"]
    by (auto simp: list_all_iff)
  from find_first [OF this, of "CHR ''.''" "d @ ''.''"] parse_ipv4_dot [of "w @ ''.'' @ d"]
  show ?thesis by (simp add: IsIP_def parse_addr_def)
qed

lemma cbid_no_dot: "list_all cbid_char w \<Longrightarrow> CHR ''.'' \<notin> set w"
  by (auto simp: list_all_iff cbid_char_def is_digit_def char_code_def)

lemma IdentifierFromDomain_fqdn:
  assumes "CHR ''.'' \<notin> set w" and "\<not> IsIP (w @ ''.'' @ d @ ''.'')" and "w \<noteq> []"
  shows "IdentifierFromDomain (w @ ''.'' @ d @ ''.'') = (case Validate w of Some e \<Rightarrow> Inl e | None \<Rightarrow> Inr w)"
  using assms by (simp add: IdentifierFromDomain_def split_on_snoc Let_def split: option.splits)

lemma shouldAnswer_fqdn:
  assumes "\<not> suffix ''.'' d"
  shows "shouldAnswer d (w @ ''.'' @ d @ ''.'')"
proof -
  have dot: "to_lower ''.'' = ''.''" by (simp add: to_lower_def to_lower_char_def is_upper_def char_code_def)
  have "\<not> suffix ''.'' (to_lower d)"
  proof
    assume "suffix ''.'' (to_lower d)"
    then obtain x y where "d = x @ [y]" "to_lower_char y = CHR ''.''"
      by (cases d rule: rev_cases) (auto simp: suffix_def to_lower_def)
    with to_lower_char_eq [of y "CHR ''.''"] assms show False
      by (simp add: suffix_def is_lower_def char_code_def)
  qed
  then have "trim_suffix (to_lower d) ''.'' = to_lower d" by (rule trim_suffix_other)
  moreover have "to_lower (w @ ''.'' @ d @ ''.'') = (to_lower w @ ''.'' @ to_lower d) @ ''.''"
    by (simp only: to_lower_append dot append.assoc)
  then have "trim_suffix (to_lower (w @ ''.'' @ d @ ''.'')) ''.'' = to_lower w @ ''.'' @ to_lower d"
    by (simp only: trim_suffix_append)
  ultimately show ?thesis by (simp add: shouldAnswer_def Let_def has_suffix_def suffix_def)
qed

lemma Validate_lower: "Validate w = None \<Longrightarrow> to_lower w = w"
proof -
  assume "Validate w = None"
  then have "list_all cbid_char w" by (auto simp: Validate_def split: if_splits)
  then have "map to_lower_char w = map id w"
    by (intro map_cong) (auto simp: list_all_iff cbid_char_def is_digit_def to_lower_char_def is_upper_def)
  then show ?thesis by (simp add: to_lower_def)
qed

text \<open>C20. The DNS path: the domain that the client hands out for a secret, queried as a full name at
  a server for that domain, is recorded under the identifier of the secret. The server answers
  for its domain in any case, but an identifier that arrives in another case, as from a resolver
  that randomises the case of a query, is refused and leaves the store as it was.\<close>

theorem dns_callback_round_trip:
  assumes "length (sha3 secret) = 28" and "IsCallbackServerEnabled c" and "\<not> suffix ''.'' (dns_uri c)"
  shows "\<exists>cbid. GetDNSCallbackDomain sha3 c secret = Inr (cbid @ ''.'' @ dns_uri c)
    \<and> (case HandleDNS (mem_Register now) (dns_uri c) (Some (cbid @ ''.'' @ dns_uri c @ ''.'')) s of
         (s', code) \<Rightarrow> code = Some RCodeNameError \<and> \<lparr>ia_type = DNSInteraction, ia_time = now\<rparr> \<in> set (mem_Get cbid s'))
    \<and> (equal_fold w cbid \<and> w \<noteq> cbid \<longrightarrow>
         shouldAnswer (dns_uri c) (w @ ''.'' @ dns_uri c @ ''.'')
         \<and> HandleDNS (mem_Register now) (dns_uri c) (Some (w @ ''.'' @ dns_uri c @ ''.'')) s = (s, Some RCodeRefused))"
proof -
  let ?id = "hex_encode (sha3 secret)" and ?d = "dns_uri c"
  have val: "Validate ?id = None" by (simp add: Validate_hex assms(1))
  have no: "CHR ''.'' \<notin> set ?id" by (simp add: cbid_no_dot hex_encode_chars)
  have "?id \<noteq> []" using val by (auto simp: Validate_def)
  then have "IdentifierFromDomain (?id @ ''.'' @ ?d @ ''.'') = Inr ?id"
    using IdentifierFromDomain_fqdn [OF no fqdn_not_IP [OF hex_encode_unreserved no]] val by simp
  then have rec: "case HandleDNS (mem_Register now) ?d (Some (?id @ ''.'' @ ?d @ ''.'')) s of
      (s', code) \<Rightarrow> code = Some RCodeNameError \<and> \<lparr>ia_type = DNSInteraction, ia_time = now\<rparr> \<in> set (mem_Get ?id s')"
    using mem.HandleDNS_valid [OF shouldAnswer_fqdn [OF assms(3)], of ?id ?id now s] by (simp add: split_beta)
  have "HandleDNS (mem_Register now) ?d (Some (w @ ''.'' @ ?d @ ''.'')) s = (s, Some RCodeRefused)"
    if "equal_fold w ?id" "w \<noteq> ?id"
  proof -
    have low: "to_lower w = ?id" using that(1) Validate_lower [OF val] by (simp add: equal_fold_def)
    then have "Validate w \<noteq> None" using that(2) Validate_lower by metis
    moreover have "CHR ''.'' \<notin> set w"
      using to_lower_no_char [of w ?id "CHR ''.''"] low Validate_lower [OF val] no
      by (simp add: is_lower_def is_upper_def char_code_def)
    then have "hd (split_on CHR ''.'' (w @ ''.'' @ ?d @ ''.'')) = w" by simp
    ultimately have "\<exists>e. IdentifierFromDomain (w @ ''.'' @ ?d @ ''.'') = Inl e"
      unfolding IdentifierFromDomain_def Let_def by (auto simp del: split_on.simps)
    then show ?thesis using shouldAnswer_fqdn [OF assms(3), of w] by (auto simp: HandleDNS_def)
  qed
  moreover have "GetDNSCallbackDomain sha3 c secret = Inr (?id @ ''.'' @ ?d)"
    using assms(2) by (simp add: GetDNSCallbackDomain_def Generate_def CallbackDomain_def)
  ultimately show ?thesis using rec shouldAnswer_fqdn [OF assms(3), of w] by (intro exI [of _ ?id]) simp
qed

theorem dns_callback_round_trip_witness:
  "\<exists>cbid. GetDNSCallbackDomain (\<lambda>_. replicate 28 CHR ''x'') sample_cb ''k7'' = Inr (cbid @ ''.cb.lan'')
     \<and> snd (HandleDNS (mem_Register 5) ''cb.lan'' (Some (cbid @ ''.cb.lan.'')) (NewInMemoryInteractionStore 10)) = Some RCodeNameError"
proof -
  have "IsCallbackServerEnabled sample_cb" "\<not> suffix ''.'' (dns_uri sample_cb)" "dns_uri sample_cb = ''cb.lan''"
    by (simp_all add: sample_cb_def IsCallbackServerEnabled_def suffix_def)
  then show ?thesis
    using dns_callback_round_trip [of "\<lambda>_. replicate 28 CHR ''x''" "''k7''" sample_cb 5 "NewInMemoryInteractionStore 10"]
    by (auto simp: split_beta)
qed

end
