(* ===== verification/TemplateEnv.thy ===== *)
theory TemplateEnv
  imports CallbackServer
begin

text \<open>
  \<open>common/templatedengine/environment\<close>: the variables of a templated plugin, their initialisation for
  a service, their substitution into a template and their extraction from a response. Go's
  \<open>regexp.Compile\<close> is a parameter: the function that \<open>FindStringSubmatch\<close> computes for a pattern,
  or \<open>None\<close> when the pattern does not compile. The clock and the random source are parameters too.
\<close>

section \<open>The environment\<close>

type_synonym environment = "string \<rightharpoonup> string"

type_synonym regexp_compile = "string \<Rightarrow> (string \<Rightarrow> string list option) option"

datatype env_error =
    ErrInvalidRegexp
  | ErrFailedExtraction
  | EnvWebRoot endpoint_error
  | EnvCallback cb_error
  | EnvURL

definition env_New :: environment where
  "env_New = Map.empty"

definition env_Set :: "string \<Rightarrow> string \<Rightarrow> environment \<Rightarrow> environment" where
  "env_Set key val env = env(key \<mapsto> val)"

definition env_Get :: "string \<Rightarrow> environment \<Rightarrow> string option" where
  "env_Get key env = env key"

definition env_Clone :: "environment \<Rightarrow> environment" where
  "env_Clone env = env_New ++ env"

definition generateSecret :: "(nat \<Rightarrow> string) \<Rightarrow> nat \<Rightarrow> string" where
  "generateSecret rand n = hex_encode (rand n)"

text \<open>
  \<open>cfg\<close> is the callback server part of the scan's configuration, when it has one, and \<open>client\<close> the
  configuration of the default callback client.
\<close>

definition callbackServerInitialization :: "(string \<Rightarrow> string) \<Rightarrow> (nat \<Rightarrow> string) \<Rightarrow> cb_config option \<Rightarrow> cb_config
    \<Rightarrow> environment \<Rightarrow> (env_error, environment) result" where
  "callbackServerInitialization sha3 rand cfg client env =
     (if cfg = None \<or> \<not> IsCallbackServerEnabled client then Inr env
      else let secret = generateSecret rand 32 in
        case GetHTTPCallbackURI sha3 client secret of
          Inl e \<Rightarrow> Inl (EnvCallback e)
        | Inr uri \<Rightarrow> (case url_Parse uri of
              None \<Rightarrow> Inl EnvURL
            | Some u \<Rightarrow>
                let env1 = env_Set ''T_CBS_ADDRESS'' (u_hostname u)
                      (env_Set ''T_CBS_PORT'' (u_port u)
                        (env_Set ''T_CBS_SECRET'' secret
                          (env_Set ''T_CBS_URI'' uri env)))
                in Inr (case GetDNSCallbackDomain sha3 client secret of
                      Inl e \<Rightarrow> env1
                    | Inr dns \<Rightarrow> env_Set ''T_CBS_DNS'' dns env1)))"

definition InitializeFor :: "nat \<Rightarrow> (string \<Rightarrow> string) \<Rightarrow> (nat \<Rightarrow> string) \<Rightarrow> cb_config option \<Rightarrow> cb_config
    \<Rightarrow> network_service \<Rightarrow> environment \<Rightarrow> (env_error, environment) result" where
  "InitializeFor now_ms sha3 rand cfg client service env =
     (case BuildWebRoot service of
        Inl e \<Rightarrow> Inl (EnvWebRoot e)
      | Inr webRoot \<Rightarrow>
          let endpoint = get_endpoint service;
              env1 = env_Set ''T_UTL_CURRENT_TIMESTAMP_MS'' (itoa now_ms) env;
              env2 = env_Set ''T_NS_BASEURL'' webRoot env1;
              env3 = env_Set ''T_NS_PROTOCOL'' (trim_space (sv_transport service)) env2;
              env4 = env_Set ''T_NS_HOSTNAME'' (trim_space (ep_host endpoint)) env3;
              env5 = env_Set ''T_NS_PORT'' (itoa (unat (ep_port_number endpoint))) env4;
              env6 = env_Set ''T_NS_IP'' (trim_space (ep_address endpoint)) env5
          in callbackServerInitialization sha3 rand cfg client env6)"

section \<open>Substitution\<close>

definition variable_char :: "char \<Rightarrow> bool" where
  "variable_char c = (is_letter c \<or> is_digit c \<or> c = CHR ''_'')"

text \<open>A match of \<open>variablePattern\<close> at the head of the text: the variable and the text after the match.\<close>

definition match_variable :: "string \<Rightarrow> (string \<times> string) option" where
  "match_variable s =
     (if has_prefix s ''{{ '' then
        let w = takeWhile variable_char (drop 3 s); rest = dropWhile variable_char (drop 3 s) in
        if w \<noteq> [] \<and> has_prefix rest '' }}'' then Some (w, drop 3 rest) else None
      else None)"

lemma match_variable_shorter [termination_simp]:
  "match_variable s = Some (w, r) \<Longrightarrow> length r < length s"
proof -
  assume "match_variable s = Some (w, r)"
  then have s: "has_prefix s ''{{ ''" and r: "r = drop 3 (dropWhile variable_char (drop 3 s))"
    by (auto simp: match_variable_def Let_def split: if_splits)
  have "length r \<le> length (drop 3 s)"
    unfolding r using length_dropWhile_le [of variable_char "drop 3 s"] by simp
  moreover have "3 \<le> length s" using s by (auto simp: has_prefix_def dest: prefix_length_le)
  ultimately show ?thesis by simp
qed

function Substitute :: "environment \<Rightarrow> string \<Rightarrow> string" where
  "Substitute env [] = []"
| "Substitute env (c # cs) =
     (case match_variable (c # cs) of
        None \<Rightarrow> c # Substitute env cs
      | Some (w, rest) \<Rightarrow> (case env w of Some val \<Rightarrow> val | None \<Rightarrow> ''{{ '' @ w @ '' }}'') @ Substitute env rest)"
  by pat_completeness auto
termination
  by (relation "measure (length \<circ> snd)") (auto dest: match_variable_shorter)

section \<open>Extraction\<close>

definition env_Extract :: "regexp_compile \<Rightarrow> string \<Rightarrow> string \<Rightarrow> string \<Rightarrow> environment \<Rightarrow> (env_error, environment) result" where
  "env_Extract compile content varname pattern env = (case compile pattern of
       None \<Rightarrow> Inl ErrInvalidRegexp
     | Some find_submatch \<Rightarrow> (case find_submatch content of
           None \<Rightarrow> Inl ErrFailedExtraction
         | Some matches \<Rightarrow>
             if length matches < 2 then Inl ErrFailedExtraction else Inr (env(varname \<mapsto> matches ! 1))))"

section \<open>Templates as pieces\<close>

text \<open>A template is literal text and references to variables.\<close>

datatype piece = Literal string | Reference string

definition render :: "piece \<Rightarrow> string" where
  "render p = (case p of Literal s \<Rightarrow> s | Reference w \<Rightarrow> ''{{ '' @ w @ '' }}'')"

definition piece_value :: "environment \<Rightarrow> piece \<Rightarrow> string" where
  "piece_value env p = (case p of
       Literal s \<Rightarrow> s
     | Reference w \<Rightarrow> (case env w of Some val \<Rightarrow> val | None \<Rightarrow> render p))"

lemma piece_simps [simp]:
  "render (Literal s) = s" "render (Reference w) = ''{{ '' @ w @ '' }}''" "piece_value env (Literal s) = s"
  by (simp_all add: render_def piece_value_def)

lemma variable_char_not [simp]: "\<not> variable_char CHR '' ''" "\<not> variable_char CHR ''{''" "\<not> variable_char CHR ''}''"
  by (simp_all add: variable_char_def is_letter_def is_lower_def is_upper_def is_digit_def char_code_def)

lemma match_variable_render:
  assumes "w \<noteq> []" and "list_all variable_char w"
  shows "match_variable (''{{ '' @ w @ '' }}'' @ r) = Some (w, r)"
  using assms takeWhile_word [of variable_char w "CHR '' ''" "''}}'' @ r"]
  by (simp add: match_variable_def has_prefix_def)

lemma match_variable_no_brace: "c \<noteq> CHR ''{'' \<Longrightarrow> match_variable (c # cs) = None"
  by (auto simp: match_variable_def has_prefix_def)

lemma Substitute_literal: "CHR ''{'' \<notin> set s \<Longrightarrow> Substitute env (s @ t) = s @ Substitute env t"
  by (induction s) (auto simp: match_variable_no_brace)

lemma Substitute_reference:
  assumes "w \<noteq> []" and "list_all variable_char w"
  shows "Substitute env (''{{ '' @ w @ '' }}'' @ t) = piece_value env (Reference w) @ Substitute env t"
proof -
  have "\<exists>cs. ''{{ '' @ w @ '' }}'' @ t = CHR ''{'' # cs" by simp
  then obtain cs where cs: "''{{ '' @ w @ '' }}'' @ t = CHR ''{'' # cs" ..
  have "Substitute env (CHR ''{'' # cs) = piece_value env (Reference w) @ Substitute env t"
    using match_variable_render [OF assms, of t] unfolding cs
    by (auto simp: piece_value_def render_def split: option.splits)
  then show ?thesis unfolding cs .
qed

section \<open>Every template\<close>

text \<open>A reference stands at the head of a text; this is what \<open>variablePattern\<close> says.\<close>

definition starts_reference :: "string \<Rightarrow> bool" where
  "starts_reference s = (\<exists>w r. w \<noteq> [] \<and> list_all variable_char w \<and> s = ''{{ '' @ w @ '' }}'' @ r)"

text \<open>The pieces of a template from left to right: no reference starts within a literal piece, whatever
  braces it has, and a reference names a variable.\<close>

fun leftmost_pieces :: "piece list \<Rightarrow> bool" where
  "leftmost_pieces [] = True"
| "leftmost_pieces (Literal s # ps) =
     ((\<forall>i < length s. \<not> starts_reference (drop i s @ concat (map render ps))) \<and> leftmost_pieces ps)"
| "leftmost_pieces (Reference w # ps) = (w \<noteq> [] \<and> list_all variable_char w \<and> leftmost_pieces ps)"

lemma match_variable_SomeD:
  assumes "match_variable s = Some (w, r)"
  shows "w \<noteq> []" "list_all variable_char w" "s = ''{{ '' @ w @ '' }}'' @ r"
proof -
  let ?w = "takeWhile variable_char (drop 3 s)" and ?rest = "dropWhile variable_char (drop 3 s)"
  have s: "has_prefix s ''{{ ''" "w = ?w" "?w \<noteq> []" "has_prefix ?rest '' }}''" "r = drop 3 ?rest"
    using assms by (auto simp: match_variable_def Let_def split: if_splits)
  then show "w \<noteq> []" "list_all variable_char w"
    by (auto simp: list_all_iff dest: set_takeWhileD)
  obtain x where x: "s = ''{{ '' @ x"
    using s(1) by (auto simp: has_prefix_def prefix_def)
  obtain y where y: "?rest = '' }}'' @ y"
    using s(4) by (auto simp: has_prefix_def prefix_def)
  have "dropWhile variable_char x = '' }}'' @ y"
    using y x by simp
  then have "x = takeWhile variable_char x @ '' }}'' @ y"
    by (metis takeWhile_dropWhile_id)
  moreover have "w = takeWhile variable_char x" "r = y"
    using x y s(2,5) by simp_all
  ultimately show "s = ''{{ '' @ w @ '' }}'' @ r"
    using x by metis
qed

lemma match_variable_None_iff: "match_variable s = None \<longleftrightarrow> \<not> starts_reference s"
proof
  assume "match_variable s = None"
  then show "\<not> starts_reference s"
    by (metis match_variable_render option.distinct(1) starts_reference_def)
next
  assume no: "\<not> starts_reference s"
  show "match_variable s = None"
  proof (cases "match_variable s")
    case (Some wr)
    then show ?thesis
      using no match_variable_SomeD [of s "fst wr" "snd wr"] unfolding starts_reference_def by (metis prod.collapse)
  qed
qed

lemma Substitute_inert:
  "\<forall>i < length s. \<not> starts_reference (drop i s @ t) \<Longrightarrow> Substitute env (s @ t) = s @ Substitute env t"
proof (induction s)
  case (Cons c s)
  have "\<not> starts_reference (c # s @ t)"
    using Cons.prems by (metis drop0 length_Cons zero_less_Suc append_Cons)
  then have "match_variable (c # s @ t) = None"
    by (simp add: match_variable_None_iff)
  moreover have "\<forall>i < length s. \<not> starts_reference (drop i s @ t)"
    using Cons.prems by (metis Suc_less_eq drop_Suc_Cons length_Cons)
  ultimately show ?case
    using Cons.IH by simp
qed simp

lemma Substitute_leftmost:
  "leftmost_pieces ps \<Longrightarrow> Substitute env (concat (map render ps)) = concat (map (piece_value env) ps)"
proof (induction ps rule: leftmost_pieces.induct)
  case (2 s ps)
  then show ?case
    using Substitute_inert [of s "concat (map render ps)" env] by simp
next
  case (3 w ps)
  then show ?case
    using Substitute_reference [of w env "concat (map render ps)"] by simp
qed simp

lemma leftmost_pieces_exist: "\<exists>ps. leftmost_pieces ps \<and> concat (map render ps) = template"
proof (induction template rule: measure_induct_rule [of length])
  case (less template)
  show ?case
  proof (cases template)
    case Nil
    then show ?thesis by (intro exI [of _ "[]"]) simp
  next
    case (Cons c cs)
    show ?thesis
    proof (cases "match_variable template")
      case None
      obtain ps where ps: "leftmost_pieces ps" "concat (map render ps) = cs"
        using less [of cs] Cons by auto
      have "leftmost_pieces (Literal [c] # ps)"
        using None ps Cons by (simp add: match_variable_None_iff)
      then show ?thesis
        using ps Cons by (intro exI [of _ "Literal [c] # ps"]) simp
    next
      case (Some wr)
      then obtain w r where m: "match_variable template = Some (w, r)"
        by (cases wr) simp
      obtain ps where ps: "leftmost_pieces ps" "concat (map render ps) = r"
        using less [of r] match_variable_shorter [OF m] by auto
      have "leftmost_pieces (Reference w # ps)"
        using match_variable_SomeD [OF m] ps(1) by simp
      then show ?thesis
        using match_variable_SomeD(3) [OF m] ps(2) by (intro exI [of _ "Reference w # ps"]) simp
    qed
  qed
qed

text \<open>C32. Substitution works in one pass on every template, also one full of braces as a JSON body is. A template is
  a sequence of references and literal text in which no reference starts. Under every environment each
  reference to a variable of it becomes the value as it is, even when the value looks like a
  reference itself, a reference to an unknown variable stays as it is written, and all literal text is kept.\<close>

theorem Substitute_one_pass:
  "\<exists>ps. leftmost_pieces ps \<and> concat (map render ps) = template
     \<and> (\<forall>env. Substitute env template = concat (map (piece_value env) ps))"
  using leftmost_pieces_exist [of template] Substitute_leftmost by blast

text \<open>The substitution of a JSON body, by its pieces.\<close>

lemma Substitute_json:
  "Substitute [''A'' \<mapsto> ''{{ B }}''] ''{a:{{{ A }}},b:{{ C }}}'' = ''{a:{{{ B }}},b:{{ C }}}''"
  by (simp add: match_variable_def has_prefix_def variable_char_def is_letter_def is_upper_def is_lower_def is_digit_def char_code_def)

end
