(* ===== verification/TemplateActions.thy ===== *)
theory TemplateActions
  imports TemplateEnv "HOL-Library.AList"
begin

text \<open>
  \<open>common/templatedengine/actions\<close>: the HTTP, utility and callback actions of a templated plugin. An
  error is one of the three kinds that the engine tells apart with \<open>errors.Is\<close>; messages are not
  modelled. An action changes the environment and the world \<open>'w\<close> outside the scanner: the HTTP
  clients, the callback server's answers and the clock are functions of the world, collected in
  the record \<open>engine\<close> together with Go's \<open>regexp.Compile\<close>.
\<close>

section \<open>The plugin's data\<close>

text \<open>The messages of a templated plugin, as the getters of their fields read them.\<close>

datatype action_error = ErrActionFailed | ErrInvalidAction | ErrActionNotFound

datatype http_method = METHOD_UNSPECIFIED | Method string

datatype expectation_target = ExpectBody | ExpectHeader string | ExpectNothing

record expectation =
  ex_contains :: string
  ex_target :: expectation_target

datatype extraction_source = FromBody | FromHeader string | FromNothing

record extraction =
  xt_variable :: string
  xt_regexp :: string
  xt_source :: extraction_source

record http_expected =
  he_status :: int
  he_expect_all :: "expectation list option"
  he_expect_any :: "expectation list option"
  he_extract_all :: "extraction list option"
  he_extract_any :: "extraction list option"

record http_action =
  ha_method :: http_method
  ha_uris :: "string list"
  ha_headers :: "(string \<times> string) list"
  ha_data :: string
  ha_ignore_errors :: bool
  ha_disable_redirects :: bool
  ha_response :: http_expected

text \<open>A utility action sleeps for some milliseconds, or is one the engine does not know.\<close>

datatype utility_action = Sleep int | OtherUtility

datatype callback_action = CHECK | OtherCallbackAction

section \<open>Requests and responses\<close>

record t_request =
  tq_method :: string
  tq_url :: url
  tq_headers :: "(string \<times> string) list"
  tq_body :: string

text \<open>A response; the body may end in an error. Header names are in canonical form.\<close>

record t_response =
  tr_status :: int
  tr_headers :: "(string \<times> string) list"
  tr_body :: string
  tr_body_fails :: bool

definition to_upper_char :: "char \<Rightarrow> char" where
  "to_upper_char c = (if is_lower c then char_of (char_code c - 32) else c)"

definition header_token_char :: "char \<Rightarrow> bool" where
  "header_token_char c = (is_letter c \<or> is_digit c \<or> c \<in> set ''!#$%&*+-.^_`|~'' \<or> char_code c = 39)"

text \<open>\<open>http.CanonicalHeaderKey\<close>: the first letter and every letter after a hyphen in upper case.\<close>

fun canonical_letters :: "bool \<Rightarrow> string \<Rightarrow> string" where
  "canonical_letters up [] = []"
| "canonical_letters up (c # cs) =
     (if up then to_upper_char c else to_lower_char c) # canonical_letters (c = CHR ''-'') cs"

definition CanonicalHeaderKey :: "string \<Rightarrow> string" where
  "CanonicalHeaderKey s = (if s \<noteq> [] \<and> list_all header_token_char s then canonical_letters True s else s)"

definition header_Get :: "(string \<times> string) list \<Rightarrow> string \<Rightarrow> string" where
  "header_Get hs name = (case map_of hs (CanonicalHeaderKey name) of None \<Rightarrow> [] | Some v \<Rightarrow> v)"

text \<open>\<open>http.NewRequest\<close> accepts a method of token characters; \<open>Header.Set\<close> replaces the values of a name.\<close>

definition method_ok :: "string \<Rightarrow> bool" where
  "method_ok m = list_all header_token_char m"

definition header_Set :: "string \<Rightarrow> string \<Rightarrow> (string \<times> string) list \<Rightarrow> (string \<times> string) list" where
  "header_Set name value hs = AList.update (CanonicalHeaderKey name) value hs"

type_synonym ('w, 'e) t_client = "t_request \<Rightarrow> 'w \<Rightarrow> 'w \<times> ('e, t_response) result"

record ('w, 'e) engine =
  en_callback :: "cb_config option"
  en_cb_client :: cb_config
  en_poll :: "'w \<Rightarrow> url \<Rightarrow> ('e, http_response) result"
  en_unmarshal :: "string \<Rightarrow> polling_result option"
  en_shared :: "('w, 'e) t_client"
  en_new_client :: "client_options \<Rightarrow> ('e, ('w, 'e) t_client) result"
  en_forbidden :: "regexp list"
  en_compile :: regexp_compile
  en_sleep :: "int \<Rightarrow> 'w \<Rightarrow> 'w"
  en_now_ms :: "'w \<Rightarrow> nat"
  en_rand :: "'w \<Rightarrow> nat \<Rightarrow> string"
  en_sha3 :: "string \<Rightarrow> string"

type_synonym 'w action_state = "environment \<times> 'w"

section \<open>\<open>http.go\<close>\<close>

definition getHTTPClient :: "('w, 'e) engine \<Rightarrow> http_action \<Rightarrow> ('e, ('w, 'e) t_client) result" where
  "getHTTPClient en ha =
     (if \<not> ha_disable_redirects ha then Inr (en_shared en)
      else en_new_client en ((DefaultClientOptions (en_forbidden en))\<lparr>DisableFollowRedirects := True\<rparr>))"

text \<open>A check returns its error, \<open>None\<close> when there is none.\<close>

definition checkExpectation :: "environment \<Rightarrow> t_response \<Rightarrow> expectation \<Rightarrow> action_error option" where
  "checkExpectation env resp cond =
     (let contains = Substitute env (ex_contains cond) in
      case ex_target cond of
        ExpectBody \<Rightarrow> if str_contains (tr_body resp) contains then None else Some ErrActionFailed
      | ExpectNothing \<Rightarrow> Some ErrInvalidAction
      | ExpectHeader name \<Rightarrow>
          if str_contains (header_Get (tr_headers resp) (Substitute env name)) contains then None else Some ErrActionFailed)"

fun all_expected :: "('a \<Rightarrow> action_error option) \<Rightarrow> 'a list \<Rightarrow> action_error option" where
  "all_expected check [] = None"
| "all_expected check (c # cs) = (case check c of Some e \<Rightarrow> Some e | None \<Rightarrow> all_expected check cs)"

fun any_expected :: "('a \<Rightarrow> action_error option) \<Rightarrow> 'a list \<Rightarrow> action_error option" where
  "any_expected check [] = Some ErrActionFailed"
| "any_expected check (c # cs) = (case check c of
       None \<Rightarrow> None
     | Some e \<Rightarrow> if e \<noteq> ErrActionFailed then Some e else any_expected check cs)"

definition checkExpectations :: "environment \<Rightarrow> t_response \<Rightarrow> http_expected \<Rightarrow> action_error option" where
  "checkExpectations env resp he = (case he_expect_all he of
       Some conds \<Rightarrow> all_expected (checkExpectation env resp) conds
     | None \<Rightarrow> (case he_expect_any he of
           Some conds \<Rightarrow> any_expected (checkExpectation env resp) conds
         | None \<Rightarrow> None))"

text \<open>Every error of \<open>Extract\<close>, a pattern that does not compile included, is a failed action.\<close>

definition performExtraction :: "regexp_compile \<Rightarrow> t_response \<Rightarrow> extraction \<Rightarrow> environment
    \<Rightarrow> environment \<times> action_error option" where
  "performExtraction compile resp ext env =
     (let pattern = Substitute env (xt_regexp ext);
          extract = (\<lambda>content. case env_Extract compile content (xt_variable ext) pattern env of
              Inl e \<Rightarrow> (env, Some ErrActionFailed)
            | Inr env' \<Rightarrow> (env', None))
      in case xt_source ext of
          FromBody \<Rightarrow> extract (tr_body resp)
        | FromNothing \<Rightarrow> (env, Some ErrInvalidAction)
        | FromHeader name \<Rightarrow> extract (header_Get (tr_headers resp) (Substitute env name)))"

fun all_extracted :: "(extraction \<Rightarrow> environment \<Rightarrow> environment \<times> action_error option) \<Rightarrow> extraction list
    \<Rightarrow> environment \<Rightarrow> environment \<times> action_error option" where
  "all_extracted run [] env = (env, None)"
| "all_extracted run (x # xs) env = (case run x env of
       (env', Some e) \<Rightarrow> (env', Some e)
     | (env', None) \<Rightarrow> all_extracted run xs env')"

fun any_extracted :: "(extraction \<Rightarrow> environment \<Rightarrow> environment \<times> action_error option) \<Rightarrow> extraction list
    \<Rightarrow> environment \<Rightarrow> environment \<times> action_error option" where
  "any_extracted run [] env = (env, Some ErrActionFailed)"
| "any_extracted run (x # xs) env = (case run x env of
       (env', None) \<Rightarrow> (env', None)
     | (env', Some e) \<Rightarrow> if e \<noteq> ErrActionFailed then (env', Some e) else any_extracted run xs env')"

definition performExtractions :: "regexp_compile \<Rightarrow> t_response \<Rightarrow> http_expected \<Rightarrow> environment
    \<Rightarrow> environment \<times> action_error option" where
  "performExtractions compile resp he env = (case he_extract_all he of
       Some ps \<Rightarrow> all_extracted (performExtraction compile resp) ps env
     | None \<Rightarrow> (case he_extract_any he of
           Some ps \<Rightarrow> any_extracted (performExtraction compile resp) ps env
         | None \<Rightarrow> (env, None)))"

text \<open>The part of \<open>runWithURI\<close> after the response has arrived.\<close>

definition handle_response :: "regexp_compile \<Rightarrow> http_expected \<Rightarrow> t_response \<Rightarrow> environment
    \<Rightarrow> environment \<times> action_error option" where
  "handle_response compile he resp env =
     (if tr_body_fails resp then (env, Some ErrActionFailed)
      else if he_status he \<noteq> 0 \<and> tr_status resp \<noteq> he_status he then (env, Some ErrActionFailed)
      else case checkExpectations env resp he of
          Some e \<Rightarrow> (env, Some e)
        | None \<Rightarrow> performExtractions compile resp he env)"

definition build_request :: "http_action \<Rightarrow> environment \<Rightarrow> string \<Rightarrow> url \<Rightarrow> t_request" where
  "build_request ha env method u =
     \<lparr>tq_method = method, tq_url = u,
      tq_headers = map (\<lambda>(n, v). (CanonicalHeaderKey n, Substitute env v)) (ha_headers ha),
      tq_body = (if ha_data ha \<noteq> [] then Substitute env (ha_data ha) else [])\<rparr>"

definition runWithURI :: "('w, 'e) engine \<Rightarrow> network_service \<Rightarrow> http_action \<Rightarrow> string \<Rightarrow> 'w action_state
    \<Rightarrow> 'w action_state \<times> action_error option" where
  "runWithURI en service ha uri st =
     (let (env, w) = st; path = trim_prefix (Substitute env uri) ''/'' in
      case BuildWebRoot service of
        Inl e \<Rightarrow> (st, Some ErrActionFailed)
      | Inr webRoot \<Rightarrow> (case ha_method ha of
            METHOD_UNSPECIFIED \<Rightarrow> (st, Some ErrInvalidAction)
          | Method method \<Rightarrow> (case url_Parse (webRoot @ ''/'' @ path) of
                None \<Rightarrow> (st, Some ErrActionFailed)
              | Some u \<Rightarrow> (case getHTTPClient en ha of
                    Inl e \<Rightarrow> (st, Some ErrActionFailed)
                  | Inr client \<Rightarrow> (case client (build_request ha env method u) w of
                        (w', Inl e) \<Rightarrow> ((env, w'), if ha_ignore_errors ha then None else Some ErrActionFailed)
                      | (w', Inr resp) \<Rightarrow>
                          (case handle_response (en_compile en) (ha_response ha) resp env of
                             (env', err) \<Rightarrow> ((env', w'), err)))))))"

text \<open>The loop over the URIs; the errors that it joins are all failed actions.\<close>

fun run_uris :: "('w, 'e) engine \<Rightarrow> network_service \<Rightarrow> http_action \<Rightarrow> string list \<Rightarrow> action_error option
    \<Rightarrow> 'w action_state \<Rightarrow> 'w action_state \<times> action_error option" where
  "run_uris en service ha [] resError st = (st, resError)"
| "run_uris en service ha (uri # uris) resError st =
     (case runWithURI en service ha uri st of
        (st', None) \<Rightarrow> (st', None)
      | (st', Some e) \<Rightarrow>
          if e \<noteq> ErrActionFailed then (st', Some e) else run_uris en service ha uris (Some ErrActionFailed) st')"

definition http_Run :: "('w, 'e) engine \<Rightarrow> network_service \<Rightarrow> http_action option \<Rightarrow> 'w action_state
    \<Rightarrow> 'w action_state \<times> action_error option" where
  "http_Run en service ha st = (case ha of
       None \<Rightarrow> (st, Some ErrInvalidAction)
     | Some a \<Rightarrow>
         if ha_uris a = [] then (st, Some ErrInvalidAction) else run_uris en service a (ha_uris a) None st)"

section \<open>\<open>utility.go\<close>\<close>

definition sleepAction :: "('w, 'e) engine \<Rightarrow> int \<Rightarrow> 'w action_state \<Rightarrow> 'w action_state \<times> action_error option" where
  "sleepAction en ms st =
     (if env_Get ''T_TST_DISABLE_SLEEP'' (fst st) = Some ''true'' then (st, None)
      else ((fst st, en_sleep en ms (snd st)), None))"

definition utility_Run :: "('w, 'e) engine \<Rightarrow> utility_action option \<Rightarrow> 'w action_state
    \<Rightarrow> 'w action_state \<times> action_error option" where
  "utility_Run en ua st = (case ua of
       None \<Rightarrow> (st, Some ErrInvalidAction)
     | Some (Sleep ms) \<Rightarrow> sleepAction en ms st
     | Some OtherUtility \<Rightarrow> (st, Some ErrInvalidAction))"

section \<open>\<open>callback.go\<close>\<close>

definition callback_Run :: "('w, 'e) engine \<Rightarrow> callback_action option \<Rightarrow> 'w action_state
    \<Rightarrow> 'w action_state \<times> action_error option" where
  "callback_Run en ca st =
     (st, if en_callback en = None \<or> \<not> IsCallbackServerEnabled (en_cb_client en) then Some ErrActionFailed
          else if ca \<noteq> Some CHECK then Some ErrInvalidAction
          else case env_Get ''T_CBS_SECRET'' (fst st) of
              None \<Rightarrow> Some ErrActionFailed
            | Some secret \<Rightarrow>
                (case HasInteraction (en_poll en (snd st)) (en_unmarshal en) (en_cb_client en) secret of
                   Inl e \<Rightarrow> Some ErrActionFailed
                 | Inr found \<Rightarrow> if found then None else Some ErrActionFailed))"

end
