(* ===== verification/AuthStrategy.thy ===== *)
theory AuthStrategy
  imports LlmClient TemplateActions
begin

text \<open>
  Authentication strategies, \<open>src/plugins/detectors/adkweakcreds/request.go\<close> and \<open>strategy.go\<close>: a
  strategy proposed by a language model is validated, and each credential of it is tried by a login,
  confirmed by a login that must fail and by a judge. The decoding of JSON, regular expressions, the
  HTTP client and the agents are parameters; the elements of the decoded lists are never null.
\<close>

section \<open>Requests\<close>

datatype 'e auth_error =
    ErrInvalidURL | ErrNoExtractionRegex | ErrRegexp
  | NoDetails | NoCredentials | NoLoginRequest | NoPasswordPlaceholder | NoTokenPlaceholder
  | EndpointFailed endpoint_error | BadRequest | ClientFailed 'e | SendFailed "'e http_error" | BodyUnreadable
  | NoTokenExtracted | RegexpTooWeak | AgentFailed | LlmFailed llm_error | NotJSON | NilDereference

record auth_request =
  ar_method :: string
  ar_path :: string
  ar_body :: string
  ar_regex :: string
  ar_headers :: "(string \<times> string) list"
  ar_rex :: "(string \<Rightarrow> string list option) option"

definition request_compileAndValidate :: "regexp_compile \<Rightarrow> auth_request \<Rightarrow> ('e auth_error, auth_request) result" where
  "request_compileAndValidate compile r =
     (case url_Parse (ar_path r) of
        None \<Rightarrow> Inl ErrInvalidURL
      | Some u \<Rightarrow>
          if \<not> has_prefix (ar_path r) ''/'' \<or> u_host u \<noteq> [] then Inl ErrInvalidURL
          else if ar_regex r = [] then Inl ErrNoExtractionRegex
          else (case compile (ar_regex r) of
                  None \<Rightarrow> Inl ErrRegexp
                | Some rex \<Rightarrow> Inr (r\<lparr>ar_rex := Some rex\<rparr>)))"

definition containsPlaceholder :: "auth_request \<Rightarrow> string \<Rightarrow> bool" where
  "containsPlaceholder r placeholder =
     (str_contains (ar_path r) placeholder \<or> str_contains (ar_body r) placeholder
      \<or> list_ex (\<lambda>(_, v). str_contains v placeholder) (ar_headers r))"

definition isFormURLEncoded :: "auth_request \<Rightarrow> bool" where
  "isFormURLEncoded r =
     list_ex (\<lambda>(n, v). equal_fold n ''Content-Type'' \<and> str_contains (to_lower v) ''application/x-www-form-urlencoded'')
       (ar_headers r)"

text \<open>\<open>strings.ReplaceAll\<close> of a text that is not empty, and \<open>url.QueryEscape\<close>.\<close>

function replace_all :: "string \<Rightarrow> string \<Rightarrow> string \<Rightarrow> string" where
  "replace_all old new s =
     (case s of
        [] \<Rightarrow> []
      | c # cs \<Rightarrow>
          if old \<noteq> [] \<and> prefix old s then new @ replace_all old new (drop (length old) s)
          else c # replace_all old new cs)"
  by pat_completeness auto
termination by (relation "measure (\<lambda>(_, _, s). length s)") auto

declare replace_all.simps [simp del]

definition query_escape :: "string \<Rightarrow> string" where
  "query_escape s = concat (map (\<lambda>c.
     if unreserved c then [c] else if c = CHR '' '' then ''+''
     else percent_encode c) s)"

text \<open>
  The substitutions are a map that is visited in any order: a list here, in the order of the visit.
\<close>

definition substitute :: "string \<Rightarrow> (string \<times> string) list \<Rightarrow> bool \<Rightarrow> string" where
  "substitute s substitutions escape =
     fold (\<lambda>(k, v). replace_all (''[['' @ k @ '']]'') (if escape then query_escape v else v)) substitutions s"

text \<open>\<open>order\<close> gives the order in which a map of substitutions is visited.\<close>

type_synonym map_order = "(string \<times> string) list \<Rightarrow> (string \<times> string) list"

definition buildHTTPRequest :: "map_order \<Rightarrow> auth_request \<Rightarrow> network_service \<Rightarrow> (string \<times> string) list \<Rightarrow> ('e auth_error, t_request) result" where
  "buildHTTPRequest order r service substitutions =
     (case BuildWebRoot service of
        Inl e \<Rightarrow> Inl (EndpointFailed e)
      | Inr webroot \<Rightarrow>
          (let reqURL = webroot @ substitute (ar_path r) (order substitutions) True;
               body = (if ar_body r \<noteq> [] then substitute (ar_body r) (order substitutions) (isFormURLEncoded r) else [])
           in case url_Parse reqURL of
                None \<Rightarrow> Inl BadRequest
              | Some u \<Rightarrow>
                  if \<not> method_ok (ar_method r) then Inl BadRequest
                  else Inr \<lparr>tq_method = (if ar_method r = [] then ''GET'' else ar_method r), tq_url = u,
                     tq_headers = fold (\<lambda>(name, value). header_Set name (substitute value (order substitutions) False))
                       (filter (\<lambda>(name, _). name \<noteq> []) (ar_headers r)) [],
                     tq_body = body\<rparr>))"

record auth_response =
  rs_extraction :: "string option"
  rs_status :: int
  rs_body :: string

text \<open>What the extraction takes of the matches: the group, or the whole match when there is none.\<close>

definition extraction_of :: "string list option \<Rightarrow> string option" where
  "extraction_of matches =
     (case matches of None \<Rightarrow> None | Some [] \<Rightarrow> None | Some [m] \<Rightarrow> Some m | Some (_ # m # _) \<Rightarrow> Some m)"

definition request_do :: "map_order \<Rightarrow> auth_request \<Rightarrow> network_service \<Rightarrow> ('w, 'e http_error) t_client
    \<Rightarrow> (string \<times> string) list \<Rightarrow> 'w \<Rightarrow> 'w \<times> ('e auth_error, auth_response) result" where
  "request_do order r service client substitutions w =
     (case buildHTTPRequest order r service substitutions of
        Inl e \<Rightarrow> (w, Inl e)
      | Inr req \<Rightarrow>
          (case client req w of
             (w', Inl e) \<Rightarrow> (w', Inl (SendFailed e))
           | (w', Inr resp) \<Rightarrow>
               if tr_body_fails resp then (w', Inl BodyUnreadable)
               else (case ar_rex r of
                       None \<Rightarrow> (w', Inl NilDereference)
                     | Some rex \<Rightarrow> (w', Inr \<lparr>rs_extraction = extraction_of (rex (tr_body resp)),
                                            rs_status = tr_status resp, rs_body = tr_body resp\<rparr>))))"

section \<open>Strategies\<close>

record adk_credential =
  ac_username :: string
  ac_password :: string

record auth_details =
  ad_csrf :: "auth_request option"
  ad_login :: "auth_request option"
  ad_credentials :: "adk_credential list"

record auth_strategy =
  as_supported :: bool
  as_details :: "auth_details option"

definition validate_csrf :: "regexp_compile \<Rightarrow> auth_request \<Rightarrow> auth_request option \<Rightarrow> ('e auth_error, auth_request option) result" where
  "validate_csrf compile login_req csrf =
     (case csrf of
        None \<Rightarrow> Inr None
      | Some r \<Rightarrow>
          (case request_compileAndValidate compile r of
             Inl e \<Rightarrow> Inl e
           | Inr r' \<Rightarrow>
               if \<not> containsPlaceholder login_req ''[[csrftoken]]'' then Inl NoTokenPlaceholder else Inr (Some r')))"

definition compileAndValidate :: "regexp_compile \<Rightarrow> auth_strategy \<Rightarrow> ('e auth_error, auth_strategy) result" where
  "compileAndValidate compile a =
     (if \<not> as_supported a then Inr a
      else case as_details a of
        None \<Rightarrow> Inl NoDetails
      | Some d \<Rightarrow>
          if ad_credentials d = [] then Inl NoCredentials
          else (case ad_login d of
            None \<Rightarrow> Inl NoLoginRequest
          | Some r \<Rightarrow>
              (case request_compileAndValidate compile r of
                 Inl e \<Rightarrow> Inl e
               | Inr r' \<Rightarrow>
                   if \<not> containsPlaceholder r' ''[[password]]'' \<and> \<not> containsPlaceholder r' ''[[basic_auth]]''
                   then Inl NoPasswordPlaceholder
                   else (case validate_csrf compile r' (ad_csrf d) of
                           Inl e \<Rightarrow> Inl e
                         | Inr csrf \<Rightarrow> Inr (a\<lparr>as_details := Some (d\<lparr>ad_login := Some r', ad_csrf := csrf\<rparr>)\<rparr>)))))"

definition strategyFromJSON :: "(string \<Rightarrow> auth_strategy option) \<Rightarrow> regexp_compile \<Rightarrow> string \<Rightarrow> ('e auth_error, auth_strategy) result" where
  "strategyFromJSON decode compile content =
     (case decode content of None \<Rightarrow> Inl NotJSON | Some a \<Rightarrow> compileAndValidate compile a)"

definition isAuthFailure :: "auth_response \<Rightarrow> bool" where
  "isAuthFailure resp = (rs_extraction resp \<noteq> None \<or> rs_status resp = 401 \<or> rs_status resp = 403)"

definition shift_char :: "char \<Rightarrow> char" where
  "shift_char c =
     (if is_lower c then char_of (97 + (char_code c - 97 + 13) mod 26)
      else if is_upper c then char_of (65 + (char_code c - 65 + 13) mod 26)
      else if is_digit c then char_of (48 + (char_code c - 48 + 5) mod 10)
      else c)"

definition shiftAlphaNumeric :: "string \<Rightarrow> string" where
  "shiftAlphaNumeric s =
     (if s = [] then ''x''
      else let mutated = map shift_char s in if mutated = s then CHR ''x'' # s else mutated)"

definition mutateCredentialString :: "string \<Rightarrow> string" where
  "mutateCredentialString s =
     (case split_on CHR ''@'' s of
        [user, domain] \<Rightarrow>
          if user \<noteq> [] \<and> str_contains domain ''.'' then shiftAlphaNumeric user @ ''@'' @ domain
          else shiftAlphaNumeric s
      | _ \<Rightarrow> shiftAlphaNumeric s)"

definition getInvalidCredential :: "auth_strategy \<Rightarrow> adk_credential option" where
  "getInvalidCredential a =
     (case as_details a of
        None \<Rightarrow> None
      | Some d \<Rightarrow>
          (case ad_credentials d of
             [] \<Rightarrow> None
           | c # _ \<Rightarrow> Some \<lparr>ac_username = mutateCredentialString (ac_username c),
                           ac_password = mutateCredentialString (ac_password c)\<rparr>))"

section \<open>Logging in\<close>

text \<open>\<open>base64.StdEncoding\<close>: three bytes are four characters, the last group is padded.\<close>

definition base64_char :: "nat \<Rightarrow> char" where
  "base64_char n =
     (if n < 26 then char_of (65 + n) else if n < 52 then char_of (71 + n) else if n < 62 then char_of (n - 4)
      else if n = 62 then CHR ''+'' else CHR ''/'')"

fun base64_encode :: "string \<Rightarrow> string" where
  "base64_encode [] = []"
| "base64_encode [a] =
     [base64_char (char_code a div 4), base64_char (char_code a mod 4 * 16), CHR ''='', CHR ''='']"
| "base64_encode [a, b] =
     [base64_char (char_code a div 4), base64_char (char_code a mod 4 * 16 + char_code b div 16),
      base64_char (char_code b mod 16 * 4), CHR ''='']"
| "base64_encode (a # b # c # rest) =
     [base64_char (char_code a div 4), base64_char (char_code a mod 4 * 16 + char_code b div 16),
      base64_char (char_code b mod 16 * 4 + char_code c div 64), base64_char (char_code c mod 64)] @ base64_encode rest"

text \<open>
  What the detector relies on: the models, new HTTP clients, the compiler of regular expressions, the
  order in which maps are visited, the decoding of JSON and \<open>strconv.Quote\<close>. \<open>ak_decode_judge\<close> decodes
  an answer into the result of the judge, which it may change before it fails.
\<close>

record ('w, 'e) adk_env =
  ak_llm :: "'w llm_env"
  ak_llm_config :: llm_config
  ak_agent_ok :: "network_service \<Rightarrow> bool"
  ak_judge_ok :: bool
  ak_new_client :: "client_options \<Rightarrow> ('e, ('w, 'e http_error) t_client) result"
  ak_forbidden :: "regexp list"
  ak_compile :: regexp_compile
  ak_order :: map_order
  ak_decode_strategy :: "string \<Rightarrow> auth_strategy option"
  ak_decode_judge :: "string \<Rightarrow> bool \<Rightarrow> bool \<times> bool"
  ak_quote :: "string \<Rightarrow> string"

definition no_tokens :: token_state where
  "no_tokens = \<lparr>total_token_count = 0, cached_token_count = 0, recorded_tokens = []\<rparr>"

definition fetchCSRFToken :: "('w, 'e) adk_env \<Rightarrow> auth_strategy \<Rightarrow> network_service \<Rightarrow> ('w, 'e http_error) t_client
    \<Rightarrow> 'w \<Rightarrow> 'w \<times> ('e auth_error, string) result" where
  "fetchCSRFToken ak a service client w =
     (case Option.bind (as_details a) ad_csrf of
        None \<Rightarrow> (w, Inr [])
      | Some r \<Rightarrow>
          (case request_do (ak_order ak) r service client [] w of
             (w', Inl e) \<Rightarrow> (w', Inl e)
           | (w', Inr resp) \<Rightarrow>
               (case rs_extraction resp of
                  None \<Rightarrow> (w', Inl NoTokenExtracted)
                | Some token \<Rightarrow> (w', Inr token))))"

definition login_options :: "('w, 'e) adk_env \<Rightarrow> client_options" where
  "login_options ak = (DefaultClientOptions (ak_forbidden ak))\<lparr>StoreCookies := True, RetryOnRateLimit := True\<rparr>"

definition login_substitutions :: "adk_credential \<Rightarrow> (string \<times> string) list" where
  "login_substitutions c =
     [(''username'', ac_username c), (''password'', ac_password c),
      (''basic_auth'', base64_encode (ac_username c @ '':'' @ ac_password c))]"

text \<open>The login request, with the token when the strategy asks for one.\<close>

definition login_request :: "('w, 'e) adk_env \<Rightarrow> auth_details \<Rightarrow> network_service \<Rightarrow> ('w, 'e http_error) t_client
    \<Rightarrow> (string \<times> string) list \<Rightarrow> 'w \<Rightarrow> 'w \<times> ('e auth_error, auth_response) result" where
  "login_request ak d service client substitutions w =
     (case ad_login d of
        None \<Rightarrow> (w, Inl NilDereference)
      | Some r \<Rightarrow> request_do (ak_order ak) r service client substitutions w)"

definition login :: "('w, 'e) adk_env \<Rightarrow> auth_strategy \<Rightarrow> network_service \<Rightarrow> adk_credential
    \<Rightarrow> 'w \<Rightarrow> 'w \<times> ('e auth_error, auth_response) result" where
  "login ak a service cred w =
     (case LoadAuthorities (login_options ak) service of
        Inl e \<Rightarrow> (w, Inl (EndpointFailed e))
      | Inr opts \<Rightarrow>
          (case ak_new_client ak opts of
             Inl e \<Rightarrow> (w, Inl (ClientFailed e))
           | Inr client \<Rightarrow>
               (case as_details a of
                  None \<Rightarrow> (w, Inl NilDereference)
                | Some d \<Rightarrow>
                    if ad_csrf d = None then login_request ak d service client (login_substitutions cred) w
                    else
                      (case fetchCSRFToken ak a service client w of
                         (w', Inl e) \<Rightarrow> (w', Inl e)
                       | (w', Inr token) \<Rightarrow>
                           login_request ak d service client (login_substitutions cred @ [(''csrftoken'', token)]) w'))))"

section \<open>Trying the credentials\<close>

definition nl :: string where
  "nl = [CHR 0x0A]"

definition judge_prompt :: "('w, 'e) adk_env \<Rightarrow> auth_request \<Rightarrow> adk_credential \<Rightarrow> adk_credential
    \<Rightarrow> auth_response \<Rightarrow> auth_response \<Rightarrow> string" where
  "judge_prompt ak r cred invalid candidate baseline =
     ''Login request: '' @ ar_method r @ '' '' @ ar_path r @ nl
     @ ''Candidate credential: username='' @ ak_quote ak (ac_username cred) @ '', password='' @ ak_quote ak (ac_password cred) @ nl
     @ ''Negative baseline credential (known-invalid): username='' @ ak_quote ak (ac_username invalid)
     @ '', password='' @ ak_quote ak (ac_password invalid) @ nl @ nl
     @ ''--- Negative Baseline Response (HTTP '' @ itoa (nat (rs_status baseline)) @ '') ---'' @ nl
     @ ''<baseline_response_body>'' @ nl @ rs_body baseline @ nl @ ''</baseline_response_body>'' @ nl @ nl
     @ ''--- Candidate Response (HTTP '' @ itoa (nat (rs_status candidate)) @ '') ---'' @ nl
     @ ''<candidate_response_body>'' @ nl @ rs_body candidate @ nl @ ''</candidate_response_body>'' @ nl"

text \<open>The verifier of the judge decodes each answer into one variable.\<close>

definition judge_verifier :: "('w, 'e) adk_env \<Rightarrow> ('w \<times> bool) verifier" where
  "judge_verifier ak = (\<lambda>result (w, parsed). case ak_decode_judge ak result parsed of
     (parsed', ok) \<Rightarrow> ((w, parsed'), if ok then None else Some \<lparr>ve_abort = False, ve_text = ''invalid JSON''\<rparr>))"

definition judgeCredential :: "('w, 'e) adk_env \<Rightarrow> auth_strategy \<Rightarrow> adk_credential \<Rightarrow> adk_credential
    \<Rightarrow> auth_response \<Rightarrow> auth_response \<Rightarrow> 'w \<Rightarrow> 'w \<times> ('e auth_error, bool) result" where
  "judgeCredential ak a cred invalid candidate baseline w =
     (if \<not> ak_judge_ok ak then (w, Inl AgentFailed)
      else case Option.bind (as_details a) ad_login of
        None \<Rightarrow> (w, Inl NilDereference)
      | Some r \<Rightarrow>
          (case RunWithFeedbackLoop (ak_llm ak) (ak_llm_config ak)
                  (Some \<lparr>ct_role = ''user'', ct_text = judge_prompt ak r cred invalid candidate baseline\<rparr>)
                  (Some (judge_verifier ak)) ((w, False), no_tokens) of
             (((w', parsed), _), Inl e) \<Rightarrow> (w', Inl (LlmFailed e))
           | (((w', parsed), _), Inr _) \<Rightarrow> (w', Inr parsed)))"

definition invalid_for :: "adk_credential \<Rightarrow> adk_credential" where
  "invalid_for c = c\<lparr>ac_password := mutateCredentialString (ac_password c)\<rparr>"

definition validateCredential :: "('w, 'e) adk_env \<Rightarrow> auth_strategy \<Rightarrow> network_service \<Rightarrow> adk_credential
    \<Rightarrow> 'w \<Rightarrow> 'w \<times> ('e auth_error, bool) result" where
  "validateCredential ak a service cred w =
     (case login ak a service cred w of
        (w1, Inl e) \<Rightarrow> (w1, Inl e)
      | (w1, Inr resp) \<Rightarrow>
          if isAuthFailure resp then (w1, Inr False)
          else
            (case login ak a service (invalid_for cred) w1 of
               (w2, Inl e) \<Rightarrow> (w2, Inl e)
             | (w2, Inr invalid_resp) \<Rightarrow>
                 if \<not> isAuthFailure invalid_resp then (w2, Inr False)
                 else judgeCredential ak a cred (invalid_for cred) resp invalid_resp w2))"

text \<open>The loop over the credentials: an error stops it, and is lost once a credential is confirmed.\<close>

fun try_credentials :: "(adk_credential \<Rightarrow> 'w \<Rightarrow> 'w \<times> ('err, bool) result) \<Rightarrow> adk_credential list
    \<Rightarrow> adk_credential list \<Rightarrow> 'w \<Rightarrow> 'w \<times> ('err, adk_credential list) result" where
  "try_credentials validate [] valid w = (w, Inr valid)"
| "try_credentials validate (c # cs) valid w =
     (case validate c w of
        (w', Inl e) \<Rightarrow> if valid = [] then (w', Inl e) else (w', Inr valid)
      | (w', Inr ok) \<Rightarrow> try_credentials validate cs (if ok then valid @ [c] else valid) w')"

record finding =
  fi_credentials :: "adk_credential list"
  fi_login :: "auth_request option"
  fi_csrf :: "auth_request option"

definition bruteforce :: "('w, 'e) adk_env \<Rightarrow> auth_strategy \<Rightarrow> network_service \<Rightarrow> 'w \<Rightarrow> 'w \<times> ('e auth_error, finding option) result" where
  "bruteforce ak a service w =
     (if \<not> as_supported a then (w, Inr None)
      else case as_details a of
        None \<Rightarrow> (w, Inl NilDereference)
      | Some d \<Rightarrow>
          (case try_credentials (validateCredential ak a service) (ad_credentials d) [] w of
             (w', Inl e) \<Rightarrow> (w', Inl e)
           | (w', Inr valid) \<Rightarrow>
               (w', Inr (if valid = [] then None
                         else Some \<lparr>fi_credentials = valid, fi_login = ad_login d, fi_csrf = ad_csrf d\<rparr>))))"

section \<open>Invalid credentials\<close>

lemma shiftAlphaNumeric_neq: "shiftAlphaNumeric s \<noteq> s"
  by (auto simp: shiftAlphaNumeric_def Let_def)

lemma mutateCredentialString_neq: "mutateCredentialString s \<noteq> s"
proof (cases "\<exists>user domain. split_on CHR ''@'' s = [user, domain]")
  case True
  then obtain user domain where parts: "split_on CHR ''@'' s = [user, domain]" by blast
  have "s = user @ CHR ''@'' # domain"
    using join_split_on [of "CHR ''@''" s] by (simp add: parts)
  with shiftAlphaNumeric_neq [of user] shiftAlphaNumeric_neq [of s] show ?thesis
    unfolding mutateCredentialString_def parts by (auto simp del: append_Cons)
next
  case False
  then show ?thesis
    using shiftAlphaNumeric_neq [of s]
    by (auto simp: mutateCredentialString_def split: list.split)
qed

text \<open>The domain of an e-mail address is kept.\<close>

lemma mutateCredentialString_domain:
  assumes "user \<noteq> []" and "CHR ''@'' \<notin> set user" and "CHR ''@'' \<notin> set domain" and "str_contains domain ''.''"
  shows "mutateCredentialString (user @ CHR ''@'' # domain) = shiftAlphaNumeric user @ CHR ''@'' # domain"
  using assms by (simp add: mutateCredentialString_def)

lemma shiftAlphaNumeric_length: "shiftAlphaNumeric s = map shift_char s \<or> shiftAlphaNumeric s = CHR ''x'' # s"
  by (auto simp: shiftAlphaNumeric_def Let_def)

lemma invalid_for_neq: "invalid_for c \<noteq> c"
proof
  assume "invalid_for c = c"
  then have "ac_password (invalid_for c) = ac_password c" by simp
  then show False using mutateCredentialString_neq by (simp add: invalid_for_def)
qed

section \<open>What is confirmed\<close>

text \<open>The results of the attempts in their order, up to and with the first error.\<close>

fun attempts :: "(adk_credential \<Rightarrow> 'w \<Rightarrow> 'w \<times> ('err, bool) result) \<Rightarrow> adk_credential list \<Rightarrow> 'w
    \<Rightarrow> (adk_credential \<times> ('err, bool) result) list" where
  "attempts validate [] w = []"
| "attempts validate (c # cs) w =
     (let (w', r) = validate c w in (c, r) # (if is_ok r then attempts validate cs w' else []))"

definition confirmed_in :: "(adk_credential \<times> ('err, bool) result) list \<Rightarrow> adk_credential list" where
  "confirmed_in xs = map fst (filter (\<lambda>(_, r). r = Inr True) xs)"

lemma confirmed_in_simps [simp]:
  "confirmed_in [] = []"
  "confirmed_in ((c, r) # xs) = (if r = Inr True then c # confirmed_in xs else confirmed_in xs)"
  by (simp_all add: confirmed_in_def)

text \<open>Nothing confirmed is ever discarded, and an error is reported only when nothing was confirmed.\<close>

lemma try_credentials_exact:
  "snd (try_credentials validate cs valid w) =
     (case find (\<lambda>(_, r). \<not> is_ok r) (attempts validate cs w) of
        Some (_, Inl e) \<Rightarrow>
          if valid @ confirmed_in (attempts validate cs w) = [] then Inl e
          else Inr (valid @ confirmed_in (attempts validate cs w))
      | _ \<Rightarrow> Inr (valid @ confirmed_in (attempts validate cs w)))"
proof (induction cs arbitrary: valid w)
  case (Cons c cs)
  obtain w' r where r: "validate c w = (w', r)" by fastforce
  show ?case
  proof (cases r)
    case (Inl e)
    then show ?thesis by (simp add: r)
  next
    case (Inr ok)
    then have step: "attempts validate (c # cs) w = (c, Inr ok) # attempts validate cs w'"
      by (simp add: r)
    have next_round: "snd (try_credentials validate (c # cs) valid w) = snd (try_credentials validate cs (if ok then valid @ [c] else valid) w')"
      by (simp add: r Inr)
    show ?thesis
      unfolding next_round Cons.IH step
      by (cases ok; cases "find (\<lambda>(_, r). \<not> is_ok r) (attempts validate cs w')") (auto split: sum.split)
  qed
qed simp

lemma attempts_validated: "(c, r) \<in> set (attempts validate cs w) \<Longrightarrow> \<exists>w1 w2. validate c w1 = (w2, r)"
proof (induction cs arbitrary: w)
  case (Cons c' cs)
  obtain w' r' where one: "validate c' w = (w', r')" by fastforce
  with Cons show ?case by (cases r') auto
qed simp

lemma attempts_prefix: "prefix (map fst (attempts validate cs w)) cs"
  by (induction cs arbitrary: w) (auto split: prod.split)

text \<open>
  A credential is confirmed when a login with it is not refused, the login with the changed password
  that follows is refused, and an answer of the judge was decoded to say that it is authenticated.
\<close>

definition confirmed :: "('w, 'e) adk_env \<Rightarrow> auth_strategy \<Rightarrow> network_service \<Rightarrow> adk_credential \<Rightarrow> bool" where
  "confirmed ak a service c \<longleftrightarrow>
     (\<exists>w0 w1 w2 resp invalid_resp answer before.
        login ak a service c w0 = (w1, Inr resp) \<and> \<not> isAuthFailure resp \<and>
        login ak a service (invalid_for c) w1 = (w2, Inr invalid_resp) \<and> isAuthFailure invalid_resp \<and>
        ak_decode_judge ak answer before = (True, True))"

lemma judgeCredential_True:
  assumes "judgeCredential ak a c invalid resp invalid_resp w = (w', Inr True)"
  shows "\<exists>answer before. ak_decode_judge ak answer before = (True, True)"
proof -
  from assms obtain r st answer where
    "RunWithFeedbackLoop (ak_llm ak) (ak_llm_config ak)
       (Some \<lparr>ct_role = ''user'', ct_text = judge_prompt ak r c invalid resp invalid_resp\<rparr>)
       (Some (judge_verifier ak)) ((w, False), no_tokens) = (st, Inr answer)" and "snd (fst st) = True"
    by (auto simp: judgeCredential_def split: if_splits option.splits prod.splits sum.splits)
  moreover obtain v w1 where "judge_verifier ak answer (w1, v) = (fst st, None)"
    using RunWithFeedbackLoop_accepted [OF calculation(1)] by (metis surj_pair)
  ultimately have "ak_decode_judge ak answer v = (True, True)"
    by (cases "fst st") (auto simp: judge_verifier_def split: prod.splits if_splits)
  then show ?thesis by blast
qed

lemma validateCredential_True:
  assumes "validateCredential ak a service c w = (w', Inr True)"
  shows "confirmed ak a service c"
proof -
  from assms obtain w1 w2 resp invalid_resp where
    "login ak a service c w = (w1, Inr resp)" "\<not> isAuthFailure resp"
    "login ak a service (invalid_for c) w1 = (w2, Inr invalid_resp)" "isAuthFailure invalid_resp"
    "judgeCredential ak a c (invalid_for c) resp invalid_resp w2 = (w', Inr True)"
    by (auto simp: validateCredential_def split: prod.splits sum.splits if_splits)
  with judgeCredential_True [OF this(5)] show ?thesis
    unfolding confirmed_def by blast
qed

lemma confirmed_in_confirmed:
  "c \<in> set (confirmed_in (attempts (validateCredential ak a service) cs w)) \<Longrightarrow> confirmed ak a service c"
  by (auto simp: confirmed_in_def dest!: attempts_validated intro: validateCredential_True)

lemma bruteforce_finding:
  assumes "bruteforce ak a service w = (w', Inr (Some f))"
  shows "\<exists>d. as_supported a \<and> as_details a = Some d \<and> fi_login f = ad_login d \<and> fi_credentials f \<noteq> [] \<and>
    fi_credentials f = confirmed_in (attempts (validateCredential ak a service) (ad_credentials d) w)"
proof -
  from assms obtain d where d: "as_supported a" "as_details a = Some d"
    by (auto simp: bruteforce_def split: if_splits option.splits)
  let ?tries = "try_credentials (validateCredential ak a service) (ad_credentials d) [] w"
  from assms d have f: "snd ?tries = Inr (fi_credentials f)" "fi_credentials f \<noteq> []" "fi_login f = ad_login d"
    by (auto simp: bruteforce_def split: prod.splits sum.splits if_splits)
  have "fi_credentials f = confirmed_in (attempts (validateCredential ak a service) (ad_credentials d) w)"
    using f(1) by (auto simp: try_credentials_exact split: option.splits prod.splits sum.splits if_splits)
  with d f show ?thesis by blast
qed

text \<open>A validated strategy that supports authentication has all that a login dereferences.\<close>

lemma compileAndValidate_ok:
  assumes "compileAndValidate compile a = Inr a'" and "as_supported a'"
  shows "\<exists>d r. as_details a' = Some d \<and> ad_login d = Some r \<and> ad_credentials d \<noteq> [] \<and> ar_rex r \<noteq> None \<and>
    has_prefix (ar_path r) ''/'' \<and> (containsPlaceholder r ''[[password]]'' \<or> containsPlaceholder r ''[[basic_auth]]'') \<and>
    (\<forall>csrf. ad_csrf d = Some csrf \<longrightarrow> ar_rex csrf \<noteq> None \<and> containsPlaceholder r ''[[csrftoken]]'')"
  using assms
  by (auto simp: compileAndValidate_def request_compileAndValidate_def validate_csrf_def
      split: if_splits option.splits sum.splits)

text \<open>The order in which the map of substitutions is visited matters when a value holds a placeholder.\<close>

lemma substitute_order_matters:
  "substitute ''u=[[username]]&p=[[password]]'' [(''username'', ''[[password]]''), (''password'', ''x'')] False = ''u=x&p=x''"
  "substitute ''u=[[username]]&p=[[password]]'' [(''password'', ''x''), (''username'', ''[[password]]'')] False = ''u=[[password]]&p=x''"
  by (simp_all add: substitute_def replace_all.simps)

end
