(* ===== verification/AdkWeakCreds.thy ===== *)
theory AdkWeakCreds
  imports AuthStrategy HashRegistry
begin

text \<open>
  The detector of weak credentials that asks a language model for the strategy,
  \<open>src/plugins/detectors/adkweakcreds/adkweakcreds.go\<close>, and its cache of strategies,
  \<open>cache/cache.go\<close>. The module keeps the index of the cache; the file system is part of the world.
\<close>

section \<open>The cache\<close>

record index =
  ix_indexpath :: string
  ix_directory :: string
  ix_hash_to_path :: "(string \<times> string) list"

text \<open>
  \<open>cx_decode\<close> is \<open>json.Unmarshal\<close> of an index, whose map may be null; \<open>cx_visit\<close> is the order in
  which the paths are visited; \<open>cx_resolve\<close> resolves a path against the web root.
\<close>

record ('w, 'e) cache_env =
  cx_read :: "string \<Rightarrow> 'w \<Rightarrow> string option"
  cx_write :: "string \<Rightarrow> string \<Rightarrow> 'w \<Rightarrow> 'w \<times> bool"
  cx_mkdir_all :: "string \<Rightarrow> 'w \<Rightarrow> 'w \<times> bool"
  cx_decode :: "string \<Rightarrow> (string \<times> string) list option option"
  cx_encode :: "(string \<times> string) list \<Rightarrow> string option"
  cx_visit :: "(string \<times> string list) list \<Rightarrow> (string \<times> string list) list"
  cx_resolve :: "string \<Rightarrow> string \<Rightarrow> string option"
  cx_done :: "'w \<Rightarrow> bool"
  cx_client :: "('e, ('w, 'e http_error) t_client) result"
  cx_sum128 :: "string \<Rightarrow> 64 word \<times> 64 word"

definition indexFileName :: string where "indexFileName = ''index.json''"
definition cacheDirName :: string where "cacheDirName = ''cache''"
definition strategySuffix :: string where "strategySuffix = ''.strategy.json''"

definition cache_Load :: "('w, 'e) cache_env \<Rightarrow> string \<Rightarrow> 'w \<Rightarrow> index option" where
  "cache_Load cx path w =
     (if path = [] then None
      else
        let fullpath = path_join [path, indexFileName];
            emptyIndex = \<lparr>ix_indexpath = fullpath, ix_directory = path, ix_hash_to_path = []\<rparr>
        in case cx_read cx fullpath w of
             None \<Rightarrow> Some emptyIndex
           | Some data \<Rightarrow>
               (case cx_decode cx data of
                  None \<Rightarrow> Some emptyIndex
                | Some None \<Rightarrow> Some emptyIndex
                | Some (Some m) \<Rightarrow> Some (emptyIndex\<lparr>ix_hash_to_path := m\<rparr>)))"

datatype 'e cache_error =
    CacheContextDone | CacheEndpoint endpoint_error | CacheRequest | CacheSend "'e http_error" | CacheRateLimited
  | CacheBody | CacheClient 'e | CacheSaveStrategy | CacheSaveIndex

definition fetchAndHashPage :: "('w, 'e) cache_env \<Rightarrow> ('w, 'e http_error) t_client \<Rightarrow> network_service \<Rightarrow> string
    \<Rightarrow> 'w \<Rightarrow> 'w \<times> ('e cache_error, string) result" where
  "fetchAndHashPage cx client service path w =
     (if cx_done cx w then (w, Inl CacheContextDone)
      else case BuildWebRoot service of
        Inl e \<Rightarrow> (w, Inl (CacheEndpoint e))
      | Inr webroot \<Rightarrow>
          (case url_Parse (webroot @ path) of
             None \<Rightarrow> (w, Inl CacheRequest)
           | Some u \<Rightarrow>
               (case client \<lparr>tq_method = ''GET'', tq_url = u, tq_headers = [], tq_body = []\<rparr> w of
                  (w', Inl e) \<Rightarrow> (w', Inl (CacheSend e))
                | (w', Inr resp) \<Rightarrow>
                    if tr_status resp = 429 then (w', Inl CacheRateLimited)
                    else if tr_body_fails resp then (w', Inl CacheBody)
                    else (w', Inr (hash_Hex (cx_sum128 cx)
                      (FromResponse (word_of_int (tr_status resp)) (header_Get (tr_headers resp) ''Content-Type'') (tr_body resp)))))))"

definition strategy_file :: "index \<Rightarrow> string \<Rightarrow> string" where
  "strategy_file ix h = path_join [ix_directory ix, cacheDirName, h @ strategySuffix]"

definition saveStrategy :: "('w, 'e) cache_env \<Rightarrow> index \<Rightarrow> string \<Rightarrow> string \<Rightarrow> 'w \<Rightarrow> 'w \<times> bool" where
  "saveStrategy cx ix h strategy w =
     (case cx_mkdir_all cx (path_join [ix_directory ix, cacheDirName]) w of
        (w', False) \<Rightarrow> (w', False)
      | (w', True) \<Rightarrow> cx_write cx (strategy_file ix h) strategy w')"

definition cache_save :: "('w, 'e) cache_env \<Rightarrow> index \<Rightarrow> 'w \<Rightarrow> 'w \<times> bool" where
  "cache_save cx ix w =
     (case cx_encode cx (ix_hash_to_path ix) of
        None \<Rightarrow> (w, False)
      | Some data \<Rightarrow> cx_write cx (ix_indexpath ix) data w)"

definition cache_find :: "('w, 'e) cache_env \<Rightarrow> index \<Rightarrow> string \<Rightarrow> 'w \<Rightarrow> string option" where
  "cache_find cx ix h w = cx_read cx (strategy_file ix h) w"

text \<open>Adding keeps the new entry of the index even when a file cannot be written.\<close>

definition cache_Add :: "('w, 'e) cache_env \<Rightarrow> network_service \<Rightarrow> string \<Rightarrow> string
    \<Rightarrow> 'w \<times> index option \<Rightarrow> ('w \<times> index option) \<times> 'e cache_error option" where
  "cache_Add cx service path strategy st =
     (case st of
        (w, None) \<Rightarrow> (st, None)
      | (w, Some ix) \<Rightarrow>
          if ix_indexpath ix = [] then (st, None)
          else (case cx_client cx of
            Inl e \<Rightarrow> (st, Some (CacheClient e))
          | Inr client \<Rightarrow>
              (case fetchAndHashPage cx client service path w of
                 (w1, Inl e) \<Rightarrow> ((w1, Some ix), Some e)
               | (w1, Inr h) \<Rightarrow>
                   let ix' = ix\<lparr>ix_hash_to_path := AList.update h path (ix_hash_to_path ix)\<rparr> in
                   (case saveStrategy cx ix' h strategy w1 of
                      (w2, False) \<Rightarrow> ((w2, Some ix'), Some CacheSaveStrategy)
                    | (w2, True) \<Rightarrow>
                        (case cache_save cx ix' w2 of
                           (w3, False) \<Rightarrow> ((w3, Some ix'), Some CacheSaveIndex)
                         | (w3, True) \<Rightarrow> ((w3, Some ix'), None))))))"

definition paths_to_hashes :: "(string \<times> string) list \<Rightarrow> (string \<times> string list) list" where
  "paths_to_hashes m = fold (\<lambda>(h, path). upsert path [] (\<lambda>hs. hs @ [h])) m []"

fun find_path :: "('w, 'e) cache_env \<Rightarrow> index \<Rightarrow> ('w, 'e http_error) t_client \<Rightarrow> network_service
    \<Rightarrow> (string \<times> string list) list \<Rightarrow> 'w \<Rightarrow> 'w \<times> string option" where
  "find_path cx ix client service [] w = (w, None)"
| "find_path cx ix client service ((path, expected) # rest) w =
     (if WasCrawled (cx_resolve cx) service path then
        (case GetCrawlContent (cx_resolve cx) service path of
           Some (content, CONTENT_TYPE_HASH) \<Rightarrow>
             if content \<in> set expected then (w, cache_find cx ix content w)
             else find_path cx ix client service rest w
         | _ \<Rightarrow> find_path cx ix client service rest w)
      else
        (case fetchAndHashPage cx client service path w of
           (w', Inl e) \<Rightarrow> find_path cx ix client service rest w'
         | (w', Inr h) \<Rightarrow>
             if h \<in> set expected then (w', cache_find cx ix h w')
             else find_path cx ix client service rest w'))"

definition FindForService :: "('w, 'e) cache_env \<Rightarrow> network_service \<Rightarrow> 'w \<times> index option \<Rightarrow> 'w \<times> string option" where
  "FindForService cx service st =
     (case st of
        (w, None) \<Rightarrow> (w, None)
      | (w, Some ix) \<Rightarrow>
          if ix_indexpath ix = [] then (w, None)
          else (case cx_client cx of
            Inl e \<Rightarrow> (w, None)
          | Inr client \<Rightarrow>
              find_path cx ix client service (cx_visit cx (paths_to_hashes (ix_hash_to_path ix))) w))"

section \<open>The detector\<close>

text \<open>\<open>am_show\<close> is the text of an error, which the model reads.\<close>

record ('w, 'e) adk_module =
  am_env :: "('w, 'e) adk_env"
  am_cache :: "('w, 'e) cache_env"
  am_show :: "'e auth_error \<Rightarrow> string"

record vulnerability =
  vu_title :: string
  vu_severity :: string
  vu_description :: string
  vu_recommendation :: string
  vu_publisher :: string
  vu_value :: string

definition baseVulnerability :: vulnerability where
  "baseVulnerability =
     \<lparr>vu_title = ''Web-service with weak credentials'', vu_severity = ''HIGH'',
      vu_description = ''A web service with weak credentials has been detected. An attacker could guess these credentials and gain access to the service.'',
      vu_recommendation = ''Use firewalling to restrict access to the service and use strong credentials and consider using multi-factor authentication.'',
      vu_publisher = ''GOOGLE'', vu_value = ''GENERIC_AGENTIC_WEAK_CREDENTIALS''\<rparr>"

definition adk_Advisories :: "vulnerability list" where
  "adk_Advisories = [baseVulnerability]"

text \<open>The finding is reported as the JSON text of the additional details; the time is not modelled.\<close>

record adk_report =
  rp_endpoints :: "network_endpoint list"
  rp_service :: network_service
  rp_status :: string
  rp_vulnerability :: vulnerability
  rp_finding :: finding

definition buildDetectionReport :: "network_service \<Rightarrow> finding \<Rightarrow> adk_report" where
  "buildDetectionReport service f =
     \<lparr>rp_endpoints = [get_endpoint service], rp_service = service, rp_status = ''VULNERABILITY_VERIFIED'',
      rp_vulnerability = baseVulnerability, rp_finding = f\<rparr>"

definition moduleName :: string where "moduleName = ''dt/adkweakcreds''"

text \<open>The module starts with the index of its directory of the cache, and without one when it has none.\<close>

definition adk_New :: "('w, 'e) cache_env \<Rightarrow> 'w file_ops \<Rightarrow> config \<Rightarrow> 'w \<Rightarrow> 'w \<times> index option" where
  "adk_New cx fs c w =
     (case GetCacheForModule fs c moduleName w of
        (w', Inl e) \<Rightarrow> (w', cache_Load cx [] w')
      | (w', Inr path) \<Rightarrow> (w', cache_Load cx path w'))"

definition assertStrategyQuality :: "('w, 'e) adk_env \<Rightarrow> network_service \<Rightarrow> string \<Rightarrow> 'w \<Rightarrow> 'w \<times> (bool \<times> 'e auth_error) option" where
  "assertStrategyQuality ak service result w =
     (case strategyFromJSON (ak_decode_strategy ak) (ak_compile ak) result of
        Inl e \<Rightarrow> (w, Some (False, e))
      | Inr a \<Rightarrow>
          if \<not> as_supported a then (w, None)
          else (case getInvalidCredential a of
            None \<Rightarrow> (w, Some (False, NilDereference))
          | Some c \<Rightarrow>
              (case login ak a service c w of
                 (w', Inl e) \<Rightarrow> (w', Some (e = SendFailed ErrRateLimited, e))
               | (w', Inr resp) \<Rightarrow>
                   (w', if rs_extraction resp = None then Some (False, RegexpTooWeak) else None))))"

definition quality_verifier :: "('w, 'e) adk_module \<Rightarrow> network_service \<Rightarrow> ('w \<times> unit) verifier" where
  "quality_verifier am service = (\<lambda>result (w, u).
     case assertStrategyQuality (am_env am) service result w of
       (w', None) \<Rightarrow> ((w', u), None)
     | (w', Some (abort, e)) \<Rightarrow> ((w', u), Some \<lparr>ve_abort = abort, ve_text = am_show am e\<rparr>))"

definition strategy_prompt :: "network_service \<Rightarrow> string" where
  "strategy_prompt service =
     (case BuildWebRoot service of
        Inl e \<Rightarrow> ''Identify whether the web service supports authentication and determine the credential testing strategy''
      | Inr webRoot \<Rightarrow> ''Identify whether the web service at '' @ webRoot
          @ '' supports authentication and determine the credential testing strategy'')"

definition cache_strategy :: "('w, 'e) adk_module \<Rightarrow> network_service \<Rightarrow> auth_strategy \<Rightarrow> string
    \<Rightarrow> 'w \<times> index option \<Rightarrow> 'w \<times> index option" where
  "cache_strategy am service a result st =
     (if snd st \<noteq> None \<and> as_supported a then
        (case Option.bind (as_details a) ad_login of
           None \<Rightarrow> st
         | Some r \<Rightarrow> fst (cache_Add (am_cache am) service (ar_path r) result st))
      else st)"

definition getStrategy :: "('w, 'e) adk_module \<Rightarrow> network_service \<Rightarrow> 'w \<times> index option
    \<Rightarrow> ('w \<times> index option) \<times> ('e auth_error, auth_strategy) result" where
  "getStrategy am service st =
     (let ak = am_env am; parse = strategyFromJSON (ak_decode_strategy ak) (ak_compile ak) in
      case FindForService (am_cache am) service st of
        (w, Some data) \<Rightarrow> ((w, snd st), parse data)
      | (w, None) \<Rightarrow>
          if \<not> ak_agent_ok ak service then ((w, snd st), Inl AgentFailed)
          else
            (case RunWithFeedbackLoop (ak_llm ak) (ak_llm_config ak)
                    (Some \<lparr>ct_role = ''user'', ct_text = strategy_prompt service\<rparr>)
                    (Some (quality_verifier am service)) ((w, ()), no_tokens) of
               (((w', _), _), Inl e) \<Rightarrow> ((w', snd st), Inl (LlmFailed e))
             | (((w', _), _), Inr result) \<Rightarrow>
                 (case parse result of
                    Inl e \<Rightarrow> ((w', snd st), Inl e)
                  | Inr a \<Rightarrow> (cache_strategy am service a result (w', snd st), Inr a))))"

definition adk_Detect :: "('w, 'e) adk_module \<Rightarrow> network_service \<Rightarrow> 'w \<times> index option
    \<Rightarrow> ('w \<times> index option) \<times> ('e auth_error, adk_report option) result" where
  "adk_Detect am service st =
     (if \<not> IsWebService service then (st, Inr None)
      else
        case getStrategy am service st of
          (st1, Inl e) \<Rightarrow> (st1, Inl e)
        | (st1, Inr a) \<Rightarrow>
            (case bruteforce (am_env am) a service (fst st1) of
               (w, Inl e) \<Rightarrow> ((w, snd st1), Inl e)
             | (w, Inr None) \<Rightarrow> ((w, snd st1), Inr None)
             | (w, Inr (Some f)) \<Rightarrow> ((w, snd st1), Inr (Some (buildDetectionReport service f)))))"

section \<open>Correctness\<close>

text \<open>A strategy that the detector uses has passed its validation, whether it was cached or not.\<close>

lemma getStrategy_parsed:
  fixes am :: "('w, 'e) adk_module"
  assumes "getStrategy am service st = (st', Inr a)"
  shows "\<exists>text. strategyFromJSON (ak_decode_strategy (am_env am)) (ak_compile (am_env am)) text = (Inr a :: ('e auth_error, auth_strategy) result)"
  using assms by (auto simp: getStrategy_def Let_def split: prod.splits option.splits if_splits sum.splits)

lemma strategyFromJSON_ok:
  assumes "strategyFromJSON decode compile text = Inr a" and "as_supported a"
  shows "\<exists>d r. as_details a = Some d \<and> ad_login d = Some r \<and> has_prefix (ar_path r) ''/'' \<and>
    (containsPlaceholder r ''[[password]]'' \<or> containsPlaceholder r ''[[basic_auth]]'')"
  using assms compileAndValidate_ok [of compile _ a]
  by (force simp: strategyFromJSON_def split: option.splits)

text \<open>A strategy that was not cached has refused an invalid credential before it is used.\<close>

lemma getStrategy_quality:
  fixes am :: "('w, 'e) adk_module"
  assumes "getStrategy am service st = (st', Inr a)" and "snd (FindForService (am_cache am) service st) = None"
    and "as_supported a"
  shows "\<exists>c w w' resp. getInvalidCredential a = Some c \<and> login (am_env am) a service c w = (w', Inr resp) \<and>
    rs_extraction resp \<noteq> None"
proof -
  obtain w where none: "FindForService (am_cache am) service st = (w, None)"
    using assms(2) by (metis prod.collapse)
  let ?ak = "am_env am"
  from assms(1) none obtain result st2 where
    run: "RunWithFeedbackLoop (ak_llm ?ak) (ak_llm_config ?ak) (Some \<lparr>ct_role = ''user'', ct_text = strategy_prompt service\<rparr>)
      (Some (quality_verifier am service)) ((w, ()), no_tokens) = (st2, Inr result)"
    and parse: "strategyFromJSON (ak_decode_strategy ?ak) (ak_compile ?ak) result = (Inr a :: ('e auth_error, auth_strategy) result)"
    by (auto simp: getStrategy_def Let_def split: prod.splits option.splits if_splits sum.splits)
  from RunWithFeedbackLoop_accepted [OF run] obtain w1 u where "quality_verifier am service result (w1, u) = (fst st2, None)"
    by (metis surj_pair)
  then have "snd (assertStrategyQuality ?ak service result w1) = None"
    by (auto simp: quality_verifier_def split: prod.splits option.splits)
  with parse assms(3) show ?thesis
    by (auto simp: assertStrategyQuality_def split: option.splits prod.splits sum.splits if_splits)
qed

text \<open>C8. A report of the detector is for a web service and rests on a validated strategy, which sends the
  password of each attempt; it lists exactly the credentials confirmed among the attempts, in the order
  tried, at least one, and for each of them a login was not refused, the login with the altered password
  was refused, that password differs from the real one, and the judge answered that it authenticates.\<close>

theorem adk_Detect_exact:
  assumes "adk_Detect am service st = (st', Inr (Some rep))"
  shows "IsWebService service \<and> rp_service rep = service \<and>
    (\<exists>a d r w. as_supported a \<and> as_details a = Some d \<and> ad_login d = Some r \<and> fi_login (rp_finding rep) = Some r \<and>
       (containsPlaceholder r ''[[password]]'' \<or> containsPlaceholder r ''[[basic_auth]]'') \<and>
       fi_credentials (rp_finding rep) \<noteq> [] \<and>
       fi_credentials (rp_finding rep)
         = confirmed_in (attempts (validateCredential (am_env am) a service) (ad_credentials d) w) \<and>
       (\<forall>c. c \<in> set (fi_credentials (rp_finding rep)) \<longrightarrow>
          confirmed (am_env am) a service c \<and> ac_password (invalid_for c) \<noteq> ac_password c))"
proof -
  from assms obtain st1 a w' where web: "IsWebService service" and rep: "rp_service rep = service"
    and strategy: "getStrategy am service st = (st1, Inr a)"
    and found: "bruteforce (am_env am) a service (fst st1) = (w', Inr (Some (rp_finding rep)))"
    by (auto simp: adk_Detect_def buildDetectionReport_def split: if_splits prod.splits sum.splits option.splits)
  from bruteforce_finding [OF found] obtain d where d: "as_supported a" "as_details a = Some d"
      "fi_login (rp_finding rep) = ad_login d" "fi_credentials (rp_finding rep) \<noteq> []"
      "fi_credentials (rp_finding rep)
         = confirmed_in (attempts (validateCredential (am_env am) a service) (ad_credentials d) (fst st1))"
    by blast
  from getStrategy_parsed [OF strategy] strategyFromJSON_ok [OF _ d(1)] d(2) obtain r where r: "ad_login d = Some r"
      "containsPlaceholder r ''[[password]]'' \<or> containsPlaceholder r ''[[basic_auth]]''"
    by fastforce
  have "confirmed (am_env am) a service c \<and> ac_password (invalid_for c) \<noteq> ac_password c"
    if "c \<in> set (fi_credentials (rp_finding rep))" for c
    using that d(5) by (auto intro: confirmed_in_confirmed simp: invalid_for_def mutateCredentialString_neq)
  with web rep d r show ?thesis by auto
qed

text \<open>A server that accepts one password, and a model that proposes it.\<close>

definition weak_service :: network_service where
  "weak_service =
     \<lparr>sv_endpoint = Some \<lparr>ep_type = IP_PORT, ep_ip = Some \<lparr>ip_addr = ''127.0.0.1'', ip_family = IPV4\<rparr>, ep_hostname = None, ep_port = Some 80\<rparr>,
      sv_transport = ''TCP'', sv_ssl = [], sv_http_methods = [''GET''], sv_context = None\<rparr>"

definition sample_strategy :: auth_strategy where
  "sample_strategy =
     \<lparr>as_supported = True,
      as_details = Some \<lparr>ad_csrf = None,
        ad_login = Some \<lparr>ar_method = ''POST'', ar_path = ''/login'', ar_body = ''[[password]]'', ar_regex = ''denied'',
                         ar_headers = [], ar_rex = None\<rparr>,
        ad_credentials = [\<lparr>ac_username = ''root'', ac_password = ''b''\<rparr>, \<lparr>ac_username = ''root'', ac_password = ''a''\<rparr>]\<rparr>\<rparr>"

definition sample_http :: "(nat, nat http_error) t_client" where
  "sample_http req w =
     (w + 1, Inr \<lparr>tr_status = 200, tr_headers = [],
                  tr_body = (if tq_body req = ''a'' then ''welcome'' else ''denied''), tr_body_fails = False\<rparr>)"

definition sample_llm :: "nat llm_env" where
  "sample_llm =
     \<lparr>le_now = (\<lambda>_. 0), le_caller_done = (\<lambda>_. False), le_sleep = (\<lambda>_ _ w. (w, True)),
      le_new_session = (\<lambda>w. (w, Some ''s'')), le_runner_ok = True,
      le_signals = (\<lambda>_ _ _ w. (w, [ItemEvent \<lparr>ev_partial = False, ev_usage = None, ev_model = ''m'', ev_parts = Some [(''ok'', False)]\<rparr> False]))\<rparr>"

definition sample_module :: "(nat, nat) adk_module" where
  "sample_module =
     \<lparr>am_env = \<lparr>ak_llm = sample_llm,
        ak_llm_config = \<lparr>lc_timeout_seconds = 240, lc_max_attempts = 3, lc_retry_delay_seconds = 10\<rparr>,
        ak_agent_ok = (\<lambda>_. True), ak_judge_ok = True, ak_new_client = (\<lambda>_. Inr sample_http), ak_forbidden = [],
        ak_compile = (\<lambda>re. Some (\<lambda>body. if str_contains body re then Some [re] else None)), ak_order = id,
        ak_decode_strategy = (\<lambda>_. Some sample_strategy), ak_decode_judge = (\<lambda>_ _. (True, True)), ak_quote = id\<rparr>,
      am_cache = \<lparr>cx_read = (\<lambda>_ _. None), cx_write = (\<lambda>_ _ w. (w, True)), cx_mkdir_all = (\<lambda>_ w. (w, True)),
        cx_decode = (\<lambda>_. None), cx_encode = (\<lambda>_. None), cx_visit = id, cx_resolve = (\<lambda>_ _. None), cx_done = (\<lambda>_. False),
        cx_client = Inr sample_http, cx_sum128 = (\<lambda>_. (0, 0))\<rparr>,
      am_show = (\<lambda>_. [])\<rparr>"

lemma sample_found:
  "map_sum id (map_option (\<lambda>rep. fi_credentials (rp_finding rep))) (snd (adk_Detect sample_module weak_service (0, None)))
     = Inr (Some [\<lparr>ac_username = ''root'', ac_password = ''a''\<rparr>])"
  by code_simp

theorem adk_Detect_exact_witness:
  "\<exists>st' rep. adk_Detect sample_module weak_service (0, None) = (st', Inr (Some rep)) \<and>
    IsWebService weak_service \<and> rp_service rep = weak_service \<and>
    fi_credentials (rp_finding rep) = [\<lparr>ac_username = ''root'', ac_password = ''a''\<rparr>] \<and>
    (\<exists>a. confirmed (am_env sample_module) a weak_service \<lparr>ac_username = ''root'', ac_password = ''a''\<rparr>)"
proof -
  obtain st' rep where run: "adk_Detect sample_module weak_service (0, None) = (st', Inr (Some rep))"
    and creds: "fi_credentials (rp_finding rep) = [\<lparr>ac_username = ''root'', ac_password = ''a''\<rparr>]"
    using sample_found by (cases "adk_Detect sample_module weak_service (0, None)")
      (auto simp: map_sum_def split: sum.splits)
  from adk_Detect_exact [OF run] creds have "\<exists>a. confirmed (am_env sample_module) a weak_service \<lparr>ac_username = ''root'', ac_password = ''a''\<rparr>"
    by auto
  with adk_Detect_exact [OF run] run creds show ?thesis by blast
qed

end
