(* ===== verification/HttpTool.thy ===== *)
theory HttpTool
  imports TemplateActions LlmClient
begin

text \<open>
  The tool that lets a language model send HTTP requests to the service under test,
  \<open>src/common/clients/llm/tools/httpclient/httpclient.go\<close>, over the client of
  \<open>src/core/net/http/simpleclient/simpleclient.go\<close>. The network, the cookie jar of the standard
  library and the rate limiter are parameters of the record \<open>tool_net\<close>; the record \<open>sent_log\<close> keeps
  every request that leaves the scanner, with the cookie jar it is sent with. \<open>tool_Do\<close> is a call
  that runs alone; \<open>tool_step\<close> interleaves the steps of several calls, as the goroutines of the
  development kit do, and \<open>tool_Do_runs\<close> shows that a call alone is one of its runs.
\<close>

section \<open>The client\<close>

text \<open>One answer of a server. \<open>hp_location\<close> is where \<open>net/http\<close> is redirected to by it, if it is.\<close>

record 'e hop =
  hp_status :: int
  hp_headers :: "(string \<times> string list) list"
  hp_body :: "string \<times> 'e body_end"
  hp_location :: "url option"

datatype 'e tool_error =
    ErrInvalidURI | ErrInvalidMethod | ErrTooManyRequests | ErrContentDenied
  | ToolContextDone | ToolEndpoint endpoint_error | ToolRequest | ToolRegexp string
  | ToolClient 'e | ToolSend 'e | ToolRedirects | ToolBody "'e read_error" | ToolBufferPanic

text \<open>
  \<open>tn_redirected\<close> is the request that follows a redirect, but for its URL (\<open>net/http\<close> may change the
  method and drop headers); \<open>tn_store\<close> is \<open>Jar.SetCookies\<close>.
\<close>

record ('w, 'j, 'e) tool_net =
  tn_done :: "'w \<Rightarrow> bool"
  tn_new_client :: "config \<Rightarrow> client_options \<Rightarrow> 'e option"
  tn_compile :: "string \<Rightarrow> regexp option"
  tn_wait :: "'w \<Rightarrow> 'w \<times> 'e option"
  tn_send :: "'j option \<Rightarrow> t_request \<Rightarrow> 'w \<Rightarrow> 'w \<times> ('e, 'e hop) result"
  tn_store :: "'e hop \<Rightarrow> url \<Rightarrow> 'j \<Rightarrow> 'j"
  tn_fresh :: 'j
  tn_redirected :: "t_request \<Rightarrow> 'e hop \<Rightarrow> t_request"
  tn_request_uri :: "url \<Rightarrow> string"

record ('w, 'j) sent_log =
  sl_sent :: "('j option \<times> t_request) list"
  sl_net :: 'w

record 'j simple_client =
  sc_options :: client_options
  sc_max_redirects :: nat
  sc_jar :: "'j option"

text \<open>A number of redirects that is not positive follows none.\<close>

definition max_redirects :: "config \<Rightarrow> nat" where
  "max_redirects c = nat (sint (get_int32 ''max_http_redirects'' 10 (sub_message ''performance'' (GlobalConfig c))))"

definition simple_New :: "('w, 'j, 'e) tool_net \<Rightarrow> config \<Rightarrow> client_options \<Rightarrow> ('e tool_error, 'j simple_client) result" where
  "simple_New tn c co = (case tn_new_client tn c co of
       Some e \<Rightarrow> Inl (ToolClient e)
     | None \<Rightarrow> Inr \<lparr>sc_options = co, sc_max_redirects = max_redirects c,
                    sc_jar = (if StoreCookies co then Some (tn_fresh tn) else None)\<rparr>)"

text \<open>
  The requests that \<open>http.Client.Do\<close> makes for one call: \<open>via\<close> are the URLs requested before and \<open>chain\<close>
  their answers. It returns the answers of the whole chain and the URL of the last request.
\<close>

function simple_hops :: "('w, 'j, 'e) tool_net \<Rightarrow> client_options \<Rightarrow> nat \<Rightarrow> url list \<Rightarrow> 'e hop list \<Rightarrow> t_request
    \<Rightarrow> 'j option \<Rightarrow> ('w, 'j) sent_log \<Rightarrow> ('w, 'j) sent_log \<times> 'j option \<times> ('e tool_error, 'e hop list \<times> url) result" where
  "simple_hops tn co mx via chain req jar w =
     (case tn_send tn jar req (sl_net w) of (w', r) \<Rightarrow>
        let w1 = \<lparr>sl_sent = sl_sent w @ [(jar, req)], sl_net = w'\<rparr>; via' = via @ [tq_url req] in
        case r of
          Inl e \<Rightarrow> (w1, jar, Inl (ToolSend e))
        | Inr h \<Rightarrow>
            let jar' = map_option (tn_store tn h (tq_url req)) jar in
            case hp_location h of
              None \<Rightarrow> (w1, jar', Inr (chain @ [h], tq_url req))
            | Some u \<Rightarrow>
                if CheckRedirect co mx u via' = FollowRedirect
                then simple_hops tn co mx via' (chain @ [h]) ((tn_redirected tn req h)\<lparr>tq_url := u\<rparr>) jar' w1
                else if CheckRedirect co mx u via' = ErrUseLastResponse
                then (w1, jar', Inr (chain @ [h], tq_url req))
                else (w1, jar', Inl ToolRedirects))"
  by pat_completeness auto
termination
  by (relation "measure (\<lambda>(tn, co, mx, via, chain, req, jar, w). mx - length via)")
     (auto simp: CheckRedirect_def split: if_splits)

declare simple_hops.simps [simp del]

text \<open>After a switch of protocols the body is closed and empty.\<close>

definition without_switch :: "'e hop list \<Rightarrow> 'e hop list" where
  "without_switch hops =
     (if hp_status (last hops) = 101 then butlast hops @ [(last hops)\<lparr>hp_body := ([], EndOfFile)\<rparr>] else hops)"

definition simple_Do :: "('w, 'j, 'e) tool_net \<Rightarrow> 'j simple_client \<Rightarrow> t_request \<Rightarrow> ('w, 'j) sent_log
    \<Rightarrow> 'j simple_client \<times> ('w, 'j) sent_log \<times> ('e tool_error, 'e hop list \<times> url) result" where
  "simple_Do tn sc req w = (case tn_wait tn (sl_net w) of
       (w', Some e) \<Rightarrow> (sc, w\<lparr>sl_net := w'\<rparr>, Inl (ToolSend e))
     | (w', None) \<Rightarrow>
         (case simple_hops tn (sc_options sc) (sc_max_redirects sc) [] [] req (sc_jar sc) (w\<lparr>sl_net := w'\<rparr>) of
            (w1, jar, Inl e) \<Rightarrow> (sc\<lparr>sc_jar := jar\<rparr>, w1, Inl e)
          | (w1, jar, Inr (hops, u)) \<Rightarrow> (sc\<lparr>sc_jar := jar\<rparr>, w1, Inr (without_switch hops, u))))"

section \<open>The tool\<close>

record tool_header =
  th_name :: string
  th_value :: string

record tool_request =
  to_method :: string
  to_uri :: string
  to_headers :: "tool_header list"
  to_data :: string
  to_maintain_session :: bool
  to_clear_session :: bool

record tool_response =
  ts_status_code :: "32 word"
  ts_final_uri :: string
  ts_headers :: "string \<Rightarrow> string option"
  ts_content :: string

record 'j http_tool =
  ht_config :: pb_message
  ht_core_config :: config
  ht_service :: network_service
  ht_bad_paths :: "regexp list"
  ht_client :: "'j simple_client"
  ht_stateless_client :: "'j simple_client"
  ht_count_requests :: int

definition get_strings :: "string \<Rightarrow> pb_message \<Rightarrow> string list" where
  "get_strings name m = (case m name of
       Some (VList vs) \<Rightarrow> List.map_filter (\<lambda>v. case v of VString s \<Rightarrow> Some s | _ \<Rightarrow> None) vs
     | _ \<Rightarrow> [])"

definition tool_DefaultConfig :: "string list \<Rightarrow> pb_message" where
  "tool_DefaultConfig defaultForbiddenPaths =
     [''allowed_methods'' \<mapsto> VList [VString ''GET'', VString ''POST''],
      ''forbidden_paths'' \<mapsto> VList (map VString defaultForbiddenPaths)]"

text \<open>\<open>proto.Merge\<close> of a message without submessages: lists are appended, other fields replaced.\<close>

definition proto_Merge :: "pb_message \<Rightarrow> pb_message \<Rightarrow> pb_message" where
  "proto_Merge dst src = (\<lambda>name. case (dst name, src name) of
       (Some (VList xs), Some (VList ys)) \<Rightarrow> Some (VList (xs @ ys))
     | (v, None) \<Rightarrow> v
     | (_, Some v) \<Rightarrow> Some v)"

definition clear_when :: "bool \<Rightarrow> string \<Rightarrow> pb_message \<Rightarrow> pb_message" where
  "clear_when b name m = (if b then m(name := None) else m)"

definition tool_config :: "string list \<Rightarrow> config \<Rightarrow> pb_message" where
  "tool_config defaultForbiddenPaths c =
     (let cfg = tool_DefaultConfig defaultForbiddenPaths;
          tools = sub_message ''tools'' (sub_message ''llm'' (ClientsConfig c))
      in if tools ''http_client_config'' = None then cfg
         else let userCfg = sub_message ''http_client_config'' tools in
           proto_Merge
             (clear_when (get_strings ''forbidden_paths'' userCfg \<noteq> []) ''forbidden_paths''
               (clear_when (get_strings ''allowed_methods'' userCfg \<noteq> []) ''allowed_methods'' cfg))
             userCfg)"

definition compile_paths :: "(string \<Rightarrow> regexp option) \<Rightarrow> string list \<Rightarrow> ('e tool_error, regexp list) result" where
  "compile_paths compile =
     map_result (\<lambda>p. case compile p of None \<Rightarrow> Inl (ToolRegexp p) | Some re \<Rightarrow> Inr re)"

definition tool_options :: "bool \<Rightarrow> regexp list \<Rightarrow> client_options" where
  "tool_options storeCookies badPaths =
     \<lparr>StoreCookies = storeCookies, EnforceTLSCertVerification = False, DisableFollowRedirects = False,
      AllowedAuthorities = [], ForbiddenPaths = badPaths, AllowRedirect = None, RetryOnRateLimit = False\<rparr>"

text \<open>The client of the service: its redirects stay on the authorities of the service.\<close>

definition service_client :: "('w, 'j, 'e) tool_net \<Rightarrow> config \<Rightarrow> bool \<Rightarrow> regexp list \<Rightarrow> network_service
    \<Rightarrow> ('e tool_error, 'j simple_client) result" where
  "service_client tn c storeCookies badPaths service =
     (case LoadAuthorities (tool_options storeCookies badPaths) service of
        Inl e \<Rightarrow> Inl (ToolEndpoint e)
      | Inr co \<Rightarrow> simple_New tn c co)"

definition clearSession :: "('w, 'j, 'e) tool_net \<Rightarrow> 'j http_tool \<Rightarrow> ('e tool_error, 'j http_tool) result" where
  "clearSession tn t =
     (case service_client tn (ht_core_config t) True (ht_bad_paths t) (ht_service t) of
        Inl e \<Rightarrow> Inl e
      | Inr sc \<Rightarrow> Inr (t\<lparr>ht_client := sc\<rparr>))"

text \<open>\<open>newTool\<close> sets the client of the session by a first \<open>clearSession\<close>.\<close>

definition newTool :: "('w, 'j, 'e) tool_net \<Rightarrow> string list \<Rightarrow> config \<Rightarrow> network_service
    \<Rightarrow> ('e tool_error, 'j http_tool) result" where
  "newTool tn defaultForbiddenPaths c service =
     (let cfg = tool_config defaultForbiddenPaths c in
      case compile_paths (tn_compile tn) (get_strings ''forbidden_paths'' cfg) of
        Inl e \<Rightarrow> Inl e
      | Inr badPaths \<Rightarrow>
          (case service_client tn c False badPaths service of
             Inl e \<Rightarrow> Inl e
           | Inr stateless \<Rightarrow>
               clearSession tn \<lparr>ht_config = cfg, ht_core_config = c, ht_service = service, ht_bad_paths = badPaths,
                 ht_client = stateless, ht_stateless_client = stateless, ht_count_requests = 0\<rparr>))"

definition increaseRequestCount :: "'j http_tool \<Rightarrow> 'j http_tool" where
  "increaseRequestCount t = t\<lparr>ht_count_requests := ht_count_requests t + 1\<rparr>"

definition numberOfRequests :: "'j http_tool \<Rightarrow> int" where
  "numberOfRequests t = ht_count_requests t"

definition max_requests_per_service :: "pb_message \<Rightarrow> int" where
  "max_requests_per_service m = sint (get_int32 ''max_requests_per_service'' 50 m)"

definition max_answer_size :: "pb_message \<Rightarrow> int" where
  "max_answer_size m = sint (get_int32 ''max_answer_size_bytes'' 1048576 m)"

definition getClient :: "bool \<Rightarrow> 'j http_tool \<Rightarrow> 'j simple_client" where
  "getClient maintainSession t = (if maintainSession then ht_client t else ht_stateless_client t)"

fun set_headers :: "tool_header list \<Rightarrow> (string \<times> string) list \<Rightarrow> (string \<times> string) list" where
  "set_headers [] hs = hs"
| "set_headers (h # rest) hs =
     set_headers rest (if th_name h = [] then hs else header_Set (th_name h) (th_value h) hs)"

text \<open>An empty method is the one of a GET request.\<close>

definition prepareRequest :: "'j http_tool \<Rightarrow> tool_request \<Rightarrow> ('e tool_error, t_request) result" where
  "prepareRequest t rq =
     (let uri = to_uri rq in
      if \<not> has_prefix uri ''/'' \<or> str_contains uri ''://'' \<or> str_contains uri '':'' then Inl ErrInvalidURI
      else if to_method rq \<notin> set (get_strings ''allowed_methods'' (ht_config t)) then Inl ErrInvalidMethod
      else if max_requests_per_service (ht_config t) \<le> numberOfRequests t then Inl ErrTooManyRequests
      else case BuildWebRoot (ht_service t) of
          Inl e \<Rightarrow> Inl (ToolEndpoint e)
        | Inr webroot \<Rightarrow>
            if \<not> method_ok (to_method rq) then Inl ToolRequest
            else case url_Parse (webroot @ uri) of
                None \<Rightarrow> Inl ToolRequest
              | Some u \<Rightarrow>
                  if IsURLPathForbidden (Some u) (ht_bad_paths t) then Inl ErrContentDenied
                  else Inr \<lparr>tq_method = (if to_method rq = [] then ''GET'' else to_method rq), tq_url = u,
                            tq_headers = set_headers (to_headers rq) [], tq_body = to_data rq\<rparr>)"

definition relevantResponseHeaders :: "string list" where
  "relevantResponseHeaders =
     [''Content-Type'', ''Location'', ''Refresh'', ''Server'', ''Set-Cookie'', ''Www-Authenticate'']"

definition hop_values :: "'e hop \<Rightarrow> string \<Rightarrow> string list" where
  "hop_values h key = (case map_of (hp_headers h) key of None \<Rightarrow> [] | Some vs \<Rightarrow> vs)"

text \<open>The answers come in the order of the requests; the last one is the final response.\<close>

definition extractRelevantHeaders :: "'e hop list \<Rightarrow> string \<Rightarrow> string option" where
  "extractRelevantHeaders hops =
     (if hops = [] then Map.empty
      else
        let resp = last hops;
            extracted = (\<lambda>key. if key \<in> set relevantResponseHeaders \<and> hop_values resp key \<noteq> []
                               then Some (join '', '' (hop_values resp key)) else None)
        in if length hops \<le> 1 then extracted
           else let cookies = concat (map (\<lambda>h. hop_values h ''Set-Cookie'') hops) in
             if cookies \<noteq> [] then extracted(''Set-Cookie'' \<mapsto> join '', '' cookies) else extracted)"

definition build_response :: "('w, 'j, 'e) tool_net \<Rightarrow> 'j http_tool \<Rightarrow> 'e hop list \<times> url
    \<Rightarrow> ('e tool_error, tool_response) result" where
  "build_response tn t result =
     (let (hops, u) = result; resp = last hops; maxsize = max_answer_size (ht_config t) in
      if maxsize < 0 then Inl ToolBufferPanic
      else case ReadBody (hp_body resp) (nat maxsize) of
          Inl e \<Rightarrow> Inl (ToolBody e)
        | Inr content \<Rightarrow>
            Inr \<lparr>ts_status_code = word_of_int (hp_status resp), ts_final_uri = tn_request_uri tn u,
                 ts_headers = extractRelevantHeaders hops, ts_content = content\<rparr>)"

definition keep_client :: "bool \<Rightarrow> 'j simple_client \<Rightarrow> 'j http_tool \<Rightarrow> 'j http_tool" where
  "keep_client maintainSession sc t = (if maintainSession then t\<lparr>ht_client := sc\<rparr> else t)"

definition tool_Do :: "('w, 'j, 'e) tool_net \<Rightarrow> tool_request \<Rightarrow> 'j http_tool \<times> ('w, 'j) sent_log
    \<Rightarrow> ('j http_tool \<times> ('w, 'j) sent_log) \<times> ('e tool_error, tool_response) result" where
  "tool_Do tn rq tw =
     (let (t, w) = tw in
      if tn_done tn (sl_net w) then ((t, w), Inl ToolContextDone)
      else case prepareRequest t rq of
          Inl e \<Rightarrow> ((t, w), Inl e)
        | Inr req \<Rightarrow>
            let t1 = increaseRequestCount t in
            case (if to_clear_session rq then clearSession tn t1 else Inr t1) of
              Inl e \<Rightarrow> ((t1, w), Inl e)
            | Inr t2 \<Rightarrow>
                (case simple_Do tn (getClient (to_maintain_session rq) t2) req w of
                   (sc, w1, r) \<Rightarrow>
                     ((keep_client (to_maintain_session rq) sc t2, w1),
                      case r of Inl e \<Rightarrow> Inl e | Inr hops \<Rightarrow> build_response tn t2 hops)))"

text \<open>The calls that an agent makes, one after the other.\<close>

fun tool_calls :: "('w, 'j, 'e) tool_net \<Rightarrow> tool_request list \<Rightarrow> 'j http_tool \<times> ('w, 'j) sent_log
    \<Rightarrow> 'j http_tool \<times> ('w, 'j) sent_log" where
  "tool_calls tn [] tw = tw"
| "tool_calls tn (rq # rqs) tw = tool_calls tn rqs (fst (tool_Do tn rq tw))"

section \<open>The requests of a call\<close>

definition logged_ok :: "client_options \<Rightarrow> bool \<Rightarrow> 'j option \<times> t_request \<Rightarrow> bool" where
  "logged_ok co jarred e = (IsAuthorityAllowed co (tq_url (snd e))
     \<and> \<not> IsURLPathForbidden (Some (tq_url (snd e))) (ForbiddenPaths co) \<and> (fst e \<noteq> None \<longleftrightarrow> jarred))"

lemma CheckRedirect_follow:
  assumes "CheckRedirect co mx u via = FollowRedirect"
  shows "IsAuthorityAllowed co u" "\<not> IsURLPathForbidden (Some u) (ForbiddenPaths co)" "length via < mx"
  using assms by (auto simp: CheckRedirect_def IsRedirectAllowed_def split: if_splits)

text \<open>
  One call sends its request and then only requests that passed the check of redirects, all with a
  jar or all without one, and the jar it returns exists when the one it started with does.
\<close>

lemma simple_hops_sent:
  "case simple_hops tn co mx via chain req jar w of (w', jar', r) \<Rightarrow>
     (jar' = None \<longleftrightarrow> jar = None) \<and>
     (\<exists>qs. sl_sent w' = sl_sent w @ (jar, req) # qs \<and> Suc (length via) + length qs \<le> max mx (Suc (length via))
        \<and> list_all (logged_ok co (jar \<noteq> None)) qs)"
proof (induction tn co mx via chain req jar w rule: simple_hops.induct)
  case (1 tn co mx via chain req jar w)
  obtain w' r where send: "tn_send tn jar req (sl_net w) = (w', r)" by (cases "tn_send tn jar req (sl_net w)")
  let ?w1 = "\<lparr>sl_sent = sl_sent w @ [(jar, req)], sl_net = w'\<rparr>"
  let ?via = "via @ [tq_url req]"
  show ?case
  proof (cases "\<exists>h u. r = Inr h \<and> hp_location h = Some u \<and> CheckRedirect co mx u ?via = FollowRedirect")
    case True
    then obtain h u where h: "r = Inr h" "hp_location h = Some u" "CheckRedirect co mx u ?via = FollowRedirect" by blast
    let ?jar = "map_option (tn_store tn h (tq_url req)) jar"
    let ?req = "(tn_redirected tn req h)\<lparr>tq_url := u\<rparr>"
    have step: "simple_hops tn co mx via chain req jar w = simple_hops tn co mx ?via (chain @ [h]) ?req ?jar ?w1"
      by (subst simple_hops.simps) (simp add: send h)
    have ok: "logged_ok co (jar \<noteq> None) (?jar, ?req)"
      using CheckRedirect_follow [OF h(3)] by (simp add: logged_ok_def)
    obtain w2 jar2 r2 where res: "simple_hops tn co mx ?via (chain @ [h]) ?req ?jar ?w1 = (w2, jar2, r2)"
      by (metis prod_cases3)
    from "1.IH" [OF send [symmetric] refl refl h(1) refl h(2) h(3)]
    obtain qs where "(jar2 = None) = (jar = None)" "sl_sent w2 = sl_sent w @ (jar, req) # (?jar, ?req) # qs"
        "Suc (Suc (length via)) + length qs \<le> max mx (Suc (Suc (length via)))"
        "list_all (logged_ok co (jar \<noteq> None)) qs"
      unfolding res by auto
    moreover have "Suc (length via) < mx" using CheckRedirect_follow(3) [OF h(3)] by simp
    ultimately show ?thesis unfolding step res using ok
      by (auto intro!: exI [of _ "(?jar, ?req) # qs"] simp: max_def split: if_splits)
  next
    case False
    then have "\<exists>jar' r'. simple_hops tn co mx via chain req jar w = (?w1, jar', r') \<and> (jar' = None \<longleftrightarrow> jar = None)"
      by (subst simple_hops.simps) (auto simp: send Let_def split: sum.splits option.splits)
    then show ?thesis by auto
  qed
qed

lemma simple_Do_sent:
  "case simple_Do tn sc req w of (sc', w', r) \<Rightarrow>
     sc_options sc' = sc_options sc \<and> sc_max_redirects sc' = sc_max_redirects sc
     \<and> (sc_jar sc' = None \<longleftrightarrow> sc_jar sc = None)
     \<and> (\<exists>qs. sl_sent w' = sl_sent w @ qs \<and> length qs \<le> max (sc_max_redirects sc) 1
        \<and> (qs = [] \<or> hd qs = (sc_jar sc, req)) \<and> list_all (logged_ok (sc_options sc) (sc_jar sc \<noteq> None)) (tl qs))"
proof -
  obtain w1 e where wait: "tn_wait tn (sl_net w) = (w1, e)" by (cases "tn_wait tn (sl_net w)")
  obtain w2 jar r where hops: "simple_hops tn (sc_options sc) (sc_max_redirects sc) [] [] req (sc_jar sc) (w\<lparr>sl_net := w1\<rparr>)
      = (w2, jar, r)" by (metis prod_cases3)
  from simple_hops_sent [where tn = tn and co = "sc_options sc" and mx = "sc_max_redirects sc" and via = "[]"
      and chain = "[]" and req = req and jar = "sc_jar sc" and w = "w\<lparr>sl_net := w1\<rparr>"]
  obtain qs where "jar = None \<longleftrightarrow> sc_jar sc = None" "sl_sent w2 = sl_sent w @ (sc_jar sc, req) # qs"
      "Suc (length qs) \<le> max (sc_max_redirects sc) 1" "list_all (logged_ok (sc_options sc) (sc_jar sc \<noteq> None)) qs"
    unfolding hops by auto
  then show ?thesis
    by (cases e) (auto simp: simple_Do_def wait hops split: sum.splits intro!: exI [of _ "(sc_jar sc, req) # qs"])
qed

section \<open>The invariant of the tool\<close>

definition service_options :: "string list \<Rightarrow> regexp list \<Rightarrow> bool \<Rightarrow> client_options" where
  "service_options auths bad jarred = (tool_options jarred bad)\<lparr>AllowedAuthorities := auths\<rparr>"

definition client_ok :: "string list \<Rightarrow> regexp list \<Rightarrow> config \<Rightarrow> bool \<Rightarrow> 'j simple_client \<Rightarrow> bool" where
  "client_ok auths bad c jarred sc =
     (sc_options sc = service_options auths bad jarred \<and> sc_max_redirects sc = max_redirects c
      \<and> (sc_jar sc \<noteq> None \<longleftrightarrow> jarred))"

definition tool_ok :: "pb_message \<Rightarrow> config \<Rightarrow> network_service \<Rightarrow> regexp list \<Rightarrow> string list \<Rightarrow> 'j http_tool \<Rightarrow> bool" where
  "tool_ok cfg c service bad auths t =
     (ht_config t = cfg \<and> ht_core_config t = c \<and> ht_service t = service \<and> ht_bad_paths t = bad
      \<and> client_ok auths bad c True (ht_client t) \<and> client_ok auths bad c False (ht_stateless_client t))"

text \<open>What the tool may send: a URL of an authority of the service, whose path is not forbidden.\<close>

definition permitted :: "string list \<Rightarrow> regexp list \<Rightarrow> url \<Rightarrow> bool" where
  "permitted auths bad u = (list_ex (authority_matches u) auths \<and> \<not> IsURLPathForbidden (Some u) bad)"

lemma service_client_ok:
  assumes "ToURIAuthorities (get_endpoint service) = Inr auths"
    and "service_client tn c jarred bad service = Inr sc"
  shows "client_ok auths bad c jarred sc" "jarred \<Longrightarrow> sc_jar sc = Some (tn_fresh tn)"
proof -
  have "ToURIAuthorities empty_endpoint = Inl ErrEndpointMissingAddress"
    by (simp add: ToURIAuthorities_def empty_endpoint_def ep_host_def ep_address_def)
  then obtain e where "sv_endpoint service = Some e" "ToURIAuthorities e = Inr auths"
    using assms(1) by (cases "sv_endpoint service") (auto simp: get_endpoint_def)
  then have "LoadAuthorities (tool_options jarred bad) service = Inr (service_options auths bad jarred)"
    by (simp add: LoadAuthorities_def service_options_def)
  moreover have "StoreCookies (service_options auths bad jarred) = jarred"
    by (simp add: service_options_def tool_options_def)
  ultimately show "client_ok auths bad c jarred sc" "jarred \<Longrightarrow> sc_jar sc = Some (tn_fresh tn)"
    using assms(2) by (auto simp: service_client_def simple_New_def client_ok_def split: option.splits)
qed

lemma clearSession_ok:
  assumes "tool_ok cfg c service bad auths t" and "ToURIAuthorities (get_endpoint service) = Inr auths"
    and "clearSession tn t = Inr t'"
  shows "tool_ok cfg c service bad auths t'" "ht_count_requests t' = ht_count_requests t"
    "sc_jar (ht_client t') = Some (tn_fresh tn)" "ht_stateless_client t' = ht_stateless_client t"
  using assms service_client_ok [OF assms(2)]
  by (auto simp: clearSession_def tool_ok_def split: sum.splits)

lemma newTool_ok:
  assumes "newTool tn defaults c service = Inr t" and "ToURIAuthorities (get_endpoint service) = Inr auths"
  shows "tool_ok (ht_config t) c service (ht_bad_paths t) auths t \<and> ht_count_requests t = 0
    \<and> sc_jar (ht_client t) = Some (tn_fresh tn)"
proof -
  obtain bad stateless where s: "service_client tn c False bad service = Inr stateless"
      "clearSession tn \<lparr>ht_config = tool_config defaults c, ht_core_config = c, ht_service = service, ht_bad_paths = bad,
         ht_client = stateless, ht_stateless_client = stateless, ht_count_requests = 0\<rparr> = Inr t"
    using assms(1) by (auto simp: newTool_def Let_def split: sum.splits)
  then obtain sc where "service_client tn c True bad service = Inr sc" "t = \<lparr>ht_config = tool_config defaults c,
      ht_core_config = c, ht_service = service, ht_bad_paths = bad, ht_client = sc, ht_stateless_client = stateless,
      ht_count_requests = 0\<rparr>"
    by (auto simp: clearSession_def split: sum.splits)
  with service_client_ok [OF assms(2) s(1)] service_client_ok [OF assms(2) this(1)]
  show ?thesis by (simp add: tool_ok_def)
qed

lemma authority_matches_host [simp]: "u_host u = a \<Longrightarrow> authority_matches u a"
  by (auto simp: authority_matches_def)

lemma prepareRequest_ok:
  assumes "prepareRequest t rq = Inr req" and "ToURIAuthorities (get_endpoint (ht_service t)) = Inr auths"
    and "parse_authority (hd auths) = Some (hd auths)"
  shows "permitted auths (ht_bad_paths t) (tq_url req)"
    "ht_count_requests t < max_requests_per_service (ht_config t)"
proof -
  let ?sch = "if HasTLS (ht_service t) then ''https'' else ''http''"
  have "auths \<noteq> []" using assms(2) by (auto simp: ToURIAuthorities_def Let_def split: if_splits)
  then have root: "BuildWebRoot (ht_service t) = Inr (?sch @ ''://'' @ hd auths)"
    using assms(2) by (simp add: BuildWebRoot_def BuildAllWebRoots_def hd_map)
  with assms(1) have "has_prefix (to_uri rq) ''/''" "ht_count_requests t < max_requests_per_service (ht_config t)"
      "url_Parse (?sch @ ''://'' @ hd auths @ to_uri rq) = Some (tq_url req)"
      "\<not> IsURLPathForbidden (Some (tq_url req)) (ht_bad_paths t)"
    unfolding prepareRequest_def Let_def root
    by (auto simp del: if_splits simp: numberOfRequests_def split: if_split_asm option.splits)
  moreover from this have "u_host (tq_url req) = hd auths"
    using url_Parse_rooted [of ?sch "hd auths"] assms(3) by auto
  ultimately show "permitted auths (ht_bad_paths t) (tq_url req)"
      "ht_count_requests t < max_requests_per_service (ht_config t)"
    using \<open>auths \<noteq> []\<close> by (auto simp: permitted_def list_ex_iff intro!: bexI [of _ "hd auths"])
qed

lemma logged_permitted:
  "client_ok auths bad c jarred sc \<Longrightarrow> auths \<noteq> [] \<Longrightarrow> logged_ok (sc_options sc) j e \<Longrightarrow> permitted auths bad (tq_url (snd e))"
  by (simp add: client_ok_def service_options_def tool_options_def logged_ok_def permitted_def IsAuthorityAllowed_def)

lemma simple_Do_permitted:
  assumes "client_ok auths bad c jarred sc" and "auths \<noteq> []" and "permitted auths bad (tq_url req)"
  shows "case simple_Do tn sc req w of (sc', w', r) \<Rightarrow> client_ok auths bad c jarred sc'
    \<and> (\<exists>qs. sl_sent w' = sl_sent w @ qs \<and> length qs \<le> max (max_redirects c) 1
         \<and> list_all (\<lambda>e. permitted auths bad (tq_url (snd e)) \<and> (fst e \<noteq> None \<longleftrightarrow> jarred)) qs
         \<and> (qs = [] \<or> fst (hd qs) = sc_jar sc))"
proof -
  obtain sc' w' r where d: "simple_Do tn sc req w = (sc', w', r)" by (metis prod_cases3)
  from simple_Do_sent [where tn = tn and sc = sc and req = req and w = w] assms(1)
  obtain qs where qs: "sl_sent w' = sl_sent w @ qs" "length qs \<le> max (max_redirects c) 1"
      "qs = [] \<or> hd qs = (sc_jar sc, req)" "list_all (logged_ok (sc_options sc) jarred) (tl qs)"
      and ok: "client_ok auths bad c jarred sc'"
    unfolding d by (auto simp: client_ok_def)
  have tail: "list_all (\<lambda>e. permitted auths bad (tq_url (snd e)) \<and> (fst e \<noteq> None \<longleftrightarrow> jarred)) (tl qs)"
    using qs(4)
  proof (rule list.pred_mono_strong)
    fix e
    assume "logged_ok (sc_options sc) jarred e"
    then show "permitted auths bad (tq_url (snd e)) \<and> (fst e \<noteq> None \<longleftrightarrow> jarred)"
      using logged_permitted [OF assms(1,2)] by (auto simp: logged_ok_def)
  qed
  have "list_all (\<lambda>e. permitted auths bad (tq_url (snd e)) \<and> (fst e \<noteq> None \<longleftrightarrow> jarred)) qs"
    using qs(3) tail assms(1,3) by (cases qs) (auto simp: client_ok_def)
  with qs ok show ?thesis unfolding d by auto
qed

text \<open>One call: it is refused and sends nothing, or counts once and sends permitted requests.\<close>

definition jar_before :: "('w, 'j, 'e) tool_net \<Rightarrow> tool_request \<Rightarrow> 'j http_tool \<Rightarrow> 'j option" where
  "jar_before tn rq t = (if to_clear_session rq then Some (tn_fresh tn) else sc_jar (ht_client t))"

lemma tool_Do_step:
  assumes ok: "tool_ok cfg c service bad auths t" and auths: "ToURIAuthorities (get_endpoint service) = Inr auths"
    and plain: "parse_authority (hd auths) = Some (hd auths)"
  shows "case tool_Do tn rq (t, w) of ((t', w'), r) \<Rightarrow> tool_ok cfg c service bad auths t' \<and>
    (\<exists>qs. sl_sent w' = sl_sent w @ qs
       \<and> list_all (\<lambda>e. permitted auths bad (tq_url (snd e)) \<and> (fst e \<noteq> None \<longleftrightarrow> to_maintain_session rq)) qs
       \<and> (qs = [] \<or> \<not> to_maintain_session rq \<or> fst (hd qs) = jar_before tn rq t)
       \<and> (to_maintain_session rq \<or> sc_jar (ht_client t') \<in> {sc_jar (ht_client t), jar_before tn rq t})
       \<and> (ht_count_requests t' = ht_count_requests t \<and> qs = []
          \<or> ht_count_requests t < max_requests_per_service cfg \<and> ht_count_requests t' = ht_count_requests t + 1
            \<and> length qs \<le> max (max_redirects c) 1))"
proof (cases "tn_done tn (sl_net w) \<or> (\<exists>e. prepareRequest t rq = (Inl e :: ('c tool_error, _) result))")
  case True
  then show ?thesis using ok by (auto simp: tool_Do_def)
next
  case False
  then obtain req where go: "\<not> tn_done tn (sl_net w)" "prepareRequest t rq = (Inr req :: ('c tool_error, _) result)"
    by (cases "prepareRequest t rq :: ('c tool_error, _) result") auto
  have fields: "ht_config t = cfg" "ht_service t = service" "ht_bad_paths t = bad"
    using ok by (simp_all add: tool_ok_def)
  have req: "permitted auths bad (tq_url req)" "ht_count_requests t < max_requests_per_service cfg"
    using prepareRequest_ok [OF go(2)] auths plain fields by simp_all
  have "auths \<noteq> []" using auths by (auto simp: ToURIAuthorities_def Let_def split: if_splits)
  let ?t1 = "increaseRequestCount t"
  let ?m = "to_maintain_session rq"
  have ok1: "tool_ok cfg c service bad auths ?t1" using ok by (simp add: tool_ok_def increaseRequestCount_def)
  show ?thesis
  proof (cases "if to_clear_session rq then clearSession tn ?t1 else Inr ?t1")
    case (Inl e)
    then have "tool_Do tn rq (t, w) = ((?t1, w), Inl e)" by (simp add: tool_Do_def go)
    then show ?thesis using ok1 req by (simp add: increaseRequestCount_def)
  next
    case (Inr t2)
    then have t2: "tool_ok cfg c service bad auths t2" "ht_count_requests t2 = ht_count_requests t + 1"
        "sc_jar (ht_client t2) = jar_before tn rq t"
      using ok1 clearSession_ok [OF ok1 auths]
      by (auto simp: increaseRequestCount_def jar_before_def split: if_splits)
    then have cl: "client_ok auths bad c ?m (getClient ?m t2)" by (simp add: tool_ok_def getClient_def)
    obtain sc w1 r where d: "simple_Do tn (getClient ?m t2) req w = (sc, w1, r)" by (metis prod_cases3)
    from simple_Do_permitted [OF cl \<open>auths \<noteq> []\<close> req(1), where tn = tn and w = w]
    obtain qs where qs: "client_ok auths bad c ?m sc" "sl_sent w1 = sl_sent w @ qs" "length qs \<le> max (max_redirects c) 1"
        "list_all (\<lambda>e. permitted auths bad (tq_url (snd e)) \<and> (fst e \<noteq> None \<longleftrightarrow> ?m)) qs"
        "qs = [] \<or> fst (hd qs) = sc_jar (getClient ?m t2)" unfolding d by auto
    have "tool_ok cfg c service bad auths (keep_client ?m sc t2)"
      using t2(1) qs(1) by (cases ?m) (simp_all add: tool_ok_def keep_client_def)
    moreover have "ht_count_requests (keep_client ?m sc t2) = ht_count_requests t + 1"
      using t2(2) by (simp add: keep_client_def)
    moreover have "?m \<or> sc_jar (ht_client (keep_client ?m sc t2)) \<in> {sc_jar (ht_client t), jar_before tn rq t}"
      using t2(3) by (simp add: keep_client_def)
    moreover have "qs = [] \<or> \<not> ?m \<or> fst (hd qs) = jar_before tn rq t"
      using qs(5) t2(3) by (auto simp: getClient_def)
    moreover have "\<exists>r'. tool_Do tn rq (t, w) = ((keep_client ?m sc t2, w1), r')"
      using Inr by (simp add: tool_Do_def go d)
    ultimately show ?thesis using req(2) qs(2,3,4) by auto
  qed
qed

text \<open>The invariant over any number of calls.\<close>

lemma tool_calls_inv:
  assumes "tool_ok cfg c service bad auths t"
    and "ToURIAuthorities (get_endpoint service) = Inr auths" and "parse_authority (hd auths) = Some (hd auths)"
  shows "\<exists>qs. tool_ok cfg c service bad auths (fst (tool_calls tn rqs (t, w)))
     \<and> sl_sent (snd (tool_calls tn rqs (t, w))) = sl_sent w @ qs
     \<and> ht_count_requests t \<le> ht_count_requests (fst (tool_calls tn rqs (t, w)))
     \<and> ht_count_requests (fst (tool_calls tn rqs (t, w))) \<le> max (ht_count_requests t) (max_requests_per_service cfg)
     \<and> int (length qs) \<le> (ht_count_requests (fst (tool_calls tn rqs (t, w))) - ht_count_requests t)
          * int (max (max_redirects c) 1)
     \<and> list_all (\<lambda>e. permitted auths bad (tq_url (snd e))) qs"
    using assms(1)
proof (induction rqs arbitrary: t w)
    case Nil
    then show ?case by simp
  next
    case (Cons rq rqs)
    obtain t1 w1 r where d: "tool_Do tn rq (t, w) = ((t1, w1), r)" by (metis prod.exhaust)
    from tool_Do_step [OF Cons.prems assms(2,3), where tn = tn and rq = rq and w = w]
    obtain qs where qs: "tool_ok cfg c service bad auths t1" "sl_sent w1 = sl_sent w @ qs"
        "list_all (\<lambda>e. permitted auths bad (tq_url (snd e))) qs"
        "ht_count_requests t1 = ht_count_requests t \<and> qs = []
         \<or> ht_count_requests t < max_requests_per_service cfg \<and> ht_count_requests t1 = ht_count_requests t + 1 \<and> int (length qs) \<le> int (max (max_redirects c) 1)"
      unfolding d by (auto simp: list_all_iff)
    from Cons.IH [OF qs(1), of w1] obtain ps where ps:
        "tool_ok cfg c service bad auths (fst (tool_calls tn rqs (t1, w1)))" "sl_sent (snd (tool_calls tn rqs (t1, w1))) = sl_sent w1 @ ps"
        "ht_count_requests t1 \<le> ht_count_requests (fst (tool_calls tn rqs (t1, w1)))"
        "ht_count_requests (fst (tool_calls tn rqs (t1, w1))) \<le> max (ht_count_requests t1) (max_requests_per_service cfg)"
        "int (length ps) \<le> (ht_count_requests (fst (tool_calls tn rqs (t1, w1))) - ht_count_requests t1) * int (max (max_redirects c) 1)"
        "list_all (\<lambda>e. permitted auths bad (tq_url (snd e))) ps" by blast
    have "int (length (qs @ ps)) \<le> (ht_count_requests (fst (tool_calls tn rqs (t1, w1))) - ht_count_requests t) * int (max (max_redirects c) 1)"
      using qs(4) ps(5) by (auto simp: algebra_simps)
    with ps qs show ?case by (intro exI [of _ "qs @ ps"]) (auto simp: d)
  qed

section \<open>Concurrent calls\<close>

text \<open>
  The development kit runs the calls of an agent in goroutines of their own, and only the counter and the client of
  the session are guarded by the mutex of the tool. A call goes through the states of \<open>Do\<close>: it is
  asked for, has passed all checks of \<open>prepareRequest\<close>, is counted, has cleared the session if it must, and then sends one
  request after the other until it has its answer. The calls share the cookie jars of their clients, so what a jar
  holds when a request leaves is any content.
\<close>

datatype 'e tool_call =
    Asked tool_request
  | Prepared tool_request t_request
  | Counted tool_request t_request
  | Ready tool_request t_request
  | Requesting client_options nat bool "url list" "'e hop list" t_request
  | Answered "('e tool_error, tool_response) result"

text \<open>What \<open>http.Client.Do\<close> does after the answer to a request.\<close>

definition finish_call :: "('w, 'j, 'e) tool_net \<Rightarrow> 'j http_tool \<Rightarrow> ('e tool_error, 'e hop list \<times> url) result \<Rightarrow> 'e tool_call" where
  "finish_call tn t r = Answered (case r of Inl e \<Rightarrow> Inl e | Inr (hops, u) \<Rightarrow> build_response tn t (without_switch hops, u))"

definition after_answer :: "('w, 'j, 'e) tool_net \<Rightarrow> 'j http_tool \<Rightarrow> client_options \<Rightarrow> nat \<Rightarrow> bool \<Rightarrow> url list \<Rightarrow> 'e hop list
    \<Rightarrow> t_request \<Rightarrow> ('e, 'e hop) result \<Rightarrow> 'e tool_call" where
  "after_answer tn t co mx jarred via chain req r = (case r of
       Inl e \<Rightarrow> finish_call tn t (Inl (ToolSend e))
     | Inr h \<Rightarrow> (case hp_location h of
           None \<Rightarrow> finish_call tn t (Inr (chain @ [h], tq_url req))
         | Some u \<Rightarrow>
             let via' = via @ [tq_url req] in
             if CheckRedirect co mx u via' = FollowRedirect
             then Requesting co mx jarred via' (chain @ [h]) ((tn_redirected tn req h)\<lparr>tq_url := u\<rparr>)
             else if CheckRedirect co mx u via' = ErrUseLastResponse
             then finish_call tn t (Inr (chain @ [h], tq_url req))
             else finish_call tn t (Inl ToolRedirects)))"

inductive call_step :: "('w, 'j, 'e) tool_net \<Rightarrow> 'j http_tool \<times> ('w, 'j) sent_log \<times> 'e tool_call
    \<Rightarrow> 'j http_tool \<times> ('w, 'j) sent_log \<times> 'e tool_call \<Rightarrow> bool" for tn where
  context_done: "tn_done tn (sl_net w) \<Longrightarrow> call_step tn (t, w, Asked rq) (t, w, Answered (Inl ToolContextDone))"
| refuse: "\<not> tn_done tn (sl_net w) \<Longrightarrow> prepareRequest t rq = Inl e \<Longrightarrow> call_step tn (t, w, Asked rq) (t, w, Answered (Inl e))"
| prepare: "\<not> tn_done tn (sl_net w) \<Longrightarrow> prepareRequest t rq = (Inr req :: ('e tool_error, t_request) result) \<Longrightarrow>
    call_step tn (t, w, Asked rq) (t, w, Prepared rq req)"
| count: "call_step tn (t, w, Prepared rq req) (increaseRequestCount t, w, Counted rq req)"
| keep: "\<not> to_clear_session rq \<Longrightarrow> call_step tn (t, w, Counted rq req) (t, w, Ready rq req)"
| clear: "to_clear_session rq \<Longrightarrow> clearSession tn t = Inr t' \<Longrightarrow> call_step tn (t, w, Counted rq req) (t', w, Ready rq req)"
| clear_fails: "to_clear_session rq \<Longrightarrow> clearSession tn t = Inl e \<Longrightarrow>
    call_step tn (t, w, Counted rq req) (t, w, Answered (Inl e))"
| limited: "tn_wait tn (sl_net w) = (w', Some e) \<Longrightarrow>
    call_step tn (t, w, Ready rq req) (t, w\<lparr>sl_net := w'\<rparr>, Answered (Inl (ToolSend e)))"
| open_client: "tn_wait tn (sl_net w) = (w', None) \<Longrightarrow> getClient (to_maintain_session rq) t = sc \<Longrightarrow>
    call_step tn (t, w, Ready rq req)
      (t, w\<lparr>sl_net := w'\<rparr>, Requesting (sc_options sc) (sc_max_redirects sc) (sc_jar sc \<noteq> None) [] [] req)"
| send: "(jar \<noteq> None) = jarred \<Longrightarrow> tn_send tn jar req (sl_net w) = (w', r) \<Longrightarrow>
    call_step tn (t, w, Requesting co mx jarred via chain req)
      (t, \<lparr>sl_sent = sl_sent w @ [(jar, req)], sl_net = w'\<rparr>, after_answer tn t co mx jarred via chain req r)"

text \<open>The tool with its calls, of which at most \<open>k\<close> run at the same time.\<close>

record ('w, 'j, 'e) tool_run =
  tr_tool :: "'j http_tool"
  tr_log :: "('w, 'j) sent_log"
  tr_calls :: "'e tool_call list"

definition call_running :: "'e tool_call \<Rightarrow> bool" where
  "call_running call = (case call of Asked rq \<Rightarrow> False | Answered r \<Rightarrow> False | _ \<Rightarrow> True)"

definition running :: "'e tool_call list \<Rightarrow> nat" where
  "running calls = length (filter call_running calls)"

inductive tool_step :: "('w, 'j, 'e) tool_net \<Rightarrow> nat \<Rightarrow> ('w, 'j, 'e) tool_run \<Rightarrow> ('w, 'j, 'e) tool_run \<Rightarrow> bool" for tn k where
  call: "i < length (tr_calls s) \<Longrightarrow> call_step tn (tr_tool s, tr_log s, tr_calls s ! i) (t, w, call) \<Longrightarrow>
    running ((tr_calls s)[i := call]) \<le> k \<Longrightarrow>
    tool_step tn k s \<lparr>tr_tool = t, tr_log = w, tr_calls = (tr_calls s)[i := call]\<rparr>"

definition tool_start :: "'j http_tool \<Rightarrow> ('w, 'j) sent_log \<Rightarrow> tool_request list \<Rightarrow> ('w, 'j, 'e) tool_run" where
  "tool_start t w rqs = \<lparr>tr_tool = t, tr_log = w, tr_calls = map Asked rqs\<rparr>"

text \<open>The requests that a counted call may still send, and the calls that have passed the check of the budget and
  are not counted yet.\<close>

fun allowance :: "nat \<Rightarrow> 'e tool_call \<Rightarrow> nat" where
  "allowance n (Counted rq req) = n"
| "allowance n (Ready rq req) = n"
| "allowance n (Requesting co mx jarred via chain req) = n - length via"
| "allowance n _ = 0"

fun uncounted :: "'e tool_call \<Rightarrow> nat" where
  "uncounted (Prepared rq req) = 1"
| "uncounted _ = 0"

fun call_ok :: "config \<Rightarrow> regexp list \<Rightarrow> string list \<Rightarrow> 'e tool_call \<Rightarrow> bool" where
  "call_ok c bad auths (Prepared rq req) = permitted auths bad (tq_url req)"
| "call_ok c bad auths (Counted rq req) = permitted auths bad (tq_url req)"
| "call_ok c bad auths (Ready rq req) = permitted auths bad (tq_url req)"
| "call_ok c bad auths (Requesting co mx jarred via chain req) =
     (co = service_options auths bad jarred \<and> mx = max_redirects c \<and> length via < max (max_redirects c) 1
      \<and> permitted auths bad (tq_url req))"
| "call_ok c bad auths _ = True"

text \<open>One step of one call: what it sends is permitted, it uses up its allowance, and it only passes the check
  while the counter is below the budget.\<close>

lemma call_step_ok:
  assumes "call_step tn (t, w, call) (t', w', call')"
    and "tool_ok cfg c service bad auths t" and "call_ok c bad auths call"
    and "ToURIAuthorities (get_endpoint service) = Inr auths" and "parse_authority (hd auths) = Some (hd auths)"
  shows "tool_ok cfg c service bad auths t' \<and> call_ok c bad auths call'
    \<and> (\<exists>qs. sl_sent w' = sl_sent w @ qs \<and> list_all (\<lambda>e. permitted auths bad (tq_url (snd e))) qs
         \<and> (ht_count_requests t' = ht_count_requests t
              \<and> length qs + allowance (max (max_redirects c) 1) call' \<le> allowance (max (max_redirects c) 1) call
              \<and> (uncounted call' \<le> uncounted call
                 \<or> ht_count_requests t < max_requests_per_service cfg \<and> uncounted call' = 1 \<and> call_running call')
            \<or> ht_count_requests t' = ht_count_requests t + 1 \<and> qs = [] \<and> uncounted call = 1 \<and> uncounted call' = 0
              \<and> allowance (max (max_redirects c) 1) call = 0 \<and> allowance (max (max_redirects c) 1) call' = max (max_redirects c) 1))"
  using assms(1)
proof (cases rule: call_step.cases)
  case (prepare rq req)
  have "ht_config t = cfg" "ht_service t = service" "ht_bad_paths t = bad"
    using assms(2) by (simp_all add: tool_ok_def)
  with prepareRequest_ok [OF prepare(6)] assms(2,4,5) prepare(1-4) show ?thesis
    by (simp add: call_running_def)
next
  case (count rq req)
  with assms(2,3) show ?thesis
    by (simp add: tool_ok_def increaseRequestCount_def)
next
  case (clear rq req)
  with clearSession_ok [OF assms(2,4) clear(5)] assms(3) show ?thesis
    by simp
next
  case (open_client w'' rq sc req)
  then have "client_ok auths bad c (to_maintain_session rq) sc"
    using assms(2) by (cases "to_maintain_session rq") (auto simp: tool_ok_def getClient_def)
  with open_client assms(2,3) show ?thesis
    by (auto simp: client_ok_def service_options_def tool_options_def)
next
  case (send jar jarred req w'' r co mx via chain)
  have ok: "co = service_options auths bad jarred" "mx = max_redirects c" "length via < max (max_redirects c) 1"
      "permitted auths bad (tq_url req)"
    using assms(3) unfolding send by simp_all
  have "auths \<noteq> []"
    using assms(4) by (auto simp: ToURIAuthorities_def Let_def split: if_splits)
  then have followed: "permitted auths bad u \<and> length (via @ [tq_url req]) < max (max_redirects c) 1"
    if "CheckRedirect co mx u (via @ [tq_url req]) = FollowRedirect" for u
    using CheckRedirect_follow [OF that] ok
    by (auto simp: permitted_def IsAuthorityAllowed_def service_options_def tool_options_def)
  have next_call: "call_ok c bad auths call' \<and> uncounted call' = 0
      \<and> Suc (allowance (max (max_redirects c) 1) call') \<le> allowance (max (max_redirects c) 1) call"
    unfolding send using ok followed
    by (auto simp: after_answer_def finish_call_def Let_def split: sum.splits option.splits)
  then show ?thesis
    unfolding send(1-5) using assms(2) send ok(4) next_call by auto
qed (use assms in auto)

text \<open>The invariant of a run in which at most \<open>k\<close> calls run at the same time.\<close>

definition tool_run_inv :: "pb_message \<Rightarrow> config \<Rightarrow> network_service \<Rightarrow> regexp list \<Rightarrow> string list \<Rightarrow> nat
    \<Rightarrow> ('j option \<times> t_request) list \<Rightarrow> ('w, 'j, 'e) tool_run \<Rightarrow> bool" where
  "tool_run_inv cfg c service bad auths k sent s =
     (tool_ok cfg c service bad auths (tr_tool s) \<and> list_all (call_ok c bad auths) (tr_calls s)
      \<and> 0 \<le> ht_count_requests (tr_tool s)
      \<and> ht_count_requests (tr_tool s) + int (sum_list (map uncounted (tr_calls s)))
          \<le> max 0 (max_requests_per_service cfg) + int k - 1
      \<and> (\<exists>qs. sl_sent (tr_log s) = sent @ qs \<and> list_all (\<lambda>e. permitted auths bad (tq_url (snd e))) qs
           \<and> int (length qs + sum_list (map (allowance (max (max_redirects c) 1)) (tr_calls s)))
               \<le> ht_count_requests (tr_tool s) * int (max (max_redirects c) 1)))"

lemma sum_list_map_update:
  fixes f :: "'a \<Rightarrow> nat"
  shows "i < length xs \<Longrightarrow> sum_list (map f (xs[i := x])) + f (xs ! i) = sum_list (map f xs) + f x"
  by (induction xs arbitrary: i) (auto split: nat.split)

lemma Asked_sums [simp]: "sum_list (map (uncounted \<circ> Asked) rqs) = 0" "sum_list (map (allowance n \<circ> Asked) rqs) = 0"
  by (induction rqs) simp_all

lemma uncounted_running: "sum_list (map uncounted calls) \<le> running calls"
proof (induction calls)
  case (Cons call calls)
  then show ?case by (cases call) (simp_all add: running_def call_running_def)
qed (simp add: running_def)

lemma tool_run_inv_step:
  assumes inv: "tool_run_inv cfg c service bad auths k sent s" and step: "tool_step tn k s s'"
    and auths: "ToURIAuthorities (get_endpoint service) = Inr auths" "parse_authority (hd auths) = Some (hd auths)"
  shows "tool_run_inv cfg c service bad auths k sent s'"
  using step
proof (cases rule: tool_step.cases)
  case (call i t w call')
  let ?n = "max (max_redirects c) 1"
  have "call_ok c bad auths (tr_calls s ! i)"
    using inv call(2) by (simp add: tool_run_inv_def list_all_length)
  from call_step_ok [OF call(3) _ this auths] inv obtain qs where
      ok: "tool_ok cfg c service bad auths t" "call_ok c bad auths call'" and
      sent: "sl_sent w = sl_sent (tr_log s) @ qs" "list_all (\<lambda>e. permitted auths bad (tq_url (snd e))) qs" and
      counts: "ht_count_requests t = ht_count_requests (tr_tool s)
              \<and> length qs + allowance ?n call' \<le> allowance ?n (tr_calls s ! i)
              \<and> (uncounted call' \<le> uncounted (tr_calls s ! i)
                 \<or> ht_count_requests (tr_tool s) < max_requests_per_service cfg \<and> uncounted call' = 1 \<and> call_running call')
            \<or> ht_count_requests t = ht_count_requests (tr_tool s) + 1 \<and> qs = [] \<and> uncounted (tr_calls s ! i) = 1 \<and> uncounted call' = 0
              \<and> allowance ?n (tr_calls s ! i) = 0 \<and> allowance ?n call' = ?n"
    unfolding tool_run_inv_def by blast
  obtain ps where ps: "sl_sent (tr_log s) = sent @ ps" "list_all (\<lambda>e. permitted auths bad (tq_url (snd e))) ps"
      "int (length ps + sum_list (map (allowance ?n) (tr_calls s))) \<le> ht_count_requests (tr_tool s) * int ?n"
    using inv unfolding tool_run_inv_def by blast
  let ?calls = "(tr_calls s)[i := call']"
  have left: "sum_list (map (allowance ?n) ?calls) + allowance ?n (tr_calls s ! i) = sum_list (map (allowance ?n) (tr_calls s)) + allowance ?n call'"
    using call(2) by (rule sum_list_map_update)
  have wait: "sum_list (map uncounted ?calls) + uncounted (tr_calls s ! i) = sum_list (map uncounted (tr_calls s)) + uncounted call'"
    using call(2) by (rule sum_list_map_update)
  have "sum_list (map uncounted ?calls) \<le> k"
    using uncounted_running [of ?calls] call(4) by simp
  then have budget: "ht_count_requests t + int (sum_list (map uncounted ?calls)) \<le> max 0 (max_requests_per_service cfg) + int k - 1"
    using counts inv wait unfolding tool_run_inv_def by (elim disjE conjE) linarith+
  have room: "int (length (ps @ qs) + sum_list (map (allowance ?n) ?calls)) \<le> ht_count_requests t * int ?n"
    using counts ps(3) left by (elim disjE conjE) (simp_all add: distrib_right)
  have "list_all (call_ok c bad auths) ?calls"
    using inv ok(2) unfolding tool_run_inv_def list_all_iff by (auto dest: set_update_subset_insert [THEN subsetD])
  moreover have "0 \<le> ht_count_requests t"
    using counts inv unfolding tool_run_inv_def by auto
  ultimately show ?thesis
    unfolding tool_run_inv_def call(1) using ok(1) sent ps(1,2) budget room by (auto intro!: exI [of _ "ps @ qs"])
qed

text \<open>A call that runs alone is one of these runs: \<open>tool_Do\<close> sends the same requests, with the jar that it threads
  through, and returns the same answer.\<close>

lemma simple_hops_runs:
  "simple_hops tn co mx via chain req jar w = (w', jar', r) \<Longrightarrow>
    (call_step tn)\<^sup>*\<^sup>* (t, w, Requesting co mx (jar \<noteq> None) via chain req) (t, w', finish_call tn t r)"
proof (induction tn co mx via chain req jar w arbitrary: w' jar' r rule: simple_hops.induct)
  case (1 tn co mx via chain req jar w)
  obtain v a where sent: "tn_send tn jar req (sl_net w) = (v, a)"
    by (metis surj_pair)
  let ?w = "\<lparr>sl_sent = sl_sent w @ [(jar, req)], sl_net = v\<rparr>"
  have step: "call_step tn (t, w, Requesting co mx (jar \<noteq> None) via chain req)
      (t, ?w, after_answer tn t co mx (jar \<noteq> None) via chain req a)"
    by (rule call_step.send [OF refl sent])
  show ?case
  proof (cases "\<exists>h u. a = Inr h \<and> hp_location h = Some u \<and> CheckRedirect co mx u (via @ [tq_url req]) = FollowRedirect")
    case True
    then obtain h u where h: "a = Inr h" "hp_location h = Some u" "CheckRedirect co mx u (via @ [tq_url req]) = FollowRedirect"
      by blast
    let ?jar = "map_option (tn_store tn h (tq_url req)) jar"
    have "simple_hops tn co mx (via @ [tq_url req]) (chain @ [h]) ((tn_redirected tn req h)\<lparr>tq_url := u\<rparr>) ?jar ?w = (w', jar', r)"
      using "1.prems" by (subst (asm) simple_hops.simps) (simp add: sent h)
    from "1.IH" [OF sent [symmetric] refl refl h(1) refl h(2,3) this]
    have "(call_step tn)\<^sup>*\<^sup>* (t, ?w, after_answer tn t co mx (jar \<noteq> None) via chain req a) (t, w', finish_call tn t r)"
      by (simp add: after_answer_def h)
    with step show ?thesis
      by (rule converse_rtranclp_into_rtranclp)
  next
    case False
    have "?w = w' \<and> after_answer tn t co mx (jar \<noteq> None) via chain req a = finish_call tn t r"
      using "1.prems" False by (subst (asm) simple_hops.simps)
        (auto simp: sent after_answer_def Let_def split: sum.splits option.splits if_splits)
    with step show ?thesis
      by auto
  qed
qed

lemma build_response_config: "ht_config t = ht_config t' \<Longrightarrow> build_response tn t = build_response tn t'"
  by (rule ext) (simp add: build_response_def split: prod.split)

lemma Ready_runs:
  assumes "simple_Do tn (getClient (to_maintain_session rq) t) req w = (sc, w', r)"
  shows "(call_step tn)\<^sup>*\<^sup>* (t, w, Ready rq req) (t, w', Answered (case r of Inl e \<Rightarrow> Inl e | Inr hops \<Rightarrow> build_response tn t hops))"
proof -
  let ?sc = "getClient (to_maintain_session rq) t"
  obtain v e where wait: "tn_wait tn (sl_net w) = (v, e)"
    by (metis surj_pair)
  show ?thesis
  proof (cases e)
    case (Some x)
    then have "call_step tn (t, w, Ready rq req) (t, w\<lparr>sl_net := v\<rparr>, Answered (Inl (ToolSend x)))"
      using wait by (intro limited) simp
    then show ?thesis
      using assms wait Some by (auto simp: simple_Do_def)
  next
    case None
    obtain w1 jar q where hops: "simple_hops tn (sc_options ?sc) (sc_max_redirects ?sc) [] [] req (sc_jar ?sc) (w\<lparr>sl_net := v\<rparr>) = (w1, jar, q)"
      by (metis prod_cases3)
    have "call_step tn (t, w, Ready rq req)
        (t, w\<lparr>sl_net := v\<rparr>, Requesting (sc_options ?sc) (sc_max_redirects ?sc) (sc_jar ?sc \<noteq> None) [] [] req)"
      using wait None by (intro open_client refl) simp
    moreover note simple_hops_runs [OF hops, of t]
    ultimately have "(call_step tn)\<^sup>*\<^sup>* (t, w, Ready rq req) (t, w1, finish_call tn t q)"
      by (rule converse_rtranclp_into_rtranclp)
    then show ?thesis
      using assms wait None hops by (auto simp: simple_Do_def finish_call_def split: sum.splits prod.splits)
  qed
qed

lemma tool_Do_runs:
  assumes "tool_Do tn rq (t, w) = ((t', w'), r)"
  shows "\<exists>t''. (call_step tn)\<^sup>*\<^sup>* (t, w, Asked rq) (t'', w', Answered r) \<and> ht_count_requests t'' = ht_count_requests t'"
proof -
  consider "tn_done tn (sl_net w)" | e where "\<not> tn_done tn (sl_net w)" "prepareRequest t rq = (Inl e :: ('c tool_error, t_request) result)"
    | req where "\<not> tn_done tn (sl_net w)" "prepareRequest t rq = (Inr req :: ('c tool_error, t_request) result)"
    by (cases "prepareRequest t rq :: ('c tool_error, t_request) result") blast+
  then show ?thesis
  proof cases
    case 1
    then show ?thesis
      using assms context_done [OF 1] by (auto simp: tool_Do_def)
  next
    case (2 e)
    then show ?thesis
      using assms refuse [OF 2] by (auto simp: tool_Do_def)
  next
    case (3 req)
    let ?t1 = "increaseRequestCount t"
    have "(call_step tn)\<^sup>*\<^sup>* (t, w, Asked rq) (?t1, w, Counted rq req)"
      using prepare [OF 3] count by (meson converse_rtranclp_into_rtranclp rtranclp.rtrancl_refl)
    moreover have "\<exists>t''. (call_step tn)\<^sup>*\<^sup>* (?t1, w, Counted rq req) (t'', w', Answered r) \<and> ht_count_requests t'' = ht_count_requests t'"
    proof (cases "if to_clear_session rq then clearSession tn ?t1 else Inr ?t1")
      case (Inl e)
      then have "to_clear_session rq" "clearSession tn ?t1 = Inl e"
        by (simp_all split: if_splits)
      then have "call_step tn (?t1, w, Counted rq req) (?t1, w, Answered (Inl e))"
        by (rule clear_fails)
      then show ?thesis
        using assms 3 Inl by (auto simp: tool_Do_def)
    next
      case (Inr t2)
      obtain sc w1 q where d: "simple_Do tn (getClient (to_maintain_session rq) t2) req w = (sc, w1, q)"
        by (metis prod_cases3)
      have "call_step tn (?t1, w, Counted rq req) (t2, w, Ready rq req)"
        using Inr by (cases "to_clear_session rq") (auto intro: clear keep)
      then have "(call_step tn)\<^sup>*\<^sup>* (?t1, w, Counted rq req)
          (t2, w1, Answered (case q of Inl e \<Rightarrow> Inl e | Inr hops \<Rightarrow> build_response tn t2 hops))"
        using Ready_runs [OF d] by (rule converse_rtranclp_into_rtranclp)
      moreover have "t' = keep_client (to_maintain_session rq) sc t2" "w' = w1"
          "r = (case q of Inl e \<Rightarrow> Inl e | Inr hops \<Rightarrow> build_response tn t2 hops)"
        using assms 3 Inr d by (simp_all add: tool_Do_def)
      ultimately show ?thesis
        by (intro exI [of _ t2]) (simp add: keep_client_def)
    qed
    ultimately show ?thesis
      by (meson rtranclp_trans)
  qed
qed

section \<open>Properties of the tool\<close>

text \<open>C5. Whatever an agent asks for, in calls that run one after the other or up to \<open>k\<close> at the same time, in any
  interleaving, and whatever the servers answer, every request that the tool sends, the ones after a
  redirect included, goes to an authority of the service under test and to a path that is not forbidden. Each counted call sends at
  most \<open>max_http_redirects\<close> requests (one when that is 0). At most \<open>max_requests_per_service\<close> calls are
  counted when they run one by one, and at most \<open>k - 1\<close> more when \<open>k\<close> run together, because
  the check of the budget and the count are two critical sections.\<close>

theorem tool_confined:
  assumes "newTool tn defaults c service = Inr t0"
    and "ToURIAuthorities (get_endpoint service) = Inr auths" and "parse_authority (hd auths) = Some (hd auths)"
    and "0 < k" and "(tool_step tn k)\<^sup>*\<^sup>* (tool_start t0 w rqs) s"
  shows "0 \<le> ht_count_requests (tr_tool s)
    \<and> ht_count_requests (tr_tool s) \<le> max 0 (max_requests_per_service (ht_config t0)) + int k - 1
    \<and> (\<exists>qs. sl_sent (tr_log s) = sl_sent w @ qs
         \<and> int (length qs) \<le> ht_count_requests (tr_tool s) * int (max (max_redirects c) 1)
         \<and> list_all (\<lambda>e. list_ex (authority_matches (tq_url (snd e))) auths
              \<and> \<not> IsURLPathForbidden (Some (tq_url (snd e))) (ht_bad_paths t0)) qs)"
proof -
  let ?inv = "tool_run_inv (ht_config t0) c service (ht_bad_paths t0) auths k (sl_sent w)"
  have "?inv (tool_start t0 w rqs)"
    using newTool_ok [OF assms(1,2)] assms(4) by (simp add: tool_run_inv_def tool_start_def list_all_iff)
  with assms(5) have "?inv s"
    by (induction rule: rtranclp_induct) (auto intro: tool_run_inv_step [OF _ _ assms(2,3)])
  then show ?thesis
    unfolding tool_run_inv_def permitted_def by (auto 0 3 intro: order_trans [rotated])
qed

text \<open>A service and a network whose server redirects every request to itself.\<close>

definition target_service :: network_service where
  "target_service =
     \<lparr>sv_endpoint = Some \<lparr>ep_type = HOSTNAME, ep_ip = None, ep_hostname = Some ''a.b'', ep_port = None\<rparr>,
      sv_transport = [], sv_ssl = [], sv_http_methods = [], sv_context = None\<rparr>"

definition sample_net :: "(nat, nat, nat) tool_net" where
  "sample_net =
     \<lparr>tn_done = (\<lambda>w. False), tn_new_client = (\<lambda>c co. None), tn_compile = (\<lambda>p. Some (\<lambda>s. str_contains s p)),
      tn_wait = (\<lambda>w. (w, None)),
      tn_send = (\<lambda>jar req w. (Suc w, Inr \<lparr>hp_status = 302, hp_headers = [], hp_body = (''moved'', EndOfFile),
        hp_location = Some (tq_url req)\<rparr>)),
      tn_store = (\<lambda>h u n. Suc n), tn_fresh = 0, tn_redirected = (\<lambda>req h. req), tn_request_uri = u_path\<rparr>"

definition sample_request :: tool_request where
  "sample_request = \<lparr>to_method = ''GET'', to_uri = ''/x'', to_headers = [], to_data = [],
     to_maintain_session = True, to_clear_session = False\<rparr>"

lemma sample_authorities:
  "ToURIAuthorities (get_endpoint target_service) = Inr [''a.b'']" "parse_authority ''a.b'' = Some ''a.b''"
proof -
  show "ToURIAuthorities (get_endpoint target_service) = Inr [''a.b'']"
    by (simp add: ToURIAuthorities_def get_endpoint_def target_service_def ep_host_def ep_address_def append_port_def)
  have "plain_authority ''a.b''"
    unfolding plain_authority_def by (intro exI [of _ "''a.b''"] exI [of _ "[]"]) (simp add: unreserved_def is_letter_def is_lower_def char_code_def)
  then show "parse_authority ''a.b'' = Some ''a.b''" by (rule parse_authority_plain)
qed

lemma sample_tool:
  "\<exists>t0 req. newTool sample_net [''kill''] config_Default target_service = Inr t0
     \<and> prepareRequest t0 sample_request = (Inr req :: (nat tool_error, t_request) result)"
proof -
  have "case newTool sample_net [''kill''] config_Default target_service of Inl e \<Rightarrow> False
    | Inr t \<Rightarrow> is_ok (prepareRequest t sample_request :: (nat tool_error, t_request) result)"
    by code_simp
  then show ?thesis
    by (auto simp: is_ok_def split: sum.splits)
qed

text \<open>Two calls at the same time, of which the first has passed the check when the second one does.\<close>

theorem tool_confined_witness:
  "\<exists>t0 s req. newTool sample_net [''kill''] config_Default target_service = Inr t0
     \<and> (tool_step sample_net 2)\<^sup>*\<^sup>* (tool_start t0 \<lparr>sl_sent = [], sl_net = 0\<rparr> [sample_request, sample_request]) s
     \<and> tr_calls s = [Counted sample_request req, Prepared sample_request req]
     \<and> 0 \<le> ht_count_requests (tr_tool s)
     \<and> ht_count_requests (tr_tool s) \<le> max 0 (max_requests_per_service (ht_config t0)) + 1"
proof -
  obtain t0 req where t0: "newTool sample_net [''kill''] config_Default target_service = Inr t0"
      and req: "prepareRequest t0 sample_request = (Inr req :: (nat tool_error, t_request) result)"
    using sample_tool by blast
  let ?w = "\<lparr>sl_sent = [], sl_net = 0\<rparr> :: (nat, nat) sent_log"
  let ?s0 = "tool_start t0 ?w [sample_request, sample_request]"
  let ?s1 = "\<lparr>tr_tool = t0, tr_log = ?w, tr_calls = [Prepared sample_request req, Asked sample_request]\<rparr>"
  let ?s2 = "\<lparr>tr_tool = t0, tr_log = ?w, tr_calls = [Prepared sample_request req, Prepared sample_request req]\<rparr>"
  let ?s3 = "\<lparr>tr_tool = increaseRequestCount t0, tr_log = ?w, tr_calls = [Counted sample_request req, Prepared sample_request req]\<rparr>"
  have prep: "call_step sample_net (t0, ?w, Asked sample_request) (t0, ?w, Prepared sample_request req)"
    by (rule prepare) (simp_all add: sample_net_def req)
  have "tool_step sample_net 2 ?s0 ?s1"
    using tool_step.call [where s = ?s0 and i = 0, of sample_net t0 ?w "Prepared sample_request req" 2] prep
    by (simp add: tool_start_def running_def call_running_def)
  moreover have "tool_step sample_net 2 ?s1 ?s2"
    using tool_step.call [where s = ?s1 and i = 1, of sample_net t0 ?w "Prepared sample_request req" 2] prep
    by (simp add: running_def call_running_def)
  moreover have "tool_step sample_net 2 ?s2 ?s3"
    using tool_step.call [where s = ?s2 and i = 0, of sample_net "increaseRequestCount t0" ?w "Counted sample_request req" 2]
      count [of sample_net t0 ?w sample_request req]
    by (simp add: running_def call_running_def)
  ultimately have run: "(tool_step sample_net 2)\<^sup>*\<^sup>* ?s0 ?s3"
    by (meson converse_rtranclp_into_rtranclp rtranclp.rtrancl_refl)
  from tool_confined [OF t0 sample_authorities(1) _ _ run] sample_authorities(2) t0 run show ?thesis
    by (intro exI [of _ t0] exI [of _ ?s3] exI [of _ req]) simp
qed

section \<open>The budget under concurrent calls\<close>

text \<open>Calls that all pass the check before one of them counts are all counted, however small the budget is: the
  bound above is reached.\<close>

lemma running_le: "running calls \<le> length calls"
  by (simp add: running_def)

lemma tool_step_at:
  assumes "i < length calls" and "length calls \<le> k" and "call_step tn (t, w, calls ! i) (t', w', call)"
  shows "tool_step tn k \<lparr>tr_tool = t, tr_log = w, tr_calls = calls\<rparr> \<lparr>tr_tool = t', tr_log = w', tr_calls = calls[i := call]\<rparr>"
proof -
  have "running (calls[i := call]) \<le> k"
    using running_le [of "calls[i := call]"] assms(2) by simp
  then show ?thesis
    using tool_step.call [where s = "\<lparr>tr_tool = t, tr_log = w, tr_calls = calls\<rparr>" and i = i] assms by simp
qed

lemma budget_race:
  assumes prepared: "\<And>i. i < length rqs \<Longrightarrow> prepareRequest t (rqs ! i) = (Inr (reqs ! i) :: ('e tool_error, t_request) result)"
    and live: "\<not> tn_done tn (sl_net w)" and k: "length rqs \<le> k"
  shows "\<exists>s. (tool_step tn k)\<^sup>*\<^sup>* (tool_start t w rqs) (s :: ('w, 'j, 'e) tool_run)
    \<and> ht_count_requests (tr_tool s) = ht_count_requests t + int (length rqs)"
proof -
  let ?n = "length rqs"
  let ?checking = "\<lambda>j. map (\<lambda>i. if i < j then Prepared (rqs ! i) (reqs ! i) else Asked (rqs ! i)) [0..<?n] :: 'e tool_call list"
  let ?counting = "\<lambda>j. map (\<lambda>i. if i < j then Counted (rqs ! i) (reqs ! i) else Prepared (rqs ! i) (reqs ! i)) [0..<?n] :: 'e tool_call list"
  let ?state = "\<lambda>t calls. \<lparr>tr_tool = t, tr_log = w, tr_calls = calls\<rparr>"
  have checks: "(tool_step tn k)\<^sup>*\<^sup>* (?state t (?checking 0)) (?state t (?checking j))" if "j \<le> ?n" for j
    using that
  proof (induction j)
    case (Suc j)
    have "call_step tn (t, w, ?checking j ! j) (t, w, Prepared (rqs ! j) (reqs ! j))"
      using Suc.prems prepare [OF live prepared] by simp
    then have "tool_step tn k (?state t (?checking j)) (?state t ((?checking j)[j := Prepared (rqs ! j) (reqs ! j)]))"
      using Suc.prems k by (intro tool_step_at) simp_all
    moreover have "(?checking j)[j := Prepared (rqs ! j) (reqs ! j)] = ?checking (Suc j)"
      by (rule nth_equalityI) (auto simp: nth_list_update less_Suc_eq)
    ultimately show ?case
      using Suc by (simp add: rtranclp.rtrancl_into_rtrancl)
  qed simp
  have counts: "(tool_step tn k)\<^sup>*\<^sup>* (?state t (?counting 0)) (?state ((increaseRequestCount ^^ j) t) (?counting j))" if "j \<le> ?n" for j
    using that
  proof (induction j)
    case (Suc j)
    let ?t = "(increaseRequestCount ^^ j) t"
    have "call_step tn (?t, w, ?counting j ! j) (increaseRequestCount ?t, w, Counted (rqs ! j) (reqs ! j))"
      using Suc.prems by (simp add: count)
    then have "tool_step tn k (?state ?t (?counting j)) (?state (increaseRequestCount ?t) ((?counting j)[j := Counted (rqs ! j) (reqs ! j)]))"
      using Suc.prems k by (intro tool_step_at) simp_all
    moreover have "(?counting j)[j := Counted (rqs ! j) (reqs ! j)] = ?counting (Suc j)"
      by (rule nth_equalityI) (auto simp: nth_list_update less_Suc_eq)
    ultimately show ?case
      using Suc by (simp add: rtranclp.rtrancl_into_rtrancl)
  qed simp
  have "?checking 0 = map Asked rqs"
    by (rule nth_equalityI) simp_all
  then have start: "?state t (?checking 0) = tool_start t w rqs"
    by (simp only: tool_start_def)
  have middle: "?checking ?n = ?counting 0"
    by (rule map_cong) auto
  have "ht_count_requests ((increaseRequestCount ^^ j) t) = ht_count_requests t + int j" for j
    by (induction j) (simp_all add: increaseRequestCount_def)
  moreover have "(tool_step tn k)\<^sup>*\<^sup>* (tool_start t w rqs) (?state ((increaseRequestCount ^^ ?n) t) (?counting ?n))"
    using checks [of ?n] counts [of ?n] unfolding start middle by (meson order_refl rtranclp_trans)
  ultimately show ?thesis
    by (intro exI [of _ "?state ((increaseRequestCount ^^ ?n) t) (?counting ?n)"]) simp
qed

section \<open>Sessions, configuration and answers\<close>

text \<open>A call that keeps the session sends the jar of the session, a new one when the call clears it; any
  other call sends no cookies and leaves the cookies of the session, cleared if the call says so.\<close>

theorem tool_sessions:
  assumes "newTool tn defaults c service = Inr t0"
    and "ToURIAuthorities (get_endpoint service) = Inr auths" and "parse_authority (hd auths) = Some (hd auths)"
    and "tool_calls tn rqs (t0, w0) = (t, w)"
  shows "case tool_Do tn rq (t, w) of ((t', w'), r) \<Rightarrow> \<exists>qs. sl_sent w' = sl_sent w @ qs
    \<and> list_all (\<lambda>e. fst e \<noteq> None \<longleftrightarrow> to_maintain_session rq) qs
    \<and> (qs = [] \<or> \<not> to_maintain_session rq \<or> fst (hd qs) = jar_before tn rq t)
    \<and> (to_maintain_session rq \<or> sc_jar (ht_client t') \<in> {sc_jar (ht_client t), jar_before tn rq t})"
proof -
  from newTool_ok [OF assms(1,2)] have ok: "tool_ok (ht_config t0) c service (ht_bad_paths t0) auths t0" by simp
  from tool_calls_inv [OF this assms(2,3), where tn = tn and rqs = rqs and w = w0] assms(4)
  have "tool_ok (ht_config t0) c service (ht_bad_paths t0) auths t" by auto
  from tool_Do_step [OF this assms(2,3), where tn = tn and rq = rq and w = w]
  show ?thesis by (fastforce simp: list_all_iff)
qed

text \<open>The lists of the user replace the defaults; an empty list keeps them.\<close>

definition user_config :: "config \<Rightarrow> pb_message" where
  "user_config c = sub_message ''http_client_config'' (sub_message ''tools'' (sub_message ''llm'' (ClientsConfig c)))"

lemma get_strings_Merge_cleared:
  "dst name = None \<Longrightarrow> get_strings name (proto_Merge dst src) = get_strings name src"
  by (simp add: get_strings_def proto_Merge_def split: option.splits)

lemma get_strings_map [simp]: "get_strings name [name \<mapsto> VList (map VString ss)] = ss"
  by (induction ss) (auto simp: get_strings_def map_filter_simps)

lemma tool_config_lists:
  assumes "user_config c ''allowed_methods'' = None \<or> (\<exists>vs. user_config c ''allowed_methods'' = Some (VList vs))"
  shows "get_strings ''allowed_methods'' (tool_config defaults c)
    = (if get_strings ''allowed_methods'' (user_config c) = [] then [''GET'', ''POST'']
       else get_strings ''allowed_methods'' (user_config c))"
proof (cases "sub_message ''tools'' (sub_message ''llm'' (ClientsConfig c)) ''http_client_config''")
  case None
  then show ?thesis
    by (simp add: tool_config_def Let_def user_config_def sub_message_def get_strings_def tool_DefaultConfig_def map_filter_simps)
next
  case (Some v)
  then have "tool_config defaults c = proto_Merge
      (clear_when (get_strings ''forbidden_paths'' (user_config c) \<noteq> []) ''forbidden_paths''
        (clear_when (get_strings ''allowed_methods'' (user_config c) \<noteq> []) ''allowed_methods'' (tool_DefaultConfig defaults)))
      (user_config c)"
    by (simp add: tool_config_def Let_def user_config_def)
  with assms show ?thesis
    by (auto simp: get_strings_Merge_cleared clear_when_def)
       (auto simp: get_strings_def proto_Merge_def tool_DefaultConfig_def List.map_filter_def
         split: option.splits)
qed

text \<open>An answer without a body, as a redirect may have, is an error of the tool: the status and the
  headers that the agent would need are lost.\<close>

lemma empty_answer_is_error:
  "0 < max_answer_size (ht_config t) \<Longrightarrow> hops \<noteq> [] \<Longrightarrow> hp_body (last hops) = ([], EndOfFile)
    \<Longrightarrow> build_response tn t (hops, u) = Inl (ToolBody EOF)"
  by (simp add: build_response_def ReadBody_def)

end
