(* ===== verification/Registry.thy ===== *)
theory Registry
  imports GoPrelude
begin

text \<open>
  \<open>core/module/registry.go\<close>: the registry of port scanners, fingerprinters and detectors, and the
  choice of modules by the workflow configuration. The three kinds of module follow one contract,
  the locale \<open>name_table\<close>, which is interpreted on the registry's operations for each of them. A
  panic of the code is an error value. The compilation of a regular expression is the parameter
  \<open>compile\<close>: the predicate that the expression decides, \<open>None\<close> when it does not compile.
\<close>

section \<open>State and registration\<close>

datatype panic = RegisteredTwice string

text \<open>An initialiser takes the configuration and yields a module or an error.\<close>

type_synonym ('cfg, 'e, 'm) init_fn = "'cfg \<Rightarrow> ('e, 'm) result"

record ('cfg, 'e, 'ps, 'fp, 'dt) registry =
  portScanners :: "string \<rightharpoonup> ('cfg, 'e, 'ps) init_fn"
  fingerprinters :: "string \<rightharpoonup> ('cfg, 'e, 'fp) init_fn"
  detectors :: "string \<rightharpoonup> ('cfg, 'e, 'dt) init_fn"
  portScannerNames :: "string list"
  fingerprinterNames :: "string list"
  detectorNames :: "string list"

definition NewRegistry :: "('cfg, 'e, 'ps, 'fp, 'dt) registry" where
  "NewRegistry = \<lparr>portScanners = Map.empty, fingerprinters = Map.empty, detectors = Map.empty,
     portScannerNames = [], fingerprinterNames = [], detectorNames = []\<rparr>"

definition RegisterPortScanner :: "string \<Rightarrow> ('cfg, 'e, 'ps) init_fn \<Rightarrow> ('cfg, 'e, 'ps, 'fp, 'dt) registry
    \<Rightarrow> (panic, ('cfg, 'e, 'ps, 'fp, 'dt) registry) result" where
  "RegisterPortScanner name initFn r = (case portScanners r name of
       Some _ \<Rightarrow> Inl (RegisteredTwice name)
     | None \<Rightarrow> Inr (r\<lparr>portScannerNames := portScannerNames r @ [name],
                      portScanners := (portScanners r)(name \<mapsto> initFn)\<rparr>))"

definition RegisterFingerprinter :: "string \<Rightarrow> ('cfg, 'e, 'fp) init_fn \<Rightarrow> ('cfg, 'e, 'ps, 'fp, 'dt) registry
    \<Rightarrow> (panic, ('cfg, 'e, 'ps, 'fp, 'dt) registry) result" where
  "RegisterFingerprinter name initFn r = (case fingerprinters r name of
       Some _ \<Rightarrow> Inl (RegisteredTwice name)
     | None \<Rightarrow> Inr (r\<lparr>fingerprinterNames := fingerprinterNames r @ [name],
                      fingerprinters := (fingerprinters r)(name \<mapsto> initFn)\<rparr>))"

definition RegisterDetector :: "string \<Rightarrow> ('cfg, 'e, 'dt) init_fn \<Rightarrow> ('cfg, 'e, 'ps, 'fp, 'dt) registry
    \<Rightarrow> (panic, ('cfg, 'e, 'ps, 'fp, 'dt) registry) result" where
  "RegisterDetector name initFn r = (case detectors r name of
       Some _ \<Rightarrow> Inl (RegisteredTwice name)
     | None \<Rightarrow> Inr (r\<lparr>detectorNames := detectorNames r @ [name],
                      detectors := (detectors r)(name \<mapsto> initFn)\<rparr>))"

definition Clear :: "('cfg, 'e, 'ps, 'fp, 'dt) registry \<Rightarrow> ('cfg, 'e, 'ps, 'fp, 'dt) registry" where
  "Clear r = r\<lparr>portScanners := Map.empty, fingerprinters := Map.empty, detectors := Map.empty,
     portScannerNames := [], fingerprinterNames := [], detectorNames := []\<rparr>"

section \<open>\<open>resolveModules\<close>\<close>

datatype module_category = FingerprinterCategory | DetectorCategory

datatype 'e registry_error =
    NoPortScannerSpecified
  | PortScannerNotRegistered string
  | PortScannerInit 'e
  | InvalidIgnorePattern string
  | InvalidRequirePattern string
  | NoExpansion string module_category
  | InitFailed string 'e
  | NilInitFn string

definition anchored :: "string \<Rightarrow> string" where
  "anchored pat = ''^'' @ pat @ ''$''"

definition compile_all :: "(string \<Rightarrow> 'e registry_error) \<Rightarrow> (string \<Rightarrow> (string \<Rightarrow> bool) option) \<Rightarrow> string list
    \<Rightarrow> ('e registry_error, (string \<Rightarrow> bool) list) result" where
  "compile_all err compile =
     map_result (\<lambda>pat. case compile (anchored pat) of None \<Rightarrow> Inl (err pat) | Some re \<Rightarrow> Inr re)"

text \<open>The inner loop: the matching names join the selection unless they are in it.\<close>

fun add_matches :: "(string \<Rightarrow> bool) \<Rightarrow> string list \<Rightarrow> string list \<Rightarrow> string list" where
  "add_matches re [] selected = selected"
| "add_matches re (n # ns) selected =
     add_matches re ns (if re n \<and> n \<notin> set selected then selected @ [n] else selected)"

fun select_required :: "module_category \<Rightarrow> string list \<Rightarrow> (string \<times> (string \<Rightarrow> bool)) list \<Rightarrow> string list
    \<Rightarrow> ('e registry_error, string list) result" where
  "select_required cat names [] selected = Inr selected"
| "select_required cat names ((pat, re) # rs) selected =
     (if list_ex re names then select_required cat names rs (add_matches re names selected)
      else Inl (NoExpansion pat cat))"

definition resolveModules :: "(string \<Rightarrow> (string \<Rightarrow> bool) option) \<Rightarrow> module_category \<Rightarrow> string list
    \<Rightarrow> string list \<Rightarrow> string list \<Rightarrow> ('e registry_error, string list) result" where
  "resolveModules compile cat names require ignore =
     (case compile_all InvalidIgnorePattern compile ignore of
        Inl e \<Rightarrow> Inl e
      | Inr ignoreRes \<Rightarrow>
          (case compile_all InvalidRequirePattern compile require of
             Inl e \<Rightarrow> Inl e
           | Inr requireRes \<Rightarrow>
               (case select_required cat names (zip require requireRes) [] of
                  Inl e \<Rightarrow> Inl e
                | Inr selected \<Rightarrow> Inr (filter (\<lambda>n. \<not> list_ex (\<lambda>re. re n) ignoreRes) selected))))"

section \<open>Initialisation of the selected modules\<close>

record module_filter =
  mf_require :: "string list"
  mf_ignore :: "string list"

record workflow_config =
  wf_portscan :: string
  wf_fingerprinters :: "module_filter option"
  wf_detectors :: "module_filter option"

definition init_module :: "(string \<rightharpoonup> ('cfg, 'e, 'm) init_fn) \<Rightarrow> 'cfg \<Rightarrow> string \<Rightarrow> ('e registry_error, 'm) result" where
  "init_module table cfg name = (case table name of
       None \<Rightarrow> Inl (NilInitFn name)
     | Some initFn \<Rightarrow> (case initFn cfg of Inl e \<Rightarrow> Inl (InitFailed name e) | Inr m \<Rightarrow> Inr m))"

definition GetPortScanner :: "('cfg \<Rightarrow> workflow_config) \<Rightarrow> ('cfg, 'e, 'ps, 'fp, 'dt) registry \<Rightarrow> 'cfg
    \<Rightarrow> ('e registry_error, 'ps) result" where
  "GetPortScanner workflow r cfg =
     (if wf_portscan (workflow cfg) = [] then Inl NoPortScannerSpecified
      else case portScanners r (wf_portscan (workflow cfg)) of
          None \<Rightarrow> Inl (PortScannerNotRegistered (wf_portscan (workflow cfg)))
        | Some initFn \<Rightarrow> map_sum PortScannerInit id (initFn cfg))"

definition GetFingerprinters :: "(string \<Rightarrow> (string \<Rightarrow> bool) option) \<Rightarrow> ('cfg \<Rightarrow> workflow_config)
    \<Rightarrow> ('cfg, 'e, 'ps, 'fp, 'dt) registry \<Rightarrow> 'cfg \<Rightarrow> ('e registry_error, 'fp list) result" where
  "GetFingerprinters compile workflow r cfg = (case wf_fingerprinters (workflow cfg) of
       None \<Rightarrow> Inr []
     | Some f \<Rightarrow>
         (case resolveModules compile FingerprinterCategory (fingerprinterNames r) (mf_require f) (mf_ignore f) of
            Inl e \<Rightarrow> Inl e
          | Inr resolved \<Rightarrow> map_result (init_module (fingerprinters r) cfg) resolved))"

definition GetDetectors :: "(string \<Rightarrow> (string \<Rightarrow> bool) option) \<Rightarrow> ('cfg \<Rightarrow> workflow_config)
    \<Rightarrow> ('cfg, 'e, 'ps, 'fp, 'dt) registry \<Rightarrow> 'cfg \<Rightarrow> ('e registry_error, 'dt list) result" where
  "GetDetectors compile workflow r cfg = (case wf_detectors (workflow cfg) of
       None \<Rightarrow> Inr []
     | Some f \<Rightarrow>
         (case resolveModules compile DetectorCategory (detectorNames r) (mf_require f) (mf_ignore f) of
            Inl e \<Rightarrow> Inl e
          | Inr resolved \<Rightarrow> map_result (init_module (detectors r) cfg) resolved))"

definition AllDetectors :: "('cfg, 'e, 'ps, 'fp, 'dt) registry \<Rightarrow> 'cfg \<Rightarrow> ('e registry_error, 'dt list) result" where
  "AllDetectors r cfg = map_result (init_module (detectors r) cfg) (detectorNames r)"

section \<open>The contract of a table of named modules\<close>

text \<open>The package initialisers register their modules one after the other.\<close>

fun register_all :: "(string \<Rightarrow> 'i \<Rightarrow> 'r \<Rightarrow> (panic, 'r) result) \<Rightarrow> (string \<times> 'i) list \<Rightarrow> 'r \<Rightarrow> (panic, 'r) result" where
  "register_all register [] r = Inr r"
| "register_all register ((n, i) # ms) r =
     (case register n i r of Inl p \<Rightarrow> Inl p | Inr r' \<Rightarrow> register_all register ms r')"

text \<open>The invariant: the list of names has no duplicates and names the entries of the table.\<close>

definition names_match :: "(string \<rightharpoonup> 'i) \<Rightarrow> string list \<Rightarrow> bool" where
  "names_match table ns \<longleftrightarrow> distinct ns \<and> set ns = dom table"

locale name_table =
  fixes register :: "string \<Rightarrow> 'i \<Rightarrow> 'r \<Rightarrow> (panic, 'r) result"
    and table :: "'r \<Rightarrow> string \<rightharpoonup> 'i"
    and names :: "'r \<Rightarrow> string list"
  assumes register_new: "table r n = None \<Longrightarrow>
      \<exists>r'. register n i r = Inr r' \<and> table r' = (table r)(n \<mapsto> i) \<and> names r' = names r @ [n]"
    and register_known: "table r n = Some j \<Longrightarrow> register n i r = Inl (RegisteredTwice n)"
begin

lemma register_keeps: "names_match (table r) (names r) \<Longrightarrow> register n i r = Inr r' \<Longrightarrow> names_match (table r') (names r')"
  using register_new [of r n i] register_known [of r n _ i]
  by (cases "table r n") (auto simp: names_match_def)

lemma register_all_new:
  assumes "distinct (map fst ms)" and "set (map fst ms) \<inter> dom (table r) = {}"
  shows "\<exists>r'. register_all register ms r = Inr r' \<and> names r' = names r @ map fst ms
    \<and> table r' = table r ++ map_of ms"
  using assms
proof (induction ms arbitrary: r)
  case (Cons m ms)
  obtain n i where m: "m = (n, i)" by fastforce
  with Cons.prems have "table r n = None" by auto
  then obtain r1 where r1: "register n i r = Inr r1" "table r1 = (table r)(n \<mapsto> i)"
      "names r1 = names r @ [n]"
    using register_new [of r n i] by auto
  have "distinct (map fst ms)" "set (map fst ms) \<inter> dom (table r1) = {}" using Cons.prems m r1 by auto
  then obtain r' where "register_all register ms r1 = Inr r'" "names r' = names r1 @ map fst ms"
      "table r' = table r1 ++ map_of ms"
    using Cons.IH [of r1] by auto
  moreover have "n \<notin> dom (map_of ms)" using Cons.prems m by (force dest: map_of_SomeD)
  then have "(table r)(n \<mapsto> i) ++ map_of ms = table r ++ map_of (m # ms)"
    by (simp add: map_add_upd_left m del: fun_upd_apply)
  ultimately show ?case using r1(1,3) by (intro exI [of _ r']) (simp add: m r1(2) del: map_of.simps)
qed simp

lemma register_all_ok:
  "is_ok (register_all register ms r) \<longleftrightarrow> distinct (map fst ms) \<and> set (map fst ms) \<inter> dom (table r) = {}"
proof
  show "distinct (map fst ms) \<and> set (map fst ms) \<inter> dom (table r) = {}" if "is_ok (register_all register ms r)"
    using that
  proof (induction ms arbitrary: r)
    case (Cons m ms)
    obtain n i where m: "m = (n, i)" by fastforce
    with Cons.prems have none: "table r n = None"
      using register_known [of r n _ i] by (cases "table r n") auto
    then obtain r1 where "register n i r = Inr r1" "table r1 = (table r)(n \<mapsto> i)"
      using register_new [of r n i] by auto
    with Cons.IH [of r1] Cons.prems m none show ?case by auto
  qed simp
next
  assume "distinct (map fst ms) \<and> set (map fst ms) \<inter> dom (table r) = {}"
  then show "is_ok (register_all register ms r)" using register_all_new [of ms r] by auto
qed

end

interpretation ps_table: name_table RegisterPortScanner portScanners portScannerNames
  by unfold_locales (auto simp: RegisterPortScanner_def)

interpretation fp_table: name_table RegisterFingerprinter fingerprinters fingerprinterNames
  by unfold_locales (auto simp: RegisterFingerprinter_def)

interpretation dt_table: name_table RegisterDetector detectors detectorNames
  by unfold_locales (auto simp: RegisterDetector_def)

section \<open>The selection\<close>

definition name_matches :: "(string \<Rightarrow> (string \<Rightarrow> bool) option) \<Rightarrow> string \<Rightarrow> string \<Rightarrow> bool" where
  "name_matches compile pat n = (case compile (anchored pat) of None \<Rightarrow> False | Some re \<Rightarrow> re n)"

lemma add_matches_firsts: "add_matches re ns (firsts xs) = firsts (xs @ filter re ns)"
proof (induction ns arbitrary: xs)
  case (Cons n ns)
  have "(if re n \<and> n \<notin> set (firsts xs) then firsts xs @ [n] else firsts xs)
      = firsts (xs @ (if re n then [n] else []))"
    by (simp add: firsts_snoc)
  then show ?case using Cons.IH [of "xs @ (if re n then [n] else [])"] by simp
qed simp

lemma select_required_iff:
  "select_required cat names rs (firsts xs) = Inr selected \<longleftrightarrow>
     list_all (\<lambda>(pat, re). list_ex re names) rs
     \<and> selected = firsts (xs @ concat (map (\<lambda>(pat, re). filter re names) rs))"
proof (induction rs arbitrary: xs)
  case (Cons r rs)
  obtain pat re where r: "r = (pat, re)" by fastforce
  from Cons.IH [of "xs @ filter re names"] r show ?case by (auto simp: add_matches_firsts)
qed (auto)

lemma compile_all_iff:
  "compile_all err compile pats = Inr res \<longleftrightarrow>
     list_all (\<lambda>p. compile (anchored p) \<noteq> None) pats \<and> res = map (name_matches compile) pats"
proof -
  have eq: "name_matches compile p = re" if "compile (anchored p) = Some re" for p re
    using that by (simp add: name_matches_def fun_eq_iff)
  have "list_all2 (\<lambda>p re. (case compile (anchored p) of None \<Rightarrow> Inl (err p) | Some re \<Rightarrow> Inr re) = Inr re) pats res
     \<longleftrightarrow> list_all (\<lambda>p. compile (anchored p) \<noteq> None) pats \<and> res = map (name_matches compile) pats"
    by (induction pats arbitrary: res) (auto simp: list_all2_Cons1 eq split: option.splits)
  then show ?thesis by (simp add: compile_all_def map_result_Inr_iff)
qed

text \<open>C14. The selection is exactly this: it succeeds when every pattern compiles and every required
  pattern matches a registered name, and it is then the registered names that some required
  pattern matches, without those that an ignored pattern matches, each once, in the order of the
  first required pattern that matches it and, within a pattern, of registration.\<close>

theorem resolveModules_exact:
  "resolveModules compile cat names require ignore = (Inr final :: ('e registry_error, _) result) \<longleftrightarrow>
     list_all (\<lambda>p. compile (anchored p) \<noteq> None) (ignore @ require)
     \<and> list_all (\<lambda>p. list_ex (name_matches compile p) names) require
     \<and> final = filter (\<lambda>n. \<not> list_ex (\<lambda>p. name_matches compile p n) ignore)
                 (firsts (concat (map (\<lambda>p. filter (name_matches compile p) names) require)))"
proof -
  let ?sel = "\<lambda>res. select_required cat names (zip require res) [] :: ('e registry_error, _) result"
  have z: "list_all (\<lambda>(p, re). list_ex re names) (zip require (map f require)) = list_all (\<lambda>p. list_ex (f p) names) require"
    "map (\<lambda>(p, re). filter re names) (zip require (map f require)) = map (\<lambda>p. filter (f p) names) require" for f
    by (induction require) auto
  have sel: "?sel (map (name_matches compile) require) = Inr selected \<longleftrightarrow>
      list_all (\<lambda>p. list_ex (name_matches compile p) names) require
      \<and> selected = firsts (concat (map (\<lambda>p. filter (name_matches compile p) names) require))" for selected
    using select_required_iff [of cat names "zip require (map (name_matches compile) require)" "[]" selected]
    by (simp only: z firsts_Nil append_Nil)
  have "resolveModules compile cat names require ignore = (Inr final :: ('e registry_error, _) result) \<longleftrightarrow>
      (\<exists>ig rq selected. compile_all InvalidIgnorePattern compile ignore = (Inr ig :: ('e registry_error, _) result)
        \<and> compile_all InvalidRequirePattern compile require = (Inr rq :: ('e registry_error, _) result)
        \<and> ?sel rq = Inr selected \<and> final = filter (\<lambda>n. \<not> list_ex (\<lambda>re. re n) ig) selected)"
    unfolding resolveModules_def by (auto split: sum.splits)
  also have "\<dots> \<longleftrightarrow> list_all (\<lambda>p. compile (anchored p) \<noteq> None) ignore
      \<and> list_all (\<lambda>p. compile (anchored p) \<noteq> None) require
      \<and> (\<exists>selected. ?sel (map (name_matches compile) require) = Inr selected
          \<and> final = filter (\<lambda>n. \<not> list_ex (\<lambda>p. name_matches compile p n) ignore) selected)"
    unfolding compile_all_iff by (simp add: list_ex_iff)
  finally show ?thesis unfolding sel by auto
qed

lemma resolveModules_names:
  assumes "resolveModules compile cat names require ignore = (Inr final :: ('e registry_error, _) result)"
  shows "distinct final \<and> set final \<subseteq> set names"
  using assms unfolding resolveModules_exact by auto

text \<open>Detectors that are registered under distinct names in a new registry are found: the
  selection starts exactly those it resolves, in that order, each from its own initialiser, and
  no initialiser is missing; \<open>AllDetectors\<close> starts every one of them in registration order.\<close>

theorem GetDetectors_registered:
  assumes "distinct (map fst ms)" and "wf_detectors (workflow cfg) = Some f"
    and "resolveModules compile DetectorCategory (map fst ms) (mf_require f) (mf_ignore f) = (Inr final :: ('e registry_error, _) result)"
    and "\<forall>n \<in> set (map fst ms). \<exists>m. the (map_of ms n) cfg = Inr m"
  shows "\<exists>r. register_all RegisterDetector ms (NewRegistry :: ('cfg, 'e, 'ps, 'fp, 'dt) registry) = Inr r
    \<and> GetDetectors compile workflow r cfg = Inr (map (\<lambda>n. projr (the (map_of ms n) cfg)) final)
    \<and> AllDetectors r cfg = Inr (map (\<lambda>(n, initFn). projr (initFn cfg)) ms)"
proof -
  have "set (map fst ms) \<inter> dom (detectors (NewRegistry :: ('cfg, 'e, 'ps, 'fp, 'dt) registry)) = {}"
    by (simp add: NewRegistry_def)
  from dt_table.register_all_new [OF assms(1) this] obtain r where
    r: "register_all RegisterDetector ms (NewRegistry :: ('cfg, 'e, 'ps, 'fp, 'dt) registry) = Inr r"
      "detectorNames r = map fst ms" "detectors r = map_of ms"
    by (auto simp: NewRegistry_def)
  have init: "map_result (init_module (map_of ms) cfg) ns = Inr (map (\<lambda>n. projr (the (map_of ms n) cfg)) ns)"
    if "set ns \<subseteq> set (map fst ms)" for ns
    unfolding map_result_Inr_iff list_all2_map2 list_all2_same
  proof
    fix n assume "n \<in> set ns"
    with that obtain i where "map_of ms n = Some i" by (metis domD dom_map_of_conv_image_fst list.set_map subsetD)
    moreover from this \<open>n \<in> set ns\<close> that assms(4) obtain m where "the (map_of ms n) cfg = Inr m" by blast
    ultimately show "init_module (map_of ms) cfg n = Inr (projr (the (map_of ms n) cfg))"
      by (simp add: init_module_def)
  qed
  have "set final \<subseteq> set (map fst ms)" using resolveModules_names [OF assms(3)] by blast
  with r assms(2,3) init have "GetDetectors compile workflow r cfg = Inr (map (\<lambda>n. projr (the (map_of ms n) cfg)) final)"
    by (simp add: GetDetectors_def)
  moreover have "AllDetectors r cfg = Inr (map (\<lambda>n. projr (the (map_of ms n) cfg)) (map fst ms))"
    using r init [of "map fst ms"] by (simp add: AllDetectors_def)
  moreover have "map (\<lambda>n. projr (the (map_of ms n) cfg)) (map fst ms) = map (\<lambda>(n, initFn). projr (initFn cfg)) ms"
    using assms(1) by auto
  ultimately show ?thesis using r(1) by metis
qed

theorem GetDetectors_registered_witness:
  "\<exists>r. register_all RegisterDetector [(''b'', \<lambda>c. Inr (c + 1)), (''a'', \<lambda>c. Inr (c + 2))]
         (NewRegistry :: (nat, bool, bool, bool, nat) registry) = Inr r
     \<and> GetDetectors (\<lambda>p. Some (\<lambda>n. ''^'' @ n @ ''$'' = p))
         (\<lambda>_. \<lparr>wf_portscan = [], wf_fingerprinters = None,
               wf_detectors = Some \<lparr>mf_require = [''a'', ''b''], mf_ignore = []\<rparr>\<rparr>) r 5 = Inr [7, 6]
     \<and> AllDetectors r 5 = Inr [6, 7]"
proof -
  let ?ms = "[(''b'', \<lambda>c. Inr (c + 1)), (''a'', \<lambda>c. Inr (c + 2))] :: (string \<times> (nat, bool, nat) init_fn) list"
  have "resolveModules (\<lambda>p. Some (\<lambda>n. ''^'' @ n @ ''$'' = p)) DetectorCategory (map fst ?ms) [''a'', ''b''] []
      = (Inr [''a'', ''b''] :: (bool registry_error, _) result)"
    by (simp add: resolveModules_def compile_all_def anchored_def)
  then show ?thesis
    using GetDetectors_registered [of ?ms "\<lambda>_. \<lparr>wf_portscan = [], wf_fingerprinters = None,
        wf_detectors = Some \<lparr>mf_require = [''a'', ''b''], mf_ignore = []\<rparr>\<rparr>" 5
        "\<lparr>mf_require = [''a'', ''b''], mf_ignore = []\<rparr>" "\<lambda>p. Some (\<lambda>n. ''^'' @ n @ ''$'' = p)" "[''a'', ''b'']"]
    by simp
qed

end
