(* ===== verification/Runner.thy ===== *)
theory Runner
  imports Registry NetEndpoint "HOL-Library.Multiset"
begin

text \<open>
  \<open>core/runner/simplerunner\<close> and \<open>core/entrypoint\<close>: the registration of modules with the runner, the
  three steps of a scan, and the composition of registry and runner in the entrypoint. A module
  is its name and what it answers for a service. Services are processed in parallel, so the order
  in which their results arrive is a parameter, a permutation; \<open>group.SetLimit(0)\<close> blocks every
  \<open>group.Go\<close>, so a run may not return, which is the value \<open>None\<close>.
\<close>

section \<open>State\<close>

datatype 'e run_error =
    ErrRegistrationNil
  | ErrPortScannerAlreadyRegistered
  | ErrNoPortScanner
  | ErrConfigNil
  | ErrContext
  | ErrScan 'e

datatype 'e module_error = EndpointMissingAddress | OtherError 'e

datatype detection_status =
    DETECTION_STATUS_UNSPECIFIED | VULNERABILITY_PRESENT | VULNERABILITY_VERIFIED | NO_VULNERABILITY

record 'v detection_report =
  rep_status :: detection_status
  rep_service :: network_service
  rep_vulnerability :: 'v

record ('t, 's) port_report =
  pr_target :: 't
  pr_services :: "'s list"

record ('t, 'e) port_scanner =
  psm_name :: string
  psm_scan :: "string \<Rightarrow> ('e, ('t, network_service) port_report) result"

record 'e fingerprinter =
  fpm_name :: string
  fpm_run :: "network_service \<Rightarrow> ('e module_error, network_service list) result"

record ('v, 'e) vuln_detector =
  dtm_name :: string
  dtm_run :: "network_service \<Rightarrow> ('e module_error, 'v detection_report list) result"
  dtm_advisories :: "'v option list"

record ('t, 'v, 'e) simple_runner =
  r_portScanner :: "('t, 'e) port_scanner option"
  r_fingerprinters :: "'e fingerprinter list"
  r_detectors :: "('v, 'e) vuln_detector list"

definition runner_New :: "'cfg option \<Rightarrow> ('e run_error, ('t, 'v, 'e) simple_runner) result" where
  "runner_New cfg = (case cfg of None \<Rightarrow> Inl ErrConfigNil
     | Some _ \<Rightarrow> Inr \<lparr>r_portScanner = None, r_fingerprinters = [], r_detectors = []\<rparr>)"

definition runner_RegisterPortScanner :: "('t, 'e) port_scanner option \<Rightarrow> ('t, 'v, 'e) simple_runner
    \<Rightarrow> ('e run_error, ('t, 'v, 'e) simple_runner) result" where
  "runner_RegisterPortScanner m r =
     (if r_portScanner r \<noteq> None then Inl ErrPortScannerAlreadyRegistered
      else if m = None then Inl ErrRegistrationNil
      else Inr (r\<lparr>r_portScanner := m\<rparr>))"

definition runner_RegisterFingerprinter :: "'e fingerprinter option \<Rightarrow> ('t, 'v, 'e) simple_runner
    \<Rightarrow> ('e run_error, ('t, 'v, 'e) simple_runner) result" where
  "runner_RegisterFingerprinter m r = (case m of None \<Rightarrow> Inl ErrRegistrationNil
     | Some fp \<Rightarrow> Inr (r\<lparr>r_fingerprinters := r_fingerprinters r @ [fp]\<rparr>))"

definition runner_RegisterDetector :: "('v, 'e) vuln_detector option \<Rightarrow> ('t, 'v, 'e) simple_runner
    \<Rightarrow> ('e run_error, ('t, 'v, 'e) simple_runner) result" where
  "runner_RegisterDetector m r = (case m of None \<Rightarrow> Inl ErrRegistrationNil
     | Some dt \<Rightarrow> Inr (r\<lparr>r_detectors := r_detectors r @ [dt]\<rparr>))"

section \<open>One service\<close>

text \<open>
  The context of a scan: \<open>None\<close> never ends, \<open>Some n\<close> ends after \<open>n\<close> further checks of \<open>ctx.Err\<close>.
\<close>

type_synonym scan_context = "nat option"

fun check_context :: "scan_context \<Rightarrow> scan_context option" where
  "check_context None = Some None"
| "check_context (Some 0) = None"
| "check_context (Some (Suc n)) = Some (Some n)"

text \<open>The runs of modules that a service went through: the module's name and whether it failed.
  \<open>recordModuleRun\<close> counts them, and a failed one sets \<open>degraded\<close>.\<close>

type_synonym module_run = "string \<times> bool"

text \<open>The inner loop of \<open>fingerprintService\<close>: one fingerprinter over the services so far.\<close>

fun fingerprint_all :: "'e fingerprinter \<Rightarrow> network_service list \<Rightarrow> scan_context \<Rightarrow> module_run list
    \<Rightarrow> network_service list \<Rightarrow> (scan_context \<times> module_run list \<times> network_service list) + module_run list" where
  "fingerprint_all fp [] ctx runs acc = Inl (ctx, runs, acc)"
| "fingerprint_all fp (sv # svs) ctx runs acc =
     (case check_context ctx of
        None \<Rightarrow> Inr runs
      | Some ctx' \<Rightarrow>
          (case fpm_run fp sv of
             Inl EndpointMissingAddress \<Rightarrow> fingerprint_all fp svs ctx' (runs @ [(fpm_name fp, True)]) acc
           | Inl (OtherError e) \<Rightarrow> fingerprint_all fp svs ctx' (runs @ [(fpm_name fp, True)]) (acc @ [sv])
           | Inr res \<Rightarrow> fingerprint_all fp svs ctx' (runs @ [(fpm_name fp, False)]) (acc @ res)))"

fun fingerprintService :: "'e fingerprinter list \<Rightarrow> scan_context \<Rightarrow> module_run list \<Rightarrow> network_service list
    \<Rightarrow> module_run list \<times> ('e run_error, network_service list) result" where
  "fingerprintService [] ctx runs services = (runs, Inr services)"
| "fingerprintService (fp # fps) ctx runs services =
     (case check_context ctx of
        None \<Rightarrow> (runs, Inl ErrContext)
      | Some ctx' \<Rightarrow>
          (case fingerprint_all fp services ctx' runs [] of
             Inr runs' \<Rightarrow> (runs', Inl ErrContext)
           | Inl (ctx'', runs', acc) \<Rightarrow> fingerprintService fps ctx'' runs' acc))"

fun detectService :: "('v, 'e) vuln_detector list \<Rightarrow> scan_context \<Rightarrow> module_run list \<Rightarrow> 'v detection_report list
    \<Rightarrow> network_service \<Rightarrow> module_run list \<times> ('e run_error, 'v detection_report list) result" where
  "detectService [] ctx runs reports svc = (runs, Inr reports)"
| "detectService (dt # dts) ctx runs reports svc =
     (case check_context ctx of
        None \<Rightarrow> (runs, Inl ErrContext)
      | Some ctx' \<Rightarrow>
          (case dtm_run dt svc of
             Inl e \<Rightarrow> detectService dts ctx' (runs @ [(dtm_name dt, True)]) reports svc
           | Inr res \<Rightarrow> detectService dts ctx' (runs @ [(dtm_name dt, False)]) (reports @ res) svc))"

section \<open>All services\<close>

text \<open>
  \<open>order\<close> is the order in which the services finish. A limit of zero lets no goroutine start. The
  results of the services are appended as they finish; one error fails the whole step.
\<close>

definition runConcurrent :: "nat list \<Rightarrow> int \<Rightarrow> network_service list
    \<Rightarrow> (network_service \<Rightarrow> module_run list \<times> ('e run_error, 'r list) result)
    \<Rightarrow> (module_run list \<times> ('e run_error, 'r list) result) option" where
  "runConcurrent order limit services process =
     (if limit = 0 \<and> services \<noteq> [] then None
      else let outs = map (\<lambda>i. process (services ! i)) order in
        Some (concat (map fst outs),
              map_sum id concat (map_result snd outs)))"

definition runFingerprinters :: "nat list \<Rightarrow> int \<Rightarrow> scan_context \<Rightarrow> ('t, 'v, 'e) simple_runner \<Rightarrow> network_service list
    \<Rightarrow> (module_run list \<times> ('e run_error, network_service list) result) option" where
  "runFingerprinters order limit ctx r services =
     runConcurrent order limit services (\<lambda>svc. fingerprintService (r_fingerprinters r) ctx [] [svc])"

definition runDetectors :: "nat list \<Rightarrow> int \<Rightarrow> scan_context \<Rightarrow> ('t, 'v, 'e) simple_runner \<Rightarrow> network_service list
    \<Rightarrow> (module_run list \<times> ('e run_error, 'v detection_report list) result) option" where
  "runDetectors order limit ctx r services =
     runConcurrent order limit services (detectService (r_detectors r) ctx [] [])"

definition FingerprintStep :: "nat list \<Rightarrow> int \<Rightarrow> scan_context \<Rightarrow> ('t, 'v, 'e) simple_runner \<Rightarrow> network_service list
    \<Rightarrow> (module_run list \<times> ('e run_error, network_service list) result) option" where
  "FingerprintStep order limit ctx r services =
     (if r_fingerprinters r = [] then Some ([], Inr services) else runFingerprinters order limit ctx r services)"

definition DetectStep :: "nat list \<Rightarrow> int \<Rightarrow> scan_context \<Rightarrow> ('t, 'v, 'e) simple_runner \<Rightarrow> network_service list
    \<Rightarrow> (module_run list \<times> ('e run_error, 'v detection_report list) result) option" where
  "DetectStep order limit ctx r services =
     (if r_detectors r = [] then Some ([], Inr []) else runDetectors order limit ctx r services)"

definition PortScanStep :: "('t, 'v, 'e) simple_runner \<Rightarrow> string \<Rightarrow> ('e run_error, ('t, network_service) port_report) result" where
  "PortScanStep r target = (case r_portScanner r of
       None \<Rightarrow> Inl ErrNoPortScanner
     | Some ps \<Rightarrow> map_sum ErrScan id (psm_scan ps target))"

section \<open>The scan\<close>

datatype scan_status = SUCCEEDED | PARTIALLY_SUCCEEDED

record ('t, 'v) scan_finding =
  fi_target :: 't
  fi_service :: network_service
  fi_vulnerability :: 'v

record ('t, 'v) scan_results =
  sc_status :: scan_status
  sc_alive :: bool
  sc_findings :: "('t, 'v) scan_finding list"
  sc_target :: 't
  sc_services :: "network_service list"
  sc_reports :: "'v detection_report list"

definition good_status :: "detection_status \<Rightarrow> bool" where
  "good_status s = (s = VULNERABILITY_PRESENT \<or> s = VULNERABILITY_VERIFIED)"

definition findings_of :: "'t \<Rightarrow> 'v detection_report list \<Rightarrow> ('t, 'v) scan_finding list" where
  "findings_of target reports =
     map (\<lambda>d. \<lparr>fi_target = target, fi_service = rep_service d, fi_vulnerability = rep_vulnerability d\<rparr>)
       (filter (\<lambda>d. good_status (rep_status d)) reports)"

text \<open>\<open>degraded\<close> is set by a failed run of a fingerprinter or detector.\<close>

definition degraded :: "module_run list \<Rightarrow> bool" where
  "degraded runs = list_ex snd runs"

text \<open>The completion orders of the two parallel steps may depend on the services they are given.\<close>

definition Run :: "(network_service list \<Rightarrow> nat list) \<Rightarrow> (network_service list \<Rightarrow> nat list) \<Rightarrow> int \<Rightarrow> scan_context
    \<Rightarrow> ('t, 'v, 'e) simple_runner \<Rightarrow> string \<Rightarrow> (module_run list \<times> ('e run_error, ('t, 'v) scan_results) result) option" where
  "Run fp_order dt_order limit ctx r target =
     (case PortScanStep r target of
        Inl e \<Rightarrow> Some ([], Inl e)
      | Inr portscan \<Rightarrow>
          (case FingerprintStep (fp_order (pr_services portscan)) limit ctx r (pr_services portscan) of
             None \<Rightarrow> None
           | Some (runs1, Inl e) \<Rightarrow> Some (runs1, Inl e)
           | Some (runs1, Inr services) \<Rightarrow>
               (case DetectStep (dt_order services) limit ctx r services of
                  None \<Rightarrow> None
                | Some (runs2, Inl e) \<Rightarrow> Some (runs1 @ runs2, Inl e)
                | Some (runs2, Inr detections) \<Rightarrow>
                    Some (runs1 @ runs2,
                      Inr \<lparr>sc_status = (if degraded (runs1 @ runs2) then PARTIALLY_SUCCEEDED else SUCCEEDED),
                           sc_alive = (pr_services portscan \<noteq> []),
                           sc_findings = findings_of (pr_target portscan) detections,
                           sc_target = pr_target portscan,
                           sc_services = services,
                           sc_reports = detections\<rparr>))))"

section \<open>The entrypoint\<close>

datatype 'e entry_error = ConfigRequired | FromRegistry "'e registry_error" | FromRunner "'e run_error" | CallbackInit 'e

text \<open>
  \<open>New\<close> with the default runner: the errors of the runner's register calls are not checked.
  \<open>init_callback\<close> stands for the initialisation of the callback client.
\<close>

definition register_or_keep :: "('e run_error, 'r) result \<Rightarrow> 'r \<Rightarrow> 'r" where
  "register_or_keep res r = (case res of Inl _ \<Rightarrow> r | Inr r' \<Rightarrow> r')"

definition entrypoint_New :: "(string \<Rightarrow> (string \<Rightarrow> bool) option) \<Rightarrow> ('cfg \<Rightarrow> workflow_config) \<Rightarrow> ('cfg \<Rightarrow> 'e option)
    \<Rightarrow> ('cfg, 'e, ('t, 'e) port_scanner, 'e fingerprinter, ('v, 'e) vuln_detector) registry \<Rightarrow> 'cfg option
    \<Rightarrow> ('e entry_error, ('t, 'v, 'e) simple_runner) result" where
  "entrypoint_New compile workflow init_callback reg cfg =
     (case cfg of None \<Rightarrow> Inl ConfigRequired | Some c \<Rightarrow>
      (case runner_New cfg of Inl e \<Rightarrow> Inl (FromRunner e) | Inr r0 \<Rightarrow>
      (case GetPortScanner workflow reg c of Inl e \<Rightarrow> Inl (FromRegistry e) | Inr ps \<Rightarrow>
       (let r1 = register_or_keep (runner_RegisterPortScanner (Some ps) r0) r0 in
      (case GetFingerprinters compile workflow reg c of Inl e \<Rightarrow> Inl (FromRegistry e) | Inr fps \<Rightarrow>
       (let r2 = fold (\<lambda>fp r. register_or_keep (runner_RegisterFingerprinter (Some fp) r) r) fps r1 in
      (case GetDetectors compile workflow reg c of Inl e \<Rightarrow> Inl (FromRegistry e) | Inr dts \<Rightarrow>
       (let r3 = fold (\<lambda>dt r. register_or_keep (runner_RegisterDetector (Some dt) r) r) dts r2 in
        (case init_callback c of Some e \<Rightarrow> Inl (CallbackInit e) | None \<Rightarrow> Inr r3)))))))))"

definition entrypoint_Advisories :: "('cfg, 'e, 'ps, 'fp, ('v, 'e) vuln_detector) registry \<Rightarrow> 'cfg
    \<Rightarrow> ('e registry_error, 'v list) result" where
  "entrypoint_Advisories reg default_cfg =
     map_sum id (\<lambda>dts. concat (map (\<lambda>dt. concat (map (\<lambda>a. case a of None \<Rightarrow> [] | Some v \<Rightarrow> [v]) (dtm_advisories dt))) dts))
       (AllDetectors reg default_cfg)"

section \<open>What one service goes through\<close>

definition fp_step :: "'e fingerprinter \<Rightarrow> network_service \<Rightarrow> network_service list" where
  "fp_step fp sv = (case fpm_run fp sv of
       Inl EndpointMissingAddress \<Rightarrow> [] | Inl (OtherError _) \<Rightarrow> [sv] | Inr res \<Rightarrow> res)"

definition failed :: "('e module_error, 'a) result \<Rightarrow> bool" where
  "failed r = (\<not> is_ok r)"

text \<open>The specification: each fingerprinter replaces every service by its successors.\<close>

fun fp_pipeline :: "'e fingerprinter list \<Rightarrow> network_service list \<Rightarrow> network_service list" where
  "fp_pipeline [] svs = svs"
| "fp_pipeline (fp # fps) svs = fp_pipeline fps (concat (map (fp_step fp) svs))"

fun fp_failed :: "'e fingerprinter list \<Rightarrow> network_service list \<Rightarrow> bool" where
  "fp_failed [] svs = False"
| "fp_failed (fp # fps) svs =
     (list_ex (\<lambda>sv. failed (fpm_run fp sv)) svs \<or> fp_failed fps (concat (map (fp_step fp) svs)))"

definition dt_reports :: "('v, 'e) vuln_detector list \<Rightarrow> network_service \<Rightarrow> 'v detection_report list" where
  "dt_reports dts sv = concat (map (\<lambda>dt. case dtm_run dt sv of Inl _ \<Rightarrow> [] | Inr res \<Rightarrow> res) dts)"

definition dt_failed :: "('v, 'e) vuln_detector list \<Rightarrow> network_service \<Rightarrow> bool" where
  "dt_failed dts sv = list_ex (\<lambda>dt. failed (dtm_run dt sv)) dts"

lemma degraded_append [simp]: "degraded (xs @ ys) \<longleftrightarrow> degraded xs \<or> degraded ys"
  by (simp add: degraded_def)

lemma degraded_Cons [simp]: "degraded ((n, b) # ys) \<longleftrightarrow> b \<or> degraded ys" "\<not> degraded []"
  by (simp_all add: degraded_def)

lemma degraded_concat: "degraded (concat xss) \<longleftrightarrow> list_ex degraded xss"
  by (induction xss) simp_all

lemma fingerprint_all_spec:
  "\<exists>log. fingerprint_all fp svs None runs acc = Inl (None, runs @ log, acc @ concat (map (fp_step fp) svs))
     \<and> degraded log = list_ex (\<lambda>sv. failed (fpm_run fp sv)) svs"
proof (induction svs arbitrary: runs acc)
  case (Cons sv svs)
  let ?b = "failed (fpm_run fp sv)"
  obtain log where log: "fingerprint_all fp svs None (runs @ [(fpm_name fp, ?b)]) (acc @ fp_step fp sv)
      = Inl (None, (runs @ [(fpm_name fp, ?b)]) @ log, (acc @ fp_step fp sv) @ concat (map (fp_step fp) svs))"
      "degraded log = list_ex (\<lambda>sv. failed (fpm_run fp sv)) svs"
    using Cons.IH by blast
  have "fingerprint_all fp (sv # svs) None runs acc
      = fingerprint_all fp svs None (runs @ [(fpm_name fp, ?b)]) (acc @ fp_step fp sv)"
    by (auto simp: fp_step_def failed_def split: sum.splits module_error.splits)
  with log show ?case by (intro exI [of _ "(fpm_name fp, ?b) # log"]) simp
qed simp

lemma fingerprintService_spec:
  "\<exists>log. fingerprintService fps None runs svs = (runs @ log, Inr (fp_pipeline fps svs)) \<and> degraded log = fp_failed fps svs"
proof (induction fps arbitrary: runs svs)
  case (Cons fp fps)
  obtain log1 where 1: "fingerprint_all fp svs None runs [] = Inl (None, runs @ log1, concat (map (fp_step fp) svs))"
      "degraded log1 = list_ex (\<lambda>sv. failed (fpm_run fp sv)) svs"
    using fingerprint_all_spec [of fp svs runs "[]"] by auto
  obtain log2 where "fingerprintService fps None (runs @ log1) (concat (map (fp_step fp) svs))
      = ((runs @ log1) @ log2, Inr (fp_pipeline fps (concat (map (fp_step fp) svs))))"
      "degraded log2 = fp_failed fps (concat (map (fp_step fp) svs))"
    using Cons.IH by blast
  with 1 show ?case by (intro exI [of _ "log1 @ log2"]) simp
qed simp

lemma detectService_spec:
  "\<exists>log. detectService dts None runs reports sv = (runs @ log, Inr (reports @ dt_reports dts sv)) \<and> degraded log = dt_failed dts sv"
proof (induction dts arbitrary: runs reports)
  case (Cons dt dts)
  let ?b = "failed (dtm_run dt sv)" and ?r = "case dtm_run dt sv of Inl _ \<Rightarrow> [] | Inr res \<Rightarrow> res"
  obtain log where log: "detectService dts None (runs @ [(dtm_name dt, ?b)]) (reports @ ?r) sv
      = ((runs @ [(dtm_name dt, ?b)]) @ log, Inr ((reports @ ?r) @ dt_reports dts sv))" "degraded log = dt_failed dts sv"
    using Cons.IH by blast
  have "detectService (dt # dts) None runs reports sv = detectService dts None (runs @ [(dtm_name dt, ?b)]) (reports @ ?r) sv"
    by (auto simp: failed_def split: sum.splits)
  with log show ?case
    by (intro exI [of _ "(dtm_name dt, ?b) # log"]) (simp add: dt_reports_def dt_failed_def)
qed (simp add: dt_reports_def dt_failed_def)

lemma fp_pipeline_concat: "fp_pipeline fps svs = concat (map (\<lambda>sv. fp_pipeline fps [sv]) svs)"
proof (induction fps arbitrary: svs)
  case (Cons fp fps)
  have "fp_pipeline fps (concat (map (fp_step fp) svs))
      = concat (map (\<lambda>sv. fp_pipeline fps [sv]) (concat (map (fp_step fp) svs)))" by (rule Cons.IH)
  also have "\<dots> = concat (map (\<lambda>sv. concat (map (\<lambda>x. fp_pipeline fps [x]) (fp_step fp sv))) svs)"
    by (induction svs) auto
  also have "(\<lambda>sv. concat (map (\<lambda>x. fp_pipeline fps [x]) (fp_step fp sv))) = (\<lambda>sv. fp_pipeline (fp # fps) [sv])"
    using Cons.IH [of "fp_step fp _"] by (intro ext) simp
  finally show ?case by simp
qed simp

lemma fp_failed_concat: "fp_failed fps svs \<longleftrightarrow> list_ex (\<lambda>sv. fp_failed fps [sv]) svs"
proof (induction fps arbitrary: svs)
  case (Cons fp fps)
  have "fp_failed fps (concat (map (fp_step fp) svs))
      \<longleftrightarrow> list_ex (\<lambda>x. fp_failed fps [x]) (concat (map (fp_step fp) svs))" by (rule Cons.IH)
  also have "\<dots> \<longleftrightarrow> list_ex (\<lambda>sv. list_ex (\<lambda>x. fp_failed fps [x]) (fp_step fp sv)) svs"
    by (simp add: list_ex_iff)
  also have "(\<lambda>sv. list_ex (\<lambda>x. fp_failed fps [x]) (fp_step fp sv)) = (\<lambda>sv. fp_failed fps (fp_step fp sv))"
    using Cons.IH [of "fp_step fp _"] by (intro ext) simp
  finally show ?case by (auto simp: list_ex_iff)
qed (simp add: list_ex_iff)

section \<open>Any completion order\<close>

definition completion_order :: "nat list \<Rightarrow> nat \<Rightarrow> bool" where
  "completion_order order n = (mset order = mset [0..<n])"

lemma mset_concat_order:
  assumes "completion_order order (length xs)"
  shows "mset (concat (map (\<lambda>i. h (xs ! i)) order)) = mset (concat (map h xs))"
proof -
  have "mset (concat (map f ys)) = (\<Sum>y\<in>#mset ys. mset (f y))" for f :: "nat \<Rightarrow> 'b list" and ys
    by (induction ys) auto
  then have "mset (concat (map (\<lambda>i. h (xs ! i)) order)) = mset (concat (map (\<lambda>i. h (xs ! i)) [0..<length xs]))"
    using assms by (simp only: completion_order_def)
  also have "map (\<lambda>i. h (xs ! i)) [0..<length xs] = map h xs"
    by (rule nth_equalityI) simp_all
  finally show ?thesis .
qed

lemma set_completion_order: "completion_order order n \<Longrightarrow> set order = {0..<n}"
  by (metis completion_order_def mset_eq_setD set_upt)

lemma list_ex_order:
  assumes "completion_order order (length xs)"
  shows "list_ex (\<lambda>i. P (xs ! i)) order \<longleftrightarrow> list_ex P xs"
  using set_completion_order [OF assms] by (auto simp: list_ex_length [of P xs] list_ex_iff [of _ order])

lemma runConcurrent_spec:
  assumes "limit \<noteq> 0" and "completion_order order (length services)"
    and "\<And>sv. \<exists>log. process sv = (log, Inr (f sv)) \<and> degraded log = bad sv"
  shows "\<exists>runs res. runConcurrent order limit services process = Some (runs, Inr res)
    \<and> mset res = mset (concat (map f services)) \<and> degraded runs = list_ex bad services"
proof -
  have f: "snd (process sv) = Inr (f sv)" "degraded (fst (process sv)) = bad sv" for sv
    using assms(3) [of sv] by auto
  let ?outs = "map (\<lambda>i. process (services ! i)) order"
  have "map_result snd ?outs = Inr (map (\<lambda>i. f (services ! i)) order)"
    unfolding map_result_Inr_iff by (simp add: list_all2_conv_all_nth f)
  moreover have "degraded (concat (map fst ?outs)) = list_ex bad services"
    unfolding degraded_concat using list_ex_order [OF assms(2), of bad]
    by (simp add: list_ex_iff f)
  ultimately show ?thesis using assms(1) mset_concat_order [OF assms(2), of f]
    by (simp add: runConcurrent_def Let_def)
qed

lemma FingerprintStep_spec:
  assumes "limit \<noteq> 0" and "completion_order order (length services)"
  shows "\<exists>runs res. FingerprintStep order limit None r services = Some (runs, Inr res)
    \<and> mset res = mset (fp_pipeline (r_fingerprinters r) services)
    \<and> degraded runs = fp_failed (r_fingerprinters r) services"
proof (cases "r_fingerprinters r = []")
  case False
  have "\<exists>log. fingerprintService (r_fingerprinters r) None [] [sv] = (log, Inr (fp_pipeline (r_fingerprinters r) [sv]))
      \<and> degraded log = fp_failed (r_fingerprinters r) [sv]" for sv
    using fingerprintService_spec [of "r_fingerprinters r" "[]" "[sv]"] by simp
  from runConcurrent_spec [OF assms, of "\<lambda>sv. fingerprintService (r_fingerprinters r) None [] [sv]", OF this] False
  show ?thesis
    unfolding FingerprintStep_def runFingerprinters_def
      fp_pipeline_concat [of _ services] fp_failed_concat [of _ services] by auto
qed (simp add: FingerprintStep_def)

lemma DetectStep_spec:
  assumes "limit \<noteq> 0" and "completion_order order (length services)"
  shows "\<exists>runs res. DetectStep order limit None r services = Some (runs, Inr res)
    \<and> mset res = mset (concat (map (dt_reports (r_detectors r)) services))
    \<and> degraded runs = list_ex (dt_failed (r_detectors r)) services"
proof (cases "r_detectors r = []")
  case True
  then show ?thesis by (simp add: DetectStep_def dt_reports_def dt_failed_def [abs_def] list_ex_iff)
next
  case False
  have "\<exists>log. detectService (r_detectors r) None [] [] sv = (log, Inr (dt_reports (r_detectors r) sv))
      \<and> degraded log = dt_failed (r_detectors r) sv" for sv
    using detectService_spec [of "r_detectors r" "[]" "[]" sv] by simp
  from runConcurrent_spec [OF assms, of "detectService (r_detectors r) None [] []", OF this] False
  show ?thesis by (auto simp: DetectStep_def runDetectors_def)
qed

text \<open>C23. A scan whose port scan succeeds and whose context does not end returns a report, whatever
  fails and in whatever order the services finish: it lists, up to that order, every service with
  its fingerprints and the reports of every detector that answered, so one failing module takes
  nothing from the others; its findings are the reports of a present or verified vulnerability;
  and it is only partially succeeded exactly when some fingerprinter or detector failed.\<close>

theorem Run_complete:
  assumes "r_portScanner r = Some ps" and "psm_scan ps target = Inr portscan" and "limit \<noteq> 0"
    and "\<And>ss. completion_order (fp_order ss) (length ss)" and "\<And>ss. completion_order (dt_order ss) (length ss)"
  shows "\<exists>runs res. Run fp_order dt_order limit None r target = Some (runs, Inr res)
    \<and> mset (sc_services res) = mset (fp_pipeline (r_fingerprinters r) (pr_services portscan))
    \<and> mset (sc_reports res) = mset (concat (map (dt_reports (r_detectors r))
          (fp_pipeline (r_fingerprinters r) (pr_services portscan))))
    \<and> sc_findings res = findings_of (pr_target portscan) (sc_reports res)
    \<and> (sc_status res = PARTIALLY_SUCCEEDED \<longleftrightarrow>
         fp_failed (r_fingerprinters r) (pr_services portscan)
         \<or> list_ex (dt_failed (r_detectors r)) (fp_pipeline (r_fingerprinters r) (pr_services portscan)))"
proof -
  let ?svs = "pr_services portscan" and ?fps = "r_fingerprinters r" and ?dts = "r_detectors r"
  have scan: "PortScanStep r target = Inr portscan" using assms(1,2) by (simp add: PortScanStep_def)
  obtain runs1 services where fp: "FingerprintStep (fp_order ?svs) limit None r ?svs = Some (runs1, Inr services)"
      "mset services = mset (fp_pipeline ?fps ?svs)" "degraded runs1 = fp_failed ?fps ?svs"
    using FingerprintStep_spec [OF assms(3) assms(4), where r = r] by blast
  obtain runs2 detections where dt: "DetectStep (dt_order services) limit None r services = Some (runs2, Inr detections)"
      "mset detections = mset (concat (map (dt_reports ?dts) services))"
      "degraded runs2 = list_ex (dt_failed ?dts) services"
    using DetectStep_spec [OF assms(3) assms(5), where r = r] by blast
  have "mset (concat (map (dt_reports ?dts) xs)) = (\<Sum>y\<in>#mset xs. mset (dt_reports ?dts y))" for xs
    by (induction xs) auto
  then have "mset detections = mset (concat (map (dt_reports ?dts) (fp_pipeline ?fps ?svs)))"
    using dt(2) fp(2) by simp
  moreover have "list_ex (dt_failed ?dts) services = list_ex (dt_failed ?dts) (fp_pipeline ?fps ?svs)"
    using mset_eq_setD [OF fp(2)] by (simp add: list_ex_iff)
  ultimately show ?thesis using fp dt by (simp add: Run_def scan)
qed

text \<open>A scan fails to return in one situation only: the configured concurrency is zero and the
  port scan found a service for a fingerprinter or detector to run on.\<close>

theorem Run_blocks_iff:
  assumes "completion_order (fp_order []) 0"
  shows "Run fp_order dt_order limit ctx r target = None \<longleftrightarrow>
     limit = 0 \<and> (\<exists>portscan. PortScanStep r target = Inr portscan \<and> pr_services portscan \<noteq> [])
     \<and> (r_fingerprinters r \<noteq> [] \<or> r_detectors r \<noteq> [])"
proof (cases "PortScanStep r target")
  case (Inr portscan)
  let ?svs = "pr_services portscan"
  have dt: "DetectStep order limit ctx r services = None \<longleftrightarrow> limit = 0 \<and> r_detectors r \<noteq> [] \<and> services \<noteq> []" for order services
    by (auto simp: DetectStep_def runDetectors_def runConcurrent_def Let_def)
  have fp: "FingerprintStep order limit ctx r services = None \<longleftrightarrow> limit = 0 \<and> r_fingerprinters r \<noteq> [] \<and> services \<noteq> []" for order services
    by (auto simp: FingerprintStep_def runFingerprinters_def runConcurrent_def Let_def)
  have empty: "FingerprintStep (fp_order []) limit ctx r [] = Some ([], Inr [])"
    using assms by (simp add: FingerprintStep_def runFingerprinters_def runConcurrent_def completion_order_def)
  show ?thesis
  proof (cases "limit = 0 \<and> ?svs \<noteq> []")
    case True
    show ?thesis
    proof (cases "r_fingerprinters r = []")
      case fps: True
      with True Inr dt [of "dt_order ?svs" ?svs] show ?thesis
        by (auto simp: Run_def FingerprintStep_def split: option.splits sum.splits)
    next
      case False
      with True Inr fp [of "fp_order ?svs" ?svs] show ?thesis by (simp add: Run_def)
    qed
  next
    case False
    show ?thesis
    proof (cases "?svs = []")
      case True
      then have "DetectStep (dt_order []) limit ctx r [] \<noteq> None" using dt by simp
      with True Inr empty show ?thesis by (auto simp: Run_def split: option.splits sum.splits)
    next
      case 2: False
      with False have "limit \<noteq> 0" by simp
      with dt fp have "\<And>order services. DetectStep order limit ctx r services \<noteq> None"
        "\<And>order services. FingerprintStep order limit ctx r services \<noteq> None" by blast+
      with Inr \<open>limit \<noteq> 0\<close> show ?thesis by (simp add: Run_def del: not_None_eq split: option.splits sum.splits)
    qed
  qed
qed (simp add: Run_def)

text \<open>A scan of one service by one fingerprinter that fails and one detector that reports.\<close>

definition sample_service :: network_service where
  "sample_service = \<lparr>sv_endpoint = None, sv_transport = [], sv_ssl = [], sv_http_methods = [], sv_context = None\<rparr>"

definition sample_runner :: "(nat, nat, nat) simple_runner" where
  "sample_runner = \<lparr>r_portScanner = Some \<lparr>psm_name = ''ps'', psm_scan = (\<lambda>_. Inr \<lparr>pr_target = 1, pr_services = [sample_service]\<rparr>)\<rparr>,
     r_fingerprinters = [\<lparr>fpm_name = ''fp'', fpm_run = (\<lambda>_. Inl (OtherError 0))\<rparr>],
     r_detectors = [\<lparr>dtm_name = ''dt'', dtm_run = (\<lambda>s. Inr [\<lparr>rep_status = VULNERABILITY_VERIFIED, rep_service = s, rep_vulnerability = 7\<rparr>]),
       dtm_advisories = []\<rparr>]\<rparr>"

theorem Run_complete_witness:
  "\<exists>runs res. Run (\<lambda>ss. [0..<length ss]) (\<lambda>ss. [0..<length ss]) 5 None sample_runner ''t'' = Some (runs, Inr res)
     \<and> sc_status res = PARTIALLY_SUCCEEDED \<and> mset (sc_services res) = {#sample_service#}"
proof -
  let ?ps = "\<lparr>psm_name = ''ps'', psm_scan = (\<lambda>_. Inr \<lparr>pr_target = 1, pr_services = [sample_service]\<rparr>)\<rparr> :: (nat, nat) port_scanner"
  have "r_portScanner sample_runner = Some ?ps" "psm_scan ?ps ''t'' = Inr \<lparr>pr_target = 1, pr_services = [sample_service]\<rparr>"
    by (simp_all add: sample_runner_def)
  from Run_complete [OF this, of 5 "\<lambda>ss. [0..<length ss]" "\<lambda>ss. [0..<length ss]"]
  show ?thesis by (simp add: completion_order_def sample_runner_def fp_step_def failed_def) blast
qed

theorem Run_blocks_iff_witness:
  "Run (\<lambda>ss. [0..<length ss]) (\<lambda>ss. [0..<length ss]) 0 None sample_runner ''t'' = None"
  using Run_blocks_iff [of "\<lambda>ss. [0..<length ss]" "\<lambda>ss. [0..<length ss]" 0 None sample_runner "''t''"]
  by (simp add: completion_order_def PortScanStep_def sample_runner_def)

end
