(* ===== verification/PortScan.thy ===== *)
theory PortScan
  imports Runner LlmClient
begin

text \<open>
  The port scanners: the nmap client \<open>src/common/clients/nmap/nmap.go\<close> with the output it parses
  (\<open>output.go\<close>), and the plugins \<open>src/plugins/portscan/\<close>: \<open>nmap/nmap.go\<close>, \<open>httpscan/httpscan.go\<close> and
  \<open>noop/noop.go\<close>. The nmap process, the temporary file and the XML decoder are parameters; the
  elements of the output that no code reads are left out of the records. The workers of
  \<open>httpscan\<close> are a state machine under any schedule.
\<close>

section \<open>Getters of messages\<close>

definition get_uint32 :: "string \<Rightarrow> 32 word \<Rightarrow> pb_message \<Rightarrow> 32 word" where
  "get_uint32 name def m = (case m name of Some (VUint32 w) \<Rightarrow> w | _ \<Rightarrow> def)"

definition get_bool :: "string \<Rightarrow> bool \<Rightarrow> pb_message \<Rightarrow> bool" where
  "get_bool name def m = (case m name of Some (VBool b) \<Rightarrow> b | _ \<Rightarrow> def)"

definition get_enum :: "string \<Rightarrow> int \<Rightarrow> pb_message \<Rightarrow> int" where
  "get_enum name def m = (case m name of Some (VEnum n) \<Rightarrow> n | _ \<Rightarrow> def)"

definition get_uint32s :: "string \<Rightarrow> pb_message \<Rightarrow> 32 word list" where
  "get_uint32s name m = (case m name of
       Some (VList vs) \<Rightarrow> List.map_filter (\<lambda>v. case v of VUint32 w \<Rightarrow> Some w | _ \<Rightarrow> None) vs
     | _ \<Rightarrow> [])"

definition get_int32s :: "string \<Rightarrow> pb_message \<Rightarrow> 32 word list" where
  "get_int32s name m = (case m name of
       Some (VList vs) \<Rightarrow> List.map_filter (\<lambda>v. case v of VInt32 w \<Rightarrow> Some w | _ \<Rightarrow> None) vs
     | _ \<Rightarrow> [])"

definition ports_to_scan :: "config \<Rightarrow> 32 word list" where
  "ports_to_scan c = get_uint32s ''ports_to_scan'' (GlobalConfig c)"

section \<open>The output of nmap\<close>

record nmap_elem =
  el_key :: string
  el_value :: string

datatype nmap_table = Table (tb_key: string) (tb_tables: "nmap_table list") (tb_elems: "nmap_elem list")

record nmap_script =
  np_id :: string
  np_output :: string
  np_tables :: "nmap_table list"
  np_elems :: "nmap_elem list"

record nmap_service_info =
  si_name :: string
  si_product :: string
  si_version :: string
  si_extra_info :: string
  si_tunnel :: string
  si_cpe :: "string list"

record nmap_port =
  po_protocol :: string
  po_id :: int
  po_state :: string
  po_service :: "nmap_service_info option"
  po_scripts :: "nmap_script list"

record nmap_address =
  ad_addr :: string
  ad_type :: string

record nmap_host =
  ho_state :: string
  ho_addresses :: "nmap_address list"
  ho_hostnames :: "string list"
  ho_ports :: "nmap_port list"

record nmap_output =
  ou_hosts :: "nmap_host list"

datatype nmap_error =
    ErrInvalidTechnique int | ErrNmapExecution bool | ErrNmapOutputRead | ErrNmapXMLUnmarshal | ErrNmapTempFile
  | ErrNoOutput | ErrInvalidHostsCount | ErrInvalidAddressType | ErrNoAddressOrHostname

definition ParseXMLOutput :: "(string \<Rightarrow> nmap_output option) \<Rightarrow> string \<Rightarrow> (nmap_error, nmap_output) result" where
  "ParseXMLOutput unmarshal data = (case unmarshal data of None \<Rightarrow> Inl ErrNmapXMLUnmarshal | Some x \<Rightarrow> Inr x)"

section \<open>The client\<close>

record nmap_client =
  nc_config :: pb_message
  nc_core :: config

definition nmap_New :: "config \<Rightarrow> nmap_client" where
  "nmap_New c = \<lparr>nc_config = sub_message ''nmap'' (ClientsConfig c), nc_core = c\<rparr>"

definition optPorts :: "nmap_client \<Rightarrow> string" where
  "optPorts nc = (let ports = ports_to_scan (nc_core nc) in
     if ports = [] then ''-p-'' else ''-p'' @ join '','' (map (\<lambda>p. itoa (unat p)) ports))"

definition optTechnique :: "nmap_client \<Rightarrow> (nmap_error, string) result" where
  "optTechnique nc = (let technique = get_enum ''scan_technique'' 1 (nc_config nc) in
     if technique = 1 then Inr ''-sT'' else if technique = 2 then Inr ''-sU'' else Inl (ErrInvalidTechnique technique))"

definition optHostDiscovery :: "nmap_client \<Rightarrow> string" where
  "optHostDiscovery nc = (if \<not> get_bool ''enable_host_discovery'' False (nc_config nc) then ''-Pn'' else [])"

text \<open>An intensity above 9 is replaced in the configuration itself.\<close>

definition version_intensity :: "nmap_client \<Rightarrow> 32 word" where
  "version_intensity nc = get_uint32 ''version_intensity'' 0 (nc_config nc)"

definition optVersionDetection :: "nmap_client \<Rightarrow> nmap_client \<times> string list" where
  "optVersionDetection nc =
     (if \<not> get_bool ''enable_version_detection'' False (nc_config nc) then (nc, [])
      else if version_intensity nc = 0 then (nc, [''-sV''])
      else
        let nc' = (if 9 < version_intensity nc
                   then nc\<lparr>nc_config := (nc_config nc)(''version_intensity'' \<mapsto> VUint32 5)\<rparr> else nc)
        in (nc', [''-sV'', ''--version-intensity'', itoa (unat (version_intensity nc'))]))"

definition optScripts :: "nmap_client \<Rightarrow> string list" where
  "optScripts nc =
     (let userAgent = get_string ''user_agent'' [] (GlobalConfig (nc_core nc)) in
      (if userAgent \<noteq> [] then [''--script-args'', ''http.useragent='' @ userAgent] else []) @
      (if get_bool ''enable_http_methods_detection'' False (nc_config nc) then [''--script'', ''http-methods''] else []) @
      (if get_bool ''enable_ssl_detection'' False (nc_config nc)
       then [''--script'', ''ssl-cert'', ''--script'', ''ssl-enum-ciphers''] else []))"

definition optIPVersion :: "string \<Rightarrow> string" where
  "optIPVersion target = (if IsIPv6 target then ''-6'' else [])"

definition optPerformance :: "nmap_client \<Rightarrow> string list" where
  "optPerformance nc =
     (let min_rate = get_int32 ''min_rate'' 0 (nc_config nc);
          qps = get_int32 ''max_packets_per_second'' 0 (sub_message ''performance'' (GlobalConfig (nc_core nc)));
          intensity = get_uint32 ''scan_intensity'' 3 (nc_config nc)
      in (if 0 < sint min_rate then [''--min-rate'', itoa (unat min_rate)] else []) @
         (if 0 < sint qps then [''--max-rate'', itoa (unat qps)] else []) @
         [''-T'' @ itoa (unat (if intensity \<le> 0 \<or> 5 < intensity then 3 else intensity))])"

definition buildOpts :: "nmap_client \<Rightarrow> string \<Rightarrow> string \<Rightarrow> nmap_client \<times> (nmap_error, string list) result" where
  "buildOpts nc target outputFile = (case optTechnique nc of
       Inl e \<Rightarrow> (nc, Inl e)
     | Inr mode \<Rightarrow> (case optVersionDetection nc of (nc', version) \<Rightarrow>
         (nc', Inr ([''-oX'', outputFile, mode] @ optPerformance nc @ [optIPVersion target, optPorts nc, optHostDiscovery nc]
                    @ version @ optScripts nc' @ [target]))))"

definition CommandLine :: "nmap_client \<Rightarrow> string \<Rightarrow> nmap_client \<times> (nmap_error, string list) result" where
  "CommandLine nc target = buildOpts nc target []"

text \<open>
  \<open>ne_create_temp\<close> creates a file, \<open>ne_close\<close> closes it, \<open>ne_exec\<close> runs a binary under a deadline
  (\<open>None\<close>: that of the caller) and says whether it failed, and then whether the context had ended.
\<close>

record 'w nmap_env =
  ne_create_temp :: "'w \<Rightarrow> 'w \<times> string option"
  ne_close :: "string \<Rightarrow> 'w \<Rightarrow> 'w \<times> bool"
  ne_exec :: "duration option \<Rightarrow> string \<Rightarrow> string list \<Rightarrow> 'w \<Rightarrow> 'w \<times> bool option"
  ne_read :: "string \<Rightarrow> 'w \<Rightarrow> string option"
  ne_remove :: "string \<Rightarrow> 'w \<Rightarrow> 'w"
  ne_unmarshal :: "string \<Rightarrow> nmap_output option"

definition createOutputFile :: "'w nmap_env \<Rightarrow> 'w \<Rightarrow> 'w \<times> (nmap_error, string) result" where
  "createOutputFile ne w = (case ne_create_temp ne w of
       (w1, None) \<Rightarrow> (w1, Inl ErrNmapTempFile)
     | (w1, Some name) \<Rightarrow> (case ne_close ne name w1 of
           (w2, False) \<Rightarrow> (ne_remove ne name w2, Inl ErrNmapTempFile)
         | (w2, True) \<Rightarrow> (w2, Inr name)))"

definition scan_deadline :: "nmap_client \<Rightarrow> duration option" where
  "scan_deadline nc = (let t = get_int32 ''timeout_seconds'' 300 (nc_config nc) in
     if 0 < sint t then Some (seconds t) else None)"

definition run_binary :: "'w nmap_env \<Rightarrow> nmap_client \<Rightarrow> string list \<Rightarrow> string \<Rightarrow> 'w \<Rightarrow> 'w \<times> (nmap_error, nmap_output) result" where
  "run_binary ne nc args outputFile w =
     (let path = get_string ''binary_path'' [] (nc_config nc) in
      case ne_exec ne (scan_deadline nc) (if path = [] then ''nmap'' else path) args w of
        (w1, Some ended) \<Rightarrow> (w1, Inl (ErrNmapExecution ended))
      | (w1, None) \<Rightarrow> (w1, case ne_read ne outputFile w1 of
            None \<Rightarrow> Inl ErrNmapOutputRead
          | Some data \<Rightarrow> ParseXMLOutput (ne_unmarshal ne) data))"

definition nmap_Run :: "'w nmap_env \<Rightarrow> string \<Rightarrow> nmap_client \<times> 'w \<Rightarrow> (nmap_client \<times> 'w) \<times> (nmap_error, nmap_output) result" where
  "nmap_Run ne target st = (let (nc, w) = st in
     case createOutputFile ne w of
       (w1, Inl e) \<Rightarrow> ((nc, w1), Inl e)
     | (w1, Inr outputFile) \<Rightarrow> (case buildOpts nc target outputFile of
           (nc', Inl e) \<Rightarrow> ((nc', ne_remove ne outputFile w1), Inl e)
         | (nc', Inr args) \<Rightarrow> (case run_binary ne nc' args outputFile w1 of
               (w2, r) \<Rightarrow> ((nc', ne_remove ne outputFile w2), r))))"

section \<open>The nmap plugin\<close>

text \<open>A service of the report, with the fields that only this plugin sets.\<close>

record nmap_service = network_service +
  ns_name :: string
  ns_cpes :: "string list"
  ns_software :: "string option"
  ns_versions :: "string list"

record nmap_report =
  nr_endpoint :: network_endpoint
  nr_services :: "nmap_service list"

definition parseNetworkEndpoint :: "nmap_host \<Rightarrow> (nmap_error, network_endpoint) result" where
  "parseNetworkEndpoint host =
     (if ho_addresses host = [] \<and> ho_hostnames host = [] then Inl ErrNoAddressOrHostname
      else
        let kind = (if ho_hostnames host \<noteq> [] \<and> ho_addresses host \<noteq> [] then IP_HOSTNAME
                    else if ho_hostnames host \<noteq> [] then HOSTNAME else IP);
            name = (if ho_hostnames host \<noteq> [] then Some (hd (ho_hostnames host)) else None)
        in case ho_addresses host of
            [] \<Rightarrow> Inr \<lparr>ep_type = kind, ep_ip = None, ep_hostname = name, ep_port = None\<rparr>
          | a # _ \<Rightarrow>
              if ad_type a = ''ipv4'' then
                Inr \<lparr>ep_type = kind, ep_ip = Some \<lparr>ip_addr = ad_addr a, ip_family = IPV4\<rparr>, ep_hostname = name, ep_port = None\<rparr>
              else if ad_type a = ''ipv6'' then
                Inr \<lparr>ep_type = kind, ep_ip = Some \<lparr>ip_addr = ad_addr a, ip_family = IPV6\<rparr>, ep_hostname = name, ep_port = None\<rparr>
              else Inl ErrInvalidAddressType)"

text \<open>Parsing a script never fails.\<close>

fun parseScriptHTTPMethods :: "nmap_table list \<Rightarrow> nmap_service \<Rightarrow> nmap_service" where
  "parseScriptHTTPMethods [] sv = sv"
| "parseScriptHTTPMethods (t # ts) sv =
     parseScriptHTTPMethods ts
       (if tb_key t = ''Supported Methods''
        then sv\<lparr>sv_http_methods := sv_http_methods sv @ map el_value (tb_elems t)\<rparr> else sv)"

fun parseScriptSSLCiphers :: "nmap_table list \<Rightarrow> nmap_service \<Rightarrow> nmap_service" where
  "parseScriptSSLCiphers [] sv = sv"
| "parseScriptSSLCiphers (t # ts) sv = parseScriptSSLCiphers ts (sv\<lparr>sv_ssl := sv_ssl sv @ [tb_key t]\<rparr>)"

definition parseScripts :: "nmap_script \<Rightarrow> nmap_service \<Rightarrow> nmap_service" where
  "parseScripts script sv =
     (if np_id script = ''http-methods'' then parseScriptHTTPMethods (np_tables script) sv
      else if np_id script = ''ssl-enum-ciphers'' then parseScriptSSLCiphers (np_tables script) sv
      else sv)"

definition transport_of :: "string \<Rightarrow> string option" where
  "transport_of protocol =
     (if protocol = ''tcp'' then Some ''TCP'' else if protocol = ''udp'' then Some ''UDP''
      else if protocol = ''sctp'' then Some ''SCTP'' else None)"

definition port_endpoint :: "network_endpoint \<Rightarrow> int \<Rightarrow> network_endpoint" where
  "port_endpoint e port =
     \<lparr>ep_type = (case ep_type e of IP \<Rightarrow> IP_PORT | HOSTNAME \<Rightarrow> HOSTNAME_PORT | IP_HOSTNAME \<Rightarrow> IP_HOSTNAME_PORT
                 | _ \<Rightarrow> TYPE_UNSPECIFIED),
      ep_ip = ep_ip e, ep_hostname = ep_hostname e, ep_port = Some (word_of_int port)\<rparr>"

definition parseService :: "network_endpoint \<Rightarrow> nmap_port \<Rightarrow> nmap_service option" where
  "parseService endpoint port = (case transport_of (po_protocol port) of
       None \<Rightarrow> None
     | Some transport \<Rightarrow>
         let service = \<lparr>sv_endpoint = Some (port_endpoint endpoint (po_id port)), sv_transport = transport,
               sv_ssl = [], sv_http_methods = [], sv_context = None, ns_name = ''unknown'', ns_cpes = [],
               ns_software = None, ns_versions = []\<rparr>
         in Some (case po_service port of
             None \<Rightarrow> service
           | Some si \<Rightarrow>
               fold parseScripts (po_scripts port)
                 (service\<lparr>ns_name := si_name si, ns_cpes := si_cpe si,
                    ns_software := (if si_product si \<noteq> [] then Some (si_product si) else None),
                    ns_versions := (if si_version si \<noteq> [] then [si_version si] else [])\<rparr>)))"

fun parse_ports :: "network_endpoint \<Rightarrow> nmap_port list \<Rightarrow> nmap_service list \<Rightarrow> nmap_service list" where
  "parse_ports endpoint [] acc = acc"
| "parse_ports endpoint (p # ps) acc =
     (if po_state p \<noteq> ''open'' then parse_ports endpoint ps acc
      else case parseService endpoint p of
          None \<Rightarrow> parse_ports endpoint ps acc
        | Some service \<Rightarrow> parse_ports endpoint ps (acc @ [service]))"

text \<open>A host that is not up gives no report and no error.\<close>

definition processResults :: "nmap_output option \<Rightarrow> (nmap_error, nmap_report option) result" where
  "processResults results = (case results of
       None \<Rightarrow> Inl ErrNoOutput
     | Some out \<Rightarrow>
         if length (ou_hosts out) \<noteq> 1 then Inl ErrInvalidHostsCount
         else let host = hd (ou_hosts out) in
           if ho_state host \<noteq> ''up'' then Inr None
           else case parseNetworkEndpoint host of
               Inl e \<Rightarrow> Inl e
             | Inr endpoint \<Rightarrow> Inr (Some \<lparr>nr_endpoint = endpoint, nr_services = parse_ports endpoint (ho_ports host) []\<rparr>))"

definition nmap_Scan :: "'w nmap_env \<Rightarrow> string \<Rightarrow> nmap_client \<times> 'w \<Rightarrow> (nmap_client \<times> 'w) \<times> (nmap_error, nmap_report option) result" where
  "nmap_Scan ne target st = (case nmap_Run ne target st of
       (st', Inl e) \<Rightarrow> (st', Inl e)
     | (st', Inr out) \<Rightarrow> (st', processResults (Some out)))"

section \<open>The plugin without probes\<close>

definition noop_New :: "config \<Rightarrow> 32 word list option" where
  "noop_New c = (if ports_to_scan c = [] then None else Some (ports_to_scan c))"

definition noop_Scan :: "32 word list \<Rightarrow> string \<Rightarrow> (network_endpoint, network_service) port_report" where
  "noop_Scan ports target =
     (let endpoint = FromString target;
          portType = (if ep_type endpoint = HOSTNAME then HOSTNAME_PORT else IP_PORT)
      in \<lparr>pr_target = endpoint,
          pr_services = map (\<lambda>p. \<lparr>sv_endpoint = Some \<lparr>ep_type = portType, ep_ip = ep_ip endpoint,
            ep_hostname = ep_hostname endpoint, ep_port = Some p\<rparr>,
            sv_transport = ''TRANSPORT_PROTOCOL_UNSPECIFIED'', sv_ssl = [],
            sv_http_methods = [], sv_context = None\<rparr>) ports\<rparr>)"

section \<open>The plugin over HTTP\<close>

record httpscan_module =
  hm_invalid_exit_codes :: "32 word list"
  hm_ports :: "32 word list"
  hm_limit :: int

definition httpscan_DefaultConfig :: pb_message where
  "httpscan_DefaultConfig = [''invalid_exit_codes'' \<mapsto> VList [VInt32 400, VInt32 502]]"

definition httpscan_New :: "config \<Rightarrow> httpscan_module" where
  "httpscan_New c =
     (let ports = ports_to_scan c;
          cfg = (if PluginsConfig c ''httpscan'' = None then httpscan_DefaultConfig
                 else sub_message ''httpscan'' (PluginsConfig c))
      in \<lparr>hm_invalid_exit_codes = get_int32s ''invalid_exit_codes'' cfg,
          hm_ports = (if ports = [] then map word_of_nat [1..<65536] else ports),
          hm_limit = sint (get_int32 ''max_concurrency'' 5 (sub_message ''performance'' (GlobalConfig c)))\<rparr>)"

datatype scan_error = ScanContextDone | ScanEndpointType | ScanEndpoint endpoint_error | ScanRequest

text \<open>The service that a worker asks about, and the request for it.\<close>

definition port_service :: "network_endpoint \<Rightarrow> 32 word \<Rightarrow> (scan_error, network_service) result" where
  "port_service endpoint port = (case port_type (ep_type endpoint) of
       None \<Rightarrow> Inl ScanEndpointType
     | Some t \<Rightarrow> Inr \<lparr>sv_endpoint = Some \<lparr>ep_type = t, ep_ip = ep_ip endpoint, ep_hostname = ep_hostname endpoint,
           ep_port = Some port\<rparr>, sv_transport = ''TRANSPORT_PROTOCOL_UNSPECIFIED'', sv_ssl = [], sv_http_methods = [],
           sv_context = None\<rparr>)"

definition scan_request :: "(string \<Rightarrow> url option) \<Rightarrow> network_service \<Rightarrow> (scan_error, url) result" where
  "scan_request parse service = (case BuildWebRoot service of
       Inl e \<Rightarrow> Inl (ScanEndpoint e)
     | Inr webroot \<Rightarrow> (case parse webroot of None \<Rightarrow> Inl ScanRequest | Some u \<Rightarrow> Inr u))"

text \<open>The decision for an answer: no answer and a status of the list mean a closed port.\<close>

definition port_decision :: "httpscan_module \<Rightarrow> network_service \<Rightarrow> int option \<Rightarrow> network_service option" where
  "port_decision m service answer = (case answer of
       None \<Rightarrow> None
     | Some status \<Rightarrow>
         if word_of_int status \<in> set (hm_invalid_exit_codes m) then None
         else Some (service\<lparr>sv_http_methods := [''GET'']\<rparr>))"

text \<open>
  The scan as a machine. The loop checks the context and then waits for a free slot of the group (a
  limit below zero is none at all) to start the worker of the next port; a worker checks the context, then sends its request;
  the first error cancels the context of the group; at the end of the ports the loop waits for
  the workers. A schedule says which of them goes next, and when the caller's context ends. A
  request under a context that has ended fails, which the worker takes for a closed port.
\<close>

record scan_machine =
  hs_next :: nat
  hs_waiting :: bool
  hs_checking :: "nat list"
  hs_requesting :: "(nat \<times> network_service \<times> url) list"
  hs_services :: "network_service list"
  hs_error :: "scan_error option"
  hs_done :: bool
  hs_result :: "(scan_error, network_service list) result option"

datatype scan_event = LoopStep | CheckStep nat | AnswerStep nat | CallerDone

definition scan_init :: scan_machine where
  "scan_init = \<lparr>hs_next = 0, hs_waiting = False, hs_checking = [], hs_requesting = [], hs_services = [], hs_error = None,
     hs_done = False, hs_result = None\<rparr>"

definition scan_cancelled :: "scan_machine \<Rightarrow> bool" where
  "scan_cancelled s = (hs_done s \<or> hs_error s \<noteq> None)"

definition scan_running :: "scan_machine \<Rightarrow> nat" where
  "scan_running s = length (hs_checking s) + length (hs_requesting s)"

definition group_full :: "httpscan_module \<Rightarrow> scan_machine \<Rightarrow> bool" where
  "group_full m s = (0 \<le> hm_limit m \<and> hm_limit m \<le> int (scan_running s))"

definition group_Wait :: "scan_machine \<Rightarrow> scan_machine" where
  "group_Wait s =
     (if scan_running s = 0
      then s\<lparr>hs_result := Some (case hs_error s of Some e \<Rightarrow> Inl e | None \<Rightarrow> Inr (hs_services s))\<rparr>
      else s)"

definition scan_loop_step :: "httpscan_module \<Rightarrow> scan_machine \<Rightarrow> scan_machine" where
  "scan_loop_step m s =
     (if hs_result s \<noteq> None then s
      else if length (hm_ports m) \<le> hs_next s then group_Wait s
      else if hs_waiting s then
        (if group_full m s then s
         else s\<lparr>hs_next := hs_next s + 1, hs_waiting := False, hs_checking := hs_checking s @ [hs_next s]\<rparr>)
      else if scan_cancelled s then s\<lparr>hs_result := Some (Inl ScanContextDone)\<rparr>
      else s\<lparr>hs_waiting := True\<rparr>)"

definition worker_error :: "scan_error \<Rightarrow> scan_machine \<Rightarrow> scan_machine" where
  "worker_error e s = (case hs_error s of None \<Rightarrow> s\<lparr>hs_error := Some e\<rparr> | Some _ \<Rightarrow> s)"

definition scanPortWorker :: "httpscan_module \<Rightarrow> (string \<Rightarrow> url option) \<Rightarrow> network_endpoint \<Rightarrow> nat \<Rightarrow> scan_machine \<Rightarrow> scan_machine" where
  "scanPortWorker m parse endpoint i s =
     (if i \<notin> set (hs_checking s) then s
      else let s1 = s\<lparr>hs_checking := remove1 i (hs_checking s)\<rparr> in
        if scan_cancelled s then worker_error ScanContextDone s1
        else case port_service endpoint (hm_ports m ! i) of
            Inl e \<Rightarrow> worker_error e s1
          | Inr service \<Rightarrow> (case scan_request parse service of
                Inl e \<Rightarrow> worker_error e s1
              | Inr u \<Rightarrow> s1\<lparr>hs_requesting := hs_requesting s1 @ [(i, service, u)]\<rparr>))"

definition scanPort :: "httpscan_module \<Rightarrow> (url \<Rightarrow> int option) \<Rightarrow> nat \<Rightarrow> scan_machine \<Rightarrow> scan_machine" where
  "scanPort m answer i s = (case find (\<lambda>(j, _). j = i) (hs_requesting s) of
       None \<Rightarrow> s
     | Some (j, service, u) \<Rightarrow>
         let s1 = s\<lparr>hs_requesting := remove1 (j, service, u) (hs_requesting s)\<rparr> in
         (case port_decision m service (if scan_cancelled s then None else answer u) of
            None \<Rightarrow> s1
          | Some found \<Rightarrow> s1\<lparr>hs_services := hs_services s1 @ [found]\<rparr>))"

fun scan_step :: "httpscan_module \<Rightarrow> (string \<Rightarrow> url option) \<Rightarrow> (url \<Rightarrow> int option) \<Rightarrow> network_endpoint
    \<Rightarrow> scan_event \<Rightarrow> scan_machine \<Rightarrow> scan_machine" where
  "scan_step m parse answer endpoint LoopStep s = scan_loop_step m s"
| "scan_step m parse answer endpoint (CheckStep i) s = scanPortWorker m parse endpoint i s"
| "scan_step m parse answer endpoint (AnswerStep i) s = scanPort m answer i s"
| "scan_step m parse answer endpoint CallerDone s = s\<lparr>hs_done := True\<rparr>"

definition httpscan_run :: "httpscan_module \<Rightarrow> (string \<Rightarrow> url option) \<Rightarrow> (url \<Rightarrow> int option) \<Rightarrow> string
    \<Rightarrow> scan_event list \<Rightarrow> scan_machine" where
  "httpscan_run m parse answer target schedule =
     fold (scan_step m parse answer (FromString target)) schedule scan_init"

section \<open>What a port scan reports\<close>

definition open_port :: "httpscan_module \<Rightarrow> (string \<Rightarrow> url option) \<Rightarrow> (url \<Rightarrow> int option) \<Rightarrow> network_endpoint
    \<Rightarrow> 32 word \<Rightarrow> network_service option" where
  "open_port m parse answer endpoint port = (case port_service endpoint port of
       Inl _ \<Rightarrow> None
     | Inr service \<Rightarrow> (case scan_request parse service of
           Inl _ \<Rightarrow> None
         | Inr u \<Rightarrow> port_decision m service (answer u)))"

definition open_services :: "httpscan_module \<Rightarrow> (string \<Rightarrow> url option) \<Rightarrow> (url \<Rightarrow> int option) \<Rightarrow> network_endpoint
    \<Rightarrow> network_service list" where
  "open_services m parse answer endpoint = List.map_filter (open_port m parse answer endpoint) (hm_ports m)"

definition requests_ok :: "httpscan_module \<Rightarrow> (string \<Rightarrow> url option) \<Rightarrow> network_endpoint \<Rightarrow> bool" where
  "requests_ok m parse endpoint =
     list_all (\<lambda>p. case port_service endpoint p of Inl _ \<Rightarrow> False | Inr sv \<Rightarrow> is_ok (scan_request parse sv)) (hm_ports m)"

text \<open>What the ports with the numbers of a multiset contribute.\<close>

definition found_ports :: "httpscan_module \<Rightarrow> (string \<Rightarrow> url option) \<Rightarrow> (url \<Rightarrow> int option) \<Rightarrow> network_endpoint
    \<Rightarrow> nat multiset \<Rightarrow> network_service multiset" where
  "found_ports m parse answer e M = (\<Sum>i\<in>#M. case open_port m parse answer e (hm_ports m ! i) of None \<Rightarrow> {#} | Some sv \<Rightarrow> {#sv#})"

lemma found_ports_simps [simp]:
  "found_ports m parse answer e {#} = {#}"
  "found_ports m parse answer e (add_mset i M) =
     (case open_port m parse answer e (hm_ports m ! i) of None \<Rightarrow> {#} | Some sv \<Rightarrow> {#sv#}) + found_ports m parse answer e M"
  "found_ports m parse answer e (M + N) = found_ports m parse answer e M + found_ports m parse answer e N"
  by (simp_all add: found_ports_def)

declare mset_upt [simp del]

lemma found_ports_all:
  "found_ports m parse answer e (mset [0..<length (hm_ports m)]) = mset (open_services m parse answer e)"
proof -
  let ?f = "open_port m parse answer e"
  have "(\<Sum>p\<in># mset ps. case ?f p of None \<Rightarrow> {#} | Some sv \<Rightarrow> {#sv#}) = mset (List.map_filter ?f ps)" for ps
    by (induction ps) (auto simp: List.map_filter_simps split: option.splits)
  moreover have "image_mset ((!) (hm_ports m)) (mset [0..<length (hm_ports m)]) = mset (hm_ports m)"
    by (metis map_nth mset_map)
  ultimately show ?thesis
    unfolding found_ports_def open_services_def
    by (metis (no_types, lifting) image_mset.compositionality comp_def image_mset_cong)
qed

definition scan_inv :: "httpscan_module \<Rightarrow> (string \<Rightarrow> url option) \<Rightarrow> (url \<Rightarrow> int option) \<Rightarrow> network_endpoint
    \<Rightarrow> scan_machine \<Rightarrow> bool" where
  "scan_inv m parse answer e s =
     (\<not> scan_cancelled s \<and> hs_next s \<le> length (hm_ports m) \<and> (hs_waiting s \<longrightarrow> hs_next s < length (hm_ports m)) \<and> list_all (\<lambda>i. i < hs_next s) (hs_checking s)
      \<and> list_all (\<lambda>(i, sv, u). port_decision m sv (answer u) = open_port m parse answer e (hm_ports m ! i)) (hs_requesting s)
      \<and> mset (hs_services s) + found_ports m parse answer e (mset (hs_checking s) + mset (map fst (hs_requesting s)))
          = found_ports m parse answer e (mset [0..<hs_next s])
      \<and> (hs_result s = None \<or> hs_result s = Some (Inr (hs_services s)) \<and> scan_running s = 0 \<and> hs_next s = length (hm_ports m)))"

definition scan_measure :: "httpscan_module \<Rightarrow> scan_machine \<Rightarrow> nat" where
  "scan_measure m s = 4 * (length (hm_ports m) - hs_next s) - (if hs_waiting s then 1 else 0) + 2 * length (hs_checking s) + length (hs_requesting s)
     + (if hs_result s = None then 1 else 0)"

lemma mset_remove1_in: "x \<in> set xs \<Longrightarrow> mset xs = add_mset x (mset (remove1 x xs))"
  by simp

lemma list_all_remove1: "list_all P xs \<Longrightarrow> list_all P (remove1 x xs)"
  by (auto simp: list_all_iff dest: notin_set_remove1 set_mp [OF set_remove1_subset])

lemma scan_loop_step_inv:
  assumes "scan_inv m parse answer e s"
  shows "scan_inv m parse answer e (scan_loop_step m s)
    \<and> (scan_loop_step m s = s \<or> scan_measure m (scan_loop_step m s) < scan_measure m s)"
proof -
  have "list_all (\<lambda>i. i < Suc (hs_next s)) (hs_checking s)"
    using assms by (auto simp: scan_inv_def list_all_iff intro: less_SucI)
  with assms show ?thesis
    by (auto simp: scan_inv_def scan_loop_step_def group_Wait_def scan_running_def scan_measure_def scan_cancelled_def)
qed

lemma scanPortWorker_inv:
  assumes inv: "scan_inv m parse answer e s" and ok: "requests_ok m parse e"
  shows "scan_inv m parse answer e (scanPortWorker m parse e i s)
    \<and> (scanPortWorker m parse e i s = s \<or> scan_measure m (scanPortWorker m parse e i s) < scan_measure m s)"
proof (cases "i \<in> set (hs_checking s)")
  case True
  then have i: "i < length (hm_ports m)" using inv by (auto simp: scan_inv_def list_all_iff)
  then have "hm_ports m ! i \<in> set (hm_ports m)" by simp
  with ok have "case port_service e (hm_ports m ! i) of Inl _ \<Rightarrow> False | Inr sv \<Rightarrow> is_ok (scan_request parse sv)"
    by (simp add: requests_ok_def list_all_iff)
  then obtain sv u where p: "port_service e (hm_ports m ! i) = Inr sv" "scan_request parse sv = Inr u"
    by (auto simp: is_ok_def split: sum.splits)
  let ?s = "s\<lparr>hs_checking := remove1 i (hs_checking s), hs_requesting := hs_requesting s @ [(i, sv, u)]\<rparr>"
  have step: "scanPortWorker m parse e i s = ?s"
    using True inv p by (simp add: scanPortWorker_def scan_inv_def)
  let ?left = "remove1 i (hs_checking s)"
  have "mset (hs_checking s) = add_mset i (mset ?left)" using True by simp
  then have "found_ports m parse answer e (mset ?left + mset (map fst (hs_requesting s @ [(i, sv, u)])))
      = found_ports m parse answer e (mset (hs_checking s) + mset (map fst (hs_requesting s)))"
    by (simp only: found_ports_simps map_append list.map fst_conv mset_append mset.simps ac_simps add_0_left add_0_right)
  moreover have "open_port m parse answer e (hm_ports m ! i) = port_decision m sv (answer u)"
    by (simp add: open_port_def p)
  moreover have "hs_result s = None"
    by (cases "hs_result s") (use inv True in \<open>auto simp: scan_inv_def scan_running_def\<close>)
  moreover have "length (hs_checking s) = Suc (length ?left)"
    using True length_pos_if_in_set [OF True] by (simp add: length_remove1)
  moreover have "list_all (\<lambda>i. i < hs_next s) ?left" using inv by (simp add: scan_inv_def list_all_remove1)
  ultimately show ?thesis using inv unfolding step
    by (simp add: scan_inv_def scan_measure_def scan_cancelled_def del: mset_remove1 length_remove1 found_ports_simps
        mset_append mset_map)
qed (use inv in \<open>simp add: scanPortWorker_def\<close>)

lemma scanPort_inv:
  assumes inv: "scan_inv m parse answer e s"
  shows "scan_inv m parse answer e (scanPort m answer i s)
    \<and> (scanPort m answer i s = s \<or> scan_measure m (scanPort m answer i s) < scan_measure m s)"
proof (cases "find (\<lambda>(j, _). j = i) (hs_requesting s)")
  case (Some x)
  then have "x \<in> set (hs_requesting s) \<and> fst x = i"
    by (auto simp: find_Some_iff) (metis nth_mem)
  then obtain sv u where x: "x = (i, sv, u)" "(i, sv, u) \<in> set (hs_requesting s)" by (cases x) auto
  let ?req = "remove1 (i, sv, u) (hs_requesting s)"
  let ?d = "port_decision m sv (answer u)"
  have step: "scanPort m answer i s = (let s1 = s\<lparr>hs_requesting := ?req\<rparr> in
      case ?d of None \<Rightarrow> s1 | Some found \<Rightarrow> s1\<lparr>hs_services := hs_services s1 @ [found]\<rparr>)"
    using inv Some x(1) by (simp add: scanPort_def scan_inv_def)
  have "mset (map fst (hs_requesting s)) = add_mset i (mset (map fst ?req))"
    unfolding mset_map using mset_remove1_in [OF x(2)] by (metis fst_conv image_mset_add_mset)
  moreover have "?d = open_port m parse answer e (hm_ports m ! i)"
    using inv x(2) by (auto simp: scan_inv_def list_all_iff)
  moreover have "hs_result s = None"
    by (cases "hs_result s") (use inv x(2) in \<open>auto simp: scan_inv_def scan_running_def\<close>)
  moreover have "length (hs_requesting s) = Suc (length ?req)"
    using x(2) length_pos_if_in_set [OF x(2)] by (simp add: length_remove1)
  moreover have "list_all (\<lambda>(i, sv, u). port_decision m sv (answer u) = open_port m parse answer e (hm_ports m ! i)) ?req"
    using inv by (simp add: scan_inv_def list_all_remove1)
  ultimately show ?thesis using inv unfolding step Let_def
    by (cases "open_port m parse answer e (hm_ports m ! i)") (simp_all add: scan_inv_def scan_measure_def scan_cancelled_def ac_simps
        del: mset_remove1 length_remove1 mset_map)
qed (use inv in \<open>simp add: scanPort_def\<close>)

lemma scan_step_inv:
  "scan_inv m parse answer e s \<Longrightarrow> requests_ok m parse e \<Longrightarrow> ev \<noteq> CallerDone
    \<Longrightarrow> scan_inv m parse answer e (scan_step m parse answer e ev s)
      \<and> (scan_step m parse answer e ev s = s \<or> scan_measure m (scan_step m parse answer e ev s) < scan_measure m s)"
  by (cases ev) (simp_all add: scan_loop_step_inv scanPortWorker_inv scanPort_inv)

lemma scan_init_inv: "scan_inv m parse answer e scan_init"
  by (simp add: scan_inv_def scan_init_def scan_cancelled_def)

lemma httpscan_run_inv:
  assumes "requests_ok m parse (FromString target)" and "CallerDone \<notin> set schedule"
  shows "scan_inv m parse answer (FromString target) (httpscan_run m parse answer target schedule)"
proof -
  have "scan_inv m parse answer e s \<Longrightarrow> scan_inv m parse answer e (fold (scan_step m parse answer e) evs s)"
    if "requests_ok m parse e" "CallerDone \<notin> set evs" for e evs s
    using that(2) by (induction evs arbitrary: s) (auto simp: scan_step_inv that(1))
  then show ?thesis unfolding httpscan_run_def using assms scan_init_inv by blast
qed

text \<open>A scan without a result has a step to make, unless the limit of the group is zero.\<close>

lemma scan_progress:
  assumes "scan_inv m parse answer e s" and "requests_ok m parse e" and "hm_limit m \<noteq> 0" and "hs_result s = None"
  shows "\<exists>ev. ev \<noteq> CallerDone \<and> scan_measure m (scan_step m parse answer e ev s) < scan_measure m s"
proof -
  have moves: ?thesis if "ev \<noteq> CallerDone" "scan_step m parse answer e ev s \<noteq> s" for ev
    using scan_step_inv [OF assms(1,2) that(1)] that by blast
  consider (request) i sv u rest where "hs_requesting s = (i, sv, u) # rest"
    | (check) i rest where "hs_checking s = i # rest" | (idle) "hs_requesting s = []" "hs_checking s = []"
    by (metis list.exhaust prod_cases3)
  then show ?thesis
  proof cases
    case request
    then have "length (hs_requesting (scan_step m parse answer e (AnswerStep i) s)) < length (hs_requesting s)"
      by (auto simp: scanPort_def Let_def split: option.splits)
    then show ?thesis by (intro moves [of "AnswerStep i"]) auto
  next
    case check
    then have "length (hs_checking (scan_step m parse answer e (CheckStep i) s)) < length (hs_checking s)"
      by (auto simp: scanPortWorker_def worker_error_def Let_def split: sum.splits option.splits)
    then show ?thesis by (intro moves [of "CheckStep i"]) auto
  next
    case idle
    then have "scan_step m parse answer e LoopStep s \<noteq> s"
      using assms by (auto simp: scan_loop_step_def scan_inv_def group_full_def scan_running_def group_Wait_def
          dest: arg_cong [where f = hs_next] arg_cong [where f = hs_waiting] arg_cong [where f = hs_result])
    then show ?thesis by (intro moves [of LoopStep]) auto
  qed
qed

text \<open>C34. While the caller's context lives and every request can be built, a scan over HTTP with any
  positive or negative limit of workers, under any schedule, either has a result or can go on, every
  step that changes something brings it nearer to its end, and its result is the list of exactly
  the ports that answer with an acceptable status, in the order in which the answers came.\<close>

theorem httpscan_exact:
  assumes "requests_ok m parse (FromString target)" and "CallerDone \<notin> set schedule" and "hm_limit m \<noteq> 0"
  shows "case hs_result (httpscan_run m parse answer target schedule) of
      Some r \<Rightarrow> (\<exists>services. r = Inr services \<and> mset services = mset (open_services m parse answer (FromString target)))
    | None \<Rightarrow> (\<exists>ev. ev \<noteq> CallerDone \<and> scan_measure m (httpscan_run m parse answer target (schedule @ [ev]))
                  < scan_measure m (httpscan_run m parse answer target schedule))"
proof (cases "hs_result (httpscan_run m parse answer target schedule)")
  case None
  with scan_progress [OF httpscan_run_inv [OF assms(1,2)] assms(1,3)] show ?thesis
    by (simp add: httpscan_run_def)
next
  case (Some r)
  with httpscan_run_inv [OF assms(1,2), of answer] show ?thesis
    by (auto simp: scan_inv_def scan_running_def found_ports_all)
qed

definition one_port_module :: httpscan_module where
  "one_port_module = \<lparr>hm_invalid_exit_codes = [400, 502], hm_ports = [80], hm_limit = 1\<rparr>"

definition sample_url :: url where
  "sample_url = \<lparr>u_scheme = ''http'', u_host = ''h.com:80'', u_path = [], u_raw_query = []\<rparr>"

definition sample_schedule :: "scan_event list" where
  "sample_schedule = [LoopStep, LoopStep, CheckStep 0, AnswerStep 0, LoopStep]"

lemma FromString_h: "FromString ''h.com'' = \<lparr>ep_type = HOSTNAME, ep_ip = None, ep_hostname = Some ''h.com'', ep_port = None\<rparr>"
  by (simp add: FromString_def IsIP_def netip_eval)

lemma sample_port_service:
  "\<exists>sv. port_service (FromString ''h.com'') 80 = Inr sv \<and> scan_request (\<lambda>_. Some sample_url) sv = Inr sample_url"
  by (simp add: FromString_h port_service_def port_type_def scan_request_def BuildWebRoot_def BuildAllWebRoots_def
      ToURIAuthorities_def get_endpoint_def ep_host_def ep_address_def)

lemma sample_requests_ok: "requests_ok one_port_module (\<lambda>_. Some sample_url) (FromString ''h.com'')"
  using sample_port_service by (auto simp: requests_ok_def one_port_module_def)

theorem httpscan_exact_witness:
  "\<exists>services. hs_result (httpscan_run one_port_module (\<lambda>_. Some sample_url) (\<lambda>_. Some 200) ''h.com'' sample_schedule)
       = Some (Inr services)
     \<and> mset services = mset (open_services one_port_module (\<lambda>_. Some sample_url) (\<lambda>_. Some 200) (FromString ''h.com''))"
proof -
  obtain sv where sv: "port_service (FromString ''h.com'') 80 = Inr sv"
      "scan_request (\<lambda>_. Some sample_url) sv = Inr sample_url" using sample_port_service by blast
  have "hs_result (httpscan_run one_port_module (\<lambda>_. Some sample_url) (\<lambda>_. Some 200) ''h.com'' sample_schedule) \<noteq> None"
    by (simp add: httpscan_run_def sample_schedule_def scan_init_def scan_loop_step_def one_port_module_def scan_cancelled_def
        group_full_def scan_running_def scanPortWorker_def sv scanPort_def port_decision_def group_Wait_def)
  moreover have "hm_limit one_port_module \<noteq> 0" "CallerDone \<notin> set sample_schedule"
    by (simp_all add: one_port_module_def sample_schedule_def)
  ultimately show ?thesis
    using httpscan_exact [OF sample_requests_ok, of sample_schedule "\<lambda>_. Some 200"] by (auto split: option.splits)
qed

text \<open>With a limit of zero the first worker never starts and the scan never ends.\<close>

lemma httpscan_blocks:
  assumes "hm_limit m = 0" and "hm_ports m \<noteq> []" and "CallerDone \<notin> set schedule"
  shows "hs_result (httpscan_run m parse answer target schedule) = None"
proof -
  let ?stuck = "\<lambda>s. hs_result s = None \<and> hs_next s = 0 \<and> hs_checking s = [] \<and> hs_requesting s = [] \<and> \<not> scan_cancelled s"
  have "?stuck s \<Longrightarrow> ev \<noteq> CallerDone \<Longrightarrow> ?stuck (scan_step m parse answer e ev s)" for s ev e
    using assms(1,2) by (cases ev) (auto simp: scan_loop_step_def group_full_def scan_running_def scanPortWorker_def
        scanPort_def scan_cancelled_def)
  then have "?stuck s \<Longrightarrow> CallerDone \<notin> set evs \<Longrightarrow> ?stuck (fold (scan_step m parse answer e) evs s)" for s evs e
    by (induction evs arbitrary: s) auto
  then show ?thesis using assms(3) by (simp add: httpscan_run_def scan_init_def scan_cancelled_def)
qed

text \<open>When the caller's context ends while the last answers are awaited, those ports are taken for closed
  and the scan succeeds with the rest: here an open port is lost without an error.\<close>

lemma httpscan_incomplete:
  assumes "hm_ports m = [p]" and "hm_limit m \<noteq> 0" and "requests_ok m parse (FromString target)"
  shows "hs_result (httpscan_run m parse answer target
      [LoopStep, LoopStep, CheckStep 0, CallerDone, AnswerStep 0, LoopStep]) = Some (Inr [])"
proof -
  from assms obtain sv u where "port_service (FromString target) p = Inr sv" "scan_request parse sv = Inr u"
    by (auto simp: requests_ok_def is_ok_def split: sum.splits)
  then show ?thesis using assms(1,2)
    by (simp add: httpscan_run_def scan_init_def scan_loop_step_def scan_cancelled_def
        group_full_def scan_running_def scanPortWorker_def scanPort_def port_decision_def group_Wait_def)
qed

text \<open>The error of a worker is replaced by that of the cancelled context when ports are left.\<close>

lemma httpscan_error_masked:
  assumes "hm_ports m = [p, q]" and "hm_limit m \<noteq> 0" and "port_service (FromString target) p = Inl e"
  shows "hs_error (httpscan_run m parse answer target [LoopStep, LoopStep, CheckStep 0, LoopStep]) = Some e
    \<and> hs_result (httpscan_run m parse answer target [LoopStep, LoopStep, CheckStep 0, LoopStep]) = Some (Inl ScanContextDone)"
  using assms by (simp add: httpscan_run_def scan_init_def scan_loop_step_def scan_cancelled_def
      group_full_def scan_running_def scanPortWorker_def worker_error_def)

section \<open>What the nmap plugin reports\<close>

definition reported :: "nmap_port \<Rightarrow> bool" where
  "reported p = (po_state p = ''open'' \<and> transport_of (po_protocol p) \<noteq> None)"

definition script_methods :: "nmap_script \<Rightarrow> string list" where
  "script_methods s =
     (if np_id s = ''http-methods''
      then concat (map (\<lambda>t. if tb_key t = ''Supported Methods'' then map el_value (tb_elems t) else []) (np_tables s)) else [])"

definition script_ciphers :: "nmap_script \<Rightarrow> string list" where
  "script_ciphers s = (if np_id s = ''ssl-enum-ciphers'' then map tb_key (np_tables s) else [])"

lemma parseScriptHTTPMethods_eq:
  "parseScriptHTTPMethods ts sv = sv\<lparr>sv_http_methods := sv_http_methods sv @
     concat (map (\<lambda>t. if tb_key t = ''Supported Methods'' then map el_value (tb_elems t) else []) ts)\<rparr>"
  by (induction ts arbitrary: sv) simp_all

lemma parseScriptSSLCiphers_eq: "parseScriptSSLCiphers ts sv = sv\<lparr>sv_ssl := sv_ssl sv @ map tb_key ts\<rparr>"
  by (induction ts arbitrary: sv) simp_all

lemma parseScripts_eq:
  "parseScripts s sv = sv\<lparr>sv_http_methods := sv_http_methods sv @ script_methods s, sv_ssl := sv_ssl sv @ script_ciphers s\<rparr>"
  by (simp add: parseScripts_def script_methods_def script_ciphers_def parseScriptHTTPMethods_eq parseScriptSSLCiphers_eq)

lemma fold_parseScripts:
  "fold parseScripts ss sv =
     sv\<lparr>sv_http_methods := sv_http_methods sv @ concat (map script_methods ss),
        sv_ssl := sv_ssl sv @ concat (map script_ciphers ss)\<rparr>"
  by (induction ss arbitrary: sv) (simp_all add: parseScripts_eq)

lemma parse_ports_append: "parse_ports e ps acc = acc @ parse_ports e ps []"
proof (induction ps arbitrary: acc)
  case (Cons p ps)
  show ?case
    using Cons.IH [of acc] Cons.IH [of "acc @ [the (parseService e p)]"] Cons.IH [of "[the (parseService e p)]"]
    by (cases "parseService e p") simp_all
qed simp

lemma parseService_None: "parseService e p = None \<longleftrightarrow> transport_of (po_protocol p) = None"
  by (simp add: parseService_def Let_def split: option.splits)

lemma parse_ports_reported:
  "list_all2 (\<lambda>p sv. parseService e p = Some sv) (filter reported ps) (parse_ports e ps [])"
proof (induction ps)
  case (Cons p ps)
  then show ?case using parse_ports_append [of e ps "[the (parseService e p)]"] parseService_None [of e p]
    by (cases "parseService e p") (simp_all add: reported_def)
qed simp

lemma port_endpoint_wf:
  assumes "wf_endpoint e" and "ep_port e = None"
  shows "wf_endpoint (port_endpoint e p) \<and> ep_ip (port_endpoint e p) = ep_ip e
    \<and> ep_hostname (port_endpoint e p) = ep_hostname e \<and> ep_port (port_endpoint e p) = Some (word_of_int p)"
  using assms by (auto simp: wf_endpoint_def port_endpoint_def split: endpoint_type.splits)

text \<open>C35. The report for a host that is up and has an address or a name lists, in the order of the
  output, exactly its open ports of a known transport protocol, each under a well-formed endpoint
  of the host with that port; the HTTP methods and SSL versions of a port with a service element
  are those of its scripts, in order, and a port without that element has none.\<close>

theorem processResults_exact:
  assumes "ho_state host = ''up''" and "ho_addresses host \<noteq> [] \<or> ho_hostnames host \<noteq> []"
    and "\<And>a as. ho_addresses host = a # as \<Longrightarrow> ad_type a \<in> {''ipv4'', ''ipv6''}"
  shows "\<exists>e services. processResults (Some \<lparr>ou_hosts = [host]\<rparr>)
      = Inr (Some \<lparr>nr_endpoint = e, nr_services = services\<rparr>)
    \<and> wf_endpoint e \<and> ep_port e = None
    \<and> list_all2 (\<lambda>p sv. \<exists>pe. sv_endpoint sv = Some pe \<and> wf_endpoint pe \<and> ep_ip pe = ep_ip e
        \<and> ep_hostname pe = ep_hostname e \<and> ep_port pe = Some (word_of_int (po_id p))
        \<and> Some (sv_transport sv) = transport_of (po_protocol p)
        \<and> sv_http_methods sv = (if po_service p = None then [] else concat (map script_methods (po_scripts p)))
        \<and> sv_ssl sv = (if po_service p = None then [] else concat (map script_ciphers (po_scripts p))))
      (filter reported (ho_ports host)) services"
proof -
  obtain e where e: "parseNetworkEndpoint host = Inr e" "wf_endpoint e" "ep_port e = None"
    using assms(2) assms(3)
    by (cases "ho_addresses host"; cases "ho_hostnames host")
       (auto simp: parseNetworkEndpoint_def wf_endpoint_def split: if_splits)
  have "list_all2 (\<lambda>p sv. parseService e p = Some sv) (filter reported (ho_ports host)) (parse_ports e (ho_ports host) [])"
    by (rule parse_ports_reported)
  then have "list_all2 (\<lambda>p sv. \<exists>pe. sv_endpoint sv = Some pe \<and> wf_endpoint pe \<and> ep_ip pe = ep_ip e
        \<and> ep_hostname pe = ep_hostname e \<and> ep_port pe = Some (word_of_int (po_id p))
        \<and> Some (sv_transport sv) = transport_of (po_protocol p)
        \<and> sv_http_methods sv = (if po_service p = None then [] else concat (map script_methods (po_scripts p)))
        \<and> sv_ssl sv = (if po_service p = None then [] else concat (map script_ciphers (po_scripts p))))
      (filter reported (ho_ports host)) (parse_ports e (ho_ports host) [])"
    by (rule list_all2_mono)
       (auto simp: parseService_def Let_def fold_parseScripts port_endpoint_wf [OF e(2,3)] split: option.splits)
  with e show ?thesis by (simp add: processResults_def assms(1))
qed

definition sample_host :: nmap_host where
  "sample_host = \<lparr>ho_state = ''up'', ho_addresses = [\<lparr>ad_addr = ''10.0.0.1'', ad_type = ''ipv4''\<rparr>], ho_hostnames = [],
     ho_ports = [\<lparr>po_protocol = ''tcp'', po_id = 80, po_state = ''open'', po_service = None, po_scripts = []\<rparr>,
       \<lparr>po_protocol = ''tcp'', po_id = 81, po_state = ''closed'', po_service = None, po_scripts = []\<rparr>]\<rparr>"

theorem processResults_exact_witness:
  "\<exists>e sv. processResults (Some \<lparr>ou_hosts = [sample_host]\<rparr>) = Inr (Some \<lparr>nr_endpoint = e, nr_services = [sv]\<rparr>)
     \<and> wf_endpoint e \<and> sv_http_methods sv = []"
proof -
  have "filter reported (ho_ports sample_host) = [hd (ho_ports sample_host)]" "po_service (hd (ho_ports sample_host)) = None"
    by (simp_all add: sample_host_def reported_def transport_of_def)
  moreover have "ho_state sample_host = ''up''" "ho_addresses sample_host \<noteq> [] \<or> ho_hostnames sample_host \<noteq> []"
    "\<And>a as. ho_addresses sample_host = a # as \<Longrightarrow> ad_type a \<in> {''ipv4'', ''ipv6''}"
    by (auto simp: sample_host_def)
  ultimately show ?thesis
    using processResults_exact [of sample_host] by (fastforce simp: list_all2_Cons1)
qed

text \<open>Every other outcome of the output, errors included.\<close>

lemma processResults_other:
  "processResults None = Inl ErrNoOutput"
  "length hosts \<noteq> 1 \<Longrightarrow> processResults (Some \<lparr>ou_hosts = hosts\<rparr>) = Inl ErrInvalidHostsCount"
  "ho_state host \<noteq> ''up'' \<Longrightarrow> processResults (Some \<lparr>ou_hosts = [host]\<rparr>) = Inr None"
  "ho_state host = ''up'' \<Longrightarrow> ho_addresses host = [] \<Longrightarrow> ho_hostnames host = []
    \<Longrightarrow> processResults (Some \<lparr>ou_hosts = [host]\<rparr>) = Inl ErrNoAddressOrHostname"
  "ho_state host = ''up'' \<Longrightarrow> ho_addresses host = a # as \<Longrightarrow> ad_type a \<notin> {''ipv4'', ''ipv6''}
    \<Longrightarrow> processResults (Some \<lparr>ou_hosts = [host]\<rparr>) = Inl ErrInvalidAddressType"
  by (simp_all add: processResults_def parseNetworkEndpoint_def)

section \<open>The command line\<close>

text \<open>A second run uses the same arguments: replacing a wrong version intensity is idempotent.\<close>

lemma buildOpts_repeat:
  assumes "buildOpts nc target f = (nc', r)"
  shows "buildOpts nc' target f = (nc', r)"
proof (cases "is_ok (optTechnique nc) \<and> fst (optVersionDetection nc) \<noteq> nc")
  case True
  let ?nc = "nc\<lparr>nc_config := (nc_config nc)(''version_intensity'' \<mapsto> VUint32 5)\<rparr>"
  obtain mode where mode: "optTechnique nc = Inr mode" using True by (cases "optTechnique nc") simp_all
  have new: "optVersionDetection nc = (?nc, [''-sV'', ''--version-intensity'', itoa (unat (version_intensity ?nc))])"
    using True by (auto simp: optVersionDetection_def Let_def split: if_splits)
  then have det: "get_bool ''enable_version_detection'' False (nc_config nc)"
    using True by (auto simp: optVersionDetection_def split: if_splits)
  have five: "version_intensity ?nc = 5" by (simp add: version_intensity_def get_uint32_def)
  have "optVersionDetection ?nc = (?nc, [''-sV'', ''--version-intensity'', itoa (unat (version_intensity ?nc))])"
    using det by (simp add: optVersionDetection_def five get_bool_def Let_def)
  moreover have "optTechnique ?nc = optTechnique nc" by (simp add: optTechnique_def get_enum_def)
  moreover have "optPerformance ?nc = optPerformance nc" by (simp add: optPerformance_def get_int32_def get_uint32_def)
  moreover have "optPorts ?nc = optPorts nc" "optHostDiscovery ?nc = optHostDiscovery nc"
    by (simp_all add: optPorts_def optHostDiscovery_def get_bool_def)
  ultimately have "buildOpts ?nc target f = buildOpts nc target f" by (simp only: buildOpts_def new mode sum.case prod.case)
  moreover have "nc' = ?nc" using assms True new by (auto simp: buildOpts_def is_ok_def split: sum.splits)
  ultimately show ?thesis using assms by simp
qed (use assms in \<open>auto simp: buildOpts_def is_ok_def split: sum.splits prod.splits\<close>)

text \<open>A scan of an address of version 4 passes nmap an empty argument, where a target could stand.\<close>

lemma buildOpts_empty_argument:
  assumes "buildOpts nc target f = (nc', Inr args)" and "\<not> IsIPv6 target"
  shows "[] \<in> set args"
  using assms by (auto simp: buildOpts_def optIPVersion_def split: sum.splits prod.splits)

text \<open>The plugin without probes reports every configured port, under well-formed endpoints.\<close>

lemma noop_Scan_ports:
  "list_all2 (\<lambda>p sv. \<exists>e. sv_endpoint sv = Some e \<and> wf_endpoint e \<and> ep_port e = Some p)
     ports (pr_services (noop_Scan ports target))"
proof -
  have "wf_endpoint (FromString target)" "ep_port (FromString target) = None" by simp_all
  then have "wf_endpoint \<lparr>ep_type = (if ep_type (FromString target) = HOSTNAME then HOSTNAME_PORT else IP_PORT),
      ep_ip = ep_ip (FromString target), ep_hostname = ep_hostname (FromString target), ep_port = Some p\<rparr>" for p
    by (auto simp: FromString_def wf_endpoint_def)
  then show ?thesis by (simp add: noop_Scan_def Let_def list_all2_map2 list.rel_refl)
qed

end
