(* ===== verification/Credentials.thy ===== *)
theory Credentials
  imports GoPrelude
begin

text \<open>
  \<open>common/credentialstore\<close>: user names in the order in which they are tried, with the passwords of
  each. The map of passwords is an association list, because \<open>Count\<close> sums over it. The file system
  that credentials are loaded from is a parameter: what a walk visits and what a file holds. The
  lemmas give the invariant of the store, which every operation keeps as long as passwords are
  only added for users that the store knows, and what the order of a list of candidates is.
\<close>

section \<open>The store\<close>

datatype 'e load_error =
    WalkFailed 'e
  | MultipleFiles string
  | MissingFile string
  | OpenFailed 'e
  | LineTooLong

record 'e credential_store =
  cs_usernames :: "string list"
  cs_credentials :: "(string \<times> string list) list"
  cs_loaded :: "'e load_error option option"

definition store_New :: "'e credential_store" where
  "store_New = \<lparr>cs_usernames = [], cs_credentials = [], cs_loaded = None\<rparr>"

text \<open>A copy has its own \<open>sync.Once\<close>.\<close>

definition store_Copy :: "'e credential_store \<Rightarrow> 'e credential_store" where
  "store_Copy c = c\<lparr>cs_loaded := None\<rparr>"

definition known_user :: "string \<Rightarrow> 'e credential_store \<Rightarrow> bool" where
  "known_user u c = (map_of (cs_credentials c) u \<noteq> None)"

definition Usernames :: "'e credential_store \<Rightarrow> string list" where
  "Usernames c = cs_usernames c"

definition Passwords :: "string \<Rightarrow> 'e credential_store \<Rightarrow> string list" where
  "Passwords u c = (case map_of (cs_credentials c) u of None \<Rightarrow> [] | Some ps \<Rightarrow> ps)"

definition Count :: "'e credential_store \<Rightarrow> nat" where
  "Count c = sum_list (map (length \<circ> snd) (cs_credentials c))"

definition AddPasswordForUser :: "string \<Rightarrow> string \<Rightarrow> 'e credential_store \<Rightarrow> 'e credential_store" where
  "AddPasswordForUser u p c =
     (if known_user u c \<and> p \<in> set (Passwords u c) then c
      else c\<lparr>cs_credentials := upsert u [] (\<lambda>ps. ps @ [p]) (cs_credentials c)\<rparr>)"

definition AddMultiplePasswordsForUser :: "string \<Rightarrow> string list \<Rightarrow> 'e credential_store \<Rightarrow> 'e credential_store" where
  "AddMultiplePasswordsForUser u ps c = fold (AddPasswordForUser u) ps c"

definition AddPassword :: "string \<Rightarrow> 'e credential_store \<Rightarrow> 'e credential_store" where
  "AddPassword p c =
     fold (\<lambda>u c. if p \<in> set (Passwords u c) then c
                 else c\<lparr>cs_credentials := upsert u [] (\<lambda>ps. ps @ [p]) (cs_credentials c)\<rparr>) (cs_usernames c) c"

definition AddUser :: "string \<Rightarrow> 'e credential_store \<Rightarrow> 'e credential_store" where
  "AddUser u c =
     (if known_user u c then c
      else c\<lparr>cs_usernames := cs_usernames c @ [u], cs_credentials := upsert u [] (\<lambda>_. []) (cs_credentials c)\<rparr>)"

definition PrependUser :: "string \<Rightarrow> 'e credential_store \<Rightarrow> 'e credential_store" where
  "PrependUser u c =
     (if known_user u c then c\<lparr>cs_usernames := u # remove1 u (cs_usernames c)\<rparr>
      else c\<lparr>cs_usernames := u # cs_usernames c, cs_credentials := upsert u [] (\<lambda>_. []) (cs_credentials c)\<rparr>)"

definition PrependPasswordForUser :: "string \<Rightarrow> string \<Rightarrow> 'e credential_store \<Rightarrow> 'e credential_store" where
  "PrependPasswordForUser u p c =
     c\<lparr>cs_credentials := upsert u [] (\<lambda>ps. p # remove1 p ps) (cs_credentials c)\<rparr>"

text \<open>\<open>CollapseToPasswordOnly\<close> keeps the first occurrence of every password.\<close>

definition collect_new :: "string list \<Rightarrow> string list \<Rightarrow> string list" where
  "collect_new ps acc = fold (\<lambda>p acc. if p \<in> set acc then acc else acc @ [p]) ps acc"

definition CollapseToPasswordOnly :: "'e credential_store \<Rightarrow> 'e credential_store" where
  "CollapseToPasswordOnly c =
     c\<lparr>cs_usernames := [[]],
       cs_credentials := [([], fold (\<lambda>u. collect_new (Passwords u c)) (cs_usernames c) [])]\<rparr>"

section \<open>Loading from files\<close>

text \<open>What \<open>fs.WalkDir\<close> visits, in order: an error, or the path, base name and directory flag of an
  entry; and the content of the file at a path.\<close>

record 'e file_system =
  fs_walk :: "('e, string \<times> string \<times> bool) result list"
  fs_open :: "string \<Rightarrow> ('e, string) result"

definition UsernamesFilename :: string where
  "UsernamesFilename = ''usernames.txt''"

definition PasswordsFilename :: string where
  "PasswordsFilename = ''passwords.txt''"

text \<open>\<open>bufio.Scanner\<close>: lines without their end-of-line bytes, at most 65535 bytes long.\<close>

definition readLines :: "'e file_system \<Rightarrow> string \<Rightarrow> ('e load_error, string list) result" where
  "readLines fsys path = (case fs_open fsys path of
       Inl e \<Rightarrow> Inl (OpenFailed e)
     | Inr content \<Rightarrow>
         let ls = split_on (char_of (10 :: nat)) content in
         if list_ex (\<lambda>l. 65536 \<le> length l) ls then Inl LineTooLong
         else Inr (filter (\<lambda>l. l \<noteq> []) (map (\<lambda>l. trim_suffix l [char_of (13 :: nat)]) ls)))"

definition UsersFromFS :: "'e file_system \<Rightarrow> string \<Rightarrow> 'e credential_store
    \<Rightarrow> ('e load_error, 'e credential_store) result" where
  "UsersFromFS fsys path c = map_sum id (\<lambda>users. fold AddUser users c) (readLines fsys path)"

definition PasswordsFromFS :: "'e file_system \<Rightarrow> string \<Rightarrow> 'e credential_store
    \<Rightarrow> ('e load_error, 'e credential_store) result" where
  "PasswordsFromFS fsys path c = map_sum id (\<lambda>ps. fold AddPassword ps c) (readLines fsys path)"

text \<open>The callback of the walk: an empty path means that the file has not been seen.\<close>

fun find_files :: "('e, string \<times> string \<times> bool) result list \<Rightarrow> string \<Rightarrow> string
    \<Rightarrow> ('e load_error, string \<times> string) result" where
  "find_files [] userPath passPath = Inr (userPath, passPath)"
| "find_files (Inl e # es) userPath passPath = Inl (WalkFailed e)"
| "find_files (Inr (path, name, isdir) # es) userPath passPath =
     (if isdir then find_files es userPath passPath
      else if name = UsernamesFilename then
        (if userPath \<noteq> [] then Inl (MultipleFiles UsernamesFilename) else find_files es path passPath)
      else if name = PasswordsFilename then
        (if passPath \<noteq> [] then Inl (MultipleFiles PasswordsFilename) else find_files es userPath path)
      else find_files es userPath passPath)"

text \<open>The store after a failed load is returned with the error: users may have been added to it.\<close>

definition LoadFromFS :: "'e file_system \<Rightarrow> 'e credential_store \<Rightarrow> 'e credential_store \<times> 'e load_error option" where
  "LoadFromFS fsys c = (case find_files (fs_walk fsys) [] [] of
       Inl e \<Rightarrow> (c, Some e)
     | Inr (userPath, passPath) \<Rightarrow>
         if userPath = [] then (c, Some (MissingFile UsernamesFilename))
         else if passPath = [] then (c, Some (MissingFile PasswordsFilename))
         else case UsersFromFS fsys userPath c of
             Inl e \<Rightarrow> (c, Some e)
           | Inr c1 \<Rightarrow> (case PasswordsFromFS fsys passPath c1 of
                 Inl e \<Rightarrow> (c1, Some e)
               | Inr c2 \<Rightarrow> (c2, None)))"

definition LoadDefaultsOnce :: "'e file_system \<Rightarrow> 'e credential_store \<Rightarrow> 'e credential_store \<times> 'e load_error option" where
  "LoadDefaultsOnce defaults c = (case cs_loaded c of
       Some e \<Rightarrow> (c, e)
     | None \<Rightarrow> (let (c', e) = LoadFromFS defaults c in (c'\<lparr>cs_loaded := Some e\<rparr>, e)))"

definition NewWithDefaults :: "'e file_system \<Rightarrow> ('e load_error, 'e credential_store) result" where
  "NewWithDefaults defaults = (case LoadFromFS defaults store_New of
       (_, Some e) \<Rightarrow> Inl e | (c, None) \<Rightarrow> Inr c)"

section \<open>The invariant\<close>

definition cs_ok :: "'e credential_store \<Rightarrow> bool" where
  "cs_ok c \<longleftrightarrow> distinct (cs_usernames c) \<and> distinct (map fst (cs_credentials c))
     \<and> set (cs_usernames c) = set (map fst (cs_credentials c))
     \<and> list_all (\<lambda>(u, ps). distinct ps) (cs_credentials c)"

lemma known_user_iff: "known_user u c \<longleftrightarrow> u \<in> fst ` set (cs_credentials c)"
  by (simp add: known_user_def map_of_eq_None_iff)

lemma list_all_upsert:
  assumes "list_all (\<lambda>(u, ps). P ps) m" and "P (f d)" and "\<And>ps. ps \<in> snd ` set m \<Longrightarrow> P ps \<Longrightarrow> P (f ps)"
  shows "list_all (\<lambda>(u, ps). P ps) (upsert k d f m)"
  using assms by (induction k d f m rule: upsert.induct) auto

lemma upsert_ok:
  assumes "cs_ok c" and "known_user u c" and "\<And>ps. distinct ps \<Longrightarrow> ps = Passwords u c \<Longrightarrow> distinct (f ps)"
  shows "cs_ok (c\<lparr>cs_credentials := upsert u [] f (cs_credentials c)\<rparr>)"
proof -
  have "list_all (\<lambda>(u, ps). distinct ps) (upsert u [] f m)"
    if "list_all (\<lambda>(u, ps). distinct ps) m" "map_of m u = Some ps" "distinct (f ps)" for m ps
    using that by (induction m) (auto split: if_splits)
  moreover obtain ps where "map_of (cs_credentials c) u = Some ps" using assms(2) by (auto simp: known_user_def)
  moreover from this have "ps = Passwords u c" by (simp add: Passwords_def)
  moreover have "distinct ps" using assms(1) calculation(2)
    by (auto simp: cs_ok_def list_all_iff dest: map_of_SomeD)
  ultimately show ?thesis using assms by (auto simp: cs_ok_def known_user_iff)
qed

lemma cs_ok_New [inv_intros]: "cs_ok store_New"
  by (simp add: cs_ok_def store_New_def)

lemma cs_ok_Copy [inv_intros]: "cs_ok c \<Longrightarrow> cs_ok (store_Copy c)"
  by (simp add: cs_ok_def store_Copy_def)

lemma cs_ok_AddPasswordForUser [inv_intros]: "cs_ok c \<Longrightarrow> known_user u c \<Longrightarrow> cs_ok (AddPasswordForUser u p c)"
  by (auto simp: AddPasswordForUser_def intro!: upsert_ok)

lemma known_user_upsert: "known_user v (c\<lparr>cs_credentials := upsert u d f (cs_credentials c)\<rparr>) \<longleftrightarrow> v = u \<or> known_user v c"
  by (auto simp: known_user_iff)

lemma cs_ok_known: "cs_ok c \<Longrightarrow> known_user u c \<longleftrightarrow> u \<in> set (cs_usernames c)"
  by (simp add: cs_ok_def known_user_iff)

lemma cs_ok_AddPassword [inv_intros]: "cs_ok c \<Longrightarrow> cs_ok (AddPassword p c)"
proof -
  let ?f = "\<lambda>u c. if p \<in> set (Passwords u c) then c
      else c\<lparr>cs_credentials := upsert u [] (\<lambda>ps. ps @ [p]) (cs_credentials c)\<rparr>"
  have "cs_ok (fold ?f us c)" if "cs_ok c" "set us \<subseteq> set (cs_usernames c)" for us and c :: "'a credential_store"
    using that
  proof (induction us arbitrary: c)
    case (Cons u us)
    have "cs_ok (?f u c)" using Cons.prems by (auto intro!: upsert_ok simp: cs_ok_known)
    moreover have "set us \<subseteq> set (cs_usernames (?f u c))" using Cons.prems by auto
    ultimately show ?case using Cons.IH by simp
  qed simp
  then show "cs_ok c \<Longrightarrow> ?thesis" by (simp add: AddPassword_def)
qed

lemma upsert_new: "k \<notin> fst ` set m \<Longrightarrow> upsert k d f m = m @ [(k, f d)]"
  by (induction k d f m rule: upsert.induct) auto

lemma cs_ok_AddUser [inv_intros]: "cs_ok c \<Longrightarrow> cs_ok (AddUser u c)"
  by (auto simp: AddUser_def cs_ok_def known_user_iff upsert_new)

lemma cs_ok_PrependUser [inv_intros]: "cs_ok c \<Longrightarrow> cs_ok (PrependUser u c)"
  by (auto simp: PrependUser_def cs_ok_def known_user_iff upsert_new)

lemma cs_ok_PrependPasswordForUser [inv_intros]:
  "cs_ok c \<Longrightarrow> known_user u c \<Longrightarrow> cs_ok (PrependPasswordForUser u p c)"
  unfolding PrependPasswordForUser_def by (rule upsert_ok) auto

lemma collect_new_firsts: "collect_new ps (firsts acc) = firsts (acc @ ps)"
proof (induction ps arbitrary: acc)
  case (Cons p ps)
  from Cons.IH [of "acc @ [p]"] show ?case by (simp add: collect_new_def firsts_snoc)
qed (simp add: collect_new_def)

lemma collapse_passwords:
  "fold (\<lambda>u. collect_new (f u)) us (firsts acc) = firsts (acc @ concat (map f us))"
  by (induction us arbitrary: acc) (simp_all add: collect_new_firsts)

lemma cs_ok_Collapse [inv_intros]: "cs_ok (CollapseToPasswordOnly c)"
  using collapse_passwords [of "\<lambda>u. Passwords u c" "cs_usernames c" "[]"]
  by (simp add: cs_ok_def CollapseToPasswordOnly_def)

lemma cs_ok_fold: "cs_ok c \<Longrightarrow> (\<And>x c. cs_ok c \<Longrightarrow> cs_ok (f x c)) \<Longrightarrow> cs_ok (fold f xs c)"
  by (induction xs arbitrary: c) auto

lemma cs_ok_LoadFromFS [inv_intros]: "cs_ok c \<Longrightarrow> cs_ok (fst (LoadFromFS fsys c))"
proof -
  assume c: "cs_ok c"
  have "cs_ok c1" if "UsersFromFS fsys p c = Inr c1" for p c1
    using that c by (cases "readLines fsys p") (auto simp: UsersFromFS_def intro!: cs_ok_fold cs_ok_AddUser)
  moreover have "cs_ok c2" if "PasswordsFromFS fsys p c1 = Inr c2" "cs_ok c1" for p c1 c2
    using that by (cases "readLines fsys p") (auto simp: PasswordsFromFS_def intro!: cs_ok_fold cs_ok_AddPassword)
  ultimately show ?thesis using c
    by (auto simp: LoadFromFS_def split: sum.splits)
qed

section \<open>Passwords after an operation\<close>

lemma Passwords_upsert:
  "Passwords v (c\<lparr>cs_credentials := upsert u [] f (cs_credentials c)\<rparr>) = (if v = u then f (Passwords u c) else Passwords v c)"
  by (auto simp: Passwords_def map_of_upsert split: option.splits)

lemma PrependUser_usernames: "cs_usernames (PrependUser u c) = u # (if known_user u c then remove1 u (cs_usernames c) else cs_usernames c)"
  by (simp add: PrependUser_def)

lemma Passwords_PrependUser [simp]: "Passwords v (PrependUser u c) = Passwords v c"
proof (cases "known_user u c")
  case True
  then show ?thesis by (simp add: PrependUser_def Passwords_def)
next
  case False
  then have "Passwords u c = []" by (simp add: known_user_def Passwords_def)
  moreover have "cs_credentials (PrependUser u c) = upsert u [] (\<lambda>_. []) (cs_credentials c)"
    using False by (simp add: PrependUser_def)
  ultimately show ?thesis by (auto simp: Passwords_def map_of_upsert)
qed

lemma Passwords_PrependPassword: "Passwords v (PrependPasswordForUser u p c) =
    (if v = u then p # remove1 p (Passwords u c) else Passwords v c)"
  by (simp add: PrependPasswordForUser_def Passwords_upsert)

lemma usernames_PrependPassword [simp]: "cs_usernames (PrependPasswordForUser u p c) = cs_usernames c"
  by (simp add: PrependPasswordForUser_def)

lemma known_PrependUser [simp]: "known_user u (PrependUser u c)"
  by (auto simp: PrependUser_def known_user_iff)

section \<open>Histories\<close>

datatype store_op =
    OpAddUser string
  | OpAddPassword string
  | OpAddPasswordForUser string string
  | OpPrependUser string
  | OpPrependPasswordForUser string string
  | OpCollapse

fun store_step :: "store_op \<Rightarrow> 'e credential_store \<Rightarrow> 'e credential_store" where
  "store_step (OpAddUser u) c = AddUser u c"
| "store_step (OpAddPassword p) c = AddPassword p c"
| "store_step (OpAddPasswordForUser u p) c = AddPasswordForUser u p c"
| "store_step (OpPrependUser u) c = PrependUser u c"
| "store_step (OpPrependPasswordForUser u p) c = PrependPasswordForUser u p c"
| "store_step OpCollapse c = CollapseToPasswordOnly c"

text \<open>The operations that name a user name one that the store knows at that moment.\<close>

fun users_known :: "store_op list \<Rightarrow> 'e credential_store \<Rightarrow> bool" where
  "users_known [] c = True"
| "users_known (x # xs) c =
     ((case x of OpAddPasswordForUser u _ \<Rightarrow> known_user u c | OpPrependPasswordForUser u _ \<Rightarrow> known_user u c | _ \<Rightarrow> True)
      \<and> users_known xs (store_step x c))"

lemma cs_ok_history: "cs_ok c \<Longrightarrow> users_known xs c \<Longrightarrow> cs_ok (fold store_step xs c)"
proof (induction xs arbitrary: c)
  case (Cons x xs)
  have "cs_ok (store_step x c)" using Cons.prems by (cases x) (auto intro: inv_intros)
  with Cons show ?case by simp
qed simp

end
