(* ===== verification/BruteForce.thy ===== *)
theory BruteForce
  imports Credentials NetEndpoint "HOL-Library.Multiset"
begin

text \<open>
  \<open>common/bruteforce\<close>: the generic detector for weak credentials. The first part prepares the
  credential store and lists the candidates; the second is the pool of workers that try them.
  Every call of a worker that takes the mutex, waits or talks to the service is a step of its
  own, and the step relation interleaves the steps of the workers in any order, so its theorems
  hold for every schedule. A service answers a candidate by its index in the list; no index is
  tried twice. The protocol handler is a parameter.
\<close>

section \<open>Candidates\<close>

record credential =
  cred_user :: string
  cred_password :: string

definition Credential_String :: "credential \<Rightarrow> string" where
  "Credential_String c = cred_user c @ '':'' @ cred_password c"

record 'e bf_options =
  bo_store :: "'e credential_store option"
  bo_defaults :: "credential list"
  bo_password_only :: bool

definition prependDefaultCredentials :: "'e bf_options \<Rightarrow> 'e credential_store \<Rightarrow> 'e credential_store" where
  "prependDefaultCredentials o' store =
     fold (\<lambda>cred c.
         let user = (if bo_password_only o' then [] else cred_user cred)
         in PrependPasswordForUser user (cred_password cred) (PrependUser user c))
       (rev (bo_defaults o')) store"

definition prepareCredentialStore :: "'e file_system \<Rightarrow> 'e bf_options
    \<Rightarrow> ('e load_error, 'e credential_store) result" where
  "prepareCredentialStore defaults o' =
     (case (case bo_store o' of Some c \<Rightarrow> Inr (store_Copy c) | None \<Rightarrow> NewWithDefaults defaults) of
        Inl e \<Rightarrow> Inl e
      | Inr c \<Rightarrow>
          Inr (prependDefaultCredentials o' (if bo_password_only o' then CollapseToPasswordOnly c else c)))"

definition candidates :: "'e credential_store \<Rightarrow> credential list" where
  "candidates c = concat (map (\<lambda>u. map (\<lambda>p. \<lparr>cred_user = u, cred_password = p\<rparr>) (Passwords u c)) (Usernames c))"

section \<open>Properties of the candidates\<close>

lemma candidates_set:
  "set (candidates c) = {\<lparr>cred_user = u, cred_password = p\<rparr> | u p. u \<in> set (Usernames c) \<and> p \<in> set (Passwords u c)}"
  by (auto simp: candidates_def)

lemma distinct_passwords: "cs_ok c \<Longrightarrow> distinct (Passwords u c)"
  by (auto simp: Passwords_def cs_ok_def list_all_iff dest: map_of_SomeD split: option.splits)

lemma candidates_distinct:
  assumes "cs_ok c"
  shows "distinct (candidates c)"
proof -
  have "distinct (concat (map (\<lambda>u. map (\<lambda>p. \<lparr>cred_user = u, cred_password = p\<rparr>) (Passwords u c)) us))"
    if "distinct us" for us
    using that by (induction us) (auto simp: distinct_map inj_on_def distinct_passwords [OF assms])
  then show ?thesis using assms by (simp add: candidates_def Usernames_def cs_ok_def)
qed

lemma sum_length_map_of:
  assumes "distinct (map fst m)" and "distinct us" and "set us = set (map fst m)"
  shows "sum_list (map (\<lambda>u. length (case map_of m u of None \<Rightarrow> [] | Some ps \<Rightarrow> ps)) us) = sum_list (map (length \<circ> snd) m)"
proof -
  let ?f = "\<lambda>u. length (case map_of m u of None \<Rightarrow> [] | Some ps \<Rightarrow> ps)"
  have "mset us = mset (map fst m)" using assms by (simp only: set_eq_iff_mset_eq_distinct)
  moreover have "sum_list (map ?f xs) = sum_mset (image_mset ?f (mset xs))" for xs
    by (simp flip: sum_mset_sum_list)
  ultimately have "sum_list (map ?f us) = sum_list (map ?f (map fst m))" by presburger
  also have "map ?f (map fst m) = map (length \<circ> snd) m" using assms(1) by auto
  finally show ?thesis .
qed

lemma candidates_count: "cs_ok c \<Longrightarrow> length (candidates c) = Count c"
  using sum_length_map_of [of "cs_credentials c" "cs_usernames c"]
  by (simp add: cs_ok_def candidates_def Count_def Usernames_def Passwords_def length_concat comp_def)

text \<open>C25. After any history of operations on a new store that only name users the store knows, the
  candidates are the pairs of a listed user and one of its passwords, none of them twice, and
  \<open>Count\<close> says how many there are.\<close>

theorem candidates_complete:
  assumes "users_known xs (store_New :: 'e credential_store)"
  shows "let c = fold store_step xs (store_New :: 'e credential_store) in
    distinct (candidates c) \<and> length (candidates c) = Count c
    \<and> (\<lparr>cred_user = u, cred_password = p\<rparr> \<in> set (candidates c) \<longleftrightarrow> known_user u c \<and> p \<in> set (Passwords u c))"
proof -
  let ?c = "fold store_step xs (store_New :: 'e credential_store)"
  have ok: "cs_ok ?c" using cs_ok_New assms by (rule cs_ok_history)
  then have "\<lparr>cred_user = u, cred_password = p\<rparr> \<in> set (candidates ?c) \<longleftrightarrow> known_user u ?c \<and> p \<in> set (Passwords u ?c)"
    by (simp add: candidates_set Usernames_def cs_ok_known)
  with ok show ?thesis by (simp add: Let_def candidates_distinct candidates_count)
qed

theorem candidates_complete_witness:
  "candidates (fold store_step [OpAddUser ''root'', OpAddPassword ''toor'', OpPrependPasswordForUser ''root'' ''root'']
     (store_New :: nat credential_store))
   = [\<lparr>cred_user = ''root'', cred_password = ''root''\<rparr>, \<lparr>cred_user = ''root'', cred_password = ''toor''\<rparr>]
   \<and> Count (fold store_step [OpAddUser ''root'', OpAddPassword ''toor'', OpPrependPasswordForUser ''root'' ''root'']
     (store_New :: nat credential_store)) = 2"
proof -
  let ?xs = "[OpAddUser ''root'', OpAddPassword ''toor'', OpPrependPasswordForUser ''root'' ''root'']"
  note eval = AddUser_def AddPassword_def PrependPasswordForUser_def store_New_def known_user_def Passwords_def
  let ?C = "fold store_step ?xs (store_New :: nat credential_store)"
  have c: "candidates ?C
      = [\<lparr>cred_user = ''root'', cred_password = ''root''\<rparr>, \<lparr>cred_user = ''root'', cred_password = ''toor''\<rparr>]"
    by (simp add: candidates_def Usernames_def eval)
  have "users_known ?xs (store_New :: nat credential_store)" by (simp add: eval)
  then have "length (candidates ?C) = Count ?C" by (rule candidates_complete [unfolded Let_def, THEN conjunct2, THEN conjunct1])
  then have "Count ?C = 2" unfolding c by simp
  with c show ?thesis by (rule conjI)
qed

text \<open>Without that condition passwords are lost: a password added for an unknown user is counted,
  but the user is not listed, and adding the user later does not list it either, so the password
  is never tried.\<close>

theorem AddPasswordForUser_unknown:
  assumes "\<not> known_user u c" and "u \<notin> set (Usernames c)"
  shows "let c' = AddUser u (AddPasswordForUser u p c) in
    Count c' = Count c + 1 \<and> u \<notin> set (Usernames c') \<and> \<lparr>cred_user = u, cred_password = p\<rparr> \<notin> set (candidates c')"
proof -
  let ?c1 = "AddPasswordForUser u p c"
  have c1: "?c1 = c\<lparr>cs_credentials := cs_credentials c @ [(u, [p])]\<rparr>"
    using assms(1) by (simp add: AddPasswordForUser_def known_user_iff upsert_new)
  then have "known_user u ?c1" by (simp add: known_user_iff)
  then have "AddUser u ?c1 = ?c1" by (simp add: AddUser_def)
  with c1 assms(2) show ?thesis by (simp add: Count_def Usernames_def candidates_set)
qed

theorem AddPasswordForUser_unknown_witness:
  "candidates (AddUser ''admin'' (AddPasswordForUser ''admin'' ''admin'' (store_New :: nat credential_store))) = []
   \<and> Count (AddUser ''admin'' (AddPasswordForUser ''admin'' ''admin'' (store_New :: nat credential_store))) = 1"
  using AddPasswordForUser_unknown [of "''admin''" "store_New :: nat credential_store" "''admin''"]
  by (simp add: store_New_def known_user_def Usernames_def Count_def Let_def candidates_def AddUser_def
      AddPasswordForUser_def)

text \<open>The default credentials come first.\<close>

lemma firsts_Cons: "firsts (x # xs) = x # remove1 x (firsts xs)"
proof -
  have "rev (remdups (ys @ [x])) = x # remove1 x (rev (remdups ys))" for ys
    by (induction ys) (auto simp: remove1_append remove1_idem)
  from this [of "rev xs"] show ?thesis by (simp add: firsts_def)
qed

lemma prepend_defaults:
  assumes "cs_ok c"
  shows "let c' = fold (\<lambda>cred c. PrependPasswordForUser (f cred) (g cred) (PrependUser (f cred) c)) (rev ds) c in
    cs_ok c' \<and> cs_usernames c' = firsts (map f ds @ cs_usernames c)
    \<and> Passwords u c' = firsts (map g (filter (\<lambda>d. f d = u) ds) @ Passwords u c)"
proof (induction ds)
  case Nil
  then show ?case using assms by (simp add: firsts_distinct cs_ok_def distinct_passwords)
next
  case (Cons d ds)
  let ?c = "fold (\<lambda>cred c. PrependPasswordForUser (f cred) (g cred) (PrependUser (f cred) c)) (rev ds) c"
  have ok: "cs_ok ?c" and us: "cs_usernames ?c = firsts (map f ds @ cs_usernames c)"
    and ps: "Passwords u ?c = firsts (map g (filter (\<lambda>d. f d = u) ds) @ Passwords u c)"
    using Cons.IH by (simp_all add: Let_def)
  have "cs_usernames (PrependUser (f d) ?c) = f d # remove1 (f d) (cs_usernames ?c)"
    using cs_ok_known [OF ok] by (auto simp: PrependUser_usernames remove1_idem)
  with ok us ps show ?case
    by (auto simp: Let_def Passwords_PrependPassword firsts_Cons
        intro!: cs_ok_PrependPasswordForUser cs_ok_PrependUser)
qed

text \<open>The default credentials of a service are tried before everything else: in the prepared
  store the users of the defaults come first, in their order, before the users of the given store,
  and for each user its default passwords come first, each user and password once.\<close>

theorem prepareCredentialStore_order:
  assumes "bo_store o' = Some c" and "cs_ok c" and "\<not> bo_password_only o'"
  shows "\<exists>c'. prepareCredentialStore defaults o' = Inr c' \<and> cs_ok c'
    \<and> Usernames c' = firsts (map cred_user (bo_defaults o') @ Usernames c)
    \<and> Passwords u c' = firsts (map cred_password (filter (\<lambda>d. cred_user d = u) (bo_defaults o')) @ Passwords u c)"
proof -
  have "cs_ok (store_Copy c)" "Passwords u (store_Copy c) = Passwords u c" "cs_usernames (store_Copy c) = cs_usernames c"
    using assms(2) by (simp_all add: cs_ok_Copy) (simp_all add: store_Copy_def Passwords_def)
  with prepend_defaults [of "store_Copy c" cred_user cred_password "bo_defaults o'" u] assms
  show ?thesis by (simp add: prepareCredentialStore_def prependDefaultCredentials_def Usernames_def Let_def)
qed

theorem prepareCredentialStore_order_witness:
  "\<exists>c'. prepareCredentialStore \<lparr>fs_walk = [], fs_open = Inl\<rparr>
      \<lparr>bo_store = Some \<lparr>cs_usernames = [''root''], cs_credentials = [(''root'', [''a'', ''b''])], cs_loaded = None\<rparr>,
       bo_defaults = [\<lparr>cred_user = ''root'', cred_password = ''b''\<rparr>], bo_password_only = False\<rparr> = Inr c'
    \<and> Usernames c' = [''root''] \<and> Passwords ''root'' c' = [''b'', ''a'']"
proof -
  let ?c = "\<lparr>cs_usernames = [''root''], cs_credentials = [(''root'', [''a'', ''b''])], cs_loaded = None\<rparr>"
  let ?o = "\<lparr>bo_store = Some ?c, bo_defaults = [\<lparr>cred_user = ''root'', cred_password = ''b''\<rparr>], bo_password_only = False\<rparr>"
  have "cs_ok ?c" by (simp add: cs_ok_def)
  with prepareCredentialStore_order [of ?o ?c "\<lparr>fs_walk = [], fs_open = Inl\<rparr>" "''root''"] show ?thesis
    by (auto simp: Usernames_def Passwords_def firsts_def)
qed

section \<open>The pool of workers\<close>

record bf_config =
  bf_max_concurrency :: "32 word"
  bf_max_attempts :: "32 word"
  bf_stop_at_first :: bool

text \<open>The constructor replaces a concurrency that is not positive by 1.\<close>

definition normalize_config :: "bf_config \<Rightarrow> bf_config" where
  "normalize_config cfg = (if sint (bf_max_concurrency cfg) \<le> 0 then cfg\<lparr>bf_max_concurrency := 1\<rparr> else cfg)"

definition numWorkers :: "bf_config \<Rightarrow> nat \<Rightarrow> nat" where
  "numWorkers cfg ncreds =
     (let n = min (max 1 (sint (bf_max_concurrency cfg))) (int ncreds);
          mx = sint (bf_max_attempts cfg)
      in nat (if 0 < mx then min n mx else n))"

text \<open>
  Where a worker is in the body of \<open>runWorker\<close>: the call it makes next, for the index it received.
\<close>

datatype pc =
    Receive
  | CheckContext nat | CheckDone nat | CheckUser nat | CheckBudget nat
  | LimiterWait nat
  | RecheckDone nat | RecheckUser nat | Claim nat
  | Test nat | Record nat
  | Returned | Failed

text \<open>The shared state; \<open>tested\<close> lists the indices that were tried, in order.\<close>

record pool =
  workCh :: "nat list"
  attempts :: nat
  budgetExhausted :: bool
  matched :: "nat list"
  cancelled :: bool
  tested :: "nat list"

definition new_pool :: "credential list \<Rightarrow> pool" where
  "new_pool creds = \<lparr>workCh = [0..<length creds], attempts = 0, budgetExhausted = False, matched = [],
     cancelled = False, tested = []\<rparr>"

definition Done :: "bf_config \<Rightarrow> pool \<Rightarrow> bool" where
  "Done cfg p = (budgetExhausted p \<or> (bf_stop_at_first cfg \<and> matched p \<noteq> []))"

definition UserDone :: "credential list \<Rightarrow> string \<Rightarrow> pool \<Rightarrow> bool" where
  "UserDone creds user p = list_ex (\<lambda>i. cred_user (creds ! i) = user) (matched p)"

definition at_limit :: "bf_config \<Rightarrow> pool \<Rightarrow> bool" where
  "at_limit cfg p = (0 < sint (bf_max_attempts cfg) \<and> sint (bf_max_attempts cfg) \<le> int (attempts p))"

definition hasBudget :: "bf_config \<Rightarrow> pool \<Rightarrow> pool \<times> bool" where
  "hasBudget cfg p = (if at_limit cfg p then (p\<lparr>budgetExhausted := True\<rparr>, False) else (p, True))"

definition claimAttempt :: "bf_config \<Rightarrow> pool \<Rightarrow> pool \<times> bool" where
  "claimAttempt cfg p =
     (if at_limit cfg p then (p\<lparr>budgetExhausted := True\<rparr>, False) else (p\<lparr>attempts := attempts p + 1\<rparr>, True))"

definition recordMatch :: "nat \<Rightarrow> pool \<Rightarrow> pool" where
  "recordMatch i p = p\<lparr>matched := matched p @ [i]\<rparr>"

text \<open>
  One step of a worker. The service's answer to index \<open>i\<close> is \<open>test i\<close>: \<open>None\<close> is an unexpected
  error, which cancels the group's context; \<open>ok\<close> is whether the rate limiter's wait succeeds.
\<close>

fun worker_step :: "bf_config \<Rightarrow> credential list \<Rightarrow> (nat \<Rightarrow> bool option) \<Rightarrow> bool \<Rightarrow> pool \<Rightarrow> pc \<Rightarrow> pool \<times> pc" where
  "worker_step cfg creds test ok p Receive =
     (case workCh p of [] \<Rightarrow> (p, Returned) | i # is \<Rightarrow> (p\<lparr>workCh := is\<rparr>, CheckContext i))"
| "worker_step cfg creds test ok p (CheckContext i) =
     (if cancelled p then (p, Failed) else (p, CheckDone i))"
| "worker_step cfg creds test ok p (CheckDone i) = (p, if Done cfg p then Returned else CheckUser i)"
| "worker_step cfg creds test ok p (CheckUser i) =
     (p, if UserDone creds (cred_user (creds ! i)) p then Receive else CheckBudget i)"
| "worker_step cfg creds test ok p (CheckBudget i) =
     (case hasBudget cfg p of (p', b) \<Rightarrow> (p', if b then LimiterWait i else Returned))"
| "worker_step cfg creds test ok p (LimiterWait i) =
     (if ok then (p, RecheckDone i) else (p\<lparr>cancelled := True\<rparr>, Failed))"
| "worker_step cfg creds test ok p (RecheckDone i) = (p, if Done cfg p then Returned else RecheckUser i)"
| "worker_step cfg creds test ok p (RecheckUser i) =
     (p, if UserDone creds (cred_user (creds ! i)) p then Receive else Claim i)"
| "worker_step cfg creds test ok p (Claim i) =
     (case claimAttempt cfg p of (p', b) \<Rightarrow> (p', if b then Test i else Returned))"
| "worker_step cfg creds test ok p (Test i) =
     (case test i of
        None \<Rightarrow> (p\<lparr>tested := tested p @ [i], cancelled := True\<rparr>, Failed)
      | Some valid \<Rightarrow> (p\<lparr>tested := tested p @ [i]\<rparr>, if valid then Record i else Receive))"
| "worker_step cfg creds test ok p (Record i) = (recordMatch i p, Receive)"
| "worker_step cfg creds test ok p Returned = (p, Returned)"
| "worker_step cfg creds test ok p Failed = (p, Failed)"

definition stopped :: "pc \<Rightarrow> bool" where
  "stopped w = (w = Returned \<or> w = Failed)"

text \<open>The group: any worker that has not stopped makes a step, or the scan's context ends.\<close>

inductive group_step :: "bf_config \<Rightarrow> credential list \<Rightarrow> (nat \<Rightarrow> bool option) \<Rightarrow> pool \<times> pc list \<Rightarrow> pool \<times> pc list \<Rightarrow> bool"
  for cfg creds test where
  work: "k < length ws \<Longrightarrow> \<not> stopped (ws ! k) \<Longrightarrow> worker_step cfg creds test ok p (ws ! k) = (p', w')
    \<Longrightarrow> group_step cfg creds test (p, ws) (p', ws[k := w'])"
| cancel: "\<not> cancelled p \<Longrightarrow> group_step cfg creds test (p, ws) (p\<lparr>cancelled := True\<rparr>, ws)"

inductive_cases group_stepE: "group_step cfg creds test (p, ws) s'"

definition start :: "bf_config \<Rightarrow> credential list \<Rightarrow> pool \<times> pc list" where
  "start cfg creds = (new_pool creds, replicate (numWorkers cfg (length creds)) Receive)"

inductive reachable :: "bf_config \<Rightarrow> credential list \<Rightarrow> (nat \<Rightarrow> bool option) \<Rightarrow> pool \<times> pc list \<Rightarrow> bool"
  for cfg creds test where
  init: "reachable cfg creds test (start cfg creds)"
| step: "reachable cfg creds test s \<Longrightarrow> group_step cfg creds test s s' \<Longrightarrow> reachable cfg creds test s'"

record pool_result =
  validCreds :: "credential list"
  res_attempts :: nat
  res_exhausted :: bool

definition pool_result_of :: "bf_config \<Rightarrow> credential list \<Rightarrow> pool \<Rightarrow> pool_result" where
  "pool_result_of cfg creds p =
     \<lparr>validCreds = map ((!) creds) (sort (matched p)), res_attempts = attempts p,
      res_exhausted = (budgetExhausted p \<and> \<not> (bf_stop_at_first cfg \<and> matched p \<noteq> []))\<rparr>"

text \<open>What \<open>group.Wait\<close> and \<open>pool.result\<close> give once every worker has stopped; \<open>None\<close> is an error.\<close>

definition testCredentials :: "bf_config \<Rightarrow> credential list \<Rightarrow> pool \<times> pc list \<Rightarrow> pool_result option" where
  "testCredentials cfg creds s = (if Failed \<in> set (snd s) then None else Some (pool_result_of cfg creds (fst s)))"

section \<open>The detector\<close>

record 'v detection =
  dr_service :: network_service
  dr_vulnerability :: 'v
  dr_details :: "string list"

definition buildDetectionReportList :: "'v \<Rightarrow> string list \<Rightarrow> network_service \<Rightarrow> credential list \<Rightarrow> 'v detection list" where
  "buildDetectionReportList vuln details service valid =
     [\<lparr>dr_service = service, dr_vulnerability = vuln, dr_details = details @ map Credential_String valid\<rparr>]"

text \<open>\<open>Detect\<close> on the handler's fingerprint and the pool's result for its candidates.\<close>

definition Detect :: "('e, bool) result \<Rightarrow> ('e, pool_result) result \<Rightarrow> 'v \<Rightarrow> string list \<Rightarrow> network_service
    \<Rightarrow> ('e, 'v detection list) result" where
  "Detect fingerprint res vuln details service = (case fingerprint of
       Inl e \<Rightarrow> Inl e
     | Inr False \<Rightarrow> Inr []
     | Inr True \<Rightarrow> (case res of
           Inl e \<Rightarrow> Inl e
         | Inr r \<Rightarrow> if validCreds r = [] then Inr [] else Inr (buildDetectionReportList vuln details service (validCreds r))))"

section \<open>Invariant of the pool\<close>

fun held :: "pc \<Rightarrow> nat option" where
  "held (CheckContext i) = Some i" | "held (CheckDone i) = Some i" | "held (CheckUser i) = Some i"
| "held (CheckBudget i) = Some i" | "held (LimiterWait i) = Some i" | "held (RecheckDone i) = Some i"
| "held (RecheckUser i) = Some i" | "held (Claim i) = Some i" | "held (Test i) = Some i"
| "held (Record i) = Some i"
| "held Receive = None" | "held Returned = None" | "held Failed = None"

fun testing :: "pc \<Rightarrow> nat" where
  "testing (Test i) = 1"
| "testing w = 0"

text \<open>What a worker knows about the index it holds, where \<open>n\<close> indices have been received.\<close>

definition worker_ok :: "bf_config \<Rightarrow> (nat \<Rightarrow> bool option) \<Rightarrow> nat \<Rightarrow> pool \<Rightarrow> pc \<Rightarrow> bool" where
  "worker_ok cfg test n p w =
     ((case held w of None \<Rightarrow> True | Some i \<Rightarrow>
         i < n \<and> (if w = Record i then i \<in> set (tested p) \<and> i \<notin> set (matched p) \<and> test i = Some True
                  else i \<notin> set (tested p)))
      \<and> (w = Returned \<longrightarrow> Done cfg p \<or> workCh p = []))"

definition pool_ok :: "(nat \<Rightarrow> bool option) \<Rightarrow> nat \<Rightarrow> nat \<Rightarrow> pool \<Rightarrow> bool" where
  "pool_ok test m n p =
     (workCh p = [n..<m] \<and> n \<le> m \<and> distinct (tested p) \<and> (\<forall>i \<in> set (tested p). i < n)
      \<and> distinct (matched p) \<and> (\<forall>i \<in> set (matched p). i \<in> set (tested p) \<and> test i = Some True))"

definition separate :: "pc list \<Rightarrow> bool" where
  "separate ws = (\<forall>j k i. j < length ws \<longrightarrow> k < length ws \<longrightarrow> held (ws ! j) = Some i \<longrightarrow> held (ws ! k) = Some i \<longrightarrow> j = k)"

definition shared_ok :: "bf_config \<Rightarrow> (nat \<Rightarrow> bool option) \<Rightarrow> nat \<Rightarrow> nat \<Rightarrow> pool \<Rightarrow> pc list \<Rightarrow> bool" where
  "shared_ok cfg test m n p ws = (pool_ok test m n p \<and> separate ws \<and> (\<forall>k < length ws. worker_ok cfg test n p (ws ! k)))"

lemma Done_mono: "Done cfg p \<Longrightarrow> budgetExhausted p \<le> budgetExhausted p' \<Longrightarrow> set (matched p) \<subseteq> set (matched p') \<Longrightarrow> Done cfg p'"
  by (auto simp: Done_def)

lemma step_kinds:
  assumes "worker_step cfg creds test ok p w = (p', w')"
  obtains (receive) i js where "w = Receive" "workCh p = i # js" "p' = p\<lparr>workCh := js\<rparr>" "w' = CheckContext i"
  | (tested) i where "w = Test i" "tested p' = tested p @ [i]" "workCh p' = workCh p" "matched p' = matched p"
      "budgetExhausted p' = budgetExhausted p" "attempts p' = attempts p"
      "w' = Record i \<and> test i = Some True \<or> w' = Receive \<and> test i = Some False \<or> w' = Failed \<and> test i = None"
  | (recorded) i where "w = Record i" "p' = p\<lparr>matched := matched p @ [i]\<rparr>" "w' = Receive"
  | (other) "workCh p' = workCh p" "tested p' = tested p" "matched p' = matched p"
      "budgetExhausted p \<longrightarrow> budgetExhausted p'"
      "held w' = held w \<or> held w' = None" "\<nexists>i. w = Record i \<or> w' = Record i \<or> w = Test i"
      "w' = Returned \<longrightarrow> w = Returned \<or> Done cfg p' \<or> workCh p' = []"
      "\<forall>i. held w = Some i \<longrightarrow> held w' = Some i \<or> UserDone creds (cred_user (creds ! i)) p \<or> Done cfg p' \<or> w' = Failed"
proof (cases w)
  case Receive
  show ?thesis
  proof (cases "workCh p")
    case Nil
    with Receive assms show ?thesis by (intro other) auto
  next
    case (Cons i js)
    with Receive assms show ?thesis by (intro receive) auto
  qed
next
  case (Test i)
  with assms show ?thesis by (intro tested) (auto split: option.splits if_splits)
next
  case (CheckContext i)
  with assms show ?thesis
    by (intro other) (auto simp: Done_def hasBudget_def claimAttempt_def at_limit_def split: if_splits)
next
  case (CheckDone i)
  with assms show ?thesis
    by (intro other) (auto simp: Done_def hasBudget_def claimAttempt_def at_limit_def split: if_splits)
next
  case (CheckUser i)
  with assms show ?thesis
    by (intro other) (auto simp: Done_def hasBudget_def claimAttempt_def at_limit_def split: if_splits)
next
  case (CheckBudget i)
  with assms show ?thesis
    by (intro other) (auto simp: Done_def hasBudget_def claimAttempt_def at_limit_def split: if_splits)
next
  case (LimiterWait i)
  with assms show ?thesis
    by (intro other) (auto simp: Done_def hasBudget_def claimAttempt_def at_limit_def split: if_splits)
next
  case (RecheckDone i)
  with assms show ?thesis
    by (intro other) (auto simp: Done_def hasBudget_def claimAttempt_def at_limit_def split: if_splits)
next
  case (RecheckUser i)
  with assms show ?thesis
    by (intro other) (auto simp: Done_def hasBudget_def claimAttempt_def at_limit_def split: if_splits)
next
  case (Claim i)
  with assms show ?thesis
    by (intro other) (auto simp: Done_def hasBudget_def claimAttempt_def at_limit_def split: if_splits)
next
  case (Record i)
  with assms show ?thesis by (intro recorded) (auto simp: recordMatch_def)
qed (use assms in \<open>auto intro!: other\<close>)

lemma shared_ok_start:
  "shared_ok cfg test (length creds) 0 (fst (start cfg creds)) (snd (start cfg creds))"
  by (auto simp: shared_ok_def start_def new_pool_def pool_ok_def separate_def worker_ok_def)

lemma separate_update:
  assumes "separate ws" and "k < length ws"
    and "\<And>i j. held w' = Some i \<Longrightarrow> j < length ws \<Longrightarrow> held (ws ! j) = Some i \<Longrightarrow> j = k"
  shows "separate (ws[k := w'])"
  using assms unfolding separate_def by (metis length_list_update nth_list_update)

lemma shared_ok_step:
  assumes "shared_ok cfg test m n p ws" and k: "k < length ws"
    and "worker_step cfg creds test ok p (ws ! k) = (p', w')"
  shows "\<exists>n'. shared_ok cfg test m n' p' (ws[k := w'])"
proof -
  have p: "pool_ok test m n p" and sep: "separate ws"
    and w: "\<And>j. j < length ws \<Longrightarrow> worker_ok cfg test n p (ws ! j)"
    using assms(1) by (auto simp: shared_ok_def)
  have others: "held (ws ! j) \<noteq> Some i" if "held (ws ! k) = Some i" "j < length ws" "j \<noteq> k" for i j
    using that k sep by (auto simp: separate_def)
  from assms(3) show ?thesis
  proof (cases rule: step_kinds)
    case (receive i js)
    moreover have "workCh p = [n..<m]" using p by (simp add: pool_ok_def)
    ultimately have i: "i = n" "js = [Suc n..<m]" "n < m" by (cases "n < m", auto simp: upt_conv_Cons)+
    have "pool_ok test m (Suc n) p'" using p receive i by (auto simp: pool_ok_def)
    moreover have "separate (ws[k := w'])"
      using sep k
    proof (rule separate_update)
      fix i' j assume "held w' = Some i'" "j < length ws" "held (ws ! j) = Some i'"
      with w [of j] receive i show "j = k" by (simp add: worker_ok_def)
    qed
    moreover have "worker_ok cfg test (Suc n) p' (ws ! j)" if "j < length ws" "j \<noteq> k" for j
      using w [OF that(1)] receive i by (auto simp: worker_ok_def Done_def split: option.splits)
    moreover have "worker_ok cfg test (Suc n) p' w'" using receive i p by (auto simp: worker_ok_def pool_ok_def)
    ultimately show ?thesis using k unfolding shared_ok_def
      by (intro exI [of _ "Suc n"]) (auto simp: nth_list_update)
  next
    case (tested i)
    have "pool_ok test m n p'" using p tested w [OF k] by (auto simp: pool_ok_def worker_ok_def)
    moreover have "separate (ws[k := w'])"
      using sep k by (rule separate_update) (use tested others in \<open>fastforce split: if_splits\<close>)
    moreover have "worker_ok cfg test n p' (ws ! j)" if "j < length ws" "j \<noteq> k" for j
      using w [OF that(1)] others [of i j] that tested by (auto simp: worker_ok_def Done_def split: option.splits)
    moreover have "worker_ok cfg test n p' w'"
      using w [OF k] p tested by (auto simp: worker_ok_def pool_ok_def)
    ultimately show ?thesis using k unfolding shared_ok_def by (intro exI [of _ n]) (auto simp: nth_list_update)
  next
    case (recorded i)
    have "pool_ok test m n p'" using p recorded w [OF k] by (auto simp: pool_ok_def worker_ok_def)
    moreover have "separate (ws[k := w'])"
      using sep k recorded by (intro separate_update) auto
    moreover have "worker_ok cfg test n p' (ws ! j)" if "j < length ws" "j \<noteq> k" for j
      using w [OF that(1)] others [of i j] that recorded by (auto simp: worker_ok_def Done_def split: option.splits)
    moreover have "worker_ok cfg test n p' w'" using recorded by (simp add: worker_ok_def)
    ultimately show ?thesis using k unfolding shared_ok_def by (intro exI [of _ n]) (auto simp: nth_list_update)
  next
    case other
    have "pool_ok test m n p'" using p other by (auto simp: pool_ok_def)
    moreover have "separate (ws[k := w'])"
      using sep k
    proof (rule separate_update)
      fix i j assume "held w' = Some i" "j < length ws" "held (ws ! j) = Some i"
      with other(5) others [of i j] show "j = k" by force
    qed
    moreover have "worker_ok cfg test n p' (ws ! j)" if "j < length ws" "j \<noteq> k" for j
      using w [OF that(1)] other Done_mono [of cfg p p'] by (auto simp: worker_ok_def split: option.splits if_splits)
    moreover have "worker_ok cfg test n p' w'"
      using w [OF k] other Done_mono [of cfg p p'] by (auto simp: worker_ok_def split: option.splits if_splits)
    ultimately show ?thesis using k unfolding shared_ok_def by (intro exI [of _ n]) (auto simp: nth_list_update)
  qed
qed

lemma reachable_shared_ok:
  "reachable cfg creds test s \<Longrightarrow> \<exists>n. shared_ok cfg test (length creds) n (fst s) (snd s)"
proof (induction rule: reachable.induct)
  case init
  show ?case using shared_ok_start by blast
next
  case (step s s')
  then obtain n where n: "shared_ok cfg test (length creds) n (fst s) (snd s)" by blast
  from step.hyps(2) show ?case
  proof (cases rule: group_step.cases)
    case (work k ws ok p p' w')
    then show ?thesis using shared_ok_step [of cfg test "length creds" n p ws k creds ok p' w'] n by simp
  next
    case (cancel p ws)
    then show ?thesis using n
      by (auto simp: shared_ok_def pool_ok_def worker_ok_def Done_def split: option.splits intro!: exI [of _ n])
  qed
qed

section \<open>The budget\<close>

definition count_testing :: "pc list \<Rightarrow> nat" where
  "count_testing ws = sum_list (map testing ws)"

lemma sum_update:
  fixes f :: "'a \<Rightarrow> nat"
  assumes "k < length ws"
  shows "sum_list (map f (ws[k := w'])) + f (ws ! k) = sum_list (map f ws) + f w'"
proof -
  have "f (ws ! k) \<le> sum_list (map f ws)"
    using assms by (metis elem_le_sum_list length_map nth_map)
  then show ?thesis using assms by (simp add: map_update sum_list_update)
qed

definition within_limit :: "bf_config \<Rightarrow> pool \<Rightarrow> bool" where
  "within_limit cfg p = (0 < sint (bf_max_attempts cfg) \<longrightarrow> int (attempts p) \<le> sint (bf_max_attempts cfg))"

lemma worker_step_attempts:
  assumes "worker_step cfg creds test ok p w = (p', w')" and "within_limit cfg p"
  shows "within_limit cfg p' \<and> length (tested p') + testing w' + attempts p = length (tested p) + testing w + attempts p'"
  using assms
  by (cases w) (auto simp: within_limit_def hasBudget_def claimAttempt_def at_limit_def recordMatch_def
      split: list.splits if_splits option.splits)

lemma reachable_attempts:
  "reachable cfg creds test s \<Longrightarrow>
    within_limit cfg (fst s) \<and> attempts (fst s) = length (tested (fst s)) + count_testing (snd s)"
proof (induction rule: reachable.induct)
  case init
  have "sum_list (map testing (replicate n Receive)) = 0" for n by (induction n) auto
  then show ?case by (simp add: start_def new_pool_def within_limit_def count_testing_def)
next
  case (step s s')
  from step.hyps(2) show ?case
  proof (cases rule: group_step.cases)
    case (work k ws ok p p' w')
    with step.IH worker_step_attempts [OF work(5)] sum_update [of k ws testing w'] show ?thesis
      by (simp add: count_testing_def)
  next
    case (cancel p ws)
    with step.IH show ?thesis by (auto simp: within_limit_def)
  qed
qed

text \<open>C2. Under every interleaving of the workers the pool makes at most \<open>max_attempts_per_service\<close>
  attempts when that limit is positive, tries no candidate twice, and reports a credential only
  if the service accepted it; the reported list is in the order of the candidates.\<close>

theorem pool_sound:
  assumes "reachable cfg creds test (p, ws)" and "testCredentials cfg creds (p, ws) = Some r"
  shows "(0 < sint (bf_max_attempts cfg) \<longrightarrow> int (length (tested p)) \<le> sint (bf_max_attempts cfg))
    \<and> distinct (tested p)
    \<and> (\<exists>is. validCreds r = map ((!) creds) is \<and> sorted_wrt (<) is
          \<and> list_all (\<lambda>i. i < length creds \<and> i \<in> set (tested p) \<and> test i = Some True) is)"
proof -
  from reachable_shared_ok [OF assms(1)] obtain n where n: "shared_ok cfg test (length creds) n p ws" by auto
  have "validCreds r = map ((!) creds) (sort (matched p))"
    using assms(2) by (auto simp: testCredentials_def pool_result_of_def split: if_splits)
  moreover have "sorted_wrt (<) (sort (matched p))"
    using n by (simp add: shared_ok_def pool_ok_def strict_sorted_iff)
  moreover have "list_all (\<lambda>i. i < length creds \<and> i \<in> set (tested p) \<and> test i = Some True) (sort (matched p))"
    using n by (force simp: shared_ok_def pool_ok_def list_all_iff)
  ultimately show ?thesis
    using reachable_attempts [OF assms(1)] n by (auto simp: within_limit_def shared_ok_def pool_ok_def)
qed

section \<open>No candidate is forgotten\<close>

definition covered :: "bf_config \<Rightarrow> credential list \<Rightarrow> pool \<Rightarrow> pc list \<Rightarrow> nat \<Rightarrow> bool" where
  "covered cfg creds p ws i =
     (i \<in> set (workCh p) \<or> Some i \<in> held ` set ws \<or> i \<in> set (tested p)
      \<or> UserDone creds (cred_user (creds ! i)) p \<or> Done cfg p \<or> Failed \<in> set ws)"

definition hits_kept :: "(nat \<Rightarrow> bool option) \<Rightarrow> pool \<Rightarrow> pc list \<Rightarrow> bool" where
  "hits_kept test p ws = (\<forall>i \<in> set (tested p). test i = Some True \<longrightarrow> i \<in> set (matched p) \<or> Record i \<in> set ws)"

lemma in_set_update:
  assumes "k < length ws"
  shows "x \<in> set (ws[k := y]) \<longleftrightarrow> x = y \<or> (\<exists>j < length ws. j \<noteq> k \<and> ws ! j = x)"
  using assms by (auto simp: in_set_conv_nth nth_list_update)

lemma UserDone_mono: "UserDone creds u p \<Longrightarrow> set (matched p) \<subseteq> set (matched p') \<Longrightarrow> UserDone creds u p'"
  by (auto simp: UserDone_def list_ex_iff)

lemma set_keep: "k < length ws \<Longrightarrow> x \<in> set ws \<Longrightarrow> x \<noteq> ws ! k \<Longrightarrow> x \<in> set (ws[k := w'])"
  by (auto simp: in_set_conv_nth nth_list_update)

lemma held_keep:
  "k < length ws \<Longrightarrow> Some i \<in> held ` set ws \<Longrightarrow> held (ws ! k) \<noteq> Some i \<Longrightarrow> Some i \<in> held ` set (ws[k := w'])"
  using set_keep [of k ws _ w'] by (metis (no_types, lifting) image_iff)

lemma set_update_new: "k < length ws \<Longrightarrow> w' \<in> set (ws[k := w'])"
  by (simp add: set_update_memI)

lemma covered_step:
  assumes k: "k < length ws" and live: "\<not> stopped (ws ! k)" and cov: "covered cfg creds p ws i"
    and "worker_step cfg creds test ok p (ws ! k) = (p', w')"
  shows "covered cfg creds p' (ws[k := w']) i"
proof -
  note keep = set_keep [OF k] held_keep [OF k] set_update_new [OF k]
  have failed: "Failed \<in> set (ws[k := w'])" if "Failed \<in> set ws"
    using that live keep(1) by (auto simp: stopped_def)
  have new: "Some j \<in> held ` set (ws[k := w'])" if "held w' = Some j" for j
    using that keep(3) [of w'] by (metis imageI)
  from assms(4) show ?thesis
  proof (cases rule: step_kinds)
    case (receive j js)
    then show ?thesis using cov failed keep(2) new by (auto simp: covered_def UserDone_def Done_def)
  next
    case (tested j)
    then show ?thesis using cov failed keep(2) by (auto simp: covered_def UserDone_def Done_def)
  next
    case (recorded j)
    then have "set (matched p) \<subseteq> set (matched p')" "budgetExhausted p \<le> budgetExhausted p'" by auto
    moreover have "UserDone creds (cred_user (creds ! j)) p'" using recorded by (simp add: UserDone_def)
    ultimately show ?thesis using cov failed keep(2) [of i w'] recorded Done_mono [of cfg p p']
        UserDone_mono [of creds "cred_user (creds ! i)" p p']
      by (cases "i = j") (auto simp: covered_def)
  next
    case other
    then have u: "UserDone creds u p' = UserDone creds u p" for u by (simp add: UserDone_def)
    show ?thesis
    proof (cases "held (ws ! k) = Some i")
      case True
      with other(8) new [of i] keep(3) [of w'] u show ?thesis by (auto simp: covered_def)
    next
      case False
      with cov keep(2) [of i w'] failed other u Done_mono [of cfg p p'] show ?thesis by (auto simp: covered_def)
    qed
  qed
qed

lemma hits_kept_step:
  assumes k: "k < length ws" and hits: "hits_kept test p ws"
    and "worker_step cfg creds test ok p (ws ! k) = (p', w')"
  shows "hits_kept test p' (ws[k := w'])"
proof -
  note keep = set_keep [OF k] set_update_new [OF k]
  from assms(3) show ?thesis
  proof (cases rule: step_kinds)
    case (receive j js)
    then show ?thesis using hits keep(1) [of "Record _" w'] by (auto simp: hits_kept_def)
  next
    case (tested j)
    then show ?thesis using hits keep(1) [of "Record _" w'] keep(2) [of w'] by (auto simp: hits_kept_def)
  next
    case (recorded j)
    then show ?thesis using hits keep(1) [of "Record _" w'] by (auto simp: hits_kept_def)
  next
    case other
    then have "Record i \<noteq> ws ! k" for i by metis
    with other(2,3) hits keep(1) [of "Record _" w'] show ?thesis by (auto simp: hits_kept_def)
  qed
qed

lemma reachable_complete:
  "reachable cfg creds test s \<Longrightarrow> length (snd s) = numWorkers cfg (length creds)
    \<and> (\<forall>i < length creds. covered cfg creds (fst s) (snd s) i) \<and> hits_kept test (fst s) (snd s)"
proof (induction rule: reachable.induct)
  case init
  show ?case by (simp add: start_def new_pool_def covered_def hits_kept_def)
next
  case (step s s')
  from step.hyps(2) show ?case
  proof (cases rule: group_step.cases)
    case (work k ws ok p p' w')
    with step.IH show ?thesis
      using covered_step [OF work(3,4) _ work(5)] hits_kept_step [OF work(3) _ work(5)] by simp
  next
    case (cancel p ws)
    with step.IH show ?thesis by (simp add: covered_def hits_kept_def UserDone_def Done_def)
  qed
qed

lemma numWorkers_pos: "0 < n \<Longrightarrow> 0 < numWorkers cfg n"
  by (auto simp: numWorkers_def Let_def)

text \<open>C22. When every worker has returned and neither the budget nor the stop at the first match ended
  the search, every candidate was tried, unless another credential of its user was accepted; so a
  user with an accepted candidate is always in the report.\<close>

theorem pool_complete:
  assumes "reachable cfg creds test (p, ws)" and "list_all ((=) Returned) ws" and "\<not> Done cfg p"
    and "i < length creds"
  shows "\<exists>r. testCredentials cfg creds (p, ws) = Some r \<and> \<not> res_exhausted r
    \<and> (i \<in> set (tested p) \<or> cred_user (creds ! i) \<in> cred_user ` set (validCreds r))
    \<and> (test i = Some True \<longrightarrow> cred_user (creds ! i) \<in> cred_user ` set (validCreds r))"
proof -
  have ret: "w = Returned" if "w \<in> set ws" for w using assms(2) that by (auto simp: list_all_iff)
  from reachable_complete [OF assms(1)] have len: "length ws = numWorkers cfg (length creds)"
    and cov: "covered cfg creds p ws i" and hits: "hits_kept test p ws" using assms(4) by auto
  from reachable_shared_ok [OF assms(1)] obtain n where n: "shared_ok cfg test (length creds) n p ws" by auto
  have "0 < length creds" using assms(4) by linarith
  then have "0 < length ws" unfolding len by (rule numWorkers_pos)
  then have "ws ! 0 = Returned" "worker_ok cfg test n p (ws ! 0)"
    using ret n by (auto simp: shared_ok_def)
  then have "workCh p = []" using assms(3) by (simp add: worker_ok_def)
  moreover have "Some i \<notin> held ` set ws" using ret by force
  moreover have "Failed \<notin> set ws" "Record i \<notin> set ws" using ret by blast+
  ultimately have cases: "i \<in> set (tested p) \<or> UserDone creds (cred_user (creds ! i)) p"
      "i \<in> set (tested p) \<Longrightarrow> test i = Some True \<Longrightarrow> i \<in> set (matched p)"
    using cov hits assms(3) by (auto simp: covered_def hits_kept_def)
  let ?r = "pool_result_of cfg creds p"
  have "testCredentials cfg creds (p, ws) = Some ?r" using \<open>Failed \<notin> set ws\<close> by (simp add: testCredentials_def)
  moreover have "\<not> res_exhausted ?r" using assms(3) by (simp add: pool_result_of_def Done_def)
  moreover have valid: "cred_user ` set (validCreds ?r) = (\<lambda>j. cred_user (creds ! j)) ` set (matched p)"
    by (simp add: pool_result_of_def image_image)
  then have "cred_user (creds ! i) \<in> cred_user ` set (validCreds ?r)"
    if "UserDone creds (cred_user (creds ! i)) p \<or> i \<in> set (matched p)"
  proof -
    have "\<exists>j \<in> set (matched p). cred_user (creds ! j) = cred_user (creds ! i)"
      using that by (auto simp: UserDone_def list_ex_iff)
    then show ?thesis unfolding valid image_iff by (metis (no_types))
  qed
  ultimately show ?thesis using cases by (intro exI [of _ ?r]) (simp, blast)
qed

section \<open>Termination\<close>

fun rank :: "pc \<Rightarrow> nat" where
  "rank Receive = 1"
| "rank (CheckContext _) = 11" | "rank (CheckDone _) = 10" | "rank (CheckUser _) = 9" | "rank (CheckBudget _) = 8"
| "rank (LimiterWait _) = 7" | "rank (RecheckDone _) = 6" | "rank (RecheckUser _) = 5" | "rank (Claim _) = 4"
| "rank (Test _) = 3" | "rank (Record _) = 2"
| "rank Returned = 0" | "rank Failed = 0"

definition work_left :: "pool \<times> pc list \<Rightarrow> nat" where
  "work_left s = 11 * length (workCh (fst s)) + sum_list (map rank (snd s)) + (if cancelled (fst s) then 0 else 1)"

lemma worker_step_rank:
  assumes "worker_step cfg creds test ok p w = (p', w')" and "\<not> stopped w"
  shows "11 * length (workCh p') + rank w' + (if cancelled p' then 0 else 1)
    < 11 * length (workCh p) + rank w + (if cancelled p then 0 else (1 :: nat))"
  using assms
  by (cases w) (auto simp: stopped_def hasBudget_def claimAttempt_def recordMatch_def
      split: list.splits if_splits option.splits)

lemma group_step_work_left:
  assumes "group_step cfg creds test s s'"
  shows "work_left s' < work_left s"
  using assms
proof (cases rule: group_step.cases)
  case (work k ws ok p p' w')
  then show ?thesis
    using worker_step_rank [OF work(5,4)] sum_update [OF work(3), of rank w'] by (simp add: work_left_def)
qed (auto simp: work_left_def)

text \<open>C13. The pool terminates under every schedule: a run has at most 11 steps for each candidate and
  one for each worker, besides the end of the context, and as long as some worker has not stopped
  another step is possible.\<close>

theorem pool_terminates:
  assumes "(group_step cfg creds test ^^ n) (start cfg creds) s"
  shows "n \<le> 11 * length creds + numWorkers cfg (length creds) + 1
    \<and> (list_ex (\<lambda>w. \<not> stopped w) (snd s) \<longrightarrow> (\<exists>s'. group_step cfg creds test s s'))"
proof
  have "n + work_left s \<le> work_left (start cfg creds)"
    using assms
  proof (induction n arbitrary: s)
    case (Suc n)
    then obtain t where "(group_step cfg creds test ^^ n) (start cfg creds) t" "group_step cfg creds test t s" by auto
    with Suc.IH [of t] group_step_work_left [of cfg creds test t s] show ?case by simp
  qed auto
  moreover have "work_left (start cfg creds) = 11 * length creds + numWorkers cfg (length creds) + 1"
    by (simp add: work_left_def start_def new_pool_def sum_list_replicate)
  ultimately show "n \<le> 11 * length creds + numWorkers cfg (length creds) + 1" by simp
  show "list_ex (\<lambda>w. \<not> stopped w) (snd s) \<longrightarrow> (\<exists>s'. group_step cfg creds test s s')"
  proof
    assume "list_ex (\<lambda>w. \<not> stopped w) (snd s)"
    then obtain k where "k < length (snd s)" "\<not> stopped (snd s ! k)" by (auto simp: list_ex_iff in_set_conv_nth)
    moreover obtain p' w' where "worker_step cfg creds test True (fst s) (snd s ! k) = (p', w')" by fastforce
    ultimately have "group_step cfg creds test (fst s, snd s) (p', (snd s)[k := w'])" by (rule group_step.work)
    then show "\<exists>s'. group_step cfg creds test s s'" by auto
  qed
qed

section \<open>A run\<close>

text \<open>One worker run to its end: a schedule that the witnesses use.\<close>

fun run_one :: "bf_config \<Rightarrow> credential list \<Rightarrow> (nat \<Rightarrow> bool option) \<Rightarrow> nat \<Rightarrow> pool \<Rightarrow> pc \<Rightarrow> pool \<times> pc" where
  "run_one cfg creds test 0 p w = (p, w)"
| "run_one cfg creds test (Suc n) p w =
     (if stopped w then (p, w) else case worker_step cfg creds test True p w of (p', w') \<Rightarrow> run_one cfg creds test n p' w')"

lemma run_one_reachable:
  "reachable cfg creds test (p, [w]) \<Longrightarrow> run_one cfg creds test n p w = (p', w') \<Longrightarrow> reachable cfg creds test (p', [w'])"
proof (induction n arbitrary: p w)
  case (Suc n)
  show ?case
  proof (cases "stopped w")
    case False
    obtain q v where qv: "worker_step cfg creds test True p w = (q, v)" by fastforce
    then have "group_step cfg creds test (p, [w]) (q, [v])"
      using group_step.work [of 0 "[w]" cfg creds test True p q v] False by simp
    with Suc qv False show ?thesis by (auto intro: reachable.step)
  qed (use Suc in auto)
qed simp

definition sample_config :: bf_config where
  "sample_config = \<lparr>bf_max_concurrency = 1, bf_max_attempts = 5, bf_stop_at_first = False\<rparr>"

definition sample_creds :: "credential list" where
  "sample_creds = [\<lparr>cred_user = ''a'', cred_password = ''1''\<rparr>, \<lparr>cred_user = ''a'', cred_password = ''2''\<rparr>]"

definition sample_pool :: pool where
  "sample_pool = \<lparr>workCh = [], attempts = 2, budgetExhausted = False, matched = [1], cancelled = False, tested = [0, 1]\<rparr>"

lemma sample_reachable: "reachable sample_config sample_creds (\<lambda>i. Some (i = 1)) (sample_pool, [Returned])"
proof (rule run_one_reachable)
  show "reachable sample_config sample_creds (\<lambda>i. Some (i = 1)) (new_pool sample_creds, [Receive])"
    using reachable.init [of sample_config sample_creds "\<lambda>i. Some (i = 1)"]
    by (simp add: start_def numWorkers_def sample_config_def sample_creds_def)
  show "run_one sample_config sample_creds (\<lambda>i. Some (i = 1)) 30 (new_pool sample_creds) Receive = (sample_pool, Returned)"
    by code_simp
qed

theorem pool_sound_witness:
  "reachable sample_config sample_creds (\<lambda>i. Some (i = 1)) (sample_pool, [Returned])
   \<and> distinct (tested sample_pool)
   \<and> (\<exists>r is. testCredentials sample_config sample_creds (sample_pool, [Returned]) = Some r
        \<and> validCreds r = map ((!) sample_creds) is \<and> list_all (\<lambda>i. i < length sample_creds) is)"
proof -
  obtain r where "testCredentials sample_config sample_creds (sample_pool, [Returned]) = Some r"
    by (simp add: testCredentials_def)
  with pool_sound [OF sample_reachable this] sample_reachable show ?thesis by (auto simp: list_all_iff)
qed

theorem pool_complete_witness:
  "\<exists>r. testCredentials sample_config sample_creds (sample_pool, [Returned]) = Some r
     \<and> ''a'' \<in> cred_user ` set (validCreds r)"
proof -
  have "\<not> Done sample_config sample_pool" "1 < length sample_creds" "cred_user (sample_creds ! 1) = ''a''"
    by (simp_all add: sample_pool_def sample_creds_def sample_config_def Done_def)
  with pool_complete [OF sample_reachable, of 1] show ?thesis by auto
qed

theorem pool_terminates_witness:
  "(group_step sample_config sample_creds (\<lambda>i. Some (i = 1)) ^^ 0) (start sample_config sample_creds) (start sample_config sample_creds)
   \<and> 0 \<le> 11 * length sample_creds + numWorkers sample_config (length sample_creds) + 1
   \<and> (\<exists>s'. group_step sample_config sample_creds (\<lambda>i. Some (i = 1)) (start sample_config sample_creds) s')"
  using pool_terminates [of 0 sample_config sample_creds "\<lambda>i. Some (i = 1)" "start sample_config sample_creds"]
  by (simp add: start_def numWorkers_def sample_config_def sample_creds_def stopped_def)

end
