(* ===== verification/SshProbe.thy ===== *)
theory SshProbe
  imports PortScan BruteForce AdkWeakCreds
begin

text \<open>
  The SSH client \<open>src/common/clients/sshclient/sshclient.go\<close> and the two detectors over it: the handler
  of the brute force for SSH passwords, \<open>src/plugins/detectors/weakcreds/ssh/ssh.go\<close>, and the probe
  for the authentication bypass of OpenSSH on musl, \<open>opensshauthbypass.go\<close>. The TCP connection and
  the handshake of \<open>golang.org/x/crypto/ssh\<close>, which calls back for the passwords, are parameters.
\<close>

section \<open>The client\<close>

text \<open>An error is its text and the sentinels that \<open>errors.Is\<close> finds in it.\<close>

datatype ssh_sentinel = IoEOF | IoErrUnexpectedEOF | ErrPasswordAuthUnsupported | ErrNotSSHService | ErrAuthFailed

record ssh_error =
  ge_wraps :: "ssh_sentinel list"
  ge_text :: string

definition sentinel_text :: "ssh_sentinel \<Rightarrow> string" where
  "sentinel_text c = (case c of
       IoEOF \<Rightarrow> ''EOF''
     | IoErrUnexpectedEOF \<Rightarrow> ''unexpected EOF''
     | ErrPasswordAuthUnsupported \<Rightarrow> ''ssh: password authentication unsupported''
     | ErrNotSSHService \<Rightarrow> ''ssh: target is not an SSH service''
     | ErrAuthFailed \<Rightarrow> ''ssh: authentication failed'')"

definition sentinel_error :: "ssh_sentinel \<Rightarrow> ssh_error" where
  "sentinel_error c = \<lparr>ge_wraps = [c], ge_text = sentinel_text c\<rparr>"

definition error_Is :: "ssh_error \<Rightarrow> ssh_sentinel \<Rightarrow> bool" where
  "error_Is e c = (c \<in> set (ge_wraps e))"

definition wrap_error :: "ssh_sentinel \<Rightarrow> ssh_error \<Rightarrow> ssh_error" where
  "wrap_error c e = \<lparr>ge_wraps = c # ge_wraps e, ge_text = sentinel_text c @ '': '' @ ge_text e\<rparr>"

definition auth_failed_texts :: "string list" where
  "auth_failed_texts =
     [''unable to authenticate'', ''password auth failed'', ''failed authentication'', ''authentication failed'',
      ''auth failed'', ''too many authentication failures'']"

definition not_ssh_texts :: "string list" where
  "not_ssh_texts =
     [''no version identifier'', ''banner header contains illegal'', ''overflow reading version'', ''no common algorithm'',
      ''protocol version'', ''connection refused'', ''no route to host'', ''eof'']"

definition ClassifyError :: "ssh_error \<Rightarrow> ssh_error" where
  "ClassifyError e =
     (if error_Is e IoEOF \<or> error_Is e IoErrUnexpectedEOF then wrap_error ErrNotSSHService e
      else let msg = to_lower (ge_text e) in
        if str_contains msg ''attempted methods [none]'' then wrap_error ErrPasswordAuthUnsupported e
        else if str_contains msg ''attempted methods'' \<and> str_contains msg ''password'' then wrap_error ErrAuthFailed e
        else if list_ex (str_contains msg) auth_failed_texts then wrap_error ErrAuthFailed e
        else if list_ex (str_contains msg) not_ssh_texts then wrap_error ErrNotSSHService e
        else e)"

text \<open>The configuration of the client: its own, completed by the timeout of requests.\<close>

definition ssh_New :: "config option \<Rightarrow> pb_message" where
  "ssh_New cfg = (case cfg of
       None \<Rightarrow> Map.empty
     | Some c \<Rightarrow>
         let own = sub_message ''ssh'' (ClientsConfig c);
             timeout = get_int32 ''timeout_per_request_seconds'' 10 (sub_message ''performance'' (GlobalConfig c))
         in if own ''timeout_seconds'' = None \<and> 0 < sint timeout then own(''timeout_seconds'' \<mapsto> VInt32 timeout) else own)"

definition DefaultTimeout :: duration where
  "DefaultTimeout = seconds 5"

definition ssh_Timeout :: "pb_message \<Rightarrow> duration" where
  "ssh_Timeout m = (let t = get_int32 ''timeout_seconds'' 5 m in if 0 < sint t then seconds t else DefaultTimeout)"

text \<open>The callback of one handshake: the methods the server allows and the number of passwords used
  so far give the next password or an error.\<close>

definition AuthCallback :: "string list \<Rightarrow> string list \<Rightarrow> nat \<Rightarrow> (ssh_error, string \<times> nat) result" where
  "AuthCallback passwords allowed attempt =
     (if ''password'' \<notin> set allowed then Inl (sentinel_error ErrPasswordAuthUnsupported)
      else if length passwords \<le> attempt then Inl (sentinel_error ErrAuthFailed)
      else Inr (passwords ! attempt, attempt + 1))"

text \<open>\<open>sh_handshake\<close> is given the timeout, the user and the callback.\<close>

record 'w ssh_env =
  sh_tcp :: "string \<Rightarrow> 'w \<Rightarrow> 'w \<times> ssh_error option"
  sh_handshake :: "duration \<Rightarrow> string \<Rightarrow> string \<Rightarrow> (string list \<Rightarrow> nat \<Rightarrow> (ssh_error, string \<times> nat) result) \<Rightarrow> 'w
    \<Rightarrow> 'w \<times> ssh_error option"
  sh_close :: "'w \<Rightarrow> 'w"
  sh_done :: "'w \<Rightarrow> bool"

definition ssh_dial :: "'w ssh_env \<Rightarrow> duration \<Rightarrow> string \<Rightarrow> string \<Rightarrow> string list \<Rightarrow> 'w \<Rightarrow> 'w \<times> ssh_error option" where
  "ssh_dial se timeout addr user passwords w = (case sh_tcp se addr w of
       (w1, Some e) \<Rightarrow> (w1, Some e)
     | (w1, None) \<Rightarrow> sh_handshake se timeout addr user (AuthCallback passwords) w1)"

definition ConnectWithPasswords :: "'w ssh_env \<Rightarrow> pb_message \<Rightarrow> string \<Rightarrow> string \<Rightarrow> string list \<Rightarrow> 'w
    \<Rightarrow> 'w \<times> ssh_error option" where
  "ConnectWithPasswords se cfg addr user passwords w = (case ssh_dial se (ssh_Timeout cfg) addr user passwords w of
       (w1, Some e) \<Rightarrow> (w1, Some (ClassifyError e))
     | (w1, None) \<Rightarrow> (w1, None))"

definition ssh_Connect :: "'w ssh_env \<Rightarrow> pb_message \<Rightarrow> string \<Rightarrow> string \<Rightarrow> string \<Rightarrow> 'w \<Rightarrow> 'w \<times> ssh_error option" where
  "ssh_Connect se cfg addr user password = ConnectWithPasswords se cfg addr user [password]"

section \<open>The handler for weak passwords\<close>

datatype probe_error = ProbeContext | ProbeEndpoint endpoint_error | ProbeError ssh_error

definition service_authority :: "nmap_service \<Rightarrow> (endpoint_error, string) result" where
  "service_authority sv = ToURIAuthority (get_endpoint (network_service.truncate sv))"

text \<open>Services that are no web service and that may run over TCP.\<close>

definition tcp_candidate :: "nmap_service \<Rightarrow> bool" where
  "tcp_candidate sv = (\<not> IsWebService (network_service.truncate sv)
     \<and> sv_transport sv \<in> {''TRANSPORT_PROTOCOL_UNSPECIFIED'', ''TCP''})"

definition isCandidateServiceName :: "string \<Rightarrow> bool" where
  "isCandidateServiceName raw = (to_lower (trim_space raw) \<in> {[], ''unknown'', ''ssh''})"

definition probeUser :: string where "probeUser = ''goonami-ssh-probe''"
definition probePassword :: string where "probePassword = ''goonami-ssh-invalid-probe-password''"

definition ssh_Vulnerability :: vulnerability where
  "ssh_Vulnerability =
     \<lparr>vu_title = ''Weak 'ssh' service credential'', vu_severity = ''CRITICAL'',
      vu_description = ''Well known or weak credentials are detected for 'ssh' service.'',
      vu_recommendation = ''Change the password of all affected users to a strong one.'',
      vu_publisher = ''GOOGLE'', vu_value = ''WEAK_CREDENTIALS_FOR_SSH''\<rparr>"

definition ssh_Fingerprint :: "'w ssh_env \<Rightarrow> pb_message \<Rightarrow> nmap_service \<Rightarrow> 'w \<Rightarrow> 'w \<times> (probe_error, bool) result" where
  "ssh_Fingerprint se cfg sv w =
     (if sh_done se w then (w, Inl ProbeContext)
      else if \<not> tcp_candidate sv then (w, Inr False)
      else if \<not> isCandidateServiceName (ns_name sv) then (w, Inr False)
      else case service_authority sv of
          Inl e \<Rightarrow> (w, Inl (ProbeEndpoint e))
        | Inr addr \<Rightarrow> (case ssh_Connect se cfg addr probeUser probePassword w of
              (w1, None) \<Rightarrow> (sh_close se w1, Inr True)
            | (w1, Some e) \<Rightarrow>
                if sh_done se w1 then (w1, Inl ProbeContext) else (w1, Inr (error_Is e ErrAuthFailed))))"

definition ssh_TestCredential :: "'w ssh_env \<Rightarrow> pb_message \<Rightarrow> nmap_service \<Rightarrow> credential \<Rightarrow> 'w
    \<Rightarrow> 'w \<times> (probe_error, bool) result" where
  "ssh_TestCredential se cfg sv cred w =
     (if sh_done se w then (w, Inl ProbeContext)
      else case service_authority sv of
          Inl e \<Rightarrow> (w, Inl (ProbeEndpoint e))
        | Inr addr \<Rightarrow> (case ssh_Connect se cfg addr (cred_user cred) (cred_password cred) w of
              (w1, None) \<Rightarrow> (sh_close se w1, Inr True)
            | (w1, Some e) \<Rightarrow> if sh_done se w1 then (w1, Inl ProbeContext) else (w1, Inr False)))"

section \<open>The probe for the bypass\<close>

definition targetUser :: string where "targetUser = ''root''"
definition probePasswordLen :: nat where "probePasswordLen = 512"
definition shortProbePassword :: string where "shortProbePassword = ''goonami-invalid-short-probe''"

definition openssh_vulnerability :: vulnerability where
  "openssh_vulnerability =
     \<lparr>vu_title = ''OpenSSH Password Authentication Bypass on musl-based Systems'', vu_severity = ''CRITICAL'',
      vu_description = ''The OpenSSH server is vulnerable to a password authentication bypass when linked against musl libc. When authenticating an account whose shadow password field is '*' (such as the default root entry on Alpine Linux) and at least one other account on the system has a modular crypt password hash (such as SHA-512), supplying a password longer than 256 bytes causes musl's crypt() implementation to fail and return '*', matching the locked shadow entry and granting unauthorized access.'',
      vu_recommendation = ''Upgrade OpenSSH to a patched version (such as openssh 9.9_p2-r1 or later on Alpine Linux), or disable password authentication (PasswordAuthentication no) in sshd_config.'',
      vu_publisher = ''GOOGLE'', vu_value = ''OPENSSH_MUSL_PASSWORD_AUTH_BYPASS''\<rparr>"

definition openssh_related_ids :: "string list" where
  "openssh_related_ids = [''CVE-2026-123158'']"

definition openssh_Advisories :: "vulnerability list" where
  "openssh_Advisories = [openssh_vulnerability]"

record openssh_report =
  op_service :: nmap_service
  op_status :: detection_status
  op_vulnerability :: vulnerability
  op_details :: "(string \<times> string) list"

definition openssh_report_of :: "nmap_service \<Rightarrow> openssh_report list" where
  "openssh_report_of sv =
     [\<lparr>op_service = sv, op_status = VULNERABILITY_VERIFIED, op_vulnerability = openssh_vulnerability,
       op_details = [(''Authentication bypass verified for locked account using >256-byte password'',
         ''Successfully authenticated as '' @ [CHR 0x22] @ targetUser @ [CHR 0x22] @ '' with distinct ''
           @ itoa probePasswordLen @ ''-byte passwords while rejecting <=256-byte passwords.'')]\<rparr>]"

definition rejection :: "ssh_error \<Rightarrow> bool" where
  "rejection e = (error_Is e ErrAuthFailed \<or> error_Is e ErrPasswordAuthUnsupported \<or> error_Is e ErrNotSSHService)"

definition tryPassword :: "'w ssh_env \<Rightarrow> pb_message \<Rightarrow> string \<Rightarrow> string \<Rightarrow> string \<Rightarrow> 'w \<Rightarrow> 'w \<times> (probe_error, bool) result" where
  "tryPassword se cfg addr user password w = (case ConnectWithPasswords se cfg addr user [password, password] w of
       (w1, None) \<Rightarrow> (sh_close se w1, Inr True)
     | (w1, Some e) \<Rightarrow>
         if sh_done se w1 then (w1, Inl ProbeContext)
         else if rejection e then (w1, Inr False)
         else (w1, Inl (ProbeError e)))"

definition isVulnerable :: "'w ssh_env \<Rightarrow> pb_message \<Rightarrow> string \<Rightarrow> 'w \<Rightarrow> 'w \<times> (probe_error, bool) result" where
  "isVulnerable se cfg addr w =
     (case tryPassword se cfg addr targetUser (replicate probePasswordLen CHR ''A'') w of
        (w1, Inl e) \<Rightarrow> (w1, Inl e)
      | (w1, Inr ok) \<Rightarrow>
          if \<not> ok then (w1, Inr False)
          else case tryPassword se cfg addr targetUser (replicate probePasswordLen CHR ''B'') w1 of
              (w2, Inl e) \<Rightarrow> (w2, Inl e)
            | (w2, Inr ok2) \<Rightarrow>
                if \<not> ok2 then (w2, Inr False)
                else case tryPassword se cfg addr targetUser shortProbePassword w2 of
                    (w3, Inl e) \<Rightarrow> (w3, Inl e)
                  | (w3, Inr shortOK) \<Rightarrow> (w3, Inr (\<not> shortOK)))"

definition openssh_Detect :: "'w ssh_env \<Rightarrow> pb_message \<Rightarrow> nmap_service \<Rightarrow> 'w \<Rightarrow> 'w \<times> (probe_error, openssh_report list) result" where
  "openssh_Detect se cfg sv w =
     (if sh_done se w then (w, Inl ProbeContext)
      else if \<not> tcp_candidate sv then (w, Inr [])
      else case service_authority sv of
          Inl e \<Rightarrow> (w, Inl (ProbeEndpoint e))
        | Inr addr \<Rightarrow> (case isVulnerable se cfg addr w of
              (w1, Inl e) \<Rightarrow> (w1, Inl e)
            | (w1, Inr vulnerable) \<Rightarrow> (w1, Inr (if vulnerable then openssh_report_of sv else []))))"

section \<open>The passwords that a handshake can be given\<close>

lemma AuthCallback_offers:
  "AuthCallback passwords allowed n = Inr (p, k) \<Longrightarrow> n < length passwords \<and> p = passwords ! n \<and> k = n + 1 \<and> ''password'' \<in> set allowed"
  by (auto simp: AuthCallback_def split: if_splits)

lemma sint_seconds: "sint (seconds t) = sint t * 1000000000"
proof -
  have bounds: "- (2 ^ 31) \<le> sint t" "sint t < 2 ^ 31" using sint_range_size [of t] by (simp_all add: word_size)
  have "seconds t = word_of_int (sint t * 1000000000)"
    by (simp add: seconds_def second_def wi_hom_mult [symmetric])
  then have "sint (seconds t) = signed_take_bit 63 (sint t * 1000000000)" by (simp only: sint_sbintrunc') simp
  also have "\<dots> = sint t * 1000000000" by (rule signed_take_bit_int_eq_self) (use bounds in simp_all)
  finally show ?thesis .
qed

text \<open>Every attempt has a positive timeout, whatever the configuration says.\<close>

lemma ssh_Timeout_positive: "0 < sint (ssh_Timeout cfg)"
  by (simp add: ssh_Timeout_def DefaultTimeout_def Let_def sint_seconds)

lemma ClassifyError_wraps: "set (ge_wraps e) \<subseteq> set (ge_wraps (ClassifyError e))"
  by (auto simp: ClassifyError_def wrap_error_def Let_def)

text \<open>An answer of a server that is not one of the three kinds stays as it is.\<close>

lemma rejection_ClassifyError:
  "rejection (ClassifyError e) \<longleftrightarrow> rejection e \<or> error_Is e IoEOF \<or> error_Is e IoErrUnexpectedEOF
     \<or> str_contains (to_lower (ge_text e)) ''attempted methods [none]''
     \<or> (str_contains (to_lower (ge_text e)) ''attempted methods'' \<and> str_contains (to_lower (ge_text e)) ''password'')
     \<or> list_ex (str_contains (to_lower (ge_text e))) (auth_failed_texts @ not_ssh_texts)"
  by (auto simp: ClassifyError_def rejection_def wrap_error_def error_Is_def Let_def)

section \<open>The verdict of the probe\<close>

definition accepted_by :: "'w ssh_env \<Rightarrow> pb_message \<Rightarrow> string \<Rightarrow> string \<Rightarrow> 'w \<Rightarrow> 'w \<Rightarrow> bool" where
  "accepted_by se cfg addr password w w' =
     (\<exists>v. ConnectWithPasswords se cfg addr targetUser [password, password] w = (v, None) \<and> w' = sh_close se v)"

definition rejected_by :: "'w ssh_env \<Rightarrow> pb_message \<Rightarrow> string \<Rightarrow> string \<Rightarrow> 'w \<Rightarrow> 'w \<Rightarrow> bool" where
  "rejected_by se cfg addr password w w' =
     (\<exists>e. ConnectWithPasswords se cfg addr targetUser [password, password] w = (w', Some e) \<and> \<not> sh_done se w' \<and> rejection e)"

lemma tryPassword_iff:
  "tryPassword se cfg addr targetUser password w = (w', Inr True) \<longleftrightarrow> accepted_by se cfg addr password w w'"
  "tryPassword se cfg addr targetUser password w = (w', Inr False) \<longleftrightarrow> rejected_by se cfg addr password w w'"
  by (auto simp: tryPassword_def accepted_by_def rejected_by_def split: prod.splits option.splits if_splits)

lemma isVulnerable_iff:
  "isVulnerable se cfg addr w = (w3, Inr True) \<longleftrightarrow>
     (\<exists>w1 w2. accepted_by se cfg addr (replicate probePasswordLen CHR ''A'') w w1
        \<and> accepted_by se cfg addr (replicate probePasswordLen CHR ''B'') w1 w2
        \<and> rejected_by se cfg addr shortProbePassword w2 w3)"
  by (auto simp: isVulnerable_def simp flip: tryPassword_iff split: prod.splits sum.splits if_splits)

text \<open>C36. The bypass is reported exactly for a service over TCP that is no web service, on which the
  account of root can be opened with either of two different passwords of 512 bytes and then not
  with a short one; every probe offers one password twice in a single handshake, and each answer
  that is not a rejection or a success is an error.\<close>

theorem openssh_Detect_exact:
  "openssh_Detect se cfg sv w = (w3, Inr reports) \<and> reports \<noteq> [] \<longleftrightarrow>
     \<not> sh_done se w \<and> tcp_candidate sv \<and> reports = openssh_report_of sv \<and>
     (\<exists>addr w1 w2. service_authority sv = Inr addr
        \<and> accepted_by se cfg addr (replicate probePasswordLen CHR ''A'') w w1
        \<and> accepted_by se cfg addr (replicate probePasswordLen CHR ''B'') w1 w2
        \<and> rejected_by se cfg addr shortProbePassword w2 w3)"
proof -
  have "openssh_report_of sv \<noteq> []" by (simp add: openssh_report_of_def)
  moreover have "(\<exists>w1 w2. accepted_by se cfg addr (replicate probePasswordLen CHR ''A'') w w1
        \<and> accepted_by se cfg addr (replicate probePasswordLen CHR ''B'') w1 w2
        \<and> rejected_by se cfg addr shortProbePassword w2 w3) \<longleftrightarrow> isVulnerable se cfg addr w = (w3, Inr True)" for addr
    by (rule isVulnerable_iff [symmetric])
  ultimately show ?thesis
    by (auto simp: openssh_Detect_def split: sum.splits prod.splits if_splits)
qed

section \<open>Servers\<close>

text \<open>
  A server that keeps to the protocol, for examples: it asks for passwords until one is accepted or
  the client has none left. \<open>accepts n p\<close> says whether it takes the password \<open>p\<close> as the one number
  \<open>n\<close> of a handshake.
\<close>

fun offers :: "(nat \<Rightarrow> string \<Rightarrow> bool) \<Rightarrow> (string list \<Rightarrow> nat \<Rightarrow> (ssh_error, string \<times> nat) result) \<Rightarrow> nat \<Rightarrow> nat \<Rightarrow> ssh_error option" where
  "offers accepts callback 0 n = Some \<lparr>ge_wraps = [], ge_text = ''ssh: too many authentication failures''\<rparr>"
| "offers accepts callback (Suc fuel) n = (case callback [''password''] n of
       Inl e \<Rightarrow> Some e
     | Inr (p, k) \<Rightarrow> if accepts n p then None else offers accepts callback fuel k)"

definition server :: "(nat \<Rightarrow> string \<Rightarrow> bool) \<Rightarrow> nat ssh_env" where
  "server accepts = \<lparr>sh_tcp = (\<lambda>addr w. (w, None)),
     sh_handshake = (\<lambda>timeout addr user callback w. (Suc w, offers accepts callback 6 0)),
     sh_close = (\<lambda>w. w), sh_done = (\<lambda>w. False)\<rparr>"

text \<open>On such a server the verdict is the one intended: long passwords open the account, at the first
  or at the second attempt of a handshake, and the short one does not.\<close>

lemma isVulnerable_server:
  "snd (isVulnerable (server accepts) cfg addr w) = Inr True \<longleftrightarrow>
     (\<exists>k<2. accepts k (replicate probePasswordLen CHR ''A'')) \<and> (\<exists>k<2. accepts k (replicate probePasswordLen CHR ''B''))
     \<and> \<not> (\<exists>k<2. accepts k shortProbePassword)"
proof -
  have two: "(\<exists>k<2. P k) \<longleftrightarrow> P 0 \<or> P (1 :: nat)" for P by (auto simp: less_2_cases_iff)
  have "offers accepts (AuthCallback [p, p]) (Suc (Suc (Suc f))) 0
      = (if accepts 0 p \<or> accepts 1 p then None else Some (sentinel_error ErrAuthFailed))" for p f
    by (simp add: AuthCallback_def)
  from this [of _ 3] have conn: "offers accepts (AuthCallback [p, p]) 6 0
      = (if \<exists>k<2. accepts k p then None else Some (sentinel_error ErrAuthFailed))" for p
    unfolding two by simp
  have rej: "rejection (ClassifyError (sentinel_error ErrAuthFailed))"
    unfolding rejection_ClassifyError by (simp add: rejection_def error_Is_def sentinel_error_def)
  have "tryPassword (server accepts) cfg addr user p w = (Suc w, Inr (\<exists>k<2. accepts k p))" for user p w
    by (simp add: tryPassword_def ConnectWithPasswords_def ssh_dial_def server_def conn rej del: offers.simps)
  then show ?thesis by (simp add: isVulnerable_def)
qed

text \<open>A server of any kind that accepts every password, and then does not take the third connection, is
  reported as vulnerable: a refused connection counts as a rejected password.\<close>

lemma refused_connection_counts:
  assumes "accepted_by se cfg addr (replicate probePasswordLen CHR ''A'') w w1"
    and "accepted_by se cfg addr (replicate probePasswordLen CHR ''B'') w1 w2"
    and "sh_tcp se addr w2 = (w3, Some \<lparr>ge_wraps = [], ge_text = ''dial tcp: connection refused''\<rparr>)" and "\<not> sh_done se w3"
  shows "isVulnerable se cfg addr w = (w3, Inr True)"
proof -
  let ?text = "''dial tcp: connection refused''"
  have "to_lower ?text = ''dial tcp: '' @ ''connection refused'' @ []"
    by (simp add: to_lower_def to_lower_char_def is_upper_def char_code_def)
  then have "str_contains (to_lower ?text) ''connection refused''" unfolding str_contains_def by (metis sublist_appendI)
  then have "list_ex (str_contains (to_lower ?text)) not_ssh_texts" by (simp add: not_ssh_texts_def)
  then have "rejection (ClassifyError \<lparr>ge_wraps = [], ge_text = ?text\<rparr>)" by (simp add: rejection_ClassifyError)
  then have "rejected_by se cfg addr shortProbePassword w2 w3"
    using assms(3,4) by (simp add: rejected_by_def ConnectWithPasswords_def ssh_dial_def)
  with assms(1,2) show ?thesis unfolding isVulnerable_iff by blast
qed

text \<open>A candidate whose connection fails for any reason but the end of the context is taken for wrong.\<close>

lemma failed_connection_is_wrong_password:
  assumes "\<not> sh_done se w" and "service_authority sv = Inr addr" and "sh_tcp se addr w = (w1, Some e)" and "\<not> sh_done se w1"
  shows "ssh_TestCredential se cfg sv cred w = (w1, Inr False)"
  using assms by (simp add: ssh_TestCredential_def ssh_Connect_def ConnectWithPasswords_def ssh_dial_def)

end
