(* ===== verification/Templated.thy ===== *)
theory Templated
  imports TemplateActions Runner
begin

text \<open>
  \<open>common/templatedengine/templated.go\<close>: the detector for a templated plugin, its validation, the
  phases of a workflow, and the cleanup actions, which Go defers: they are a stack that the loop
  over the actions pushes to and that is emptied when the function returns, on every path. The
  table of known actions is a Go map, so it is listed in the order in which a loop visits it.
\<close>

section \<open>Phases\<close>

text \<open>
  The values of the enum that the code names, in the order of the enum, which the tests of
  \<open>templated_test.go\<close> pin down. The class instance gives them Isabelle's order.
\<close>

datatype action_phase = PHASE_UNDEFINED | PHASE_FINGERPRINT | PHASE_DETECTION

definition phase_number :: "action_phase \<Rightarrow> nat" where
  "phase_number p = (case p of PHASE_UNDEFINED \<Rightarrow> 0 | PHASE_FINGERPRINT \<Rightarrow> 1 | PHASE_DETECTION \<Rightarrow> 2)"

lemma phase_number_inject [simp]: "phase_number p = phase_number q \<longleftrightarrow> p = q"
  by (cases p; cases q) (simp_all add: phase_number_def)

instantiation action_phase :: linorder
begin

definition less_eq_action_phase :: "action_phase \<Rightarrow> action_phase \<Rightarrow> bool" where
  "less_eq_action_phase p q = (phase_number p \<le> phase_number q)"

definition less_action_phase :: "action_phase \<Rightarrow> action_phase \<Rightarrow> bool" where
  "less_action_phase p q = (phase_number p < phase_number q)"

instance
  by standard (auto simp: less_eq_action_phase_def less_action_phase_def)

end

lemmas phase_order = less_eq_action_phase_def less_action_phase_def phase_number_def

section \<open>Plugins and detectors\<close>

record plugin_action =
  pa_name :: string
  pa_phase :: action_phase
  pa_http :: "http_action option"
  pa_utility :: "utility_action option"
  pa_callback :: "callback_action option"
  pa_cleanups :: "string list"

datatype workflow_condition = REQUIRES_CALLBACK_SERVER | REQUIRES_DNS_CALLBACK_SERVER | OtherCondition

record plugin_workflow =
  wf_condition :: workflow_condition
  wf_variables :: "(string \<times> string) list"
  wf_actions :: "string list"

record 'v templated_plugin =
  tp_name :: string
  tp_finding :: "'v option"
  tp_actions :: "plugin_action list"
  tp_workflows :: "plugin_workflow list"
  tp_disabled :: bool

record 'v templated_detector =
  td_proto :: "'v templated_plugin"
  td_actions :: "(string \<times> plugin_action) list"
  td_env_for_testing :: "environment option"

datatype detect_error =
    ErrNoCompatibleWorkflow
  | ErrAction action_error
  | ErrEnvironment env_error

definition known_actions :: "plugin_action list \<Rightarrow> (string \<times> plugin_action) list" where
  "known_actions as = fold (\<lambda>a m. upsert (pa_name a) a (\<lambda>_. a) m) as []"

text \<open>The kind of runner that \<open>getRunnerForAction\<close> picks.\<close>

datatype action_runner = HTTPActionRunner | UtilityActionRunner | CallbackServerActionRunner

definition getRunnerForAction :: "plugin_action \<Rightarrow> action_runner option" where
  "getRunnerForAction a =
     (if pa_http a \<noteq> None then Some HTTPActionRunner
      else if pa_utility a \<noteq> None then Some UtilityActionRunner
      else if pa_callback a \<noteq> None then Some CallbackServerActionRunner
      else None)"

definition actionPhase :: "plugin_action option \<Rightarrow> action_phase" where
  "actionPhase a = (case a of
       None \<Rightarrow> PHASE_DETECTION
     | Some a \<Rightarrow> if pa_phase a = PHASE_UNDEFINED then PHASE_DETECTION else pa_phase a)"

fun validate_cleanups :: "(string \<times> plugin_action) list \<Rightarrow> string list \<Rightarrow> action_error option" where
  "validate_cleanups known [] = None"
| "validate_cleanups known (c # cs) =
     (if map_of known c = None then Some ErrActionNotFound else validate_cleanups known cs)"

fun validate_actions :: "(string \<times> plugin_action) list \<Rightarrow> (string \<times> plugin_action) list \<Rightarrow> action_error option" where
  "validate_actions known [] = None"
| "validate_actions known ((name, a) # as) =
     (if getRunnerForAction a = None then Some ErrInvalidAction
      else case validate_cleanups known (pa_cleanups a) of
          Some e \<Rightarrow> Some e
        | None \<Rightarrow> validate_actions known as)"

fun validate_workflow :: "(string \<times> plugin_action) list \<Rightarrow> action_phase \<Rightarrow> string list \<Rightarrow> action_error option" where
  "validate_workflow known currentPhase [] = None"
| "validate_workflow known currentPhase (name # names) =
     (case map_of known name of
        None \<Rightarrow> Some ErrActionNotFound
      | Some a \<Rightarrow>
          if actionPhase (Some a) < currentPhase then Some ErrInvalidAction
          else validate_workflow known (actionPhase (Some a)) names)"

fun validate_workflows :: "(string \<times> plugin_action) list \<Rightarrow> plugin_workflow list \<Rightarrow> action_error option" where
  "validate_workflows known [] = None"
| "validate_workflows known (w # ws) = (case validate_workflow known PHASE_UNDEFINED (wf_actions w) of
       Some e \<Rightarrow> Some e
     | None \<Rightarrow> validate_workflows known ws)"

definition td_Validate :: "'v templated_detector \<Rightarrow> action_error option" where
  "td_Validate d = (case validate_actions (td_actions d) (td_actions d) of
       Some e \<Rightarrow> Some e
     | None \<Rightarrow> validate_workflows (td_actions d) (tp_workflows (td_proto d)))"

definition td_New :: "'v templated_plugin \<Rightarrow> (action_error, 'v templated_detector) result" where
  "td_New p =
     (let d = \<lparr>td_proto = p, td_actions = known_actions (tp_actions p), td_env_for_testing = None\<rparr>
      in case td_Validate d of Some e \<Rightarrow> Inl e | None \<Rightarrow> Inr d)"

definition td_NewForTesting :: "'v templated_plugin \<Rightarrow> environment \<Rightarrow> (action_error, 'v templated_detector) result" where
  "td_NewForTesting p env = (case td_New p of Inl e \<Rightarrow> Inl e | Inr d \<Rightarrow> Inr (d\<lparr>td_env_for_testing := Some env\<rparr>))"

definition td_Name :: "'v templated_detector \<Rightarrow> string" where
  "td_Name d = ''dt/tpl/'' @ tp_name (td_proto d)"

definition td_Advisories :: "'v templated_detector \<Rightarrow> 'v list" where
  "td_Advisories d = (case tp_finding (td_proto d) of None \<Rightarrow> [] | Some v \<Rightarrow> [v])"

section \<open>Running a workflow\<close>

definition dispatchAction :: "('w, 'e) engine \<Rightarrow> network_service \<Rightarrow> plugin_action \<Rightarrow> 'w action_state
    \<Rightarrow> 'w action_state \<times> action_error option" where
  "dispatchAction en service a st =
     (if pa_http a \<noteq> None \<and> \<not> IsWebService service then (st, Some ErrActionFailed)
      else case getRunnerForAction a of
          None \<Rightarrow> (st, Some ErrInvalidAction)
        | Some HTTPActionRunner \<Rightarrow> http_Run en service (pa_http a) st
        | Some UtilityActionRunner \<Rightarrow> utility_Run en (pa_utility a) st
        | Some CallbackServerActionRunner \<Rightarrow> callback_Run en (pa_callback a) st)"

definition runActionFromName :: "('w, 'e) engine \<Rightarrow> 'v templated_detector \<Rightarrow> network_service \<Rightarrow> string
    \<Rightarrow> 'w action_state \<Rightarrow> string list \<times> 'w action_state \<times> action_error option" where
  "runActionFromName en d service name st = (case map_of (td_actions d) name of
       None \<Rightarrow> ([], st, Some ErrActionNotFound)
     | Some a \<Rightarrow> (pa_cleanups a, dispatchAction en service a st))"

text \<open>One deferred function: the cleanup actions of one action, up to the first that fails.\<close>

fun run_cleanups :: "('w, 'e) engine \<Rightarrow> 'v templated_detector \<Rightarrow> network_service \<Rightarrow> string list
    \<Rightarrow> 'w action_state \<Rightarrow> 'w action_state" where
  "run_cleanups en d service [] st = st"
| "run_cleanups en d service (c # cs) st =
     (case runActionFromName en d service c st of
        (_, st', Some e) \<Rightarrow> st'
      | (_, st', None) \<Rightarrow> run_cleanups en d service cs st')"

text \<open>How the loop over the actions ended.\<close>

datatype loop_end = Completed | StoppedAtPhase | FailedWith action_error

fun run_actions :: "('w, 'e) engine \<Rightarrow> 'v templated_detector \<Rightarrow> network_service \<Rightarrow> action_phase \<Rightarrow> string list
    \<Rightarrow> string list list \<Rightarrow> 'w action_state \<Rightarrow> string list list \<times> 'w action_state \<times> loop_end" where
  "run_actions en d service targetPhase [] deferred st = (deferred, st, Completed)"
| "run_actions en d service targetPhase (name # names) deferred st =
     (let phase = actionPhase (map_of (td_actions d) name) in
      if targetPhase \<noteq> PHASE_UNDEFINED \<and> phase < targetPhase then run_actions en d service targetPhase names deferred st
      else if targetPhase \<noteq> PHASE_UNDEFINED \<and> targetPhase < phase then (deferred, st, StoppedAtPhase)
      else case runActionFromName en d service name st of
          (cleanups, st', Some e) \<Rightarrow> (deferred, st', FailedWith e)
        | (cleanups, st', None) \<Rightarrow> run_actions en d service targetPhase names (cleanups # deferred) st')"

fun set_variables :: "(string \<times> string) list \<Rightarrow> environment \<Rightarrow> environment" where
  "set_variables [] env = env"
| "set_variables ((n, v) # vs) env = set_variables vs (env_Set n (Substitute env v) env)"

definition workflow_env :: "('w, 'e) engine \<Rightarrow> 'v templated_detector \<Rightarrow> network_service \<Rightarrow> plugin_workflow
    \<Rightarrow> environment \<Rightarrow> 'w \<Rightarrow> (env_error, environment) result" where
  "workflow_env en d service flow extraVars w =
     (case InitializeFor (en_now_ms en w) (en_sha3 en) (en_rand en w) (en_callback en) (en_cb_client en) service env_New of
        Inl e \<Rightarrow> Inl e
      | Inr env \<Rightarrow>
          let env' = (case td_env_for_testing d of None \<Rightarrow> env | Some t \<Rightarrow> env_Clone t)
          in Inr (set_variables (wf_variables flow) (env' ++ extraVars)))"

text \<open>\<open>Inr None\<close> is a nil list of reports, which the code returns when it stops at a later phase.\<close>

definition runWorkflowForService :: "('w, 'e) engine \<Rightarrow> 'v templated_detector \<Rightarrow> network_service \<Rightarrow> plugin_workflow
    \<Rightarrow> action_phase \<Rightarrow> environment \<Rightarrow> 'w \<Rightarrow> 'w \<times> (detect_error, 'v option detection_report list option) result" where
  "runWorkflowForService en d service flow targetPhase extraVars w =
     (case workflow_env en d service flow extraVars w of
        Inl e \<Rightarrow> (w, Inl (ErrEnvironment e))
      | Inr env \<Rightarrow> (case run_actions en d service targetPhase (wf_actions flow) [] (env, w) of
            (deferred, st, ending) \<Rightarrow>
              (snd (fold (run_cleanups en d service) deferred st),
               case ending of
                 FailedWith e \<Rightarrow> Inl (ErrAction e)
               | StoppedAtPhase \<Rightarrow> Inr None
               | Completed \<Rightarrow> Inr (Some [\<lparr>rep_status = VULNERABILITY_VERIFIED, rep_service = service,
                   rep_vulnerability = tp_finding (td_proto d)\<rparr>]))))"

definition workflowMeetsConditions :: "('w, 'e) engine \<Rightarrow> plugin_workflow \<Rightarrow> bool" where
  "workflowMeetsConditions en flow =
     (if wf_condition flow = REQUIRES_CALLBACK_SERVER \<or> wf_condition flow = REQUIRES_DNS_CALLBACK_SERVER
      then en_callback en \<noteq> None \<and> IsCallbackServerEnabled (en_cb_client en) else True)"

definition DetectForPhase :: "('w, 'e) engine \<Rightarrow> 'v templated_detector \<Rightarrow> network_service \<Rightarrow> action_phase
    \<Rightarrow> environment \<Rightarrow> 'w \<Rightarrow> 'w \<times> (detect_error, 'v option detection_report list option) result" where
  "DetectForPhase en d service targetPhase extraVars w =
     (case find (workflowMeetsConditions en) (tp_workflows (td_proto d)) of
        None \<Rightarrow> (w, Inl ErrNoCompatibleWorkflow)
      | Some flow \<Rightarrow> runWorkflowForService en d service flow targetPhase extraVars w)"

definition DetectWithVariables :: "('w, 'e) engine \<Rightarrow> 'v templated_detector \<Rightarrow> network_service
    \<Rightarrow> environment \<Rightarrow> 'w \<Rightarrow> 'w \<times> (detect_error, 'v option detection_report list option) result" where
  "DetectWithVariables en d service extraVars w = DetectForPhase en d service PHASE_UNDEFINED extraVars w"

definition td_Detect :: "('w, 'e) engine \<Rightarrow> 'v templated_detector \<Rightarrow> network_service \<Rightarrow> 'w
    \<Rightarrow> 'w \<times> (detect_error, 'v option detection_report list option) result" where
  "td_Detect en d service w = (case DetectWithVariables en d service Map.empty w of
       (w', Inr reports) \<Rightarrow> (w', Inr reports)
     | (w', Inl e) \<Rightarrow>
         (w', if e = ErrAction ErrActionFailed \<or> e = ErrNoCompatibleWorkflow then Inr None else Inl e))"

section \<open>Loading plugins\<close>

fun load_plugins :: "string list \<Rightarrow> 'v templated_plugin list \<Rightarrow> 'v templated_plugin list" where
  "load_plugins seenPlugins [] = []"
| "load_plugins seenPlugins (p # ps) =
     (if tp_name p \<in> set seenPlugins then load_plugins seenPlugins ps
      else p # load_plugins (seenPlugins @ [tp_name p]) ps)"

text \<open>The initialisation functions of the registry ignore the configuration they are given.\<close>

definition LoadPlugins :: "'v templated_plugin list \<Rightarrow> ('cfg, action_error, 'v templated_detector) init_fn list" where
  "LoadPlugins plugins = map (\<lambda>p cfg. td_New p) (load_plugins [] plugins)"

text \<open>
  The files of a directory tree in the order of \<open>fs.WalkDir\<close>: the path, whether it is a directory,
  and its content, with \<open>Inl\<close> for an error of the walk or of reading. \<open>unmarshal\<close> is
  \<open>prototext.Unmarshal\<close>. A context that ends is an error of the walk.
\<close>

record 'e walk_entry =
  we_path :: string
  we_error :: "'e option"
  we_is_dir :: bool
  we_content :: "('e, string) result"

definition file_ext :: "string \<Rightarrow> string" where
  "file_ext path =
     (let base = (case cut_last CHR ''/'' path of None \<Rightarrow> path | Some (_, b) \<Rightarrow> b)
      in case cut_last CHR ''.'' base of None \<Rightarrow> [] | Some (_, e) \<Rightarrow> CHR ''.'' # e)"

definition loadPlugin :: "(string \<Rightarrow> ('e, 'v templated_plugin) result) \<Rightarrow> ('e, string) result
    \<Rightarrow> ('e, 'v templated_plugin option) result" where
  "loadPlugin unmarshal content = (case content of
       Inl e \<Rightarrow> Inl e
     | Inr text \<Rightarrow> (case unmarshal text of
           Inl e \<Rightarrow> Inl e
         | Inr p \<Rightarrow> Inr (if tp_disabled p then None else Some p)))"

definition is_plugin_file :: "'e walk_entry \<Rightarrow> bool" where
  "is_plugin_file f =
     (\<not> we_is_dir f \<and> file_ext (we_path f) = ''.textproto'' \<and> \<not> has_suffix (we_path f) ''_test.textproto'')"

fun LoadPluginsFromFS :: "(string \<Rightarrow> ('e, 'v templated_plugin) result) \<Rightarrow> 'e walk_entry list
    \<Rightarrow> ('e, 'v templated_plugin list) result" where
  "LoadPluginsFromFS unmarshal [] = Inr []"
| "LoadPluginsFromFS unmarshal (f # fs) =
     (case we_error f of
        Some e \<Rightarrow> Inl e
      | None \<Rightarrow>
          if \<not> is_plugin_file f then LoadPluginsFromFS unmarshal fs
          else case loadPlugin unmarshal (we_content f) of
              Inl e \<Rightarrow> Inl e
            | Inr p \<Rightarrow> (case LoadPluginsFromFS unmarshal fs of
                  Inl e \<Rightarrow> Inl e
                | Inr ps \<Rightarrow> Inr (case p of None \<Rightarrow> ps | Some p \<Rightarrow> p # ps)))"

section \<open>Validation\<close>

lemma map_of_known_actions: "map_of (known_actions as) = map_of (rev (map (\<lambda>a. (pa_name a, a)) as))"
proof -
  have "map_of (fold (\<lambda>a m. upsert (pa_name a) a (\<lambda>_. a) m) as m) = map_of m ++ map_of (rev (map (\<lambda>a. (pa_name a, a)) as))" for m
    by (induction as arbitrary: m) (auto simp: map_of_upsert fun_eq_iff map_add_def split: option.splits)
  from this [of "[]"] show ?thesis by (simp add: known_actions_def)
qed

lemma distinct_known_actions: "distinct (map fst (known_actions as))"
proof -
  have "distinct (map fst m) \<Longrightarrow> distinct (map fst (fold (\<lambda>a m. upsert (pa_name a) a (\<lambda>_. a) m) as m))" for m
    by (induction as arbitrary: m) auto
  from this [of "[]"] show ?thesis by (simp add: known_actions_def)
qed

lemma validate_cleanups_None: "validate_cleanups known cs = None \<longleftrightarrow> (\<forall>c \<in> set cs. map_of known c \<noteq> None)"
  by (induction cs) auto

lemma validate_actions_None:
  "validate_actions known as = None \<longleftrightarrow>
     (\<forall>(name, a) \<in> set as. getRunnerForAction a \<noteq> None \<and> (\<forall>c \<in> set (pa_cleanups a). map_of known c \<noteq> None))"
proof (induction known as rule: validate_actions.induct)
  case (2 known name a as)
  then show ?case
    using validate_cleanups_None [of known "pa_cleanups a"] by (cases "validate_cleanups known (pa_cleanups a)") auto
qed simp

lemma validate_workflow_None:
  "validate_workflow known cur names = None \<longleftrightarrow>
     (\<forall>n \<in> set names. map_of known n \<noteq> None) \<and> sorted (cur # map (\<lambda>n. actionPhase (map_of known n)) names)"
proof (induction names arbitrary: cur)
  case (Cons n ns)
  show ?case
  proof (cases "map_of known n")
    case (Some a)
    with Cons [of "actionPhase (Some a)"] show ?thesis by (auto simp: not_less intro: order_trans)
  qed simp
qed simp

lemma validate_workflows_None:
  "validate_workflows known ws = None \<longleftrightarrow> (\<forall>w \<in> set ws. validate_workflow known PHASE_UNDEFINED (wf_actions w) = None)"
  by (induction ws) (auto split: option.splits)

lemma PHASE_UNDEFINED_least [simp]: "PHASE_UNDEFINED \<le> p"
  by (cases p) (simp_all add: phase_order)

text \<open>What a valid plugin is, over the last definition of each action.\<close>

definition plugin_ok :: "'v templated_plugin \<Rightarrow> bool" where
  "plugin_ok p =
     (let known = map_of (rev (map (\<lambda>a. (pa_name a, a)) (tp_actions p))) in
      (\<forall>a \<in> set (tp_actions p). known (pa_name a) = Some a \<longrightarrow>
         getRunnerForAction a \<noteq> None \<and> (\<forall>c \<in> set (pa_cleanups a). known c \<noteq> None))
      \<and> (\<forall>w \<in> set (tp_workflows p). (\<forall>n \<in> set (wf_actions w). known n \<noteq> None)
           \<and> sorted (map (\<lambda>n. actionPhase (known n)) (wf_actions w))))"

lemma ran_definitions:
  "ran (map_of (rev (map (\<lambda>a. (pa_name a, a)) as))) = {a \<in> set as. map_of (rev (map (\<lambda>a. (pa_name a, a)) as)) (pa_name a) = Some a}"
proof -
  have "n = pa_name a \<and> a \<in> set as" if "map_of (rev (map (\<lambda>a. (pa_name a, a)) as)) n = Some a" for n a
    using map_of_SomeD [OF that] by auto
  then show ?thesis unfolding ran_def by blast
qed

lemma set_eq_ran: "distinct (map fst m) \<Longrightarrow> (\<forall>(k, v) \<in> set m. P v) \<longleftrightarrow> (\<forall>v \<in> ran (map_of m). P v)"
  by (auto simp: ran_distinct)

lemma td_Validate_None:
  assumes "distinct (map fst (td_actions d))" and "map_of (td_actions d) = map_of (rev (map (\<lambda>a. (pa_name a, a)) (tp_actions (td_proto d))))"
  shows "td_Validate d = None \<longleftrightarrow> plugin_ok (td_proto d)"
proof -
  let ?known = "map_of (td_actions d)"
  have "td_Validate d = None \<longleftrightarrow> validate_actions (td_actions d) (td_actions d) = None
      \<and> validate_workflows (td_actions d) (tp_workflows (td_proto d)) = None"
    by (auto simp: td_Validate_def split: option.splits)
  also have "validate_actions (td_actions d) (td_actions d) = None \<longleftrightarrow>
      (\<forall>a \<in> ran ?known. getRunnerForAction a \<noteq> None \<and> (\<forall>c \<in> set (pa_cleanups a). ?known c \<noteq> None))"
    using set_eq_ran [OF assms(1), of "\<lambda>a. getRunnerForAction a \<noteq> None \<and> (\<forall>c \<in> set (pa_cleanups a). ?known c \<noteq> None)"]
    unfolding validate_actions_None .
  also have "validate_workflows (td_actions d) (tp_workflows (td_proto d)) = None \<longleftrightarrow>
      (\<forall>w \<in> set (tp_workflows (td_proto d)). (\<forall>n \<in> set (wf_actions w). ?known n \<noteq> None)
           \<and> sorted (map (\<lambda>n. actionPhase (?known n)) (wf_actions w)))"
    by (simp add: validate_workflows_None validate_workflow_None)
  finally show ?thesis unfolding plugin_ok_def Let_def assms(2) ran_definitions by blast
qed

text \<open>C21. A detector is created exactly when the plugin is valid: every action, in its last definition,
  has a runner and names only known cleanup actions, and every workflow names only known actions
  in the order of their phases. The verdict does not depend on the order in which the table of
  actions is visited.\<close>

theorem td_New_iff:
  assumes "mset visited = mset (known_actions (tp_actions p))"
  shows "(is_ok (td_New p) \<longleftrightarrow> plugin_ok p)
    \<and> (td_Validate \<lparr>td_proto = p, td_actions = visited, td_env_for_testing = env\<rparr> = None \<longleftrightarrow> plugin_ok p)"
proof -
  have visit: "td_Validate \<lparr>td_proto = p, td_actions = vs, td_env_for_testing = env\<rparr> = None \<longleftrightarrow> plugin_ok p"
    if "mset vs = mset (known_actions (tp_actions p))" for vs env
  proof -
    have "mset (map fst vs) = mset (map fst (known_actions (tp_actions p)))"
      using that by simp
    then have d: "distinct (map fst vs)"
      using distinct_known_actions mset_eq_imp_distinct_iff by blast
    have "map_of vs = map_of (known_actions (tp_actions p))"
      using d that by (intro map_of_eqI [symmetric] map_of_inject_set [THEN iffD2]) (auto dest: mset_eq_setD simp: distinct_known_actions)
    then show ?thesis using td_Validate_None [of "\<lparr>td_proto = p, td_actions = vs, td_env_for_testing = env\<rparr>"] d
      by (simp add: map_of_known_actions)
  qed
  have "is_ok (td_New p) \<longleftrightarrow> plugin_ok p"
    using visit [OF refl, of None] by (auto simp: td_New_def Let_def is_ok_def split: option.splits)
  with visit [OF assms] show ?thesis by blast
qed

text \<open>A plugin with a phase for the fingerprint of the product and one for the detection.\<close>

definition sample_action :: "string \<Rightarrow> action_phase \<Rightarrow> string list \<Rightarrow> plugin_action" where
  "sample_action n ph cs = \<lparr>pa_name = n, pa_phase = ph, pa_http = None, pa_utility = Some (Sleep 5), pa_callback = None, pa_cleanups = cs\<rparr>"

definition sample_plugin :: "nat templated_plugin" where
  "sample_plugin = \<lparr>tp_name = ''p'', tp_finding = Some 7,
     tp_actions = [sample_action ''login'' PHASE_FINGERPRINT [''logout''], sample_action ''exploit'' PHASE_UNDEFINED [],
       sample_action ''logout'' PHASE_UNDEFINED []],
     tp_workflows = [\<lparr>wf_condition = OtherCondition, wf_variables = [], wf_actions = [''login'', ''exploit'']\<rparr>], tp_disabled = False\<rparr>"

definition sample_known :: "(string \<times> plugin_action) list" where
  "sample_known = [(''logout'', sample_action ''logout'' PHASE_UNDEFINED []), (''exploit'', sample_action ''exploit'' PHASE_UNDEFINED []),
     (''login'', sample_action ''login'' PHASE_FINGERPRINT [''logout''])]"

theorem td_New_iff_witness:
  "is_ok (td_New sample_plugin)
     \<and> td_Validate \<lparr>td_proto = sample_plugin, td_actions = sample_known, td_env_for_testing = None\<rparr> = None"
proof -
  have "mset sample_known = mset (known_actions (tp_actions sample_plugin))"
    by (simp add: sample_known_def known_actions_def sample_plugin_def sample_action_def)
  moreover have "plugin_ok sample_plugin"
    by (simp add: plugin_ok_def sample_plugin_def sample_action_def getRunnerForAction_def actionPhase_def phase_order)
  ultimately show ?thesis using td_New_iff [of sample_known sample_plugin None] by simp
qed

section \<open>A workflow and its cleanups\<close>

text \<open>
  The reference: the actions run in order until one fails. The result is the actions that
  succeeded, the state after them and the failure.
\<close>

fun exec :: "('w, 'e) engine \<Rightarrow> 'v templated_detector \<Rightarrow> network_service \<Rightarrow> string list \<Rightarrow> 'w action_state
    \<Rightarrow> string list \<times> 'w action_state \<times> action_error option" where
  "exec en d service [] st = ([], st, None)"
| "exec en d service (n # ns) st =
     (case runActionFromName en d service n st of
        (_, st', Some e) \<Rightarrow> ([], st', Some e)
      | (_, st', None) \<Rightarrow> (case exec en d service ns st' of (done, st'', e) \<Rightarrow> (n # done, st'', e)))"

definition phase_of :: "'v templated_detector \<Rightarrow> string \<Rightarrow> action_phase" where
  "phase_of d n = actionPhase (map_of (td_actions d) n)"

definition cleanups_of :: "'v templated_detector \<Rightarrow> string \<Rightarrow> string list" where
  "cleanups_of d n = (case map_of (td_actions d) n of None \<Rightarrow> [] | Some a \<Rightarrow> pa_cleanups a)"

definition in_phase :: "'v templated_detector \<Rightarrow> action_phase \<Rightarrow> string \<Rightarrow> bool" where
  "in_phase d ph n = (ph = PHASE_UNDEFINED \<or> phase_of d n = ph)"

definition later_phase :: "'v templated_detector \<Rightarrow> action_phase \<Rightarrow> string \<Rightarrow> bool" where
  "later_phase d ph n = (ph \<noteq> PHASE_UNDEFINED \<and> ph < phase_of d n)"

lemma fst_runActionFromName: "fst (runActionFromName en d service n st) = cleanups_of d n"
  by (simp add: runActionFromName_def cleanups_of_def split: option.splits)

lemma run_actions_exec:
  assumes "sorted (map (phase_of d) names)"
  shows "run_actions en d service ph names deferred st =
    (case exec en d service (filter (in_phase d ph) names) st of
       (done, st', err) \<Rightarrow> (rev (map (cleanups_of d) done) @ deferred, st',
         case err of Some e \<Rightarrow> FailedWith e
         | None \<Rightarrow> if list_ex (later_phase d ph) names then StoppedAtPhase else Completed))"
  using assms
proof (induction names arbitrary: deferred st)
  case (Cons n ns)
  then have IH: "run_actions en d service ph ns deferred st =
    (case exec en d service (filter (in_phase d ph) ns) st of
       (done, st', err) \<Rightarrow> (rev (map (cleanups_of d) done) @ deferred, st',
         case err of Some e \<Rightarrow> FailedWith e
         | None \<Rightarrow> if list_ex (later_phase d ph) ns then StoppedAtPhase else Completed))" for deferred st
    by simp
  have phase: "actionPhase (map_of (td_actions d) n) = phase_of d n" by (simp add: phase_of_def)
  consider (early) "ph \<noteq> PHASE_UNDEFINED" "phase_of d n < ph"
    | (late) "ph \<noteq> PHASE_UNDEFINED" "ph < phase_of d n"
    | (now) "in_phase d ph n" "\<not> later_phase d ph n" "ph \<noteq> PHASE_UNDEFINED \<Longrightarrow> \<not> phase_of d n < ph \<and> \<not> ph < phase_of d n"
    unfolding in_phase_def later_phase_def by (metis linorder_neqE order_less_irrefl)
  then show ?case
  proof cases
    case early
    then have "\<not> in_phase d ph n" "\<not> later_phase d ph n" by (auto simp: in_phase_def later_phase_def)
    with early show ?thesis by (simp add: IH phase Let_def)
  next
    case late
    with Cons.prems have "filter (in_phase d ph) (n # ns) = []"
      by (auto simp: filter_empty_conv in_phase_def)
    moreover have "later_phase d ph n" "\<not> phase_of d n < ph" using late by (auto simp: later_phase_def)
    ultimately show ?thesis using late by (simp add: phase Let_def del: filter.simps)
  next
    case now
    obtain cs st' r where run: "runActionFromName en d service n st = (cs, st', r)" by (metis prod_cases3)
    then have "cs = cleanups_of d n" using fst_runActionFromName [of en d service n st] by simp
    moreover have "\<not> (ph \<noteq> PHASE_UNDEFINED \<and> phase_of d n < ph)" "\<not> (ph \<noteq> PHASE_UNDEFINED \<and> ph < phase_of d n)"
      using now(3) by blast+
    then have "run_actions en d service ph (n # ns) deferred st =
        (case r of Some e \<Rightarrow> (deferred, st', FailedWith e) | None \<Rightarrow> run_actions en d service ph ns (cs # deferred) st')"
      using run by (auto simp: phase Let_def split: option.splits)
    ultimately show ?thesis
      using now(1,2) run by (simp add: IH split: prod.splits option.splits)
  qed
qed simp

lemma exec_known:
  "(\<And>n. n \<in> set names \<Longrightarrow> map_of (td_actions d) n \<noteq> None) \<Longrightarrow> exec en d service names st = (done, st', Some e) \<Longrightarrow>
     \<exists>n a st0. n \<in> set names \<and> map_of (td_actions d) n = Some a \<and> snd (dispatchAction en service a st0) = Some e"
proof (induction names arbitrary: st "done")
  case (Cons n ns)
  obtain a where a: "map_of (td_actions d) n = Some a" using Cons.prems(1) [of n] by auto
  obtain st1 r where run: "dispatchAction en service a st = (st1, r)" by (metis surj_pair)
  show ?case
  proof (cases r)
    case None
    with Cons.prems run a obtain done' where "exec en d service ns st1 = (done', st', Some e)"
      by (auto simp: runActionFromName_def split: prod.splits)
    with Cons.IH Cons.prems(1) show ?thesis by (metis list.set_intros(2))
  next
    case (Some e')
    with Cons.prems run a have "e' = e" by (simp add: runActionFromName_def)
    with Some run a show ?thesis by (metis list.set_intros(1) snd_conv)
  qed
qed simp

lemma exec_prefix: "exec en d service names st = (done, st', e) \<Longrightarrow> prefix done names"
proof (induction names arbitrary: st "done")
  case (Cons n ns)
  then show ?case by (fastforce split: prod.splits option.splits)
qed simp

text \<open>No action reports that an action is unknown: only the engine's lookup does.\<close>

lemma checkExpectations_kind: "checkExpectations env resp he \<noteq> Some ErrActionNotFound"
proof -
  have c: "checkExpectation env resp cond \<noteq> Some ErrActionNotFound" for cond
    by (simp add: checkExpectation_def Let_def split: expectation_target.splits)
  have "all_expected (checkExpectation env resp) cs \<noteq> Some ErrActionNotFound"
    "any_expected (checkExpectation env resp) cs \<noteq> Some ErrActionNotFound" for cs
    using c by (induction cs) (auto split: option.splits)
  then show ?thesis by (simp add: checkExpectations_def split: option.splits)
qed

lemma performExtractions_kind: "snd (performExtractions compile resp he env) \<noteq> Some ErrActionNotFound"
proof -
  have c: "snd (performExtraction compile resp x env) \<noteq> Some ErrActionNotFound" for x env
    by (simp add: performExtraction_def Let_def split: extraction_source.splits sum.splits)
  have "snd (all_extracted (performExtraction compile resp) xs env) \<noteq> Some ErrActionNotFound"
    "snd (any_extracted (performExtraction compile resp) xs env) \<noteq> Some ErrActionNotFound" for xs env
  proof (induction xs arbitrary: env)
    case (Cons x xs)
    { case 1 show ?case using Cons.IH(1) c [of x env] by (auto split: prod.splits option.splits) }
    { case 2 show ?case using Cons.IH(2) c [of x env] by (auto split: prod.splits option.splits) }
  qed simp_all
  then show ?thesis by (simp add: performExtractions_def split: option.splits)
qed

lemma runWithURI_kind: "snd (runWithURI en service ha uri st) \<noteq> Some ErrActionNotFound"
proof -
  have "snd (handle_response compile he resp env) \<noteq> Some ErrActionNotFound" for compile he resp env
    using checkExpectations_kind [of env resp he] performExtractions_kind
    by (auto simp: handle_response_def split: option.splits)
  then show ?thesis
    by (simp add: runWithURI_def Let_def split_beta split: sum.splits http_method.splits option.splits prod.splits)
qed

lemma run_uris_kind:
  "e \<noteq> Some ErrActionNotFound \<Longrightarrow> snd (run_uris en service ha uris e st) \<noteq> Some ErrActionNotFound"
proof (induction uris arbitrary: e st)
  case (Cons u us)
  then show ?case using runWithURI_kind [of en service ha u st] by (auto split: prod.splits option.splits)
qed simp

lemma dispatchAction_not_found: "snd (dispatchAction en service a st) \<noteq> Some ErrActionNotFound"
proof -
  have "snd (http_Run en service ha st) \<noteq> Some ErrActionNotFound" for ha
    by (simp add: http_Run_def run_uris_kind split: option.splits)
  moreover have "snd (utility_Run en ua st) \<noteq> Some ErrActionNotFound" for ua
    by (simp add: utility_Run_def sleepAction_def split: option.splits utility_action.splits)
  moreover have "snd (callback_Run en ca st) \<noteq> Some ErrActionNotFound" for ca
    by (simp add: callback_Run_def split: option.splits sum.splits)
  ultimately show ?thesis
    by (simp add: dispatchAction_def split: option.splits action_runner.splits)
qed

lemma td_New_Inr:
  assumes "td_New p = Inr d"
  shows "td_proto d = p" and "td_Validate d = None" and "td_env_for_testing d = None"
  using assms by (auto simp: td_New_def Let_def split: option.splits)

lemma validated_workflow:
  assumes "td_Validate d = None" and "flow \<in> set (tp_workflows (td_proto d))"
  shows "sorted (map (phase_of d) (wf_actions flow))"
    and "n \<in> set (wf_actions flow) \<Longrightarrow> \<exists>a. map_of (td_actions d) n = Some a"
  using assms
  by (auto simp: td_Validate_def validate_workflows_None validate_workflow_None phase_of_def [abs_def] split: option.splits)

lemma validated_runner:
  assumes "td_Validate d = None" and "map_of (td_actions d) n = Some a"
  shows "getRunnerForAction a \<noteq> None" and "c \<in> set (pa_cleanups a) \<Longrightarrow> map_of (td_actions d) c \<noteq> None"
  using assms map_of_SomeD [OF assms(2)]
  by (auto simp: td_Validate_def validate_actions_None split: option.splits)

definition report_of :: "'v templated_detector \<Rightarrow> network_service \<Rightarrow> 'v option detection_report" where
  "report_of d service =
     \<lparr>rep_status = VULNERABILITY_VERIFIED, rep_service = service, rep_vulnerability = tp_finding (td_proto d)\<rparr>"

text \<open>C3. A validated detector runs, for a phase, exactly the actions of that phase of the first
  workflow whose condition holds, in order and up to the first failure. Whatever the outcome, the
  cleanup actions of every action that succeeded run afterwards, those of the last action first,
  and an action never fails because it is unknown. It reports the vulnerability exactly when every
  action of the phase succeeded and no later phase follows.\<close>

theorem DetectForPhase_exact:
  assumes "td_New p = Inr d" and "find (workflowMeetsConditions en) (tp_workflows p) = Some flow"
    and "workflow_env en d service flow extraVars w = Inr env"
    and "exec en d service (filter (in_phase d ph) (wf_actions flow)) (env, w) = (done, st, err)"
  shows "DetectForPhase en d service ph extraVars w =
      (snd (foldl (\<lambda>s n. run_cleanups en d service (cleanups_of d n) s) st (rev done)),
       case err of Some e \<Rightarrow> Inl (ErrAction e)
       | None \<Rightarrow> Inr (if list_ex (later_phase d ph) (wf_actions flow) then None else Some [report_of d service]))
    \<and> prefix done (filter (in_phase d ph) (wf_actions flow)) \<and> err \<noteq> Some ErrActionNotFound"
proof -
  note new = td_New_Inr [OF assms(1)]
  have flow: "flow \<in> set (tp_workflows (td_proto d))"
    using assms(2) new(1) by (auto simp: find_Some_iff)
  note valid = validated_workflow [OF new(2) flow]
  have "fold (run_cleanups en d service) (rev (map (cleanups_of d) done)) st
      = foldl (\<lambda>s n. run_cleanups en d service (cleanups_of d n) s) st (rev done)"
    by (simp add: foldl_conv_fold fold_map comp_def rev_map)
  then have "DetectForPhase en d service ph extraVars w =
      (snd (foldl (\<lambda>s n. run_cleanups en d service (cleanups_of d n) s) st (rev done)),
       case err of Some e \<Rightarrow> Inl (ErrAction e)
       | None \<Rightarrow> Inr (if list_ex (later_phase d ph) (wf_actions flow) then None else Some [report_of d service]))"
    using assms(2-4) new(1)
    by (simp add: DetectForPhase_def runWorkflowForService_def run_actions_exec [OF valid(1)] report_of_def split: option.splits)
  moreover have "prefix done (filter (in_phase d ph) (wf_actions flow))"
    using assms(4) by (rule exec_prefix)
  moreover have "err \<noteq> Some ErrActionNotFound"
  proof
    assume "err = Some ErrActionNotFound"
    with exec_known [OF _ assms(4) [unfolded \<open>err = _\<close>]] valid(2)
    obtain n a st0 where "snd (dispatchAction en service a st0) = Some ErrActionNotFound"
      by fastforce
    then show False by (simp add: dispatchAction_not_found)
  qed
  ultimately show ?thesis by blast
qed

definition sample_engine :: "(int, unit) engine" where
  "sample_engine = \<lparr>en_callback = None, en_cb_client = cb_new None, en_poll = \<lambda>_ _. Inl (), en_unmarshal = \<lambda>_. None,
     en_shared = \<lambda>_ w. (w, Inl ()), en_new_client = \<lambda>_. Inl (), en_forbidden = [], en_compile = \<lambda>_. None,
     en_sleep = \<lambda>ms w. w + ms, en_now_ms = \<lambda>_. 0, en_rand = \<lambda>_ n. replicate n CHR ''r'', en_sha3 = id\<rparr>"

definition sample_web_service :: network_service where
  "sample_web_service = \<lparr>sv_endpoint = Some \<lparr>ep_type = HOSTNAME, ep_ip = None, ep_hostname = Some ''h'', ep_port = None\<rparr>,
     sv_transport = ''TCP'', sv_ssl = [], sv_http_methods = [''GET''], sv_context = None\<rparr>"

definition sample_detector :: "nat templated_detector" where
  "sample_detector = \<lparr>td_proto = sample_plugin, td_actions = known_actions (tp_actions sample_plugin), td_env_for_testing = None\<rparr>"

text \<open>The fingerprint phase of the sample plugin: the login sleeps, then its cleanup does.\<close>

theorem DetectForPhase_exact_witness:
  "DetectForPhase sample_engine sample_detector sample_web_service PHASE_FINGERPRINT Map.empty 0 = (10, Inr None)"
proof -
  let ?flow = "\<lparr>wf_condition = OtherCondition, wf_variables = [], wf_actions = [''login'', ''exploit'']\<rparr>"
  have known: "td_actions sample_detector = rev sample_known"
    by (simp add: sample_detector_def sample_known_def known_actions_def sample_plugin_def sample_action_def)
  have new: "td_New sample_plugin = Inr sample_detector"
    by (simp add: td_New_def td_Validate_def known_actions_def sample_plugin_def sample_action_def sample_detector_def
        getRunnerForAction_def actionPhase_def phase_order)
  have flow: "find (workflowMeetsConditions sample_engine) (tp_workflows sample_plugin) = Some ?flow"
    by (simp add: sample_plugin_def workflowMeetsConditions_def)
  obtain env where env: "workflow_env sample_engine sample_detector sample_web_service ?flow Map.empty 0 = Inr env"
      and awake: "env ''T_TST_DISABLE_SLEEP'' = None"
    by (simp add: workflow_env_def sample_engine_def sample_detector_def sample_web_service_def InitializeFor_def
        callbackServerInitialization_def BuildWebRoot_def BuildAllWebRoots_def ToURIAuthorities_def get_endpoint_def
        ep_host_def ep_address_def append_port_def env_Set_def env_New_def Let_def)
  have phases: "phase_of sample_detector ''login'' = PHASE_FINGERPRINT" "phase_of sample_detector ''exploit'' = PHASE_DETECTION"
    by (simp_all add: phase_of_def known sample_known_def sample_action_def actionPhase_def)
  have run: "runActionFromName sample_engine sample_detector sample_web_service n (env, w)
      = (cleanups_of sample_detector n, (env, w + 5), None)" if "n \<in> {''login'', ''logout''}" for n w
    using that awake
    by (auto simp: runActionFromName_def cleanups_of_def known sample_known_def sample_action_def dispatchAction_def
        getRunnerForAction_def utility_Run_def sleepAction_def env_Get_def sample_engine_def)
  have cs: "cleanups_of sample_detector ''login'' = [''logout'']"
    by (simp add: cleanups_of_def known sample_known_def sample_action_def)
  have "exec sample_engine sample_detector sample_web_service (filter (in_phase sample_detector PHASE_FINGERPRINT) (wf_actions ?flow)) (env, 0)
      = ([''login''], (env, 5), None)"
    by (simp add: in_phase_def phases run)
  from DetectForPhase_exact [OF new flow env this]
  show ?thesis by (simp add: cs run later_phase_def phases phase_order)
qed

end
