(* ===== verification/WeakCredPlugins.thy ===== *)
theory WeakCredPlugins
  imports Templated BruteForce PortScan
begin

text \<open>
  The plugins that test weak credentials with the templated engine,
  \<open>src/plugins/detectors/templatedweakcredentials/\<close>, over the constructor of the brute force,
  \<open>src/common/bruteforce/bruteforce.go\<close>, and the registration of templated plugins,
  \<open>src/plugins/detectors/templated/templated.go\<close>. The theorem composes the engine with the pool of
  workers: what a report of such a detector means.
\<close>

section \<open>The constructor of the brute force\<close>

datatype 'e bf_error = BfVulnerabilityNil | BfStore "'e load_error"

record 'e bf_detector =
  bd_name :: string
  bd_config :: bf_config
  bd_store :: "'e credential_store"

definition bf_config_of :: "config \<Rightarrow> bf_config" where
  "bf_config_of c = (let m = sub_message ''bruteforce'' (PluginsConfig c) in
     \<lparr>bf_max_concurrency = get_int32 ''max_concurrency'' 1 m,
      bf_max_attempts = get_int32 ''max_attempts_per_service'' 2000 m,
      bf_stop_at_first = get_bool ''stop_at_first_valid_credentials'' True m\<rparr>)"

text \<open>The handler is given by its name and its vulnerability, the options are present.\<close>

definition bf_New :: "'e file_system \<Rightarrow> config \<Rightarrow> string \<Rightarrow> 'v option \<Rightarrow> 'e bf_options \<Rightarrow> ('e bf_error, 'e bf_detector) result" where
  "bf_New files c name vuln opts =
     (if vuln = None then Inl BfVulnerabilityNil
      else case prepareCredentialStore files opts of
          Inl e \<Rightarrow> Inl (BfStore e)
        | Inr store \<Rightarrow> Inr \<lparr>bd_name = name, bd_config = normalize_config (bf_config_of c), bd_store = store\<rparr>)"

section \<open>Plugins and their handlers\<close>

text \<open>A plugin also says which credentials it comes with and whether it takes a password only.\<close>

record 'v weak_plugin = "'v templated_plugin" +
  wp_default_credentials :: "(string \<times> string) list"
  wp_password_only :: bool

record 'v weak_handler =
  wh_base_detector :: "'v templated_detector"
  wh_proto :: "'v weak_plugin"

definition weak_namePrefix :: string where "weak_namePrefix = ''dt/wktpl/''"
definition templated_namePrefix :: string where "templated_namePrefix = ''dt/tpl/''"

definition weak_Name :: "'v weak_handler \<Rightarrow> string" where
  "weak_Name h = weak_namePrefix @ tp_name (wh_proto h)"

definition isPasswordOnly :: "'v weak_handler \<Rightarrow> bool" where
  "isPasswordOnly h = wp_password_only (wh_proto h)"

definition weak_Vulnerability :: "'v weak_handler \<Rightarrow> 'v option" where
  "weak_Vulnerability h = tp_finding (wh_proto h)"

definition defaultCredentials :: "'v weak_plugin \<Rightarrow> credential list" where
  "defaultCredentials p = map (\<lambda>(login, password). \<lparr>cred_user = login, cred_password = password\<rparr>) (wp_default_credentials p)"

definition weak_Fingerprint :: "('w, 'e) engine \<Rightarrow> 'v weak_handler \<Rightarrow> network_service \<Rightarrow> 'w \<Rightarrow> 'w \<times> (detect_error, bool) result" where
  "weak_Fingerprint en h service w =
     (case DetectForPhase en (wh_base_detector h) service PHASE_FINGERPRINT Map.empty w of
        (w', Inr _) \<Rightarrow> (w', Inr True)
      | (w', Inl e) \<Rightarrow>
          (w', if e = ErrAction ErrActionFailed \<or> e = ErrNoCompatibleWorkflow then Inr False else Inl e))"

definition credential_variables :: "'v weak_handler \<Rightarrow> credential \<Rightarrow> environment" where
  "credential_variables h cred =
     (let vars = [''T_PASSWORD'' \<mapsto> cred_password cred] in
      if \<not> isPasswordOnly h then vars(''T_USERNAME'' \<mapsto> cred_user cred) else vars)"

definition weak_TestCredential :: "('w, 'e) engine \<Rightarrow> 'v weak_handler \<Rightarrow> network_service \<Rightarrow> credential \<Rightarrow> 'w
    \<Rightarrow> 'w \<times> (detect_error, bool) result" where
  "weak_TestCredential en h service cred w =
     (case DetectForPhase en (wh_base_detector h) service PHASE_DETECTION (credential_variables h cred) w of
        (w', Inl e) \<Rightarrow> (w', if e = ErrAction ErrActionFailed then Inr False else Inl e)
      | (w', Inr reports) \<Rightarrow> (w', Inr (case reports of None \<Rightarrow> False | Some rs \<Rightarrow> rs \<noteq> [])))"

datatype 'e weak_error = WeakTemplate action_error | WeakBruteForce "'e bf_error"

record ('v, 'e) weak_detector =
  wd_handler :: "'v weak_handler"
  wd_detector :: "'e bf_detector"

definition newDetector :: "'e file_system \<Rightarrow> config \<Rightarrow> 'v weak_plugin \<Rightarrow> 'v templated_detector \<Rightarrow> 'e credential_store
    \<Rightarrow> ('e bf_error, ('v, 'e) weak_detector) result" where
  "newDetector files c p base store =
     (let handler = \<lparr>wh_base_detector = base, wh_proto = p\<rparr>;
          opts = \<lparr>bo_store = Some store, bo_defaults = defaultCredentials p, bo_password_only = isPasswordOnly handler\<rparr>
      in case bf_New files c (weak_Name handler) (weak_Vulnerability handler) opts of
           Inl e \<Rightarrow> Inl e
         | Inr d \<Rightarrow> Inr \<lparr>wd_handler = handler, wd_detector = d\<rparr>)"

definition NewFromProto :: "'e file_system \<Rightarrow> config \<Rightarrow> 'v weak_plugin \<Rightarrow> 'e credential_store
    \<Rightarrow> ('e weak_error, ('v, 'e) weak_detector) result" where
  "NewFromProto files c p store = (case td_New (templated_plugin.truncate p) of
       Inl e \<Rightarrow> Inl (WeakTemplate e)
     | Inr base \<Rightarrow> (case newDetector files c p base store of Inl e \<Rightarrow> Inl (WeakBruteForce e) | Inr d \<Rightarrow> Inr d))"

text \<open>
  \<open>Detect\<close> of such a detector in the world \<open>w\<close>, once the workers of the pool have ended in the
  state \<open>s\<close>. No candidate is tried twice, so every attempt sees the world in one state: the one of
  candidate \<open>i\<close> is \<open>world i\<close>, and \<open>weak_test\<close> says what it answers.
\<close>

definition weak_test :: "('w, 'e) engine \<Rightarrow> ('v, 'f) weak_detector \<Rightarrow> network_service \<Rightarrow> (nat \<Rightarrow> 'w) \<Rightarrow> nat \<Rightarrow> bool option" where
  "weak_test en d service world i =
     (case weak_TestCredential en (wd_handler d) service (candidates (bd_store (wd_detector d)) ! i) (world i) of
        (_, Inl e) \<Rightarrow> None
      | (_, Inr b) \<Rightarrow> Some b)"

datatype weak_detect_error = FingerprintFailed detect_error | PoolFailed

definition weak_Detect :: "('w, 'e) engine \<Rightarrow> ('v, 'f) weak_detector \<Rightarrow> network_service \<Rightarrow> string list \<Rightarrow> pool \<times> pc list \<Rightarrow> 'w
    \<Rightarrow> (weak_detect_error, 'v option detection list) result" where
  "weak_Detect en d service details s w =
     Detect (map_sum FingerprintFailed id (snd (weak_Fingerprint en (wd_handler d) service w)))
       (case testCredentials (bd_config (wd_detector d)) (candidates (bd_store (wd_detector d))) s of
          None \<Rightarrow> Inl PoolFailed | Some r \<Rightarrow> Inr r)
       (weak_Vulnerability (wd_handler d)) details service"

section \<open>Registration\<close>

fun register_plugins :: "string \<Rightarrow> ('v templated_plugin \<Rightarrow> ('cfg, 'e, 'dt) init_fn) \<Rightarrow> 'v templated_plugin list
    \<Rightarrow> ('cfg, 'e, 'ps, 'fp, 'dt) registry \<Rightarrow> (panic, ('cfg, 'e, 'ps, 'fp, 'dt) registry) result" where
  "register_plugins namePrefix new [] r = Inr r"
| "register_plugins namePrefix new (p # ps) r = (case RegisterDetector (namePrefix @ tp_name p) (new p) r of
       Inl e \<Rightarrow> Inl e
     | Inr r' \<Rightarrow> register_plugins namePrefix new ps r')"

definition templated_init :: "'v templated_plugin list
    \<Rightarrow> ('cfg, action_error, 'ps, 'fp, 'v templated_detector) registry
    \<Rightarrow> (panic, ('cfg, action_error, 'ps, 'fp, 'v templated_detector) registry) result" where
  "templated_init plugins = register_plugins templated_namePrefix (\<lambda>p cfg. td_New p) plugins"

text \<open>Plugins that the loader has read have different names, so registering them does not panic.\<close>

lemma load_plugins_names: "distinct (map tp_name (load_plugins seen ps)) \<and> set seen \<inter> tp_name ` set (load_plugins seen ps) = {}"
proof (induction ps arbitrary: seen)
  case (Cons p ps)
  from Cons [of seen] Cons [of "seen @ [tp_name p]"] show ?case by (auto simp: disjoint_iff)
qed simp

lemma register_plugins_ok:
  assumes "distinct (map tp_name ps)" and "\<And>p. p \<in> set ps \<Longrightarrow> detectors r (namePrefix @ tp_name p) = None"
  shows "\<exists>r'. register_plugins namePrefix new ps r = Inr r'
    \<and> detectorNames r' = detectorNames r @ map (\<lambda>p. namePrefix @ tp_name p) ps
    \<and> (\<forall>p \<in> set ps. detectors r' (namePrefix @ tp_name p) = Some (new p))"
  using assms
proof (induction ps arbitrary: r rule: rev_induct)
  case (snoc p ps)
  have app: "register_plugins namePrefix new (qs @ [p]) r = (case register_plugins namePrefix new qs r of
      Inl e \<Rightarrow> Inl e | Inr r' \<Rightarrow> RegisterDetector (namePrefix @ tp_name p) (new p) r')" for qs r
    by (induction qs arbitrary: r) (auto split: sum.splits)
  obtain r' where r': "register_plugins namePrefix new ps r = Inr r'"
      "detectorNames r' = detectorNames r @ map (\<lambda>p. namePrefix @ tp_name p) ps"
      "\<forall>p \<in> set ps. detectors r' (namePrefix @ tp_name p) = Some (new p)"
    using snoc by fastforce
  have keep: "detectors r' n = detectors r n"
    if "n \<notin> (\<lambda>p. namePrefix @ tp_name p) ` set ps" "register_plugins namePrefix new ps r = Inr r'" for n ps r r'
    using that by (induction ps arbitrary: r) (auto simp: RegisterDetector_def split: sum.splits option.splits if_splits)
  have "namePrefix @ tp_name p \<notin> (\<lambda>p. namePrefix @ tp_name p) ` set ps" using snoc.prems(1) by auto
  from keep [OF this r'(1)] have "detectors r' (namePrefix @ tp_name p) = None" using snoc.prems(2) by simp
  with r' snoc.prems(1) show ?case by (auto simp: app RegisterDetector_def)
qed simp

section \<open>What a report means\<close>

text \<open>The defaults of the plugin come first, and a plugin for passwords only has no user names.\<close>

lemma cs_ok_prepared:
  assumes "cs_ok store" and "prepareCredentialStore files \<lparr>bo_store = Some store, bo_defaults = ds, bo_password_only = po\<rparr> = Inr c'"
  shows "cs_ok c'" and "po \<Longrightarrow> set (cs_usernames c') \<subseteq> {[]}"
    and "\<not> po \<Longrightarrow> cs_usernames c' = firsts (map cred_user ds @ Usernames store)"
proof -
  let ?base = "if po then CollapseToPasswordOnly (store_Copy store) else store_Copy store"
  let ?user = "\<lambda>cred. if po then [] else cred_user cred"
  have base: "cs_ok ?base" "po \<Longrightarrow> cs_usernames ?base = [[]]" "\<not> po \<Longrightarrow> cs_usernames ?base = Usernames store"
    using assms(1) by (auto simp: cs_ok_Copy cs_ok_Collapse Usernames_def) (simp_all add: CollapseToPasswordOnly_def store_Copy_def)
  have c': "c' = fold (\<lambda>cred c. PrependPasswordForUser (?user cred) (cred_password cred) (PrependUser (?user cred) c)) (rev ds) ?base"
    using assms(2) by (simp add: prepareCredentialStore_def prependDefaultCredentials_def Let_def split: if_splits)
  have p: "cs_ok c' \<and> cs_usernames c' = firsts (map ?user ds @ cs_usernames ?base)"
    using prepend_defaults [OF base(1), of ?user cred_password ds] unfolding c' by (simp add: Let_def)
  then show "cs_ok c'" by simp
  show "set (cs_usernames c') \<subseteq> {[]}" if po using p base(2) that by auto
  show "cs_usernames c' = firsts (map cred_user ds @ Usernames store)" if "\<not> po" using p base(3) that by simp
qed

lemma NewFromProto_parts:
  assumes "NewFromProto files c p store = Inr d"
  shows "td_New (templated_plugin.truncate p) = Inr (wh_base_detector (wd_handler d)) \<and> wh_proto (wd_handler d) = p
    \<and> prepareCredentialStore files \<lparr>bo_store = Some store, bo_defaults = defaultCredentials p, bo_password_only = wp_password_only p\<rparr>
        = Inr (bd_store (wd_detector d))
    \<and> tp_finding p \<noteq> None \<and> bd_config (wd_detector d) = normalize_config (bf_config_of c)"
  using assms
  by (auto simp: NewFromProto_def newDetector_def bf_New_def isPasswordOnly_def weak_Vulnerability_def Let_def split: sum.splits if_splits)

lemma weak_test_True:
  "weak_test en d service world i = Some True \<longleftrightarrow>
     (\<exists>w' rs. DetectForPhase en (wh_base_detector (wd_handler d)) service PHASE_DETECTION
         (credential_variables (wd_handler d) (candidates (bd_store (wd_detector d)) ! i)) (world i) = (w', Inr (Some rs)) \<and> rs \<noteq> [])"
  by (auto simp: weak_test_def weak_TestCredential_def split: prod.splits sum.splits option.splits if_splits)

lemma pool_valid:
  assumes "reachable cfg creds test (p, ws)" and "testCredentials cfg creds (p, ws) = Some r"
  shows "\<exists>ks. validCreds r = map ((!) creds) ks \<and> sorted_wrt (<) ks \<and> list_all (\<lambda>i. i < length creds \<and> test i = Some True) ks"
proof -
  from reachable_shared_ok [OF assms(1)] obtain n where n: "shared_ok cfg test (length creds) n p ws" by auto
  have "validCreds r = map ((!) creds) (sort (matched p))"
    using assms(2) by (auto simp: testCredentials_def pool_result_of_def split: if_splits)
  moreover have "sorted_wrt (<) (sort (matched p))"
    using n by (simp add: shared_ok_def pool_ok_def strict_sorted_iff)
  moreover have "list_all (\<lambda>i. i < length creds \<and> test i = Some True) (sort (matched p))"
    using n by (force simp: shared_ok_def pool_ok_def list_all_iff)
  ultimately show ?thesis by blast
qed

lemma subseq_nth:
  assumes "sorted_wrt (<) ks" and "list_all (\<lambda>i. i < length xs) ks"
  shows "subseq (map ((!) xs) ks) xs"
proof -
  have "sorted_wrt (<) (filter (\<lambda>i. i \<in> set ks) [0..<length xs])" by (simp add: sorted_wrt_filter)
  moreover have "set (filter (\<lambda>i. i \<in> set ks) [0..<length xs]) = set ks" using assms(2) by (auto simp: list_all_iff)
  ultimately have "ks = filter (\<lambda>i. i \<in> set ks) [0..<length xs]"
    using assms(1) by (metis strict_sorted_equal)
  then have "subseq (map ((!) xs) ks) (map ((!) xs) [0..<length xs])" by (metis subseq_filter_left subseq_map)
  then show ?thesis by (simp add: map_nth)
qed

text \<open>C6. A detector made from a plugin reports on a service only when its fingerprint phase succeeded
  and some candidate was accepted; under every schedule of the workers each reported credential,
  put into the variables of the template, made the detection phase of the plugin report the
  vulnerability, the credentials are in the order of the candidates without repetition, and a
  plugin for passwords only reports no user name.\<close>

theorem weak_Detect_sound:
  assumes "NewFromProto files c p store = Inr d" and "cs_ok store"
    and "reachable (bd_config (wd_detector d)) (candidates (bd_store (wd_detector d))) (weak_test en d service world) (pl, ws)"
    and "weak_Detect en d service details (pl, ws) w = Inr reports" and "reports \<noteq> []"
  shows "\<exists>creds w'. weak_Fingerprint en (wd_handler d) service w = (w', Inr True)
    \<and> reports = buildDetectionReportList (tp_finding p) details service creds \<and> creds \<noteq> [] \<and> distinct creds
    \<and> subseq creds (candidates (bd_store (wd_detector d)))
    \<and> list_all (\<lambda>cred. (wp_password_only p \<longrightarrow> cred_user cred = [])
        \<and> (\<exists>v v' rs. DetectForPhase en (wh_base_detector (wd_handler d)) service PHASE_DETECTION
              (credential_variables (wd_handler d) cred) v = (v', Inr (Some rs)) \<and> rs \<noteq> [])) creds"
proof -
  let ?creds = "candidates (bd_store (wd_detector d))"
  note parts = NewFromProto_parts [OF assms(1)]
  from parts have "prepareCredentialStore files \<lparr>bo_store = Some store, bo_defaults = defaultCredentials p,
      bo_password_only = wp_password_only p\<rparr> = Inr (bd_store (wd_detector d))" by blast
  note store = cs_ok_prepared [OF assms(2) this]
  obtain w' b where fp: "weak_Fingerprint en (wd_handler d) service w = (w', b)" by fastforce
  have "b = Inr True \<and> (\<exists>r. testCredentials (bd_config (wd_detector d)) ?creds (pl, ws) = Some r \<and> validCreds r \<noteq> []
      \<and> reports = buildDetectionReportList (tp_finding p) details service (validCreds r))"
    using assms(4,5) parts fp
    by (cases b) (auto simp: weak_Detect_def Detect_def weak_Vulnerability_def split: option.splits if_splits bool.splits)
  then obtain r where b: "b = Inr True"
    and r: "testCredentials (bd_config (wd_detector d)) ?creds (pl, ws) = Some r" "validCreds r \<noteq> []"
      "reports = buildDetectionReportList (tp_finding p) details service (validCreds r)" by blast
  from pool_valid [OF assms(3) r(1)] obtain ks where ks: "validCreds r = map ((!) ?creds) ks" "sorted_wrt (<) ks"
      "list_all (\<lambda>i. i < length ?creds \<and> weak_test en d service world i = Some True) ks" by blast
  have "distinct ?creds" using store(1) by (rule candidates_distinct)
  then have dist: "distinct (validCreds r)"
    using ks by (auto simp: distinct_map inj_on_def nth_eq_iff_index_eq list_all_iff strict_sorted_iff)
  have sub: "subseq (validCreds r) ?creds"
    unfolding ks(1) using ks(2,3) by (intro subseq_nth) (auto simp: list_all_iff)
  have "set (validCreds r) \<subseteq> set ?creds" using ks(1,3) by (auto simp: list_all_iff)
  then have users: "cred_user cred = []" if "wp_password_only p" "cred \<in> set (validCreds r)" for cred
    using store(2) that by (fastforce simp: candidates_set Usernames_def)
  have "list_all (\<lambda>cred. (wp_password_only p \<longrightarrow> cred_user cred = [])
        \<and> (\<exists>v v' rs. DetectForPhase en (wh_base_detector (wd_handler d)) service PHASE_DETECTION
              (credential_variables (wd_handler d) cred) v = (v', Inr (Some rs)) \<and> rs \<noteq> [])) (validCreds r)"
    unfolding list_all_iff
  proof (intro ballI conjI impI)
    fix cred
    assume cred: "cred \<in> set (validCreds r)"
    then show "cred_user cred = []" if "wp_password_only p" using users that by blast
    from cred obtain i where "cred = ?creds ! i" "weak_test en d service world i = Some True"
      using ks(1,3) by (auto simp: list_all_iff)
    then show "\<exists>v v' rs. DetectForPhase en (wh_base_detector (wd_handler d)) service PHASE_DETECTION
        (credential_variables (wd_handler d) cred) v = (v', Inr (Some rs)) \<and> rs \<noteq> []"
      unfolding weak_test_True by blast
  qed
  then show ?thesis using fp b r(2,3) dist sub by blast
qed

text \<open>A plugin whose detection phase has no action accepts every credential.\<close>

definition open_plugin :: "nat weak_plugin" where
  "open_plugin = \<lparr>tp_name = ''open'', tp_finding = Some 7, tp_actions = [],
     tp_workflows = [\<lparr>wf_condition = OtherCondition, wf_variables = [], wf_actions = []\<rparr>], tp_disabled = False,
     wp_default_credentials = [], wp_password_only = False\<rparr>"

definition one_user_store :: "nat credential_store" where
  "one_user_store = \<lparr>cs_usernames = [''u''], cs_credentials = [(''u'', [''p''])], cs_loaded = None\<rparr>"

definition open_base :: "nat templated_detector" where
  "open_base = \<lparr>td_proto = templated_plugin.truncate open_plugin, td_actions = [], td_env_for_testing = None\<rparr>"

definition open_detector :: "(nat, nat) weak_detector" where
  "open_detector = \<lparr>wd_handler = \<lparr>wh_base_detector = open_base, wh_proto = open_plugin\<rparr>,
     wd_detector = \<lparr>bd_name = ''dt/wktpl/open'',
       bd_config = \<lparr>bf_max_concurrency = 1, bf_max_attempts = 2000, bf_stop_at_first = True\<rparr>, bd_store = one_user_store\<rparr>\<rparr>"

definition open_pool :: pool where
  "open_pool = \<lparr>workCh = [], attempts = 1, budgetExhausted = False, matched = [0], cancelled = False, tested = [0]\<rparr>"

lemma open_NewFromProto:
  "NewFromProto \<lparr>fs_walk = [], fs_open = (\<lambda>_. Inr [])\<rparr> config_Default open_plugin one_user_store = Inr open_detector"
proof -
  have "bf_config_of config_Default = \<lparr>bf_max_concurrency = 1, bf_max_attempts = 2000, bf_stop_at_first = True\<rparr>"
    by (simp add: bf_config_of_def PluginsConfig_def config_Default_def config_FromProto_def sub_message_def get_int32_def get_bool_def)
  moreover have "td_New (templated_plugin.truncate open_plugin) = Inr open_base"
    by (simp add: td_New_def td_Validate_def known_actions_def open_plugin_def templated_plugin.defs open_base_def)
  ultimately show ?thesis
    by (simp add: NewFromProto_def newDetector_def bf_New_def weak_Vulnerability_def isPasswordOnly_def weak_Name_def
        prepareCredentialStore_def prependDefaultCredentials_def defaultCredentials_def store_Copy_def normalize_config_def
        weak_namePrefix_def open_detector_def one_user_store_def open_plugin_def)
qed

lemma open_DetectForPhase:
  "\<exists>rs. DetectForPhase sample_engine open_base sample_web_service ph vars w = (w, Inr (Some rs)) \<and> rs \<noteq> []"
  by (simp add: DetectForPhase_def open_base_def open_plugin_def templated_plugin.defs workflowMeetsConditions_def
      runWorkflowForService_def workflow_env_def sample_engine_def sample_web_service_def InitializeFor_def
      callbackServerInitialization_def BuildWebRoot_def BuildAllWebRoots_def ToURIAuthorities_def get_endpoint_def
      ep_host_def ep_address_def append_port_def env_Set_def env_New_def Let_def)

lemma open_candidates: "candidates one_user_store = [\<lparr>cred_user = ''u'', cred_password = ''p''\<rparr>]"
  by (simp add: candidates_def Usernames_def Passwords_def one_user_store_def)

lemma open_reachable:
  "reachable (bd_config (wd_detector open_detector)) (candidates (bd_store (wd_detector open_detector)))
     (weak_test sample_engine open_detector sample_web_service (\<lambda>i. 0)) (open_pool, [Returned])"
proof -
  let ?cfg = "\<lparr>bf_max_concurrency = 1, bf_max_attempts = 2000, bf_stop_at_first = True\<rparr> :: bf_config"
  let ?creds = "[\<lparr>cred_user = ''u'', cred_password = ''p''\<rparr>]"
  let ?test = "weak_test sample_engine open_detector sample_web_service (\<lambda>i. 0)"
  have test: "?test 0 = Some True"
    unfolding weak_test_True by (simp add: open_detector_def) (use open_DetectForPhase in blast)
  have "run_one ?cfg ?creds ?test 30 (new_pool ?creds) Receive = (open_pool, Returned)"
    by (simp add: eval_nat_numeral new_pool_def open_pool_def stopped_def Done_def UserDone_def hasBudget_def at_limit_def
        claimAttempt_def recordMatch_def test)
  moreover have "reachable ?cfg ?creds ?test (new_pool ?creds, [Receive])"
    using reachable.init [of ?cfg ?creds ?test] by (simp add: start_def numWorkers_def)
  ultimately show ?thesis
    using run_one_reachable by (simp add: open_detector_def open_candidates)
qed

theorem weak_Detect_sound_witness:
  "\<exists>creds. weak_Detect sample_engine open_detector sample_web_service [] (open_pool, [Returned]) 0
       = Inr (buildDetectionReportList (Some 7) [] sample_web_service creds) \<and> creds \<noteq> []"
proof -
  obtain rs where rs: "DetectForPhase sample_engine open_base sample_web_service PHASE_FINGERPRINT Map.empty 0 = (0, Inr (Some rs))"
    using open_DetectForPhase by blast
  then have "\<exists>reports. weak_Detect sample_engine open_detector sample_web_service [] (open_pool, [Returned]) 0 = Inr reports \<and> reports \<noteq> []"
    by (simp add: weak_Detect_def weak_Fingerprint_def Detect_def testCredentials_def pool_result_of_def open_detector_def
        open_pool_def buildDetectionReportList_def open_candidates)
  moreover have "cs_ok one_user_store" by (simp add: cs_ok_def one_user_store_def)
  ultimately show ?thesis
    using weak_Detect_sound [OF open_NewFromProto _ open_reachable] by (fastforce simp: open_plugin_def)
qed

end
