(* ===== verification/MainProgram.thy ===== *)
theory MainProgram
  imports PortScan CallbackServer
begin

text \<open>
  The two programs: the start of the callback server from its configuration,
  \<open>src/tools/callbackserver/callbackserver.go\<close> with \<open>cmd/main.go\<close>, and the scanner, \<open>src/main.go\<close>, which
  composes the configuration, the entrypoint, the callback server and the runner. Files and
  listeners are a world \<open>'w\<close>; a scan that blocks is a run without a result, \<open>None\<close>.
\<close>

section \<open>The callback server\<close>

datatype server_error = CbConfigRead | CbConfigUnmarshal | CbInvalidConfig string | CbListen string | CbResolve string

definition ConfigFromFile :: "(string \<Rightarrow> string option) \<Rightarrow> (string \<Rightarrow> pb_message option) \<Rightarrow> string \<Rightarrow> (server_error, pb_message) result" where
  "ConfigFromFile read unmarshal path = (case read path of
       None \<Rightarrow> Inl CbConfigRead
     | Some data \<Rightarrow> (case unmarshal data of None \<Rightarrow> Inl CbConfigUnmarshal | Some m \<Rightarrow> Inr m))"

definition endpoint_mode :: "pb_message \<Rightarrow> int" where
  "endpoint_mode m = get_enum ''mode'' 0 m"

text \<open>\<open>MODE_START_LOCAL_SERVER\<close> is 1.\<close>

definition starts_local :: "pb_message \<Rightarrow> bool" where
  "starts_local m = (endpoint_mode m = 1)"

definition bind_port :: "pb_message \<Rightarrow> 32 word" where
  "bind_port m = get_uint32 ''bind_port'' 0 m"

definition local_port_ok :: "pb_message \<Rightarrow> bool" where
  "local_port_ok m = (\<not> starts_local m \<or> \<not> (bind_port m \<le> 0 \<or> 65535 < bind_port m))"

definition interaction_ttl :: "pb_message \<Rightarrow> 32 word" where
  "interaction_ttl m = get_uint32 ''interaction_ttl_seconds'' 60 m"

definition cleanup_interval :: "pb_message \<Rightarrow> 32 word" where
  "cleanup_interval m = get_uint32 ''cleanup_interval_seconds'' 10 m"

definition ValidateConfig :: "pb_message \<Rightarrow> server_error option" where
  "ValidateConfig m =
     (if m ''http_poll_config'' = None then Some (CbInvalidConfig ''http_poll_config is required'')
      else if interaction_ttl m = 0 then Some (CbInvalidConfig ''interaction_ttl_seconds must be greater than 0'')
      else if cleanup_interval m = 0 then Some (CbInvalidConfig ''cleanup_interval_seconds must be greater than 0'')
      else if \<not> local_port_ok (sub_message ''http_record_config'' m)
      then Some (CbInvalidConfig ''http_record_config.port must be between 1 and 65535'')
      else if \<not> local_port_ok (sub_message ''dns_record_config'' m)
      then Some (CbInvalidConfig ''dns_record_config.port must be between 1 and 65535'')
      else None)"

text \<open>A running server is known by the address that it is bound to.\<close>

record cb_server =
  sv_cfg :: pb_message
  sv_store :: mem_store
  sv_http_recording :: "string option"
  sv_dns_recording :: "string option"
  sv_http_polling :: "string option"

definition server_New :: "pb_message option \<Rightarrow> (server_error, cb_server) result" where
  "server_New cfg =
     (let m = (case cfg of None \<Rightarrow> Map.empty | Some m \<Rightarrow> m) in
      case ValidateConfig m of
        Some e \<Rightarrow> Inl e
      | None \<Rightarrow> Inr \<lparr>sv_cfg = m, sv_store = NewInMemoryInteractionStore (unat (interaction_ttl m) * 1000000000),
          sv_http_recording = None, sv_dns_recording = None, sv_http_polling = None\<rparr>)"

record 'w listen_ops =
  lo_listen_tcp :: "string \<Rightarrow> 'w \<Rightarrow> 'w \<times> bool"
  lo_resolve_udp :: "string \<Rightarrow> bool"
  lo_listen_udp :: "string \<Rightarrow> 'w \<Rightarrow> 'w \<times> bool"
  lo_shutdown_http :: "string \<Rightarrow> 'w \<Rightarrow> 'w"
  lo_close_udp :: "string \<Rightarrow> 'w \<Rightarrow> 'w"

definition bind_address :: "pb_message \<Rightarrow> string" where
  "bind_address m = get_string ''bind_address'' [] m @ '':'' @ itoa (unat (bind_port m))"

definition serveHTTP :: "'w listen_ops \<Rightarrow> string \<Rightarrow> 'w \<Rightarrow> 'w \<times> (server_error, string) result" where
  "serveHTTP lo bindaddr w = (case lo_listen_tcp lo bindaddr w of
       (w', False) \<Rightarrow> (w', Inl (CbListen bindaddr))
     | (w', True) \<Rightarrow> (w', Inr bindaddr))"

definition StartPolling :: "'w listen_ops \<Rightarrow> cb_server \<Rightarrow> 'w \<Rightarrow> 'w \<times> (server_error, cb_server) result" where
  "StartPolling lo s w =
     (let m = sub_message ''http_poll_config'' (sv_cfg s) in
      if sv_cfg s ''http_poll_config'' = None then (w, Inr s)
      else if \<not> starts_local m then (w, Inr s)
      else case serveHTTP lo (bind_address m) w of
          (w', Inl e) \<Rightarrow> (w', Inl e)
        | (w', Inr srv) \<Rightarrow> (w', Inr (s\<lparr>sv_http_polling := Some srv\<rparr>)))"

definition StartRecordingHTTP :: "'w listen_ops \<Rightarrow> cb_server \<Rightarrow> 'w \<Rightarrow> 'w \<times> (server_error, cb_server) result" where
  "StartRecordingHTTP lo s w =
     (let m = sub_message ''http_record_config'' (sv_cfg s) in
      if sv_cfg s ''http_record_config'' = None then (w, Inr s)
      else if \<not> starts_local m then (w, Inr s)
      else case serveHTTP lo (bind_address m) w of
          (w', Inl e) \<Rightarrow> (w', Inl e)
        | (w', Inr srv) \<Rightarrow> (w', Inr (s\<lparr>sv_http_recording := Some srv\<rparr>)))"

definition StartRecordingDNS :: "'w listen_ops \<Rightarrow> cb_server \<Rightarrow> 'w \<Rightarrow> 'w \<times> (server_error, cb_server) result" where
  "StartRecordingDNS lo s w =
     (let m = sub_message ''dns_record_config'' (sv_cfg s) in
      if sv_cfg s ''dns_record_config'' = None then (w, Inr s)
      else if \<not> starts_local m then (w, Inr s)
      else if \<not> lo_resolve_udp lo (bind_address m) then (w, Inl (CbResolve (bind_address m)))
      else case lo_listen_udp lo (bind_address m) w of
          (w', False) \<Rightarrow> (w', Inl (CbListen (bind_address m)))
        | (w', True) \<Rightarrow> (w', Inr (s\<lparr>sv_dns_recording := Some (bind_address m)\<rparr>)))"

definition shut_one :: "(string \<Rightarrow> 'w \<Rightarrow> 'w) \<Rightarrow> string option \<Rightarrow> 'w \<Rightarrow> 'w" where
  "shut_one close srv w = (case srv of None \<Rightarrow> w | Some a \<Rightarrow> close a w)"

definition server_Shutdown :: "'w listen_ops \<Rightarrow> cb_server \<Rightarrow> 'w \<Rightarrow> 'w" where
  "server_Shutdown lo s w =
     shut_one (lo_close_udp lo) (sv_dns_recording s)
       (shut_one (lo_shutdown_http lo) (sv_http_polling s)
         (shut_one (lo_shutdown_http lo) (sv_http_recording s) w))"

text \<open>The program of the server: it serves until its context ends; the DNS server is never started.\<close>

definition server_main :: "'w listen_ops \<Rightarrow> (string \<Rightarrow> string option) \<Rightarrow> (string \<Rightarrow> pb_message option) \<Rightarrow> string \<Rightarrow> 'w
    \<Rightarrow> 'w \<times> server_error option" where
  "server_main lo read unmarshal path w = (case ConfigFromFile read unmarshal path of
       Inl e \<Rightarrow> (w, Some e)
     | Inr cfg \<Rightarrow> (case server_New (Some cfg) of
           Inl e \<Rightarrow> (w, Some e)
         | Inr s \<Rightarrow> (case StartRecordingHTTP lo s w of
               (w1, Inl e) \<Rightarrow> (w1, Some e)
             | (w1, Inr s1) \<Rightarrow> (case StartPolling lo s1 w1 of
                   (w2, Inl e) \<Rightarrow> (w2, Some e)
                 | (w2, Inr s2) \<Rightarrow> (server_Shutdown lo s2 w2, None)))))"

section \<open>The scanner\<close>

record main_flags =
  mf_config :: string
  mf_debug :: int
  mf_output_dir :: string
  mf_target :: string
  mf_overrides :: "string list"
  mf_metrics :: bool
  mf_advisories :: string

datatype 'e main_error =
    ErrTargetRequired | ErrOutputDirRequired | ErrConfigRequired | ErrInvalidDebugLevel
  | ErrMarshalResults | ErrWriteResults | ErrMarshalAdvisories | ErrWriteAdvisories
  | LoadFailed config_error | OverridesFailed config_error | DirectoriesFailed config_error
  | EntrypointFailed "'e entry_error" | CallbackFailed server_error | RunFailed "'e run_error"
  | AdvisoriesFailed "'e registry_error"

definition validateFlags :: "main_flags \<Rightarrow> 'e main_error option" where
  "validateFlags fl =
     (if mf_debug fl < 0 \<or> 3 < mf_debug fl then Some ErrInvalidDebugLevel
      else if mf_advisories fl \<noteq> [] then None
      else if mf_target fl = [] then Some ErrTargetRequired
      else if mf_output_dir fl = [] then Some ErrOutputDirRequired
      else if mf_config fl = [] then Some ErrConfigRequired
      else None)"

text \<open>
  What the program finds at run time: the files, the listeners, the text format, the registry with
  the modules that are linked in, and the orders in which the services of a scan finish. The
  collector writes its file with \<open>me_write_metrics\<close>.
\<close>

record ('w, 't, 'v, 'e) main_env =
  me_read :: "string \<Rightarrow> string option"
  me_unmarshal :: "string \<Rightarrow> pb_message option"
  me_files :: "'w file_ops"
  me_listen :: "'w listen_ops"
  me_registry :: "(config, 'e, ('t, 'e) port_scanner, 'e fingerprinter, ('v, 'e) vuln_detector) registry"
  me_compile :: "string \<Rightarrow> (string \<Rightarrow> bool) option"
  me_workflow :: "config \<Rightarrow> workflow_config"
  me_init_callback :: "config \<Rightarrow> 'e option"
  me_fp_order :: "network_service list \<Rightarrow> nat list"
  me_dt_order :: "network_service list \<Rightarrow> nat list"
  me_context :: scan_context
  me_marshal_results :: "('t, 'v) scan_results \<Rightarrow> string option"
  me_marshal_advisories :: "'v list \<Rightarrow> string option"
  me_write :: "string \<Rightarrow> string \<Rightarrow> 'w \<Rightarrow> 'w \<times> bool"
  me_write_metrics :: "string \<Rightarrow> 'w \<Rightarrow> 'w"

definition startCallbackServer :: "'w listen_ops \<Rightarrow> pb_message option \<Rightarrow> 'w \<Rightarrow> 'w \<times> (server_error, cb_server) result" where
  "startCallbackServer lo cfg w = (case server_New cfg of
       Inl e \<Rightarrow> (w, Inl e)
     | Inr s \<Rightarrow> (case StartPolling lo s w of
           (w1, Inl e) \<Rightarrow> (w1, Inl e)
         | (w1, Inr s1) \<Rightarrow> (case StartRecordingHTTP lo s1 w1 of
               (w2, Inl e) \<Rightarrow> (w2, Inl e)
             | (w2, Inr s2) \<Rightarrow> StartRecordingDNS lo s2 w2)))"

definition callback_config :: "config \<Rightarrow> pb_message option" where
  "callback_config c = (case ClientsConfig c ''callback_server'' of Some (VMessage m) \<Rightarrow> Some m | _ \<Rightarrow> None)"

definition writeResults :: "('w, 't, 'v, 'e) main_env \<Rightarrow> string \<Rightarrow> ('t, 'v) scan_results \<Rightarrow> 'w \<Rightarrow> 'w \<times> 'e main_error option" where
  "writeResults me path results w = (case me_marshal_results me results of
       None \<Rightarrow> (w, Some ErrMarshalResults)
     | Some text \<Rightarrow> (case me_write me path text w of
           (w', False) \<Rightarrow> (w', Some ErrWriteResults)
         | (w', True) \<Rightarrow> (w', None)))"

definition writeMetrics :: "('w, 't, 'v, 'e) main_env \<Rightarrow> bool \<Rightarrow> string \<Rightarrow> 'w \<Rightarrow> 'w" where
  "writeMetrics me collector dir w = (if collector then me_write_metrics me (path_join [dir, ''metrics.textproto'']) w else w)"

definition dumpAdvisories :: "('w, 't, 'v, 'e) main_env \<Rightarrow> string \<Rightarrow> 'w \<Rightarrow> 'w \<times> 'e main_error option" where
  "dumpAdvisories me path w = (case entrypoint_Advisories (me_registry me) config_Default of
       Inl e \<Rightarrow> (w, Some (AdvisoriesFailed e))
     | Inr advisories \<Rightarrow> (case me_marshal_advisories me advisories of
           None \<Rightarrow> (w, Some ErrMarshalAdvisories)
         | Some text \<Rightarrow> (case me_write me path text w of
               (w', False) \<Rightarrow> (w', Some ErrWriteAdvisories)
             | (w', True) \<Rightarrow> (w', None))))"

text \<open>The scan itself, and what is written after it.\<close>

definition scan_limit :: "config \<Rightarrow> int" where
  "scan_limit c = sint (get_int32 ''max_concurrency'' 5 (sub_message ''performance'' (GlobalConfig c)))"

definition main_scan :: "('w, 't, 'v, 'e) main_env \<Rightarrow> main_flags \<Rightarrow> config \<Rightarrow> ('t, 'v, 'e) simple_runner \<Rightarrow> 'w
    \<Rightarrow> ('w \<times> 'e main_error option) option" where
  "main_scan me fl c r w =
     (case Run (me_fp_order me) (me_dt_order me) (scan_limit c) (me_context me) r (mf_target fl) of
        None \<Rightarrow> None
      | Some (runs, outcome) \<Rightarrow>
          let w1 = writeMetrics me (mf_metrics fl) (cfg_work_dir c) w in
          Some (case outcome of
              Inl e \<Rightarrow> (w1, Some (RunFailed e))
            | Inr results \<Rightarrow> writeResults me (path_join [cfg_work_dir c, ''results.textproto'']) results w1))"

text \<open>From the entrypoint to the end of the scan; the listeners are shut down when it returns.\<close>

definition main_entry :: "('w, 't, 'v, 'e) main_env \<Rightarrow> main_flags \<Rightarrow> config \<Rightarrow> 'w \<Rightarrow> ('w \<times> 'e main_error option) option" where
  "main_entry me fl c w =
     (case entrypoint_New (me_compile me) (me_workflow me) (me_init_callback me) (me_registry me) (Some c) of
        Inl e \<Rightarrow> Some (w, Some (EntrypointFailed e))
      | Inr r \<Rightarrow> (case startCallbackServer (me_listen me) (callback_config c) w of
            (w1, Inl e) \<Rightarrow> Some (w1, Some (CallbackFailed e))
          | (w1, Inr srv) \<Rightarrow>
              map_option (\<lambda>(w2, err). (server_Shutdown (me_listen me) srv w2, err)) (main_scan me fl c r w1)))"

definition main_run :: "('w, 't, 'v, 'e) main_env \<Rightarrow> main_flags \<Rightarrow> 'w \<Rightarrow> ('w \<times> 'e main_error option) option" where
  "main_run me fl w =
     (case validateFlags fl of
        Some e \<Rightarrow> Some (w, Some e)
      | None \<Rightarrow>
          if mf_advisories fl \<noteq> [] then Some (dumpAdvisories me (mf_advisories fl) w)
          else case FromFile (me_read me) (me_unmarshal me) (mf_config fl) of
              Inl e \<Rightarrow> Some (w, Some (LoadFailed e))
            | Inr c0 \<Rightarrow> (case ApplyOverrides config_descriptor c0 (mf_overrides fl) of
                  (c1, Some e) \<Rightarrow> Some (w, Some (OverridesFailed e))
                | (c1, None) \<Rightarrow> (case CreateDirectories (me_files me) c1 (mf_output_dir fl) w of
                      (w1, c2, Some e) \<Rightarrow> Some (w1, Some (DirectoriesFailed e))
                    | (w1, c2, None) \<Rightarrow>
                        map_option (\<lambda>(w2, err). (fst (config_Close (me_files me) c2 w2), err)) (main_entry me fl c2 w1))))"


section \<open>The servers that run\<close>

lemma ValidateConfig_ok:
  "ValidateConfig m = None \<longleftrightarrow>
     m ''http_poll_config'' \<noteq> None \<and> interaction_ttl m \<noteq> 0 \<and> cleanup_interval m \<noteq> 0
     \<and> (\<forall>k \<in> {''http_record_config'', ''dns_record_config''}. starts_local (sub_message k m) \<longrightarrow>
          1 \<le> unat (bind_port (sub_message k m)) \<and> unat (bind_port (sub_message k m)) \<le> 65535)"
proof -
  have port: "local_port_ok k \<longleftrightarrow> (starts_local k \<longrightarrow> 1 \<le> unat (bind_port k) \<and> unat (bind_port k) \<le> 65535)" for k
    by (simp add: local_port_ok_def word_le_nat_alt word_less_nat_alt not_le not_less) linarith
  show ?thesis by (auto simp: ValidateConfig_def port)
qed

text \<open>The port of the server that is polled is the one that is not checked.\<close>

lemma poll_port_unchecked:
  "ValidateConfig [''http_poll_config'' \<mapsto> VMessage [''mode'' \<mapsto> VEnum 1, ''bind_port'' \<mapsto> VUint32 p]] = None"
  by (simp add: ValidateConfig_ok interaction_ttl_def cleanup_interval_def get_uint32_def sub_message_def starts_local_def
      endpoint_mode_def get_enum_def)

lemma no_poll_config: "ValidateConfig m = Some (CbInvalidConfig ''http_poll_config is required'')"
  if "m ''http_poll_config'' = None"
  using that by (simp add: ValidateConfig_def)

lemma startCallbackServer_absent [simp]:
  "startCallbackServer lo None w = (w, Inl (CbInvalidConfig ''http_poll_config is required''))"
  by (simp add: startCallbackServer_def server_New_def no_poll_config)

text \<open>
  The listeners of a world: a successful call adds one, a failed one adds none, and a shutdown
  removes the one that it is given.
\<close>

definition lawful_listeners :: "'w listen_ops \<Rightarrow> ('w \<Rightarrow> (bool \<times> string) list) \<Rightarrow> bool" where
  "lawful_listeners lo open \<longleftrightarrow>
     (\<forall>a w. open (fst (lo_listen_tcp lo a w)) = (if snd (lo_listen_tcp lo a w) then (True, a) # open w else open w)
       \<and> open (fst (lo_listen_udp lo a w)) = (if snd (lo_listen_udp lo a w) then (False, a) # open w else open w)
       \<and> open (lo_shutdown_http lo a w) = remove1 (True, a) (open w)
       \<and> open (lo_close_udp lo a w) = remove1 (False, a) (open w))"

definition server_listeners :: "cb_server \<Rightarrow> (bool \<times> string) list" where
  "server_listeners s = map (Pair False) (case_option [] (\<lambda>a. [a]) (sv_dns_recording s))
     @ map (Pair True) (case_option [] (\<lambda>a. [a]) (sv_http_recording s))
     @ map (Pair True) (case_option [] (\<lambda>a. [a]) (sv_http_polling s))"

definition fresh_server :: "cb_server \<Rightarrow> bool" where
  "fresh_server s \<longleftrightarrow> sv_http_recording s = None \<and> sv_dns_recording s = None \<and> sv_http_polling s = None"

lemma server_New_fresh: "server_New cfg = Inr s \<Longrightarrow> fresh_server s"
  by (auto simp: server_New_def fresh_server_def Let_def split: option.splits)

lemma StartPolling_listeners:
  assumes "lawful_listeners lo open" and "StartPolling lo s w = (w', Inr s')" and "sv_http_polling s = None"
  shows "open w' = map (Pair True) (case_option [] (\<lambda>a. [a]) (sv_http_polling s')) @ open w
    \<and> s' = s\<lparr>sv_http_polling := sv_http_polling s'\<rparr>"
proof -
  from assms(1) have "open (fst (lo_listen_tcp lo a v)) = (if snd (lo_listen_tcp lo a v) then (True, a) # open v else open v)" for a v
    by (simp add: lawful_listeners_def)
  from this [of "bind_address (sub_message ''http_poll_config'' (sv_cfg s))" w] assms(2,3) show ?thesis
    by (cases s) (auto simp: StartPolling_def serveHTTP_def Let_def split: if_splits prod.splits bool.splits)
qed

lemma StartRecordingHTTP_listeners:
  assumes "lawful_listeners lo open" and "StartRecordingHTTP lo s w = (w', Inr s')" and "sv_http_recording s = None"
  shows "open w' = map (Pair True) (case_option [] (\<lambda>a. [a]) (sv_http_recording s')) @ open w
    \<and> s' = s\<lparr>sv_http_recording := sv_http_recording s'\<rparr>"
proof -
  from assms(1) have "open (fst (lo_listen_tcp lo a v)) = (if snd (lo_listen_tcp lo a v) then (True, a) # open v else open v)" for a v
    by (simp add: lawful_listeners_def)
  from this [of "bind_address (sub_message ''http_record_config'' (sv_cfg s))" w] assms(2,3) show ?thesis
    by (cases s) (auto simp: StartRecordingHTTP_def serveHTTP_def Let_def split: if_splits prod.splits bool.splits)
qed

lemma StartRecordingDNS_listeners:
  assumes "lawful_listeners lo open" and "StartRecordingDNS lo s w = (w', Inr s')" and "sv_dns_recording s = None"
  shows "open w' = map (Pair False) (case_option [] (\<lambda>a. [a]) (sv_dns_recording s')) @ open w
    \<and> s' = s\<lparr>sv_dns_recording := sv_dns_recording s'\<rparr>"
proof -
  from assms(1) have "open (fst (lo_listen_udp lo a v)) = (if snd (lo_listen_udp lo a v) then (False, a) # open v else open v)" for a v
    by (simp add: lawful_listeners_def)
  from this [of "bind_address (sub_message ''dns_record_config'' (sv_cfg s))" w] assms(2,3) show ?thesis
    by (cases s) (auto simp: StartRecordingDNS_def Let_def split: if_splits prod.splits bool.splits)
qed

lemma startCallbackServer_listeners:
  assumes "lawful_listeners lo open" and "startCallbackServer lo cfg w = (w', Inr s)"
  shows "open w' = server_listeners s @ open w"
proof -
  from assms(2) obtain s0 w1 s1 w2 s2 where run: "server_New cfg = Inr s0" "StartPolling lo s0 w = (w1, Inr s1)"
      "StartRecordingHTTP lo s1 w1 = (w2, Inr s2)" "StartRecordingDNS lo s2 w2 = (w', Inr s)"
    by (auto simp: startCallbackServer_def split: sum.splits prod.splits)
  note fresh = server_New_fresh [OF run(1), unfolded fresh_server_def]
  from StartPolling_listeners [OF assms(1) run(2)] fresh
  have one: "open w1 = map (Pair True) (case_option [] (\<lambda>a. [a]) (sv_http_polling s1)) @ open w"
      "s1 = s0\<lparr>sv_http_polling := sv_http_polling s1\<rparr>" by simp_all
  have "sv_http_recording s1 = None" by (subst one(2)) (simp add: fresh)
  from StartRecordingHTTP_listeners [OF assms(1) run(3) this]
  have two: "open w2 = map (Pair True) (case_option [] (\<lambda>a. [a]) (sv_http_recording s2)) @ open w1"
      "s2 = s1\<lparr>sv_http_recording := sv_http_recording s2\<rparr>" by simp_all
  have "sv_dns_recording s2 = None" by (subst two(2), simp, subst one(2)) (simp add: fresh)
  from StartRecordingDNS_listeners [OF assms(1) run(4) this]
  have three: "open w' = map (Pair False) (case_option [] (\<lambda>a. [a]) (sv_dns_recording s)) @ open w2"
      "s = s2\<lparr>sv_dns_recording := sv_dns_recording s\<rparr>" by simp_all
  have "sv_http_recording s = sv_http_recording s2" by (subst three(2)) simp
  moreover have "sv_http_polling s = sv_http_polling s1" by (subst three(2), simp, subst two(2)) simp
  ultimately show ?thesis by (simp add: three(1) two(1) one(1) server_listeners_def)
qed

text \<open>What was started before a scan is closed after it, whatever the scan did in between.\<close>

lemma server_Shutdown_listeners:
  assumes "lawful_listeners lo open" and "startCallbackServer lo cfg w = (w1, Inr s)" and "open w2 = open w1"
  shows "open (server_Shutdown lo s w2) = open w"
proof -
  from assms(1) have close: "open (lo_shutdown_http lo a v) = remove1 (True, a) (open v)"
      "open (lo_close_udp lo a v) = remove1 (False, a) (open v)" for a v
    by (simp_all add: lawful_listeners_def)
  from startCallbackServer_listeners [OF assms(1,2)] assms(3) have "open w2 = server_listeners s @ open w" by simp
  then show ?thesis
    by (cases "sv_dns_recording s"; cases "sv_http_recording s"; cases "sv_http_polling s")
      (auto simp: server_Shutdown_def shut_one_def server_listeners_def close)
qed

text \<open>The program of the server does not depend on UDP: it never records a query of DNS.\<close>

lemma server_main_no_dns:
  "server_main (lo\<lparr>lo_listen_udp := udp, lo_resolve_udp := known\<rparr>) read unmarshal path w
     = server_main lo read unmarshal path w"
proof -
  let ?lo = "lo\<lparr>lo_listen_udp := udp, lo_resolve_udp := known\<rparr>"
  have serve: "serveHTTP ?lo = serveHTTP lo" by (simp add: fun_eq_iff serveHTTP_def)
  have "StartRecordingHTTP ?lo = StartRecordingHTTP lo" "StartPolling ?lo = StartPolling lo"
    unfolding fun_eq_iff StartRecordingHTTP_def StartPolling_def serve by simp_all
  moreover have "server_Shutdown ?lo = server_Shutdown lo" by (simp add: fun_eq_iff server_Shutdown_def)
  ultimately show ?thesis by (simp only: server_main_def)
qed

section \<open>A run of the scanner\<close>

lemma validateFlags_iff:
  "validateFlags fl = None \<longleftrightarrow> 0 \<le> mf_debug fl \<and> mf_debug fl \<le> 3
     \<and> (mf_advisories fl = [] \<longrightarrow> mf_target fl \<noteq> [] \<and> mf_output_dir fl \<noteq> [] \<and> mf_config fl \<noteq> [])"
  by (auto simp: validateFlags_def)

text \<open>A run that only lists the advisories touches one file and starts nothing.\<close>

lemma main_run_advisories:
  fixes me :: "('w, 't, 'v, 'e) main_env"
  assumes "0 \<le> mf_debug fl" and "mf_debug fl \<le> 3" and "mf_advisories fl \<noteq> []"
  shows "main_run me fl w = Some (dumpAdvisories me (mf_advisories fl) w)"
proof -
  from assms have "(validateFlags fl :: 'e main_error option) = None" by (simp add: validateFlags_iff)
  with assms(3) show ?thesis by (simp add: main_run_def)
qed

lemma main_run_no_file:
  fixes me :: "('w, 't, 'v, 'e) main_env"
  assumes "(validateFlags fl :: 'e main_error option) = None" and "mf_advisories fl = []" and "me_read me (mf_config fl) = None"
  shows "\<exists>e. main_run me fl w = Some (w, Some (LoadFailed e))"
  using assms by (simp add: main_run_def FromFile_def)

lemma main_run_prepared:
  fixes me :: "('w, 't, 'v, 'e) main_env"
  assumes "(validateFlags fl :: 'e main_error option) = None" and "mf_advisories fl = []"
    and "FromFile (me_read me) (me_unmarshal me) (mf_config fl) = Inr c0"
    and "ApplyOverrides config_descriptor c0 (mf_overrides fl) = (c1, None)"
    and "CreateDirectories (me_files me) c1 (mf_output_dir fl) w = (w1, c2, None)"
  shows "main_run me fl w =
    map_option (\<lambda>(w2, err). (fst (config_Close (me_files me) c2 w2), err)) (main_entry me fl c2 w1)"
  using assms by (simp add: main_run_def)

lemma writeResults_ok:
  "writeResults me path results w = (w', None) \<longleftrightarrow>
     (\<exists>text. me_marshal_results me results = Some text \<and> me_write me path text w = (w', True))"
  by (auto simp: writeResults_def split: option.splits prod.splits bool.splits)

lemma main_scan_ok:
  "main_scan me fl c r w = Some (w', None) \<longleftrightarrow>
     (\<exists>runs results text. Run (me_fp_order me) (me_dt_order me) (scan_limit c) (me_context me) r (mf_target fl)
          = Some (runs, Inr results)
        \<and> me_marshal_results me results = Some text
        \<and> me_write me (path_join [cfg_work_dir c, ''results.textproto'']) text
            (writeMetrics me (mf_metrics fl) (cfg_work_dir c) w) = (w', True))"
  by (auto simp: main_scan_def Let_def writeResults_ok split: option.splits sum.splits)

lemma main_scan_blocks:
  "main_scan me fl c r w = None \<longleftrightarrow>
     Run (me_fp_order me) (me_dt_order me) (scan_limit c) (me_context me) r (mf_target fl) = None"
  by (auto simp: main_scan_def Let_def split: option.splits)

lemma main_entry_blocks:
  "main_entry me fl c w = None \<longleftrightarrow>
     (\<exists>r w1 srv. entrypoint_New (me_compile me) (me_workflow me) (me_init_callback me) (me_registry me) (Some c) = Inr r
        \<and> startCallbackServer (me_listen me) (callback_config c) w = (w1, Inr srv)
        \<and> main_scan me fl c r w1 = None)"
  by (auto simp: main_entry_def split: sum.splits prod.splits)

lemma main_entry_ok:
  "main_entry me fl c w = Some (w', None) \<longleftrightarrow>
     (\<exists>r w1 srv w2. entrypoint_New (me_compile me) (me_workflow me) (me_init_callback me) (me_registry me) (Some c) = Inr r
        \<and> startCallbackServer (me_listen me) (callback_config c) w = (w1, Inr srv)
        \<and> main_scan me fl c r w1 = Some (w2, None) \<and> w' = server_Shutdown (me_listen me) srv w2)"
  by (auto simp: main_entry_def split: sum.splits prod.splits)

text \<open>Without a callback server in its configuration the program never scans.\<close>

lemma main_entry_needs_server:
  assumes "callback_config c = None"
  shows "\<exists>e. main_entry me fl c w = Some (w, Some e)"
  using assms by (auto simp: main_entry_def split: sum.splits)

lemma CreateDirectories_config:
  assumes "CreateDirectories fs c dir w = (w', c', None)"
  shows "dir \<noteq> []" and "cfg_work_dir c' = dir" and "cfg_temp_dir c' = path_join [dir, ''tempfiles'']" and "cfg_proto c' = cfg_proto c"
  using assms
  by (auto simp: CreateDirectories_def Let_def split: if_splits prod.splits bool.splits)

lemma config_Close_removes:
  assumes "CreateDirectories fs c dir w = (w', c', None)"
  shows "fst (config_Close fs c' v) = fst (fs_remove_all fs (path_join [dir, ''tempfiles'']) v)"
  by (simp add: config_Close_def CreateDirectories_config(3) [OF assms] path_join_nonempty CreateDirectories_config(1) [OF assms] split: prod.splits)

text \<open>C4. Once its flags, its configuration and its directories are good, the program blocks exactly when
  the scan blocks, and otherwise removes its temporary directory last, whatever failed before. It reports
  success exactly when the entrypoint was built, the callback server started, the scan returned results
  and they were written to \<open>results.textproto\<close> after the metrics, with the listeners shut down before
  the directory goes; with no callback server in the configuration it fails without scanning.\<close>

theorem main_run_exact:
  fixes me :: "('w, 't, 'v, 'e) main_env"
  assumes "(validateFlags fl :: 'e main_error option) = None" and "mf_advisories fl = []"
    and "FromFile (me_read me) (me_unmarshal me) (mf_config fl) = Inr c0"
    and "ApplyOverrides config_descriptor c0 (mf_overrides fl) = (c1, None)"
    and "CreateDirectories (me_files me) c1 (mf_output_dir fl) w = (w1, c2, None)"
  defines "cleaned \<equiv> \<lambda>v. fst (fs_remove_all (me_files me) (path_join [mf_output_dir fl, ''tempfiles'']) v)"
    and "ready \<equiv> \<lambda>r w2 srv. entrypoint_New (me_compile me) (me_workflow me) (me_init_callback me) (me_registry me) (Some c2) = Inr r
           \<and> startCallbackServer (me_listen me) (callback_config c2) w1 = (w2, Inr srv)"
    and "scan \<equiv> \<lambda>r. Run (me_fp_order me) (me_dt_order me) (scan_limit c2) (me_context me) r (mf_target fl)"
  shows "(main_run me fl w = None \<longleftrightarrow> (\<exists>r w2 srv. ready r w2 srv \<and> scan r = None))
    \<and> (\<forall>w' err. main_run me fl w = Some (w', err) \<longrightarrow> w' \<in> range cleaned)
    \<and> (\<forall>w'. main_run me fl w = Some (w', None) \<longleftrightarrow>
        (\<exists>r w2 srv runs results text w3. ready r w2 srv \<and> scan r = Some (runs, Inr results)
           \<and> me_marshal_results me results = Some text
           \<and> me_write me (path_join [mf_output_dir fl, ''results.textproto'']) text
               (writeMetrics me (mf_metrics fl) (mf_output_dir fl) w2) = (w3, True)
           \<and> w' = cleaned (server_Shutdown (me_listen me) srv w3)))
    \<and> (callback_config c2 = None \<longrightarrow> (\<exists>e. main_run me fl w = Some (cleaned w1, Some e)))"
proof -
  note run = main_run_prepared [OF assms(1-5), unfolded config_Close_removes [OF assms(5)]]
  note dir = CreateDirectories_config(2) [OF assms(5)]
  have "main_run me fl w = None \<longleftrightarrow> (\<exists>r w2 srv. ready r w2 srv \<and> scan r = None)"
    by (auto simp: run main_entry_blocks main_scan_blocks ready_def scan_def)
  moreover have "\<forall>w' err. main_run me fl w = Some (w', err) \<longrightarrow> w' \<in> range cleaned"
    by (auto simp: run cleaned_def)
  moreover have "main_run me fl w = Some (w', None) \<longleftrightarrow>
        (\<exists>r w2 srv runs results text w3. ready r w2 srv \<and> scan r = Some (runs, Inr results)
           \<and> me_marshal_results me results = Some text
           \<and> me_write me (path_join [mf_output_dir fl, ''results.textproto'']) text
               (writeMetrics me (mf_metrics fl) (mf_output_dir fl) w2) = (w3, True)
           \<and> w' = cleaned (server_Shutdown (me_listen me) srv w3))" for w'
  proof -
    have "main_run me fl w = Some (w', None) \<longleftrightarrow> (\<exists>v. main_entry me fl c2 w1 = Some (v, None) \<and> w' = cleaned v)"
      by (auto simp: run cleaned_def)
    then show ?thesis unfolding main_entry_ok main_scan_ok dir ready_def scan_def by blast
  qed
  moreover have "callback_config c2 = None \<longrightarrow> (\<exists>e. main_run me fl w = Some (cleaned w1, Some e))"
    using main_entry_needs_server [of c2 me fl w1] by (auto simp: run cleaned_def)
  ultimately show ?thesis by blast
qed

section \<open>A sample run\<close>

text \<open>The world is the log of what was done to it, the last first.\<close>

definition sample_server :: pb_message where
  "sample_server = [''http_poll_config'' \<mapsto> VMessage [''mode'' \<mapsto> VEnum 1, ''bind_port'' \<mapsto> VUint32 80]]"

definition sample_files :: "string list file_ops" where
  "sample_files = \<lparr>fs_stat = (\<lambda>_ _. True), fs_mkdir_all = (\<lambda>p w. ((''mkdir '' @ p) # w, True)),
     fs_remove_all = (\<lambda>p w. ((''remove '' @ p) # w, True))\<rparr>"

definition sample_listen :: "string list listen_ops" where
  "sample_listen = \<lparr>lo_listen_tcp = (\<lambda>a w. ((''listen '' @ a) # w, True)), lo_resolve_udp = (\<lambda>_. True),
     lo_listen_udp = (\<lambda>a w. (w, False)), lo_shutdown_http = (\<lambda>a w. (''shutdown '' @ a) # w), lo_close_udp = (\<lambda>a w. w)\<rparr>"

definition sample_scanner :: "(nat, nat) port_scanner" where
  "sample_scanner = \<lparr>psm_name = ''p'', psm_scan = (\<lambda>_. Inr \<lparr>pr_target = 1, pr_services = []\<rparr>)\<rparr>"

definition sample_env :: "(string list, nat, nat, nat) main_env" where
  "sample_env = \<lparr>me_read = (\<lambda>_. Some []),
     me_unmarshal = (\<lambda>_. Some [''clients'' \<mapsto> VMessage [''callback_server'' \<mapsto> VMessage sample_server]]),
     me_files = sample_files, me_listen = sample_listen,
     me_registry = NewRegistry\<lparr>portScanners := [''p'' \<mapsto> (\<lambda>_. Inr sample_scanner)]\<rparr>,
     me_compile = (\<lambda>_. None), me_workflow = (\<lambda>_. \<lparr>wf_portscan = ''p'', wf_fingerprinters = None, wf_detectors = None\<rparr>),
     me_init_callback = (\<lambda>_. None), me_fp_order = (\<lambda>ss. [0..<length ss]), me_dt_order = (\<lambda>ss. [0..<length ss]),
     me_context = None, me_marshal_results = (\<lambda>_. Some []), me_marshal_advisories = (\<lambda>_. None),
     me_write = (\<lambda>p _ w. ((''write '' @ p) # w, True)), me_write_metrics = (\<lambda>p w. (''metrics '' @ p) # w)\<rparr>"

definition sample_flags :: main_flags where
  "sample_flags = \<lparr>mf_config = ''c'', mf_debug = 0, mf_output_dir = ''/o'', mf_target = ''t'', mf_overrides = [],
     mf_metrics = True, mf_advisories = []\<rparr>"

lemma sample_server_starts:
  "\<exists>srv. startCallbackServer sample_listen (Some sample_server) w = (''listen :80'' # w, Inr srv)
     \<and> sv_http_polling srv = Some '':80'' \<and> sv_http_recording srv = None \<and> sv_dns_recording srv = None"
proof -
  let ?poll = "[''mode'' \<mapsto> VEnum 1, ''bind_port'' \<mapsto> VUint32 80]"
  have "itoa 80 = ''80''" by code_simp
  then have "bind_address ?poll = '':80''"
    by (simp add: bind_address_def get_string_def bind_port_def get_uint32_def)
  moreover have "sub_message ''http_poll_config'' sample_server = ?poll" by (simp add: sample_server_def sub_message_def)
  moreover have "starts_local ?poll" by (simp add: starts_local_def endpoint_mode_def get_enum_def)
  moreover have "ValidateConfig sample_server = None" by (simp only: sample_server_def poll_port_unchecked)
  moreover have "sample_server ''http_poll_config'' \<noteq> None" "sample_server ''http_record_config'' = None"
    "sample_server ''dns_record_config'' = None" by (simp_all add: sample_server_def)
  ultimately show ?thesis
    by (simp add: startCallbackServer_def server_New_def Let_def StartPolling_def serveHTTP_def StartRecordingHTTP_def
        StartRecordingDNS_def sample_listen_def)
qed

theorem main_run_exact_witness:
  "\<exists>w. main_run sample_env sample_flags [] = Some (w, None)
     \<and> w = [''remove /o/tempfiles'', ''shutdown :80'', ''write /o/results.textproto'', ''metrics /o/metrics.textproto'',
            ''listen :80'', ''mkdir /o/cache'', ''mkdir /o/artifacts'', ''mkdir /o/tempfiles'']"
proof -
  let ?m = "[''clients'' \<mapsto> VMessage [''callback_server'' \<mapsto> VMessage sample_server]]"
  let ?c = "config_FromProto (Some ?m)"
  let ?w1 = "[''mkdir /o/cache'', ''mkdir /o/artifacts'', ''mkdir /o/tempfiles'']"
  let ?c2 = "?c\<lparr>cfg_work_dir := ''/o'', cfg_temp_dir := ''/o/tempfiles'', cfg_artifacts_dir := ''/o/artifacts'', cfg_cache_dir := ''/o/cache''\<rparr>"
  let ?r = "\<lparr>r_portScanner = Some sample_scanner, r_fingerprinters = [], r_detectors = []\<rparr> :: (nat, nat, nat) simple_runner"
  have paths: "path_join [''/o'', ''tempfiles''] = ''/o/tempfiles''" "path_join [''/o'', ''artifacts''] = ''/o/artifacts''"
    "path_join [''/o'', ''cache''] = ''/o/cache''" "path_join [''/o'', ''results.textproto''] = ''/o/results.textproto''"
    "path_join [''/o'', ''metrics.textproto''] = ''/o/metrics.textproto''"
    by code_simp+
  have flags: "validateFlags sample_flags = None" "mf_advisories sample_flags = []"
    by (simp_all add: validateFlags_iff sample_flags_def)
  have load: "FromFile (me_read sample_env) (me_unmarshal sample_env) (mf_config sample_flags) = Inr ?c"
    by (simp add: FromFile_def sample_env_def)
  have over: "ApplyOverrides config_descriptor ?c (mf_overrides sample_flags) = (?c, None)"
    by (simp add: sample_flags_def)
  have dirs: "CreateDirectories (me_files sample_env) ?c (mf_output_dir sample_flags) [] = (?w1, ?c2, None)"
    by (simp add: CreateDirectories_def sample_env_def sample_files_def sample_flags_def paths)
  have entry: "entrypoint_New (me_compile sample_env) (me_workflow sample_env) (me_init_callback sample_env)
      (me_registry sample_env) (Some ?c2) = Inr ?r"
    by (simp add: entrypoint_New_def runner_New_def GetPortScanner_def GetFingerprinters_def GetDetectors_def sample_env_def
        register_or_keep_def runner_RegisterPortScanner_def)
  have cb: "callback_config ?c2 = Some sample_server"
    by (simp add: callback_config_def ClientsConfig_def sub_message_def config_FromProto_def)
  obtain srv where srv: "startCallbackServer (me_listen sample_env) (callback_config ?c2) ?w1 = (''listen :80'' # ?w1, Inr srv)"
    "sv_http_polling srv = Some '':80''" "sv_http_recording srv = None" "sv_dns_recording srv = None"
    unfolding cb using sample_server_starts by (auto simp: sample_env_def)
  have run: "Run (me_fp_order sample_env) (me_dt_order sample_env) (scan_limit ?c2) (me_context sample_env) ?r (mf_target sample_flags)
      = Some ([], Inr \<lparr>sc_status = SUCCEEDED, sc_alive = False, sc_findings = [], sc_target = 1, sc_services = [], sc_reports = []\<rparr>)"
    by (simp add: Run_def PortScanStep_def FingerprintStep_def DetectStep_def sample_scanner_def degraded_def findings_of_def)
  show ?thesis
    using main_run_exact [OF flags load over dirs] entry srv run
    by (simp add: sample_env_def sample_flags_def sample_files_def sample_listen_def writeMetrics_def paths server_Shutdown_def shut_one_def)
qed

end
