(* ===== verification/ServiceProbes.thy ===== *)
theory ServiceProbes
  imports Runner UrlParse
begin

text \<open>
  The two fingerprinters that probe a service with one connection: \<open>src/plugins/fingerprint/iswebservice\<close>,
  which asks for the web root, and \<open>src/plugins/fingerprint/sslsupport\<close>, which opens a TLS
  connection. Both answer with the service, enriched in place. The network is a world \<open>'w\<close>.
\<close>

section \<open>Operations\<close>

datatype service_probe_error = NoAuthority endpoint_error | BadWebRoot | ProbeCancelled

text \<open>What the network answers: a result, or an error that \<open>errors.Is\<close> may know as \<open>context.Canceled\<close>.\<close>

datatype 'a probe_answer = Answered 'a | Unreachable | Cancelled

text \<open>The shared client is \<open>send\<close>; whatever status it brings back, an answer is an answer.\<close>

definition isweb_Fingerprint :: "(url \<Rightarrow> 'w \<Rightarrow> 'w \<times> nat probe_answer) \<Rightarrow> network_service \<Rightarrow> 'w
    \<Rightarrow> 'w \<times> (service_probe_error, network_service list) result" where
  "isweb_Fingerprint send service w = (case BuildWebRoot service of
       Inl e \<Rightarrow> (w, Inl (NoAuthority e))
     | Inr webroot \<Rightarrow> (case url_Parse webroot of
           None \<Rightarrow> (w, Inl BadWebRoot)
         | Some u \<Rightarrow> (case send u w of
               (w', Cancelled) \<Rightarrow> (w', Inl ProbeCancelled)
             | (w', Unreachable) \<Rightarrow> (w', Inr [service])
             | (w', Answered _) \<Rightarrow>
                 (w', Inr [if ''GET'' \<in> set (sv_http_methods service) then service
                           else service\<lparr>sv_http_methods := sv_http_methods service @ [''GET'']\<rparr>]))))"

text \<open>
  \<open>dial\<close> is the TLS dialer: a connection is known by the version that it negotiated, with
  \<open>crypto/tls\<close> naming the versions; a connection that is not one of TLS is closed and an error.
\<close>

definition tls_VersionName :: "16 word \<Rightarrow> string" where
  "tls_VersionName v =
     (if v = 0x0300 then ''SSLv3'' else if v = 0x0301 then ''TLS 1.0'' else if v = 0x0302 then ''TLS 1.1''
      else if v = 0x0303 then ''TLS 1.2'' else if v = 0x0304 then ''TLS 1.3''
      else ''0x'' @ map (\<lambda>k. upper_hex (unat v div 16 ^ k mod 16)) [3, 2, 1, 0])"

definition connect :: "(string \<Rightarrow> 'w \<Rightarrow> 'w \<times> 16 word option probe_answer) \<Rightarrow> string \<Rightarrow> 'w \<Rightarrow> 'w \<times> 16 word probe_answer" where
  "connect dial addr w = (case dial addr w of
       (w', Cancelled) \<Rightarrow> (w', Cancelled)
     | (w', Unreachable) \<Rightarrow> (w', Unreachable)
     | (w', Answered None) \<Rightarrow> (w', Unreachable)
     | (w', Answered (Some v)) \<Rightarrow> (w', Answered v))"

definition ssl_Fingerprint :: "(string \<Rightarrow> 'w \<Rightarrow> 'w \<times> 16 word option probe_answer) \<Rightarrow> network_service \<Rightarrow> 'w
    \<Rightarrow> 'w \<times> (service_probe_error, network_service list) result" where
  "ssl_Fingerprint dial service w =
     (if HasTLS service then (w, Inr [service])
      else case ToURIAuthority (get_endpoint service) of
          Inl e \<Rightarrow> (w, Inl (NoAuthority e))
        | Inr authority \<Rightarrow> (case connect dial authority w of
              (w', Cancelled) \<Rightarrow> (w', Inl ProbeCancelled)
            | (w', Unreachable) \<Rightarrow> (w', Inr [service])
            | (w', Answered v) \<Rightarrow> (w', Inr [service\<lparr>sv_ssl := sv_ssl service @ [tls_VersionName v]\<rparr>])))"

section \<open>As modules of the runner\<close>

fun probe_failure :: "service_probe_error \<Rightarrow> service_probe_error module_error" where
  "probe_failure (NoAuthority ErrEndpointMissingAddress) = EndpointMissingAddress"
| "probe_failure e = OtherError e"

definition isweb_module :: "(url \<Rightarrow> nat probe_answer) \<Rightarrow> service_probe_error fingerprinter" where
  "isweb_module send = \<lparr>fpm_name = ''fp/iswebservice'',
     fpm_run = (\<lambda>s. map_sum probe_failure id (snd (isweb_Fingerprint (\<lambda>u w. (w, send u)) s ())))\<rparr>"

definition ssl_module :: "(string \<Rightarrow> 16 word option probe_answer) \<Rightarrow> service_probe_error fingerprinter" where
  "ssl_module dial = \<lparr>fpm_name = ''fp/sslsupport'',
     fpm_run = (\<lambda>s. map_sum probe_failure id (snd (ssl_Fingerprint (\<lambda>a w. (w, dial a)) s ())))\<rparr>"

section \<open>What a probe finds\<close>

text \<open>The connection is not opened again for a service that is known to have TLS.\<close>

lemma ssl_Fingerprint_known: "HasTLS s \<Longrightarrow> ssl_Fingerprint dial s w = (w, Inr [s])"
  by (simp add: ssl_Fingerprint_def)

lemma ssl_Fingerprint_result:
  assumes "ssl_Fingerprint dial s w = (w', Inr res)"
  shows "\<exists>s'. res = [s'] \<and> s' = s\<lparr>sv_ssl := sv_ssl s'\<rparr> \<and> (\<exists>new. sv_ssl s' = sv_ssl s @ new)"
  using assms by (cases s) (auto simp: ssl_Fingerprint_def split: if_splits sum.splits prod.splits probe_answer.splits)

lemma isweb_Fingerprint_result:
  assumes "isweb_Fingerprint send s w = (w', Inr res)"
  shows "\<exists>s'. res = [s'] \<and> s' = s\<lparr>sv_http_methods := sv_http_methods s'\<rparr>
    \<and> set (sv_http_methods s') \<subseteq> insert ''GET'' (set (sv_http_methods s))
    \<and> (distinct (sv_http_methods s) \<longrightarrow> distinct (sv_http_methods s'))"
  using assms by (cases s) (auto simp: isweb_Fingerprint_def split: if_splits sum.splits prod.splits probe_answer.splits option.splits)

text \<open>A second run adds nothing: probing again is idempotent on the service.\<close>

lemma isweb_Fingerprint_again:
  assumes "isweb_Fingerprint send s w = (w', Inr [s'])" and "IsWebService s' \<and> ''GET'' \<in> set (sv_http_methods s')"
    and "isweb_Fingerprint send s' v = (v', Inr res)"
  shows "res = [s']"
  using assms(2,3) by (auto simp: isweb_Fingerprint_def split: sum.splits prod.splits probe_answer.splits option.splits)

lemma probe_failure_missing [simp]: "probe_failure (NoAuthority e) = EndpointMissingAddress \<longleftrightarrow> e = ErrEndpointMissingAddress"
  by (cases e) simp_all

lemma missing_address:
  assumes "ToURIAuthorities (get_endpoint s) = Inl e" and "\<not> HasTLS s"
  shows "fp_step (ssl_module dial) s = []" and "fp_step (isweb_module send) s = []"
  using assms ToURIAuthorities_Inl_iff [of "get_endpoint s" e]
  by (simp_all add: fp_step_def ssl_module_def isweb_module_def ssl_Fingerprint_def isweb_Fingerprint_def
      BuildWebRoot_def BuildAllWebRoots_def ToURIAuthority_def)

lemma fp_step_ssl:
  assumes "ToURIAuthority (get_endpoint s) = Inr a"
  shows "fp_step (ssl_module dial) s =
    [if HasTLS s then s else case dial a of Answered (Some v) \<Rightarrow> s\<lparr>sv_ssl := [tls_VersionName v]\<rparr> | _ \<Rightarrow> s]"
  using assms
  by (auto simp: fp_step_def ssl_module_def ssl_Fingerprint_def connect_def HasTLS_def split: probe_answer.splits option.splits)

lemma fp_step_isweb:
  assumes "BuildWebRoot s = Inr root" and "url_Parse root = Some u"
  shows "fp_step (isweb_module send) s =
    [case send u of Answered _ \<Rightarrow> (if ''GET'' \<in> set (sv_http_methods s) then s
        else s\<lparr>sv_http_methods := sv_http_methods s @ [''GET'']\<rparr>) | _ \<Rightarrow> s]"
  using assms by (auto simp: fp_step_def isweb_module_def isweb_Fingerprint_def split: probe_answer.splits)

lemma BuildWebRoot_authority:
  assumes "ToURIAuthority (get_endpoint s) = Inr a"
  shows "BuildWebRoot s = Inr ((if HasTLS s then ''https'' else ''http'') @ ''://'' @ a)"
  using assms ToURIAuthorities_nonempty [of "get_endpoint s"]
  by (auto simp: ToURIAuthority_def BuildWebRoot_def BuildAllWebRoots_def hd_map split: sum.splits)

lemma tls_VersionName_nonempty [simp]: "tls_VersionName v \<noteq> []"
  by (simp add: tls_VersionName_def)

text \<open>
  In the order TLS first, the web root of a service that negotiates TLS is probed over HTTPS. The
  pipeline keeps the service and its endpoint, and finds what the network answers.
\<close>

lemma probes_pipeline:
  fixes dial :: "string \<Rightarrow> 16 word option probe_answer"
  assumes "ToURIAuthority (get_endpoint s) = Inr a"
  defines "tls \<equiv> HasTLS s \<or> (\<exists>v. dial a = Answered (Some v))"
  assumes "url_Parse ((if tls then ''https'' else ''http'') @ ''://'' @ a) = Some u"
  shows "\<exists>s'. fp_pipeline [ssl_module dial, isweb_module send] [s] = [s'] \<and> get_endpoint s' = get_endpoint s
    \<and> (HasTLS s' \<longleftrightarrow> tls) \<and> (IsWebService s' \<longleftrightarrow> IsWebService s \<or> (\<exists>status. send u = Answered status))"
proof -
  define s1 where "s1 = hd (fp_step (ssl_module dial) s)"
  note step = fp_step_ssl [OF assms(1), of dial]
  have s1: "fp_step (ssl_module dial) s = [s1]" "HasTLS s1 \<longleftrightarrow> tls" "get_endpoint s1 = get_endpoint s"
      "sv_http_methods s1 = sv_http_methods s"
    by (auto simp: s1_def step tls_def HasTLS_def get_endpoint_def split: probe_answer.splits option.splits)
  from assms(1) have "BuildWebRoot s1 = Inr ((if tls then ''https'' else ''http'') @ ''://'' @ a)"
    using BuildWebRoot_authority [of s1 a] s1(2,3) by simp
  note web = fp_step_isweb [OF this assms(3), of send]
  show ?thesis
    using s1(2-4) by (auto simp: s1(1) web IsWebService_def HasTLS_def get_endpoint_def split: probe_answer.splits)
qed

text \<open>In the other order the root is asked over plain HTTP, before TLS is known.\<close>

lemma probes_other_order:
  assumes "ToURIAuthority (get_endpoint s) = Inr a" and "\<not> HasTLS s"
    and "url_Parse (''http://'' @ a) = Some u" and "send u = Unreachable" and "dial a = Answered (Some v)"
  shows "fp_pipeline [isweb_module send, ssl_module dial] [s] = [s\<lparr>sv_ssl := [tls_VersionName v]\<rparr>]"
  using assms BuildWebRoot_authority [OF assms(1)] fp_step_ssl [OF assms(1), of dial]
  by (simp add: fp_step_isweb)

end
