(* ===== verification/Entrypoint.thy ===== *)
theory Entrypoint
  imports Runner Metrics LlmClient CallbackServer
begin

text \<open>
  \<open>src/core/entrypoint/entrypoint.go\<close> with the state that it shares with the whole process: the
  logger, the recorder of metrics, the HTTP client of \<open>src/core/net/http/http.go\<close> and the client of
  the callback server. \<open>entrypoint_New\<close> of the theory \<open>Runner\<close> is what it computes from the registry;
  here it runs in that state.
\<close>

section \<open>The state of the process\<close>

text \<open>
  \<open>sync.Once\<close> runs its function once, also when it panics: the shared client is then nil for every
  later caller, the value \<open>Some None\<close>.
\<close>

record ('l, 'f, 'c) globals =
  gl_logger :: 'l
  gl_recorder :: "'f recorder"
  gl_shared :: "'c http_client option option"
  gl_callback :: "cb_config option"

definition CurrentClientName :: "config \<Rightarrow> string" where
  "CurrentClientName c = get_string ''http_client'' ''simpleclient'' (GlobalConfig c)"

record ('f, 'c) http_env =
  he_registry :: "string \<rightharpoonup> (config \<Rightarrow> client_options option \<Rightarrow> ('f, 'c) result)"
  he_forbidden :: "regexp list"

definition SharedClient :: "('f, 'c) http_env \<Rightarrow> config \<Rightarrow> ('l, 'r, 'c) globals
    \<Rightarrow> ('l, 'r, 'c) globals \<times> ('f new_client_error, 'c http_client option) result" where
  "SharedClient he c g = (case gl_shared g of
       Some client \<Rightarrow> (g, Inr client)
     | None \<Rightarrow> (case NewClient (he_registry he) CurrentClientName (Some c) (Some (DefaultClientOptions (he_forbidden he))) of
           Inl e \<Rightarrow> (g\<lparr>gl_shared := Some None\<rparr>, Inl e)
         | Inr client \<Rightarrow> (g\<lparr>gl_shared := Some (Some client)\<rparr>, Inr (Some client))))"

definition callback_proto :: "config \<Rightarrow> cb_config option" where
  "callback_proto c = (case ClientsConfig c ''callback_server'' of
       Some (VMessage m) \<Rightarrow>
         (let uri = (\<lambda>k. get_string ''public_uri'' [] (sub_message k m))
          in Some \<lparr>poll_uri = uri ''http_poll_config'', http_uri = uri ''http_record_config'', dns_uri = uri ''dns_record_config''\<rparr>)
     | _ \<Rightarrow> None)"

definition cb_Initialize :: "config \<Rightarrow> ('l, 'r, 'c) globals \<Rightarrow> ('l, 'r, 'c) globals" where
  "cb_Initialize c g = g\<lparr>gl_callback := Some (cb_new (callback_proto c))\<rparr>"

section \<open>The entrypoint\<close>

record ('l, 'f, 't, 'v, 'e) entry_options =
  eo_config :: "config option"
  eo_runner :: "('t, 'v, 'e) simple_runner option"
  eo_logger :: "'l option"
  eo_recorder :: "'f collector option"

datatype ('e, 'h) create_error = CreateFailed "'e entry_error" | ClientPanic "'h new_client_error"

text \<open>The modules of the registry join the runner; an error of its registration is not looked at.\<close>

definition assemble :: "(string \<Rightarrow> (string \<Rightarrow> bool) option) \<Rightarrow> ('cfg \<Rightarrow> workflow_config)
    \<Rightarrow> ('cfg, 'e, ('t, 'e) port_scanner, 'e fingerprinter, ('v, 'e) vuln_detector) registry \<Rightarrow> 'cfg
    \<Rightarrow> ('t, 'v, 'e) simple_runner \<Rightarrow> ('e entry_error, ('t, 'v, 'e) simple_runner) result" where
  "assemble compile workflow reg c r0 =
     (case GetPortScanner workflow reg c of Inl e \<Rightarrow> Inl (FromRegistry e) | Inr ps \<Rightarrow>
       (let r1 = register_or_keep (runner_RegisterPortScanner (Some ps) r0) r0 in
      (case GetFingerprinters compile workflow reg c of Inl e \<Rightarrow> Inl (FromRegistry e) | Inr fps \<Rightarrow>
       (let r2 = fold (\<lambda>fp r. register_or_keep (runner_RegisterFingerprinter (Some fp) r) r) fps r1 in
      (case GetDetectors compile workflow reg c of Inl e \<Rightarrow> Inl (FromRegistry e) | Inr dts \<Rightarrow>
       Inr (fold (\<lambda>dt r. register_or_keep (runner_RegisterDetector (Some dt) r) r) dts r2))))))"

definition install :: "('l, 'f, 't, 'v, 'e) entry_options \<Rightarrow> ('l, 'f, 'c) globals \<Rightarrow> ('l, 'f, 'c) globals" where
  "install opts g =
     (let g1 = (case eo_logger opts of None \<Rightarrow> g | Some l \<Rightarrow> g\<lparr>gl_logger := l\<rparr>)
      in case eo_recorder opts of None \<Rightarrow> g1 | Some r \<Rightarrow> g1\<lparr>gl_recorder := SetRecorder (Some r)\<rparr>)"

definition entrypoint_create :: "('h, 'c) http_env \<Rightarrow> (string \<Rightarrow> (string \<Rightarrow> bool) option) \<Rightarrow> (config \<Rightarrow> workflow_config)
    \<Rightarrow> (config, 'e, ('t, 'e) port_scanner, 'e fingerprinter, ('v, 'e) vuln_detector) registry
    \<Rightarrow> ('l, 'f, 't, 'v, 'e) entry_options \<Rightarrow> ('l, 'f, 'c) globals
    \<Rightarrow> ('l, 'f, 'c) globals \<times> (('e, 'h) create_error, ('t, 'v, 'e) simple_runner) result" where
  "entrypoint_create he compile workflow reg opts g = (case eo_config opts of
       None \<Rightarrow> (g, Inl (CreateFailed ConfigRequired))
     | Some c \<Rightarrow>
         (let g1 = install opts g in
          case (case eo_runner opts of None \<Rightarrow> runner_New (Some c) | Some r \<Rightarrow> Inr r) of
            Inl e \<Rightarrow> (g1, Inl (CreateFailed (FromRunner e)))
          | Inr r0 \<Rightarrow> (case SharedClient he c g1 of
                (g2, Inl e) \<Rightarrow> (g2, Inl (ClientPanic e))
              | (g2, Inr _) \<Rightarrow> (case assemble compile workflow reg c r0 of
                    Inl e \<Rightarrow> (g2, Inl (CreateFailed e))
                  | Inr r \<Rightarrow> (cb_Initialize c g2, Inr r)))))"

section \<open>What a creation does\<close>

lemma entrypoint_New_assemble:
  "entrypoint_New compile workflow (\<lambda>_. None) reg (Some c) =
     assemble compile workflow reg c \<lparr>r_portScanner = None, r_fingerprinters = [], r_detectors = []\<rparr>"
  by (simp add: entrypoint_New_def runner_New_def assemble_def Let_def cong: sum.case_cong)

lemma install_simps [simp]:
  "gl_shared (install opts g) = gl_shared g" "gl_callback (install opts g) = gl_callback g"
  "gl_logger (install opts g) = (case eo_logger opts of None \<Rightarrow> gl_logger g | Some l \<Rightarrow> l)"
  "gl_recorder (install opts g) = (case eo_recorder opts of None \<Rightarrow> gl_recorder g | Some r \<Rightarrow> Installed r)"
  by (simp_all add: install_def Let_def SetRecorder_def split: option.splits)

text \<open>The first caller decides: a later one gets the client of the first configuration.\<close>

lemma SharedClient_once:
  assumes "SharedClient he c g = (g', res)"
  shows "gl_shared g' \<noteq> None"
    and "SharedClient he' c' g' = (g', Inr (the (gl_shared g')))"
  using assms by (auto simp: SharedClient_def split: option.splits sum.splits)

lemma SharedClient_keeps:
  assumes "SharedClient he c g = (g', res)"
  shows "g' = g\<lparr>gl_shared := gl_shared g'\<rparr>" and "gl_shared g \<noteq> None \<Longrightarrow> g' = g"
  using assms by (auto simp: SharedClient_def split: option.splits sum.splits)

text \<open>After a panic that is recovered from, the client is nil and nobody notices.\<close>

lemma SharedClient_after_panic:
  assumes "SharedClient he c g = (g', Inl e)"
  shows "SharedClient he' c' g' = (g', Inr None)"
  using assms by (auto simp: SharedClient_def split: option.splits sum.splits)

text \<open>A runner that was given with a port scanner keeps it; the one of the configuration is dropped.\<close>

lemma register_port_scanner:
  "register_or_keep (runner_RegisterPortScanner (Some ps) r0) r0
     = r0\<lparr>r_portScanner := (if r_portScanner r0 = None then Some ps else r_portScanner r0)\<rparr>"
  by (simp add: register_or_keep_def runner_RegisterPortScanner_def)

lemma fold_fingerprinters:
  "fold (\<lambda>fp r. register_or_keep (runner_RegisterFingerprinter (Some fp) r) r) fps r
     = r\<lparr>r_fingerprinters := r_fingerprinters r @ fps\<rparr>"
  by (induction fps arbitrary: r) (simp_all add: register_or_keep_def runner_RegisterFingerprinter_def)

lemma fold_detectors:
  "fold (\<lambda>dt r. register_or_keep (runner_RegisterDetector (Some dt) r) r) dts r
     = r\<lparr>r_detectors := r_detectors r @ dts\<rparr>"
  by (induction dts arbitrary: r) (simp_all add: register_or_keep_def runner_RegisterDetector_def)

lemma assemble_iff:
  "assemble compile workflow reg c r0 = Inr r \<longleftrightarrow>
     (\<exists>ps fps dts. GetPortScanner workflow reg c = Inr ps \<and> GetFingerprinters compile workflow reg c = Inr fps
        \<and> GetDetectors compile workflow reg c = Inr dts
        \<and> r = \<lparr>r_portScanner = (if r_portScanner r0 = None then Some ps else r_portScanner r0),
               r_fingerprinters = r_fingerprinters r0 @ fps, r_detectors = r_detectors r0 @ dts\<rparr>)"
  by (cases r0) (auto simp: assemble_def Let_def fold_fingerprinters fold_detectors register_port_scanner
      split: sum.splits)

definition has_shared_client :: "('h, 'c) http_env \<Rightarrow> config \<Rightarrow> ('l, 'r, 'c) globals \<Rightarrow> bool" where
  "has_shared_client he c g \<longleftrightarrow> gl_shared g \<noteq> None
     \<or> is_ok (NewClient (he_registry he) CurrentClientName (Some c) (Some (DefaultClientOptions (he_forbidden he))))"

lemma SharedClient_ok: "is_ok (snd (SharedClient he c g)) \<longleftrightarrow> has_shared_client he c g"
  by (auto simp: SharedClient_def has_shared_client_def split: option.splits sum.splits)

lemma SharedClient_other [simp]:
  "gl_logger (fst (SharedClient he c g)) = gl_logger g" "gl_recorder (fst (SharedClient he c g)) = gl_recorder g"
  "gl_callback (fst (SharedClient he c g)) = gl_callback g" "gl_shared (fst (SharedClient he c g)) \<noteq> None"
  by (auto simp: SharedClient_def split: option.splits sum.splits)

definition first_runner :: "('l, 'f, 't, 'v, 'e) entry_options \<Rightarrow> ('t, 'v, 'e) simple_runner" where
  "first_runner opts = (case eo_runner opts of
       None \<Rightarrow> \<lparr>r_portScanner = None, r_fingerprinters = [], r_detectors = []\<rparr> | Some r \<Rightarrow> r)"

lemma entrypoint_create_runner:
  assumes "eo_config opts = Some c"
  shows "entrypoint_create he compile workflow reg opts g =
    (case SharedClient he c (install opts g) of
       (g2, Inl e) \<Rightarrow> (g2, Inl (ClientPanic e))
     | (g2, Inr _) \<Rightarrow> (case assemble compile workflow reg c (first_runner opts) of
           Inl e \<Rightarrow> (g2, Inl (CreateFailed e))
         | Inr r \<Rightarrow> (cb_Initialize c g2, Inr r)))"
proof -
  have "(case eo_runner opts of None \<Rightarrow> runner_New (Some c) | Some r \<Rightarrow> Inr r) = Inr (first_runner opts)"
    by (simp add: first_runner_def runner_New_def split: option.split)
  then show ?thesis using assms by (simp add: entrypoint_create_def Let_def)
qed

lemma entrypoint_create_state:
  fixes he compile workflow reg g opts
  assumes "eo_config opts = Some c"
  defines "g' \<equiv> fst (entrypoint_create he compile workflow reg opts g)"
  shows "gl_logger g' = (case eo_logger opts of None \<Rightarrow> gl_logger g | Some l \<Rightarrow> l)
    \<and> gl_recorder g' = (case eo_recorder opts of None \<Rightarrow> gl_recorder g | Some r \<Rightarrow> Installed r)
    \<and> gl_shared g' = gl_shared (fst (SharedClient he c (install opts g)))"
proof -
  obtain g2 res where shared: "SharedClient he c (install opts g) = (g2, res)" by fastforce
  from SharedClient_other [of he c "install opts g", unfolded shared]
  have "gl_logger g2 = gl_logger (install opts g)" "gl_recorder g2 = gl_recorder (install opts g)" by simp_all
  then show ?thesis
    by (cases res) (simp_all add: g'_def entrypoint_create_runner [OF assms(1)] shared cb_Initialize_def split: sum.split)
qed

text \<open>C39. An entrypoint is created exactly when there is a configuration, the shared HTTP client exists
  already or can be built from it, and its port scanner, fingerprinters and detectors are created; it
  then runs exactly these, after those of a runner that was handed in, whose port scanner wins. Also a
  creation that fails after the configuration was checked leaves its logger, its recorder and the
  shared client behind. Without a recorder the one installed before stays, and the shared client is
  that of the first configuration for good.\<close>

theorem entrypoint_create_exact:
  fixes he compile workflow reg g opts
  assumes "eo_config opts = Some c"
  defines "g' \<equiv> fst (entrypoint_create he compile workflow reg opts g)"
    and "r0 \<equiv> first_runner opts"
  shows "(snd (entrypoint_create he compile workflow reg opts g) = Inr r \<longleftrightarrow>
       has_shared_client he c g \<and> (\<exists>ps fps dts. GetPortScanner workflow reg c = Inr ps
         \<and> GetFingerprinters compile workflow reg c = Inr fps \<and> GetDetectors compile workflow reg c = Inr dts
         \<and> r = \<lparr>r_portScanner = (if r_portScanner r0 = None then Some ps else r_portScanner r0),
                r_fingerprinters = r_fingerprinters r0 @ fps, r_detectors = r_detectors r0 @ dts\<rparr>))
    \<and> gl_logger g' = (case eo_logger opts of None \<Rightarrow> gl_logger g | Some l \<Rightarrow> l)
    \<and> gl_recorder g' = (case eo_recorder opts of None \<Rightarrow> gl_recorder g | Some col \<Rightarrow> Installed col)
    \<and> gl_shared g' \<noteq> None \<and> (gl_shared g \<noteq> None \<longrightarrow> gl_shared g' = gl_shared g)"
proof -
  have "snd (entrypoint_create he compile workflow reg opts g) = Inr r \<longleftrightarrow>
      is_ok (snd (SharedClient he c (install opts g))) \<and> assemble compile workflow reg c r0 = Inr r"
    by (auto simp: entrypoint_create_runner [OF assms(1)] r0_def split: prod.splits sum.splits)
  moreover have "has_shared_client he c (install opts g) = has_shared_client he c g" by (simp add: has_shared_client_def)
  moreover have "gl_shared (fst (SharedClient he c (install opts g))) = gl_shared g" if "gl_shared g \<noteq> None"
    using that SharedClient_keeps(2) [of he c "install opts g"] by (metis install_simps(1) prod.collapse)
  ultimately show ?thesis
    using entrypoint_create_state [OF assms(1), of he compile workflow reg g] SharedClient_other(4) [of he c "install opts g"]
    unfolding g'_def assemble_iff [of compile workflow reg c r0 r] SharedClient_ok by simp
qed

text \<open>The advice that \<open>main.go\<close> relies on: the runner is the one of \<open>entrypoint_New\<close>.\<close>

lemma entrypoint_create_New:
  assumes "eo_config opts = Some c" and "eo_runner opts = None" and "has_shared_client he c g"
  shows "snd (entrypoint_create he compile workflow reg opts g)
    = map_sum CreateFailed id (entrypoint_New compile workflow (\<lambda>_. None) reg (Some c))"
proof -
  from assms(3) have "is_ok (snd (SharedClient he c (install opts g)))"
    by (simp add: SharedClient_ok) (simp add: has_shared_client_def)
  then show ?thesis
    by (auto simp: entrypoint_create_runner [OF assms(1)] first_runner_def assms(2) entrypoint_New_assemble
        split: prod.splits sum.splits)
qed

section \<open>A sample\<close>

definition sample_entry_config :: config where "sample_entry_config = config_Default"

definition sample_entry_http :: "(nat, nat) http_env" where
  "sample_entry_http = \<lparr>he_registry = [''simpleclient'' \<mapsto> (\<lambda>_ _. Inr 1)], he_forbidden = []\<rparr>"

definition sample_registry :: "(config, nat, (nat, nat) port_scanner, nat fingerprinter, (nat, nat) vuln_detector) registry" where
  "sample_registry = NewRegistry\<lparr>portScanners := [''p'' \<mapsto> (\<lambda>_. Inr \<lparr>psm_name = ''p'', psm_scan = (\<lambda>_. Inl 0)\<rparr>)]\<rparr>"

definition sample_workflow :: "config \<Rightarrow> workflow_config" where
  "sample_workflow _ = \<lparr>wf_portscan = ''p'', wf_fingerprinters = None, wf_detectors = None\<rparr>"

definition sample_options :: "(nat, nat, nat, nat, nat) entry_options" where
  "sample_options = \<lparr>eo_config = Some sample_entry_config, eo_runner = None, eo_logger = Some 2, eo_recorder = None\<rparr>"

definition sample_globals :: "(nat, nat, nat) globals" where
  "sample_globals = \<lparr>gl_logger = 1, gl_recorder = NoopRecorder, gl_shared = None, gl_callback = None\<rparr>"

theorem entrypoint_create_exact_witness:
  "(let (g', res) = entrypoint_create sample_entry_http (\<lambda>_. None) sample_workflow sample_registry sample_options sample_globals
    in is_ok res \<and> gl_logger g' = 2 \<and> gl_recorder g' = NoopRecorder \<and> gl_shared g' \<noteq> None)"
proof -
  have c: "eo_config sample_options = Some sample_entry_config" by (simp add: sample_options_def)
  have parts: "has_shared_client sample_entry_http sample_entry_config sample_globals"
    "GetPortScanner sample_workflow sample_registry sample_entry_config = Inr \<lparr>psm_name = ''p'', psm_scan = (\<lambda>_. Inl 0)\<rparr>"
    "GetFingerprinters (\<lambda>_. None) sample_workflow sample_registry sample_entry_config = Inr []"
    "GetDetectors (\<lambda>_. None) sample_workflow sample_registry sample_entry_config = Inr []"
    by (simp_all add: has_shared_client_def NewClient_def CurrentClientName_def sample_entry_config_def config_Default_def config_FromProto_def
        GlobalConfig_def sub_message_def get_string_def sample_entry_http_def DefaultClientOptions_def GetPortScanner_def
        GetFingerprinters_def GetDetectors_def sample_workflow_def sample_registry_def)
  show ?thesis
    using entrypoint_create_exact [OF c, of sample_entry_http "\<lambda>_. None" sample_workflow sample_registry sample_globals
        "\<lparr>r_portScanner = Some \<lparr>psm_name = ''p'', psm_scan = (\<lambda>_. Inl 0)\<rparr>, r_fingerprinters = [], r_detectors = []\<rparr>"] parts
    by (simp add: split_beta first_runner_def) (simp add: sample_options_def sample_globals_def)
qed

end
