(* ===== verification/DnsServer.thy ===== *)
theory DnsServer
  imports CallbackServer
begin

text \<open>
  The loop of the DNS recording server, \<open>src/tools/callbackserver/server/dns/recording.go\<close>. It reads
  every datagram into one buffer and starts a handler for it, which parses the buffer when it
  runs: what a handler sees depends on the datagrams that arrived in between. The packing of
  messages (\<open>golang.org/x/net/dns/dnsmessage\<close>) is a parameter.
\<close>

section \<open>Messages and handlers\<close>

record dns_question =
  dq_name :: string
  dq_type :: "16 word"
  dq_class :: "16 word"

record dns_query =
  dm_id :: "16 word"
  dm_questions :: "dns_question list"

record dns_reply =
  dr_id :: "16 word"
  dr_response :: bool
  dr_rcode :: rcode
  dr_questions :: "dns_question list"

record dns_codec =
  dc_unpack :: "string \<Rightarrow> dns_query option"
  dc_pack :: "dns_reply \<Rightarrow> string option"

text \<open>What is written to the connection: the address and the packet, nothing when it does not pack.\<close>

definition sendErrorResponse :: "dns_codec \<Rightarrow> 'a \<Rightarrow> dns_query \<Rightarrow> rcode \<Rightarrow> ('a \<times> string) list" where
  "sendErrorResponse dc addr query rc =
     (case dc_pack dc \<lparr>dr_id = dm_id query, dr_response = True, dr_rcode = rc, dr_questions = dm_questions query\<rparr> of
        None \<Rightarrow> []
      | Some packed \<Rightarrow> [(addr, packed)])"

definition handle_query :: "'s register_fn \<Rightarrow> string \<Rightarrow> dns_codec \<Rightarrow> 'a \<Rightarrow> string \<Rightarrow> 's \<Rightarrow> 's \<times> ('a \<times> string) list" where
  "handle_query register domain dc addr data s = (case dc_unpack dc data of
       None \<Rightarrow> (s, [])
     | Some msg \<Rightarrow>
         (case HandleDNS register domain (case dm_questions msg of [] \<Rightarrow> None | q # _ \<Rightarrow> Some (dq_name q)) s of
            (s', None) \<Rightarrow> (s', [])
          | (s', Some rc) \<Rightarrow> (s', sendErrorResponse dc addr msg rc)))"

section \<open>The loop\<close>

text \<open>
  A goroutine that has not parsed its message yet is its address and its length \<open>n\<close>: it holds
  the slice \<open>buf[:n]\<close> of the one buffer, not the bytes.
\<close>

record ('a, 's) dns_server =
  ds_buf :: string
  ds_waiting :: "('a \<times> nat) list"
  ds_store :: 's
  ds_sent :: "('a \<times> string) list"
  ds_running :: bool

definition dns_buffer_size :: nat where "dns_buffer_size = 512"

definition dns_start :: "'s \<Rightarrow> ('a, 's) dns_server" where
  "dns_start store = \<lparr>ds_buf = replicate dns_buffer_size (char_of (0 :: nat)), ds_waiting = [], ds_store = store,
     ds_sent = [], ds_running = True\<rparr>"

text \<open>One read: the datagram is cut to the buffer, and the rest of the buffer keeps its old bytes.\<close>

datatype 'a udp_read = Datagram string 'a | ReadFailed

definition ServeDNS_iteration :: "bool \<Rightarrow> 'a udp_read \<Rightarrow> ('a, 's) dns_server \<Rightarrow> ('a, 's) dns_server" where
  "ServeDNS_iteration context_done r s =
     (if \<not> ds_running s then s
      else if context_done then s\<lparr>ds_running := False\<rparr>
      else case r of
          ReadFailed \<Rightarrow> s
        | Datagram data addr \<Rightarrow>
            let n = min (length data) (length (ds_buf s)) in
            s\<lparr>ds_buf := take n data @ drop n (ds_buf s), ds_waiting := ds_waiting s @ [(addr, n)]\<rparr>)"

definition HandleDNS_step :: "'s register_fn \<Rightarrow> string \<Rightarrow> dns_codec \<Rightarrow> nat \<Rightarrow> ('a, 's) dns_server \<Rightarrow> ('a, 's) dns_server" where
  "HandleDNS_step register domain dc i s =
     (if length (ds_waiting s) \<le> i then s
      else let (addr, n) = ds_waiting s ! i;
               (store, sent) = handle_query register domain dc addr (take n (ds_buf s)) (ds_store s)
        in s\<lparr>ds_waiting := take i (ds_waiting s) @ drop (Suc i) (ds_waiting s), ds_store := store, ds_sent := ds_sent s @ sent\<rparr>)"

datatype 'a dns_event = Receive bool "'a udp_read" | Handle nat

fun dns_step :: "'s register_fn \<Rightarrow> string \<Rightarrow> dns_codec \<Rightarrow> 'a dns_event \<Rightarrow> ('a, 's) dns_server \<Rightarrow> ('a, 's) dns_server" where
  "dns_step register domain dc (Receive context_done r) s = ServeDNS_iteration context_done r s"
| "dns_step register domain dc (Handle i) s = HandleDNS_step register domain dc i s"

definition dns_run :: "'s register_fn \<Rightarrow> string \<Rightarrow> dns_codec \<Rightarrow> 'a dns_event list \<Rightarrow> ('a, 's) dns_server \<Rightarrow> ('a, 's) dns_server" where
  "dns_run register domain dc = fold (dns_step register domain dc)"

lemma dns_run_simps [simp]:
  "dns_run register domain dc [] s = s"
  "dns_run register domain dc (e # es) s = dns_run register domain dc es (dns_step register domain dc e s)"
  "dns_run register domain dc (es @ fs) s = dns_run register domain dc fs (dns_run register domain dc es s)"
  by (simp_all add: dns_run_def)

section \<open>Handlers that run before the next datagram\<close>

text \<open>The specification: the datagrams one after the other, each as it arrived.\<close>

fun dns_serve :: "'s register_fn \<Rightarrow> string \<Rightarrow> dns_codec \<Rightarrow> (string \<times> 'a) list \<Rightarrow> 's \<Rightarrow> 's \<times> ('a \<times> string) list" where
  "dns_serve register domain dc [] store = (store, [])"
| "dns_serve register domain dc ((data, addr) # ds) store =
     (let (store', sent) = handle_query register domain dc addr (take dns_buffer_size data) store;
          (store'', sents) = dns_serve register domain dc ds store'
      in (store'', sent @ sents))"

definition one_by_one :: "(string \<times> 'a) list \<Rightarrow> 'a dns_event list" where
  "one_by_one ds = concat (map (\<lambda>(data, addr). [Receive False (Datagram data addr), Handle 0]) ds)"

lemma take_min_length [simp]: "take (min (length xs) k) xs = take k xs"
  by (simp add: min_def)

lemma serve_one:
  fixes register :: "'s register_fn" and s :: "('a, 's) dns_server" and addr :: 'a
    and domain :: string and dc :: dns_codec and data :: string
  assumes "ds_running s" and "length (ds_buf s) = dns_buffer_size" and "ds_waiting s = []"
  defines "s' \<equiv> dns_run register domain dc [Receive False (Datagram data addr), Handle 0] s"
  shows "ds_running s'" and "length (ds_buf s') = dns_buffer_size" and "ds_waiting s' = []"
    and "(ds_store s', ds_sent s') = (let (store, sent) = handle_query register domain dc addr (take dns_buffer_size data) (ds_store s)
            in (store, ds_sent s @ sent))"
  using assms(1-3)
  by (simp_all add: s'_def ServeDNS_iteration_def HandleDNS_step_def Let_def split_beta)

lemma serve_serial:
  assumes "ds_running s" and "length (ds_buf s) = dns_buffer_size" and "ds_waiting s = []"
  shows "ds_waiting (dns_run register domain dc (one_by_one ds) s) = []
    \<and> ds_store (dns_run register domain dc (one_by_one ds) s) = fst (dns_serve register domain dc ds (ds_store s))
    \<and> ds_sent (dns_run register domain dc (one_by_one ds) s) = ds_sent s @ snd (dns_serve register domain dc ds (ds_store s))"
  using assms
proof (induction ds arbitrary: s)
  case Nil
  then show ?case by (simp add: one_by_one_def)
next
  case (Cons d ds)
  obtain data addr where d: "d = (data, addr)" by (cases d)
  define s1 where "s1 = dns_run register domain dc [Receive False (Datagram data addr), Handle 0] s"
  note one = serve_one [OF Cons.prems, of register domain dc data addr, folded s1_def]
  have "dns_run register domain dc (one_by_one (d # ds)) s = dns_run register domain dc (one_by_one ds) s1"
    by (simp add: d one_by_one_def s1_def)
  with Cons.IH [OF one(1-3)] one(4) show ?case
    by (simp add: d Let_def split_beta)
qed

section \<open>Handlers that run later\<close>

text \<open>Reads before a handler runs replace its message: it sees the bytes of the last datagram.\<close>

lemma read_overwrites:
  assumes "ds_running s" and "length data = n" and "n \<le> length (ds_buf s)" and "length (ds_buf s) = dns_buffer_size"
  shows "take n (ds_buf (ServeDNS_iteration False (Datagram data addr) s)) = data"
  using assms by (simp add: ServeDNS_iteration_def Let_def)

text \<open>Two datagrams of one length: both handlers parse the second, nobody parses the first.\<close>

lemma dns_race:
  fixes store :: 's and d1 d2 :: string and a1 a2 :: 'a
  assumes "length d1 = length d2" and "length d2 \<le> dns_buffer_size"
  defines "evs \<equiv> [Receive False (Datagram d1 a1), Receive False (Datagram d2 a2), Handle 0, Handle 0]"
  shows "(ds_store (dns_run register domain dc evs (dns_start store)), ds_sent (dns_run register domain dc evs (dns_start store)))
    = dns_serve register domain dc [(d2, a1), (d2, a2)] store"
  using assms(1,2)
  by (simp add: evs_def dns_start_def ServeDNS_iteration_def HandleDNS_step_def Let_def split_beta)

text \<open>
  Every handler, whenever it runs: it handles its datagram when no other arrived in between. This
  is the invariant that the bytes of the last datagram stay at the front of the buffer.
\<close>

definition last_intact :: "string \<Rightarrow> ('a, 's) dns_server \<Rightarrow> bool" where
  "last_intact data s \<longleftrightarrow> length (ds_buf s) = dns_buffer_size \<and> take (min (length data) dns_buffer_size) (ds_buf s) = take dns_buffer_size data"

lemma read_last_intact:
  assumes "ds_running s" and "length (ds_buf s) = dns_buffer_size"
  shows "last_intact data (ServeDNS_iteration False (Datagram data addr) s)"
  using assms by (simp add: last_intact_def ServeDNS_iteration_def Let_def)

lemma handle_last_intact: "last_intact data s \<Longrightarrow> last_intact data (HandleDNS_step register domain dc i s)"
  by (simp add: last_intact_def HandleDNS_step_def Let_def split_beta)

lemma handles_last_intact: "last_intact data s \<Longrightarrow> last_intact data (dns_run register domain dc (map Handle is) s)"
  by (induction "is" arbitrary: s) (simp_all add: handle_last_intact)

text \<open>A closed connection fails every read, and the loop goes on for ever unless the context ends.\<close>

lemma serve_spins: "ds_running s \<Longrightarrow> (ServeDNS_iteration False ReadFailed ^^ n) s = s"
  by (induction n) (simp_all add: ServeDNS_iteration_def)

lemma serve_ends: "ds_running (ServeDNS_iteration True r s) = False"
  by (simp add: ServeDNS_iteration_def)

text \<open>C37. A DNS query that is handled before the next datagram arrives is handled as it was sent, cut
  to 512 bytes: the store and the answers are those of the datagrams one after the other. When a
  second datagram of the same length arrives before the handler of the first has run, both handlers
  parse the second: the interaction of the first is lost and its sender gets the other's answer.\<close>

theorem ServeDNS_serial_or_lost:
  fixes register :: "'s register_fn"
  assumes "length d1 = length d2" and "length d2 \<le> dns_buffer_size"
  shows "(let s = dns_run register domain dc (one_by_one ds) (dns_start store)
          in (ds_store s, ds_sent s) = dns_serve register domain dc ds store)
    \<and> (let s = dns_run register domain dc [Receive False (Datagram d1 a1), Receive False (Datagram d2 a2), Handle 0, Handle 0]
            (dns_start store)
       in (ds_store s, ds_sent s) = dns_serve register domain dc [(d2, a1), (d2, a2)] store)"
proof
  show "let s = dns_run register domain dc (one_by_one ds) (dns_start store)
        in (ds_store s, ds_sent s) = dns_serve register domain dc ds store"
    using serve_serial [of "dns_start store" register domain dc ds] by (simp add: dns_start_def Let_def)
  show "let s = dns_run register domain dc [Receive False (Datagram d1 a1), Receive False (Datagram d2 a2), Handle 0, Handle 0]
            (dns_start store)
        in (ds_store s, ds_sent s) = dns_serve register domain dc [(d2, a1), (d2, a2)] store"
    using dns_race [OF assms] by (simp add: Let_def)
qed

definition sample_codec :: dns_codec where
  "sample_codec = \<lparr>dc_unpack = (\<lambda>data. Some \<lparr>dm_id = 7, dm_questions = [\<lparr>dq_name = data, dq_type = 1, dq_class = 1\<rparr>]\<rparr>),
     dc_pack = (\<lambda>r. Some (map dq_name (dr_questions r) ! 0))\<rparr>"

definition sample_name :: "char \<Rightarrow> string" where "sample_name c = replicate 56 c @ ''.cb''"

lemma sample_names:
  "HandleDNS (mem_Register 5) ''cb'' (Some (sample_name CHR ''b'')) s
     = (case mem_Register 5 (replicate 56 CHR ''b'') DNSInteraction s of Inl e \<Rightarrow> (s, Some RCodeRefused)
          | Inr s' \<Rightarrow> (s', Some RCodeNameError))"
proof -
  have "shouldAnswer ''cb'' (sample_name CHR ''b'')" "IdentifierFromDomain (sample_name CHR ''b'') = Inr (replicate 56 CHR ''b'')"
    by code_simp+
  then show ?thesis by (simp add: HandleDNS_def)
qed

theorem ServeDNS_serial_or_lost_witness:
  "let s = dns_run (mem_Register 5) ''cb'' sample_codec
        [Receive False (Datagram (sample_name CHR ''a'') 1), Receive False (Datagram (sample_name CHR ''b'') 2), Handle 0, Handle 0]
        (dns_start (NewInMemoryInteractionStore 60))
   in mem_Get (replicate 56 CHR ''a'') (ds_store s) = [] \<and> mem_Get (replicate 56 CHR ''b'') (ds_store s) \<noteq> []
     \<and> ds_sent s = [(1 :: nat, sample_name CHR ''b''), (2, sample_name CHR ''b'')]"
proof -
  have len: "length (sample_name CHR ''a'') = length (sample_name CHR ''b'')" "length (sample_name CHR ''b'') \<le> dns_buffer_size"
    by (simp_all add: sample_name_def dns_buffer_size_def)
  have cut: "take dns_buffer_size (sample_name CHR ''b'') = sample_name CHR ''b''" using len(2) by simp
  define served where "served = dns_serve (mem_Register 5) ''cb'' sample_codec
      [(sample_name CHR ''b'', 1 :: nat), (sample_name CHR ''b'', 2)] (NewInMemoryInteractionStore 60)"
  have "replicate 56 CHR ''a'' \<noteq> replicate 56 CHR ''b''" by simp
  then have "mem_Get (replicate 56 CHR ''a'') (fst served) = [] \<and> mem_Get (replicate 56 CHR ''b'') (fst served) \<noteq> []
     \<and> snd served = [(1, sample_name CHR ''b''), (2, sample_name CHR ''b'')]"
    by (simp add: served_def Let_def handle_query_def cut sample_codec_def sendErrorResponse_def sample_names mem_Register_def mem_Get_def
        NewInMemoryInteractionStore_def)
  moreover have "let s = dns_run (mem_Register 5) ''cb'' sample_codec
        [Receive False (Datagram (sample_name CHR ''a'') 1), Receive False (Datagram (sample_name CHR ''b'') 2), Handle 0, Handle 0]
        (dns_start (NewInMemoryInteractionStore 60)) in (ds_store s, ds_sent s) = served"
    unfolding served_def by (rule ServeDNS_serial_or_lost [OF len, THEN conjunct2])
  ultimately show ?thesis unfolding Let_def by (metis fst_conv snd_conv)
qed

end
