(* ===== verification/Logging.thy ===== *)
theory Logging
  imports NetEndpoint
begin

text \<open>
  \<open>src/core/log\<close>: the context that a log line is written in, the default logger and its colours. What
  the standard library adds when it prints a line is left out; a message arrives formatted.
\<close>

section \<open>Contexts\<close>

record log_context =
  lc_host :: "string option"
  lc_port :: "nat option"
  lc_module :: "string option"

definition background :: log_context where
  "background = \<lparr>lc_host = None, lc_port = None, lc_module = None\<rparr>"

definition ContextForHost :: "log_context \<Rightarrow> string \<Rightarrow> log_context" where
  "ContextForHost ctx host = ctx\<lparr>lc_host := Some host\<rparr>"

definition HostFromContext :: "log_context \<Rightarrow> string" where
  "HostFromContext ctx = (case lc_host ctx of None \<Rightarrow> [] | Some host \<Rightarrow> host)"

definition ContextForModule :: "log_context \<Rightarrow> string \<Rightarrow> log_context" where
  "ContextForModule ctx name = ctx\<lparr>lc_module := Some name\<rparr>"

definition ContextForModuleAndHost :: "log_context \<Rightarrow> string \<Rightarrow> string \<Rightarrow> log_context" where
  "ContextForModuleAndHost ctx name host = ContextForModule (ContextForHost ctx host) name"

definition endpoint_port :: "network_endpoint \<Rightarrow> nat" where
  "endpoint_port e = (case ep_port e of None \<Rightarrow> 0 | Some p \<Rightarrow> unat p)"

definition ContextForService :: "log_context \<Rightarrow> network_service \<Rightarrow> log_context" where
  "ContextForService ctx service =
     (let host = (case ToHost (get_endpoint service) of Inl _ \<Rightarrow> [] | Inr h \<Rightarrow> h)
      in (ContextForHost ctx host)\<lparr>lc_port := Some (endpoint_port (get_endpoint service))\<rparr>)"

definition ContextForModuleAndService :: "log_context \<Rightarrow> string \<Rightarrow> network_service \<Rightarrow> log_context" where
  "ContextForModuleAndService ctx name service = ContextForModule (ContextForService ctx service) name"

section \<open>Colours\<close>

definition escape :: char where "escape = CHR 0x1B"

definition ansi :: "string \<Rightarrow> string" where "ansi code = escape # CHR ''['' # code @ ''m''"

definition ansiReset :: string where "ansiReset = ansi ''0''"

datatype log_color = BoldBlue | BoldYellow | BoldRed | BoldGray | BoldGreen | Green | Cyan | Purple

definition color_code :: "log_color \<Rightarrow> string" where
  "color_code c = ansi (case c of BoldBlue \<Rightarrow> ''1;34'' | BoldYellow \<Rightarrow> ''1;33'' | BoldRed \<Rightarrow> ''1;31'' | BoldGray \<Rightarrow> ''1;30''
     | BoldGreen \<Rightarrow> ''1;32'' | Green \<Rightarrow> ''0;32'' | Cyan \<Rightarrow> ''0;36'' | Purple \<Rightarrow> ''0;35'')"

definition colorize :: "string \<Rightarrow> log_color \<Rightarrow> bool \<Rightarrow> string" where
  "colorize s color enabled = (if \<not> enabled then s else color_code color @ s @ ansiReset)"

section \<open>The default logger\<close>

record default_logger =
  lg_verbose :: "32 word"
  lg_colors :: bool

datatype log_kind = LogError | LogWarn | LogInfo | LogVuln | LogDebug "32 word"

definition show_int :: "int \<Rightarrow> string" where
  "show_int i = (if i < 0 then CHR ''-'' # itoa (nat (- i)) else itoa (nat i))"

definition pad_right :: "nat \<Rightarrow> string \<Rightarrow> string" where
  "pad_right n s = s @ replicate (n - length s) CHR '' ''"

definition pad_left :: "nat \<Rightarrow> string \<Rightarrow> string" where
  "pad_left n s = replicate (n - length s) CHR '' '' @ s"

definition level_text :: "log_kind \<Rightarrow> string" where
  "level_text k = pad_right 4 (case k of LogError \<Rightarrow> ''ERR'' | LogWarn \<Rightarrow> ''WARN'' | LogInfo \<Rightarrow> ''INFO'' | LogVuln \<Rightarrow> ''VULN''
     | LogDebug level \<Rightarrow> ''DBG'' @ show_int (sint level))"

definition level_color :: "log_kind \<Rightarrow> log_color" where
  "level_color k = (case k of LogError \<Rightarrow> BoldRed | LogWarn \<Rightarrow> BoldYellow | LogInfo \<Rightarrow> BoldBlue | LogVuln \<Rightarrow> BoldGreen
     | LogDebug _ \<Rightarrow> BoldGray)"

definition formatTag :: "default_logger \<Rightarrow> string \<Rightarrow> log_color \<Rightarrow> string" where
  "formatTag l val color = ''[ '' @ colorize val color (lg_colors l) @ '' ] ''"

definition log_prefix :: "default_logger \<Rightarrow> log_context \<Rightarrow> string \<Rightarrow> string" where
  "log_prefix l ctx level =
     level @ '' ''
     @ (if HostFromContext ctx \<noteq> [] then concat (map (\<lambda>part. formatTag l part Purple) (SplitHost (HostFromContext ctx))) else [])
     @ (case lc_port ctx of None \<Rightarrow> [] | Some port \<Rightarrow> formatTag l (pad_left 5 (itoa port)) Green)
     @ (case lc_module ctx of None \<Rightarrow> [] | Some m \<Rightarrow> formatTag l m Cyan)"

text \<open>The lines that one call prints: a debug line only when its level is shown.\<close>

definition default_log :: "default_logger \<Rightarrow> log_kind \<Rightarrow> log_context \<Rightarrow> string \<Rightarrow> string list" where
  "default_log l k ctx msg =
     (let level = colorize (level_text k) (level_color k) (lg_colors l);
          text = (case k of LogVuln \<Rightarrow> colorize msg BoldGreen (lg_colors l) | _ \<Rightarrow> msg)
      in if (case k of LogDebug n \<Rightarrow> sint n \<le> sint (lg_verbose l) | _ \<Rightarrow> True)
         then [log_prefix l ctx level @ text] else [])"

section \<open>Reading a coloured line\<close>

text \<open>What a terminal shows: the sequences from an escape to the next \<open>m\<close> are not text.\<close>

function strip_ansi :: "string \<Rightarrow> string" where
  "strip_ansi [] = []"
| "strip_ansi (c # cs) =
     (if c = escape then strip_ansi (drop 1 (dropWhile (\<lambda>d. d \<noteq> CHR ''m'') cs)) else c # strip_ansi cs)"
  by pat_completeness auto
termination
  by (relation "measure length") (auto simp: less_Suc_eq_le intro: le_trans [OF diff_le_self length_dropWhile_le])

definition plain :: "string \<Rightarrow> bool" where "plain s \<longleftrightarrow> escape \<notin> set s"

lemma plain_simps [simp]:
  "plain []" "plain (c # s) \<longleftrightarrow> c \<noteq> escape \<and> plain s" "plain (s @ t) \<longleftrightarrow> plain s \<and> plain t"
  "plain (concat ss) \<longleftrightarrow> (\<forall>s\<in>set ss. plain s)"
  by (auto simp: plain_def)

lemma strip_plain: "plain s \<Longrightarrow> strip_ansi (s @ t) = s @ strip_ansi t"
  by (induction s) auto

lemma strip_plain_end: "plain s \<Longrightarrow> strip_ansi s = s"
  using strip_plain [of s "[]"] by simp

lemma dropWhile_code: "CHR ''m'' \<notin> set code \<Longrightarrow> dropWhile (\<lambda>d. d \<noteq> CHR ''m'') (code @ CHR ''m'' # t) = CHR ''m'' # t"
  by (induction code) auto

lemma strip_ansi_code: "CHR ''m'' \<notin> set code \<Longrightarrow> strip_ansi (ansi code @ t) = strip_ansi t"
  using dropWhile_code [of "CHR ''['' # code" t] by (simp add: ansi_def)

lemma strip_color [simp]: "strip_ansi (color_code c @ t) = strip_ansi t"
  unfolding color_code_def by (rule strip_ansi_code) (simp split: log_color.split)

lemma strip_reset [simp]: "strip_ansi (ansiReset @ t) = strip_ansi t"
  unfolding ansiReset_def by (rule strip_ansi_code) simp

lemma strip_colorize: "plain s \<Longrightarrow> strip_ansi (colorize s c b @ t) = s @ strip_ansi t"
  by (simp add: colorize_def strip_plain)

lemma strip_tag: "plain s \<Longrightarrow> strip_ansi (formatTag l s c @ t) = ''[ '' @ s @ '' ] '' @ strip_ansi t"
  by (simp add: formatTag_def strip_colorize strip_plain escape_def)

lemma strip_tags:
  "(\<forall>s\<in>set ss. plain s) \<Longrightarrow>
     strip_ansi (concat (map (\<lambda>s. formatTag l s c) ss) @ t) = concat (map (\<lambda>s. ''[ '' @ s @ '' ] '') ss) @ strip_ansi t"
  by (induction ss) (simp_all add: strip_tag)

definition plain_tag :: "string \<Rightarrow> string" where "plain_tag s = ''[ '' @ s @ '' ] ''"

lemma plain_itoa [simp]: "plain (itoa n)"
proof -
  have "\<not> is_digit escape" by code_simp
  then show ?thesis unfolding plain_def using itoa_digits by blast
qed

lemma plain_pad [simp]: "plain (pad_left n s) \<longleftrightarrow> plain s" "plain (pad_right n s) \<longleftrightarrow> plain s"
  by (auto simp: pad_left_def pad_right_def plain_def escape_def)

lemma plain_level [simp]: "plain (level_text k)"
  by (auto simp: level_text_def show_int_def escape_def split: log_kind.split)

lemma plain_SplitHost: "plain h \<Longrightarrow> s \<in> set (SplitHost h) \<Longrightarrow> plain s"
  by (auto simp: SplitHost_def split: option.splits if_splits dest!: cut_SomeD)

definition plain_context :: "log_context \<Rightarrow> bool" where
  "plain_context ctx \<longleftrightarrow> plain (HostFromContext ctx) \<and> (case lc_module ctx of None \<Rightarrow> True | Some m \<Rightarrow> plain m)"

lemma strip_prefix:
  assumes "plain_context ctx" and "plain level"
  shows "strip_ansi (log_prefix l ctx (colorize level c b) @ t) = log_prefix (l\<lparr>lg_colors := False\<rparr>) ctx level @ strip_ansi t"
proof -
  from assms(1) have host: "\<forall>s\<in>set (SplitHost (HostFromContext ctx)). plain s"
    unfolding plain_context_def using plain_SplitHost by blast
  have "strip_ansi (CHR '' '' # s) = CHR '' '' # strip_ansi s" for s by (simp add: escape_def)
  then show ?thesis
    using assms by (auto simp: log_prefix_def strip_colorize strip_tags [OF host] strip_tag plain_context_def
        formatTag_def [of "l\<lparr>lg_colors := False\<rparr>"] colorize_def [of _ _ False] split: option.split)
qed

text \<open>The colours change nothing but the colours.\<close>

lemma default_log_colors:
  assumes "plain_context ctx" and "plain msg"
  shows "map strip_ansi (default_log l k ctx msg) = default_log (l\<lparr>lg_colors := False\<rparr>) k ctx msg"
  using strip_prefix [OF assms(1) plain_level] assms(2) strip_colorize [OF assms(2), where t = "[]"]
  by (auto simp: default_log_def Let_def strip_plain_end colorize_def [of _ _ False] split: log_kind.split)

lemma HostFromContext_service:
  assumes "ToHost (get_endpoint service) = Inr h"
  shows "HostFromContext (ContextForModuleAndService ctx name service) = h" and "h \<noteq> []"
  using assms by (auto simp: ContextForModuleAndService_def ContextForModule_def ContextForService_def ContextForHost_def
      HostFromContext_def ToHost_def Let_def split: if_splits)

text \<open>A service without an address clears the host of the context it is entered from.\<close>

lemma ContextForService_no_address:
  "ToHost (get_endpoint service) = Inl e \<Longrightarrow> HostFromContext (ContextForService ctx service) = []"
  by (simp add: ContextForService_def ContextForHost_def HostFromContext_def)

text \<open>C40. A line that a module logs about a service consists, up to its colours, of the level, the
  address and the host name of the service, whichever it has, its port, the name of the module and
  the message; a debug line is printed exactly when its level is at most the one that was chosen.\<close>

theorem service_log_line:
  fixes service :: network_service
  defines "e \<equiv> get_endpoint service"
  assumes "ToHost e = Inr h" and "plain h" and "plain name" and "plain msg"
    and "ep_address e = [] \<or> IsIP (ep_address e)"
    and "ep_address e = [] \<Longrightarrow> \<not> IsIP (cut_before CHR ''_'' (ep_host e)) \<or> CHR ''_'' \<notin> set (ep_host e)"
  shows "map strip_ansi (default_log l k (ContextForModuleAndService ctx name service) msg) =
    (if (case k of LogDebug n \<Rightarrow> sint n \<le> sint (lg_verbose l) | _ \<Rightarrow> True)
     then [level_text k @ '' '' @ concat (map plain_tag (filter (\<lambda>s. s \<noteq> []) [ep_address e, ep_host e]))
           @ plain_tag (pad_left 5 (itoa (endpoint_port e))) @ plain_tag name @ msg]
     else [])"
proof -
  let ?ctx = "ContextForModuleAndService ctx name service"
  note host = HostFromContext_service [OF assms(2) [unfolded e_def]]
  have ctx: "lc_module ?ctx = Some name" "lc_port ?ctx = Some (endpoint_port e)"
    by (simp_all add: ContextForModuleAndService_def ContextForModule_def ContextForService_def Let_def e_def)
  have "plain_context ?ctx" by (simp add: plain_context_def host ctx assms)
  note default_log_colors [OF this assms(5)]
  moreover have split: "SplitHost h = filter (\<lambda>s. s \<noteq> []) [ep_address e, ep_host e]"
    by (rule SplitHost_ToHost [OF assms(2,6,7)])
  have tag: "formatTag (l\<lparr>lg_colors := False\<rparr>) s c = plain_tag s" for s c
    by (simp add: formatTag_def colorize_def plain_tag_def)
  have "log_prefix (l\<lparr>lg_colors := False\<rparr>) ?ctx level =
      level @ '' '' @ concat (map plain_tag (SplitHost h)) @ plain_tag (pad_left 5 (itoa (endpoint_port e))) @ plain_tag name" for level
    by (simp add: log_prefix_def host ctx tag)
  ultimately show ?thesis
    unfolding split by (simp add: default_log_def Let_def colorize_def split: log_kind.split)
qed

definition logged_service :: network_service where
  "logged_service = \<lparr>sv_endpoint = Some \<lparr>ep_type = IP_HOSTNAME_PORT, ep_ip = Some \<lparr>ip_addr = ''10.0.0.1'', ip_family = IPV4\<rparr>,
     ep_hostname = Some ''my_host'', ep_port = Some 80\<rparr>, sv_transport = ''TCP'', sv_ssl = [], sv_http_methods = [], sv_context = None\<rparr>"

theorem service_log_line_witness:
  "map strip_ansi (default_log \<lparr>lg_verbose = 2, lg_colors = True\<rparr> (LogDebug 1)
      (ContextForModuleAndService background ''dt/x'' logged_service) ''found'')
   = [''DBG1 [ 10.0.0.1 ] [ my_host ] [    80 ] [ dt/x ] found'']"
proof -
  let ?e = "get_endpoint logged_service"
  have host: "ToHost ?e = Inr ''10.0.0.1_my_host''"
    by (simp add: logged_service_def get_endpoint_def ToHost_def ep_address_def ep_host_def)
  have addr: "ep_address ?e = ''10.0.0.1''" "ep_host ?e = ''my_host''"
    by (simp_all add: logged_service_def get_endpoint_def ep_address_def ep_host_def)
  have "IsIP ''10.0.0.1''" by (simp add: IsIP_def netip_eval)
  then have ip: "ep_address ?e = [] \<or> IsIP (ep_address ?e)" by (simp add: addr)
  have plain: "plain ''10.0.0.1_my_host''" "plain ''dt/x''" "plain ''found''" by (simp_all add: escape_def)
  have level: "level_text (LogDebug 1) = ''DBG1''" "pad_left 5 (itoa (endpoint_port ?e)) = ''   80''" by code_simp+
  show ?thesis
    using service_log_line [OF host plain ip, of "\<lparr>lg_verbose = 2, lg_colors = True\<rparr>" "LogDebug 1" background]
    by (simp add: addr level plain_tag_def)
qed

end
