(* ===== verification/LlmTurn.thy ===== *)
theory LlmTurn
  imports LlmClient
begin

text \<open>
  A turn with a model as its two goroutines run it, \<open>forwardEvents\<close> and \<open>consumeEvents\<close> of
  \<open>src/common/clients/llm/turn.go\<close>: a producer that offers the events of the runner on a channel
  without buffer, and the consumer whose signals \<open>LlmClient\<close> accounts for. Then the request that
  \<open>includeThoughts\<close> prepares and the dump of a session, \<open>session.go\<close>.
\<close>

section \<open>Producer and consumer\<close>

datatype runner_item = RunnerEvent llm_event | RunnerError

text \<open>\<open>fw_offer\<close> is the item that the producer waits with; \<open>fw_ended\<close> says that the context of the turn is done.
  \<open>fw_stalled\<close> says that the iterator of the runner hangs for ever: it waits for every tool and every node
  of the agent, and one that ignores the end of its context keeps it from returning.\<close>

record forward_state =
  fw_rest :: "runner_item list"
  fw_offer :: "runner_item option"
  fw_stalled :: bool
  fw_closed :: bool
  fw_ended :: bool
  fw_signals :: "turn_signal list"
  fw_left :: bool

definition forward_start :: "runner_item list \<Rightarrow> forward_state" where
  "forward_start items = \<lparr>fw_rest = items, fw_offer = None, fw_stalled = False, fw_closed = False, fw_ended = False, fw_signals = [], fw_left = False\<rparr>"

text \<open>The consumer returns, and the deferred \<open>cancel\<close> of \<open>runTurn\<close> ends the context.\<close>

definition consumer_leaves :: "turn_signal list \<Rightarrow> forward_state \<Rightarrow> forward_state" where
  "consumer_leaves sigs s = s\<lparr>fw_signals := fw_signals s @ sigs, fw_left := True, fw_ended := True\<rparr>"

definition consumer_receives :: "runner_item \<Rightarrow> forward_state \<Rightarrow> forward_state" where
  "consumer_receives i s = (case i of
       RunnerError \<Rightarrow> consumer_leaves [ItemError] s
     | RunnerEvent ev \<Rightarrow>
         if fw_ended s then consumer_leaves [ItemEvent ev True] s
         else s\<lparr>fw_signals := fw_signals s @ [ItemEvent ev False]\<rparr>)"

inductive forward_step :: "forward_state \<Rightarrow> forward_state \<Rightarrow> bool" where
  next_event: "\<not> fw_closed s \<Longrightarrow> \<not> fw_stalled s \<Longrightarrow> fw_offer s = None \<Longrightarrow> fw_rest s = i # r \<Longrightarrow> forward_step s (s\<lparr>fw_rest := r, fw_offer := Some i\<rparr>)"
| exhausted: "\<not> fw_closed s \<Longrightarrow> \<not> fw_stalled s \<Longrightarrow> fw_offer s = None \<Longrightarrow> fw_rest s = [] \<Longrightarrow> forward_step s (s\<lparr>fw_closed := True\<rparr>)"
| stalls: "\<not> fw_closed s \<Longrightarrow> \<not> fw_stalled s \<Longrightarrow> fw_offer s = None \<Longrightarrow> forward_step s (s\<lparr>fw_stalled := True\<rparr>)"
| cancelled: "\<not> fw_closed s \<Longrightarrow> fw_offer s = Some i \<Longrightarrow> fw_ended s \<Longrightarrow> forward_step s (s\<lparr>fw_offer := None, fw_closed := True\<rparr>)"
| received: "\<not> fw_left s \<Longrightarrow> fw_offer s = Some i \<Longrightarrow> forward_step s (consumer_receives i (s\<lparr>fw_offer := None\<rparr>))"
| sees_closed: "\<not> fw_left s \<Longrightarrow> fw_closed s \<Longrightarrow> forward_step s (consumer_leaves (if fw_ended s then [TurnDone] else []) s)"
| sees_done: "\<not> fw_left s \<Longrightarrow> fw_ended s \<Longrightarrow> forward_step s (consumer_leaves [TurnDone] s)"
| expires: "\<not> fw_ended s \<Longrightarrow> forward_step s (s\<lparr>fw_ended := True\<rparr>)"

definition arrived :: "llm_event list \<Rightarrow> turn_signal list" where
  "arrived = map (\<lambda>ev. ItemEvent ev False)"

lemma consume_cut:
  "sig \<in> {TurnDone, ItemError} \<or> (\<exists>ev. sig = ItemEvent ev True) \<Longrightarrow>
     snd (consumeEvents (arrived evs @ [sig]) response lp ts) = None"
proof (induction evs arbitrary: response lp ts)
  case Nil
  then show ?case by (auto simp: arrived_def split: prod.split)
next
  case (Cons ev evs)
  then show ?case by (auto simp: arrived_def split: prod.split)
qed

text \<open>
  What holds in every state: before the consumer leaves, all it has seen are events, and these with
  the item on offer and the rest are what the runner yields, as long as the producer has dropped
  nothing, which it only does under a context that is done. Afterwards it has seen everything or
  its last signal makes the turn fail.
\<close>

definition forward_inv :: "runner_item list \<Rightarrow> forward_state \<Rightarrow> bool" where
  "forward_inv items s \<longleftrightarrow>
     (fw_left s \<longrightarrow> fw_ended s) \<and> (fw_closed s \<longrightarrow> fw_offer s = None)
     \<and> (\<not> fw_left s \<longrightarrow> (\<exists>evs. fw_signals s = arrived evs
          \<and> (items = map RunnerEvent evs @ (case fw_offer s of None \<Rightarrow> [] | Some i \<Rightarrow> [i]) @ fw_rest s \<or> fw_ended s)
          \<and> (fw_closed s \<and> \<not> fw_ended s \<longrightarrow> fw_rest s = [])))
     \<and> (fw_left s \<longrightarrow> (\<exists>evs. fw_signals s = arrived evs \<and> items = map RunnerEvent evs)
          \<or> (\<exists>evs sig. fw_signals s = arrived evs @ [sig] \<and> (sig \<in> {TurnDone, ItemError} \<or> (\<exists>ev. sig = ItemEvent ev True))))"

lemma forward_inv_start: "forward_inv items (forward_start items)"
  by (simp add: forward_inv_def forward_start_def arrived_def)

lemma arrived_snoc: "arrived evs @ [ItemEvent ev False] = arrived (evs @ [ev])"
  by (simp add: arrived_def)

lemma forward_inv_step:
  assumes "forward_step s s'" and "forward_inv items s"
  shows "forward_inv items s'"
  using assms
proof (cases rule: forward_step.cases)
  case (received i)
  with assms(2) obtain evs where evs: "fw_signals s = arrived evs" "\<not> fw_closed s"
      "items = map RunnerEvent evs @ i # fw_rest s \<or> fw_ended s"
    by (auto simp: forward_inv_def)
  show ?thesis
  proof (cases i)
    case RunnerError
    with received evs show ?thesis by (auto simp: forward_inv_def consumer_receives_def consumer_leaves_def)
  next
    case (RunnerEvent ev)
    show ?thesis
    proof (cases "fw_ended s")
      case True
      with received evs RunnerEvent show ?thesis by (auto simp: forward_inv_def consumer_receives_def consumer_leaves_def)
    next
      case False
      with evs RunnerEvent have "items = map RunnerEvent (evs @ [ev]) @ fw_rest s" by simp
      with False received evs RunnerEvent show ?thesis
        by (auto simp: forward_inv_def consumer_receives_def arrived_snoc intro!: exI [of _ "evs @ [ev]"])
    qed
  qed
next
  case sees_closed
  with assms(2) obtain evs where evs: "fw_signals s = arrived evs"
      "items = map RunnerEvent evs \<or> fw_ended s"
    by (auto simp: forward_inv_def)
  with sees_closed assms(2) show ?thesis by (auto simp: forward_inv_def consumer_leaves_def)
next
  case sees_done
  with assms(2) show ?thesis by (auto simp: forward_inv_def consumer_leaves_def)
qed (auto simp: forward_inv_def)

lemma forward_inv_reachable:
  "forward_step\<^sup>*\<^sup>* (forward_start items) s \<Longrightarrow> forward_inv items s"
  by (induction rule: rtranclp_induct) (auto intro: forward_inv_start forward_inv_step)

text \<open>Every step uses something up, so a turn is short, and it never waits for nothing.\<close>

definition forward_work :: "forward_state \<Rightarrow> nat" where
  "forward_work s = 2 * length (fw_rest s) + (if fw_offer s = None then 0 else 1) + (if fw_closed s then 0 else 1)
     + (if fw_stalled s then 0 else 1) + (if fw_ended s then 0 else 1) + (if fw_left s then 0 else 1)"

lemma forward_work_step: "forward_step s s' \<Longrightarrow> forward_work s' < forward_work s"
  by (induction rule: forward_step.induct)
    (auto simp: forward_work_def consumer_receives_def consumer_leaves_def split: runner_item.split)

lemma forward_work_run: "(forward_step ^^ n) s s' \<Longrightarrow> n + forward_work s' \<le> forward_work s"
proof (induction n arbitrary: s')
  case (Suc n)
  then obtain t where "(forward_step ^^ n) s t" "forward_step t s'" by auto
  with Suc.IH [of t] forward_work_step [of t s'] show ?case by simp
qed simp

text \<open>The consumer never waits for the producer once the context is done, and until then the context may end.\<close>

lemma consumer_free: "\<not> fw_left s \<Longrightarrow> fw_ended s \<Longrightarrow> forward_step s (consumer_leaves [TurnDone] s)"
  by (rule sees_done)

lemma forward_progress:
  assumes "forward_inv items s" and "\<not> (fw_left s \<and> (fw_closed s \<or> fw_stalled s))"
  shows "\<exists>s'. forward_step s s' \<and> fw_stalled s' = fw_stalled s"
proof -
  consider "\<not> fw_ended s" | "fw_ended s" "\<not> fw_left s" | "fw_ended s" "\<not> fw_closed s" "\<not> fw_stalled s"
    using assms(2) by blast
  then show ?thesis
  proof cases
    case 1
    then show ?thesis by (intro exI [of _ "s\<lparr>fw_ended := True\<rparr>"]) (simp add: expires)
  next
    case 2
    show ?thesis by (intro exI conjI, rule consumer_free [OF 2(2,1)]) (simp add: consumer_leaves_def)
  next
    case running: 3
    show ?thesis
    proof (cases "fw_offer s")
      case (Some i)
      show ?thesis by (intro exI conjI, rule cancelled [OF running(2) Some running(1)]) simp
    next
      case offer: None
      show ?thesis
      proof (cases "fw_rest s")
        case Nil
        show ?thesis by (intro exI conjI, rule exhausted [OF running(2,3) offer Nil]) simp
      next
        case (Cons i r)
        show ?thesis by (intro exI conjI, rule next_event [OF running(2,3) offer Cons]) simp
      qed
    qed
  qed
qed

text \<open>C10. However the goroutines of a turn interleave with each other and with the end of its context, and also
  when the iterator of the runner hangs, an answer is never a part of one: if the consumer returns a
  text, the runner reported no error and the text is that of all its final events, in order. A turn takes at most
  two steps per event and four more, and it only stands still when the caller has returned and the
  producer has ended or hangs in the iterator: as long as the iterator does not hang some goroutine can go on
  without it hanging, and a hanging one leaves the goroutine of the producer behind but not the caller. Once
  the context is done the caller can return in every state, whatever the producer does.\<close>

theorem turn_answer_complete:
  assumes "forward_step\<^sup>*\<^sup>* (forward_start items) s"
  shows "(fw_left s \<and> snd (consumeEvents (fw_signals s) [] None ts) = Some answer \<longrightarrow>
       (\<exists>evs. items = map RunnerEvent evs
          \<and> answer = concat (map (appendEventText []) (filter (\<lambda>ev. \<not> ev_partial ev) evs))))
    \<and> ((\<nexists>s'. forward_step s s' \<and> fw_stalled s' = fw_stalled s) \<longrightarrow> fw_left s \<and> (fw_closed s \<or> fw_stalled s))
    \<and> (fw_ended s \<and> \<not> fw_left s \<longrightarrow> forward_step s (consumer_leaves [TurnDone] s))
    \<and> (\<forall>n s'. (forward_step ^^ n) (forward_start items) s' \<longrightarrow> n \<le> 2 * length items + 4)"
proof (intro conjI impI allI)
  note inv = forward_inv_reachable [OF assms]
  show "fw_left s" "fw_closed s \<or> fw_stalled s" if "\<nexists>s'. forward_step s s' \<and> fw_stalled s' = fw_stalled s"
    using forward_progress [OF inv] that by blast+
  show "forward_step s (consumer_leaves [TurnDone] s)" if "fw_ended s \<and> \<not> fw_left s"
    using that by (simp add: consumer_free)
  show "n \<le> 2 * length items + 4" if "(forward_step ^^ n) (forward_start items) s'" for n s'
    using forward_work_run [OF that] by (simp add: forward_start_def forward_work_def)
  assume "fw_left s \<and> snd (consumeEvents (fw_signals s) [] None ts) = Some answer"
  with inv consume_cut obtain evs where evs: "fw_signals s = arrived evs" "items = map RunnerEvent evs"
      "snd (consumeEvents (arrived evs) [] None ts) = Some answer"
    by (fastforce simp: forward_inv_def)
  then show "\<exists>evs. items = map RunnerEvent evs
      \<and> answer = concat (map (appendEventText []) (filter (\<lambda>ev. \<not> ev_partial ev) evs))"
    unfolding arrived_def consumeEvents_text by auto
qed

definition hello_event :: llm_event where
  "hello_event = \<lparr>ev_partial = False, ev_usage = None, ev_model = ''m'', ev_parts = Some [(''hm'', True), (''hello'', False)]\<rparr>"

text \<open>A turn that ends well, and one whose iterator hangs at once: the caller returns when its time is up, and no
  step is left for the producer.\<close>

theorem turn_answer_complete_witness:
  "(\<exists>s. forward_step\<^sup>*\<^sup>* (forward_start [RunnerEvent hello_event]) s \<and> fw_left s
     \<and> snd (consumeEvents (fw_signals s) [] None \<lparr>total_token_count = 0, cached_token_count = 0, recorded_tokens = []\<rparr>) = Some ''hello''
     \<and> (\<exists>evs. [RunnerEvent hello_event] = map RunnerEvent evs
          \<and> ''hello'' = concat (map (appendEventText []) (filter (\<lambda>ev. \<not> ev_partial ev) evs))))
   \<and> (\<exists>s. forward_step\<^sup>*\<^sup>* (forward_start [RunnerEvent hello_event]) s \<and> fw_stalled s \<and> \<not> fw_closed s
     \<and> forward_step s (consumer_leaves [TurnDone] s))"
proof (intro conjI)
  let ?i = "RunnerEvent hello_event"
  let ?s0 = "forward_start [?i]"
  let ?s1 = "?s0\<lparr>fw_rest := [], fw_offer := Some ?i\<rparr>"
  let ?s2 = "consumer_receives ?i (?s1\<lparr>fw_offer := None\<rparr>)"
  let ?s3 = "?s2\<lparr>fw_closed := True\<rparr>"
  let ?s4 = "consumer_leaves [] ?s3"
  have "forward_step ?s0 ?s1" by (rule next_event) (simp_all add: forward_start_def)
  moreover have "forward_step ?s1 ?s2" by (rule received) (simp_all add: forward_start_def)
  moreover have "forward_step ?s2 ?s3" by (rule exhausted) (simp_all add: consumer_receives_def forward_start_def)
  moreover have "forward_step ?s3 ?s4"
    using sees_closed [of ?s3] by (simp add: consumer_receives_def forward_start_def)
  ultimately have run: "forward_step\<^sup>*\<^sup>* ?s0 ?s4" by (meson converse_rtranclp_into_rtranclp rtranclp.rtrancl_refl)
  have left: "fw_left ?s4" "snd (consumeEvents (fw_signals ?s4) [] None \<lparr>total_token_count = 0, cached_token_count = 0, recorded_tokens = []\<rparr>) = Some ''hello''"
    by (simp_all add: consumer_leaves_def consumer_receives_def forward_start_def hello_event_def appendEventText_def)
  note complete = turn_answer_complete [OF run, THEN conjunct1, rule_format, OF conjI, OF left]
  show "\<exists>s. forward_step\<^sup>*\<^sup>* ?s0 s \<and> fw_left s
     \<and> snd (consumeEvents (fw_signals s) [] None \<lparr>total_token_count = 0, cached_token_count = 0, recorded_tokens = []\<rparr>) = Some ''hello''
     \<and> (\<exists>evs. [?i] = map RunnerEvent evs
          \<and> ''hello'' = concat (map (appendEventText []) (filter (\<lambda>ev. \<not> ev_partial ev) evs)))"
    by (rule exI [of _ ?s4], intro conjI) (rule run left complete)+
  let ?t1 = "?s0\<lparr>fw_stalled := True\<rparr>"
  let ?t2 = "?t1\<lparr>fw_ended := True\<rparr>"
  have "forward_step ?s0 ?t1" by (rule stalls) (simp_all add: forward_start_def)
  moreover have "forward_step ?t1 ?t2" by (rule expires) (simp add: forward_start_def)
  ultimately have hung: "forward_step\<^sup>*\<^sup>* ?s0 ?t2" by (meson converse_rtranclp_into_rtranclp rtranclp.rtrancl_refl)
  have "fw_ended ?t2 \<and> \<not> fw_left ?t2" by (simp add: forward_start_def)
  then have "forward_step ?t2 (consumer_leaves [TurnDone] ?t2)"
    by (rule turn_answer_complete [OF hung, THEN conjunct2, THEN conjunct2, THEN conjunct1, rule_format])
  with hung show "\<exists>s. forward_step\<^sup>*\<^sup>* ?s0 s \<and> fw_stalled s \<and> \<not> fw_closed s \<and> forward_step s (consumer_leaves [TurnDone] s)"
    by (intro exI [of _ ?t2]) (simp add: forward_start_def)
qed

section \<open>The thoughts of a model\<close>

record thinking_config =
  th_include :: bool
  th_budget :: "int option"

record 'x generate_config =
  gn_thinking :: "thinking_config option"
  gn_other :: 'x

text \<open>The callback in front of a request; a configuration that is missing becomes an empty one, \<open>blank\<close>.\<close>

definition includeThoughts :: "'x \<Rightarrow> 'x generate_config option \<Rightarrow> 'x generate_config" where
  "includeThoughts blank cfg =
     (let c = (case cfg of None \<Rightarrow> \<lparr>gn_thinking = None, gn_other = blank\<rparr> | Some c \<Rightarrow> c);
          t = (case gn_thinking c of None \<Rightarrow> \<lparr>th_include = False, th_budget = None\<rparr> | Some t \<Rightarrow> t)
      in c\<lparr>gn_thinking := Some (t\<lparr>th_include := True\<rparr>)\<rparr>)"

lemma includeThoughts_keeps:
  "gn_other (includeThoughts blank (Some c)) = gn_other c"
  "map_option th_budget (gn_thinking c) = Some b \<Longrightarrow> map_option th_budget (gn_thinking (includeThoughts blank (Some c))) = Some b"
  "includeThoughts blank (Some (includeThoughts blank cfg)) = includeThoughts blank cfg"
  by (auto simp: includeThoughts_def Let_def split: option.splits)

section \<open>The dump of a session\<close>

text \<open>The service that keeps the sessions, their text and the file system are parameters.\<close>

record ('w, 's) dump_env =
  du_files :: "'w file_ops"
  du_session :: "string \<Rightarrow> 'w \<Rightarrow> 's option"
  du_marshal :: "'s \<Rightarrow> string option"
  du_write :: "string \<Rightarrow> string \<Rightarrow> 'w \<Rightarrow> 'w \<times> bool"

definition llmMetricsModule :: string where "llmMetricsModule = ''clients/llm''"

definition session_file :: "string \<Rightarrow> string \<Rightarrow> string" where
  "session_file dir sid = path_join [dir, ''session_'' @ sid @ ''.json'']"

definition dumpSession :: "('w, 's) dump_env \<Rightarrow> bool \<Rightarrow> config option \<Rightarrow> string \<Rightarrow> 'w \<Rightarrow> 'w" where
  "dumpSession du dump_trajectories core sid w = (case core of
       None \<Rightarrow> w
     | Some c \<Rightarrow>
         if \<not> dump_trajectories \<or> sid = [] then w
         else case ArtifactsForModule (du_files du) c llmMetricsModule w of
             (w1, Inl _) \<Rightarrow> w1
           | (w1, Inr dir) \<Rightarrow> (case du_session du sid w1 of
                 None \<Rightarrow> w1
               | Some s \<Rightarrow> (case du_marshal du s of
                     None \<Rightarrow> w1
                   | Some text \<Rightarrow> fst (du_write du (session_file dir sid) text w1))))"

lemma dumpSession_off: "\<not> dump_trajectories \<or> core = None \<or> sid = [] \<Longrightarrow> dumpSession du dump_trajectories core sid w = w"
  by (auto simp: dumpSession_def split: option.split)

lemma dumpSession_writes:
  assumes "sid \<noteq> []" and "ArtifactsForModule (du_files du) c llmMetricsModule w = (w1, Inr dir)"
    and "du_session du sid w1 = Some s" and "du_marshal du s = Some text"
  shows "dumpSession du True (Some c) sid w = fst (du_write du (session_file dir sid) text w1)"
  using assms by (simp add: dumpSession_def)

end
