(* ===== verification/AgentSchema.thy ===== *)
theory AgentSchema
  imports AuthStrategy HttpTool
begin

text \<open>
  The agents of the weak credential detector, \<open>src/plugins/detectors/adkweakcreds/agent.go\<close>: the schemas
  of their answers, without the descriptions, and their construction; with the decoding of such an
  answer into a strategy by \<open>encoding/json\<close> along the tags of \<open>request.go\<close> and \<open>strategy.go\<close>.
\<close>

section \<open>JSON and schemas\<close>

datatype json = JNull | JBool bool | JNum int | JStr string | JArr "json list" | JObj "(string \<times> json) list"

text \<open>A type with its bounds, and whether null is allowed too. An empty enumeration allows every text.\<close>

datatype schema =
    TypeBoolean
  | TypeString "string list" nat
  | TypeArray schema nat "nat option"
  | TypeObject "(string \<times> schema) list" "string list"
  | Nullable schema

text \<open>What the service promises of an answer under a schema: no undeclared and no repeated property.\<close>

fun allows :: "schema \<Rightarrow> json \<Rightarrow> bool" where
  "allows (Nullable s) v \<longleftrightarrow> v = JNull \<or> allows s v"
| "allows TypeBoolean v \<longleftrightarrow> (case v of JBool _ \<Rightarrow> True | _ \<Rightarrow> False)"
| "allows (TypeString enum least) v \<longleftrightarrow>
     (case v of JStr t \<Rightarrow> (enum = [] \<or> t \<in> set enum) \<and> least \<le> length t | _ \<Rightarrow> False)"
| "allows (TypeArray s least most) v \<longleftrightarrow>
     (case v of JArr vs \<Rightarrow> (\<forall>w\<in>set vs. allows s w) \<and> least \<le> length vs
        \<and> (case most of None \<Rightarrow> True | Some n \<Rightarrow> length vs \<le> n) | _ \<Rightarrow> False)"
| "allows (TypeObject props req) v \<longleftrightarrow>
     (case v of JObj kvs \<Rightarrow> distinct (map fst kvs) \<and> set (map fst kvs) \<subseteq> set (map fst props)
        \<and> (\<forall>k\<in>set req. k \<in> set (map fst kvs))
        \<and> (\<forall>(k, s)\<in>set props. case map_of kvs k of None \<Rightarrow> True | Some w \<Rightarrow> allows s w) | _ \<Rightarrow> False)"

definition header_schema :: schema where
  "header_schema = TypeObject [(''name'', TypeString [] 0), (''value'', TypeString [] 0)] [''name'', ''value'']"

definition request_properties :: "(string \<times> schema) list" where
  "request_properties =
     [(''method'', TypeString [''GET'', ''POST''] 0), (''path'', TypeString [] 0), (''body'', TypeString [] 0),
      (''extraction_regex'', TypeString [] 1), (''headers'', TypeArray header_schema 0 None)]"

definition schemaRequestHTTP :: schema where
  "schemaRequestHTTP = TypeObject request_properties [''method'', ''path'', ''extraction_regex'']"

definition credential_schema :: schema where
  "credential_schema = TypeObject [(''username'', TypeString [] 0), (''password'', TypeString [] 0)] [''password'']"

definition details_properties :: "(string \<times> schema) list" where
  "details_properties =
     [(''csrf_request'', Nullable schemaRequestHTTP), (''login_request'', schemaRequestHTTP),
      (''credentials_to_test'', TypeArray credential_schema 1 (Some 10))]"

definition authenticationDetailsSchema :: schema where
  "authenticationDetailsSchema = TypeObject details_properties [''login_request'', ''credentials_to_test'']"

definition authenticationSchema :: schema where
  "authenticationSchema = TypeObject
     [(''supports_authentication'', TypeBoolean), (''authentication_details'', Nullable authenticationDetailsSchema)]
     [''supports_authentication'']"

definition judgeSchema :: schema where
  "judgeSchema = TypeObject [(''authenticated'', TypeBoolean)] [''authenticated'']"

section \<open>Decoding\<close>

text \<open>
  An object is decoded pair by pair into the value so far: a name is matched without regard to case,
  a name that is unknown is skipped, and null leaves a text or a flag as it is. A pointer is decoded
  into what it points to. A null element of a list, which the code would dereference, is an error here.
\<close>

fun dec_fields :: "('a \<Rightarrow> string \<times> json \<Rightarrow> 'a option) \<Rightarrow> (string \<times> json) list \<Rightarrow> 'a \<Rightarrow> 'a option" where
  "dec_fields f [] a = Some a"
| "dec_fields f (kv # kvs) a = (case f a kv of None \<Rightarrow> None | Some a' \<Rightarrow> dec_fields f kvs a')"

definition dec_string :: "json \<Rightarrow> string \<Rightarrow> string option" where
  "dec_string v cur = (case v of JStr t \<Rightarrow> Some t | JNull \<Rightarrow> Some cur | _ \<Rightarrow> None)"

definition dec_bool :: "json \<Rightarrow> bool \<Rightarrow> bool option" where
  "dec_bool v cur = (case v of JBool b \<Rightarrow> Some b | JNull \<Rightarrow> Some cur | _ \<Rightarrow> None)"

definition dec_struct :: "('a \<Rightarrow> string \<times> json \<Rightarrow> 'a option) \<Rightarrow> json \<Rightarrow> 'a \<Rightarrow> 'a option" where
  "dec_struct f v cur = (case v of JObj kvs \<Rightarrow> dec_fields f kvs cur | JNull \<Rightarrow> Some cur | _ \<Rightarrow> None)"

definition dec_pointer :: "('a \<Rightarrow> string \<times> json \<Rightarrow> 'a option) \<Rightarrow> 'a \<Rightarrow> json \<Rightarrow> 'a option \<Rightarrow> 'a option option" where
  "dec_pointer f zero v cur = (case v of
       JNull \<Rightarrow> Some None
     | JObj kvs \<Rightarrow> map_option Some (dec_fields f kvs (case cur of None \<Rightarrow> zero | Some a \<Rightarrow> a))
     | _ \<Rightarrow> None)"

definition dec_element :: "('a \<Rightarrow> string \<times> json \<Rightarrow> 'a option) \<Rightarrow> 'a \<Rightarrow> json \<Rightarrow> 'a option" where
  "dec_element f zero w = (case w of JObj kvs \<Rightarrow> dec_fields f kvs zero | _ \<Rightarrow> None)"

definition dec_list :: "('a \<Rightarrow> string \<times> json \<Rightarrow> 'a option) \<Rightarrow> 'a \<Rightarrow> json \<Rightarrow> 'a list \<Rightarrow> 'a list option" where
  "dec_list f zero v cur = (case v of
       JNull \<Rightarrow> Some []
     | JArr vs \<Rightarrow> those (map (dec_element f zero) vs)
     | _ \<Rightarrow> None)"

definition header_field :: "string \<times> string \<Rightarrow> string \<times> json \<Rightarrow> (string \<times> string) option" where
  "header_field h kv = (case kv of (k, v) \<Rightarrow>
     if equal_fold k ''name'' then map_option (\<lambda>t. (t, snd h)) (dec_string v (fst h))
     else if equal_fold k ''value'' then map_option (\<lambda>t. (fst h, t)) (dec_string v (snd h))
     else Some h)"

definition zero_request :: auth_request where
  "zero_request = \<lparr>ar_method = [], ar_path = [], ar_body = [], ar_regex = [], ar_headers = [], ar_rex = None\<rparr>"

definition request_field :: "auth_request \<Rightarrow> string \<times> json \<Rightarrow> auth_request option" where
  "request_field r kv = (case kv of (k, v) \<Rightarrow>
     if equal_fold k ''method'' then map_option (\<lambda>t. r\<lparr>ar_method := t\<rparr>) (dec_string v (ar_method r))
     else if equal_fold k ''path'' then map_option (\<lambda>t. r\<lparr>ar_path := t\<rparr>) (dec_string v (ar_path r))
     else if equal_fold k ''body'' then map_option (\<lambda>t. r\<lparr>ar_body := t\<rparr>) (dec_string v (ar_body r))
     else if equal_fold k ''extraction_regex'' then map_option (\<lambda>t. r\<lparr>ar_regex := t\<rparr>) (dec_string v (ar_regex r))
     else if equal_fold k ''headers'' then map_option (\<lambda>hs. r\<lparr>ar_headers := hs\<rparr>) (dec_list header_field ([], []) v (ar_headers r))
     else Some r)"

definition credential_field :: "adk_credential \<Rightarrow> string \<times> json \<Rightarrow> adk_credential option" where
  "credential_field c kv = (case kv of (k, v) \<Rightarrow>
     if equal_fold k ''username'' then map_option (\<lambda>t. c\<lparr>ac_username := t\<rparr>) (dec_string v (ac_username c))
     else if equal_fold k ''password'' then map_option (\<lambda>t. c\<lparr>ac_password := t\<rparr>) (dec_string v (ac_password c))
     else Some c)"

definition details_field :: "auth_details \<Rightarrow> string \<times> json \<Rightarrow> auth_details option" where
  "details_field d kv = (case kv of (k, v) \<Rightarrow>
     if equal_fold k ''csrf_request'' then map_option (\<lambda>r. d\<lparr>ad_csrf := r\<rparr>) (dec_pointer request_field zero_request v (ad_csrf d))
     else if equal_fold k ''login_request'' then map_option (\<lambda>r. d\<lparr>ad_login := r\<rparr>) (dec_pointer request_field zero_request v (ad_login d))
     else if equal_fold k ''credentials_to_test''
     then map_option (\<lambda>cs. d\<lparr>ad_credentials := cs\<rparr>) (dec_list credential_field \<lparr>ac_username = [], ac_password = []\<rparr> v (ad_credentials d))
     else Some d)"

definition strategy_field :: "auth_strategy \<Rightarrow> string \<times> json \<Rightarrow> auth_strategy option" where
  "strategy_field a kv = (case kv of (k, v) \<Rightarrow>
     if equal_fold k ''supports_authentication'' then map_option (\<lambda>b. a\<lparr>as_supported := b\<rparr>) (dec_bool v (as_supported a))
     else if equal_fold k ''authentication_details''
     then map_option (\<lambda>d. a\<lparr>as_details := d\<rparr>)
       (dec_pointer details_field \<lparr>ad_csrf = None, ad_login = None, ad_credentials = []\<rparr> v (as_details a))
     else Some a)"

definition unmarshal_strategy :: "json \<Rightarrow> auth_strategy option" where
  "unmarshal_strategy v = dec_struct strategy_field v \<lparr>as_supported = False, as_details = None\<rparr>"

definition unmarshal_judge :: "json \<Rightarrow> bool option" where
  "unmarshal_judge v = dec_struct (\<lambda>b (k, w). if equal_fold k ''authenticated'' then dec_bool w b else Some b) v False"

section \<open>The agents\<close>

text \<open>
  The model, the tool and the agent are created by the development kit and by \<open>newTool\<close>; an agent
  is known by what it was configured with.
\<close>

record ('m, 'tl) agent_config =
  ag_model :: 'm
  ag_name :: string
  ag_tools :: "'tl list"
  ag_instruction :: string
  ag_schema :: schema

datatype 'e agent_error = ModelFailed | ToolFailed "'e tool_error" | AgentRejected

record ('m, 'tl) agent_kit =
  ak_new_model :: "string \<Rightarrow> duration \<Rightarrow> 'm option"
  ak_accepts :: "('m, 'tl) agent_config \<Rightarrow> bool"

definition llmName :: string where "llmName = ''authentication-agent''"
definition judgeName :: string where "judgeName = ''authentication-judge-agent''"
definition llmModelTier :: model_tier where "llmModelTier = ModelTierFast"
definition judgeModelTier :: model_tier where "judgeModelTier = ModelTierPro"

definition new_agent :: "('m, 'tl) agent_kit \<Rightarrow> ('m, 'tl) agent_config \<Rightarrow> ('e agent_error, ('m, 'tl) agent_config) result" where
  "new_agent ak cfg = (if ak_accepts ak cfg then Inr cfg else Inl AgentRejected)"

definition buildAgent :: "('m, 'j http_tool) agent_kit \<Rightarrow> ('w, 'j, 'e) tool_net \<Rightarrow> string list \<Rightarrow> string \<Rightarrow> config \<Rightarrow> network_service
    \<Rightarrow> ('e agent_error, ('m, 'j http_tool) agent_config) result" where
  "buildAgent ak tn defaultForbiddenPaths llmPrompt c service =
     (case ak_new_model ak (GetModel c llmModelTier) (llm_TimeoutPerRequest c) of
        None \<Rightarrow> Inl ModelFailed
      | Some model \<Rightarrow> (case newTool tn defaultForbiddenPaths c service of
            Inl e \<Rightarrow> Inl (ToolFailed e)
          | Inr serviceTool \<Rightarrow>
              new_agent ak \<lparr>ag_model = model, ag_name = llmName, ag_tools = [serviceTool],
                ag_instruction = llmPrompt, ag_schema = authenticationSchema\<rparr>))"

definition buildJudgeAgent :: "('m, 'tl) agent_kit \<Rightarrow> string \<Rightarrow> config \<Rightarrow> ('e agent_error, ('m, 'tl) agent_config) result" where
  "buildJudgeAgent ak judgePrompt c =
     (case ak_new_model ak (GetModel c judgeModelTier) (llm_TimeoutPerRequest c) of
        None \<Rightarrow> Inl ModelFailed
      | Some model \<Rightarrow>
          new_agent ak \<lparr>ag_model = model, ag_name = judgeName, ag_tools = [], ag_instruction = judgePrompt, ag_schema = judgeSchema\<rparr>)"

section \<open>Decoding an answer under its schema\<close>

lemma Ball_subset: "\<forall>x\<in>A. P x \<Longrightarrow> B \<subseteq> A \<Longrightarrow> \<forall>x\<in>B. P x"
  by blast

lemma dec_fields_total:
  "\<forall>kv\<in>set kvs. \<forall>a. f a kv \<noteq> None \<Longrightarrow> \<exists>a'. dec_fields f kvs a = Some a'"
  by (induction kvs arbitrary: a) (auto split: option.split)

text \<open>A fact about the value that every pair keeps and one pair brings about holds at the end.\<close>

lemma dec_fields_append: "dec_fields f (kvs @ kvs') a = Option.bind (dec_fields f kvs a) (dec_fields f kvs')"
  by (induction kvs arbitrary: a) (auto split: option.split)

lemma dec_fields_keeps:
  assumes "\<forall>kv\<in>set kvs. \<forall>b b'. f b kv = Some b' \<longrightarrow> Q b \<longrightarrow> Q b'"
  shows "dec_fields f kvs a = Some a' \<Longrightarrow> Q a \<Longrightarrow> Q a'"
  using assms
proof (induction kvs arbitrary: a)
  case (Cons kv kvs)
  then obtain b where b: "f a kv = Some b" "dec_fields f kvs b = Some a'" by (auto split: option.splits)
  with Cons.prems have "Q b" by (meson list.set_intros(1))
  with b(2) Cons.prems(3) show ?case by (intro Cons.IH [of b]) simp_all
qed simp

lemma dec_fields_establishes:
  assumes "dec_fields f kvs a = Some a'" and "kv \<in> set kvs" and "\<forall>b b'. f b kv = Some b' \<longrightarrow> Q b'"
    and "\<forall>kv\<in>set kvs. \<forall>b b'. f b kv = Some b' \<longrightarrow> Q b \<longrightarrow> Q b'"
  shows "Q a'"
proof -
  from assms(2) obtain xs ys where kvs: "kvs = xs @ kv # ys" by (meson split_list)
  with assms(1) obtain b b' where b: "f b kv = Some b'" "dec_fields f ys b' = Some a'"
    by (auto simp: dec_fields_append bind_eq_Some_conv split: option.splits)
  from b(1) assms(3) have "Q b'" by blast
  have "set ys \<subseteq> set kvs" by (auto simp: kvs)
  with assms(4) have "\<forall>kv\<in>set ys. \<forall>b b'. f b kv = Some b' \<longrightarrow> Q b \<longrightarrow> Q b'" by (rule Ball_subset)
  from dec_fields_keeps [of _ _ Q, OF this b(2) \<open>Q b'\<close>] show ?thesis .
qed

definition field_names :: "string list" where
  "field_names = [''method'', ''path'', ''body'', ''extraction_regex'', ''headers'', ''name'', ''value'', ''username'', ''password'',
     ''csrf_request'', ''login_request'', ''credentials_to_test'', ''supports_authentication'', ''authentication_details'',
     ''authenticated'']"

lemma names_lower: "list_all (\<lambda>k. to_lower k = k) field_names"
  by code_simp

lemma fold_names: "k \<in> set field_names \<Longrightarrow> k' \<in> set field_names \<Longrightarrow> equal_fold k k' \<longleftrightarrow> k = k'"
  using names_lower by (auto simp: equal_fold_def list_all_iff)

text \<open>Every pair of a conforming object has a declared name and a value that conforms.\<close>

lemma allows_pair:
  assumes "allows (TypeObject props req) (JObj kvs)" and "(k, v) \<in> set kvs"
  shows "\<exists>s. (k, s) \<in> set props \<and> allows s v"
proof -
  from assms have "map_of kvs k = Some v" by simp
  moreover from assms have "k \<in> set (map fst props)" by (simp add: subset_iff image_iff) (metis fst_conv)
  then obtain s where s: "(k, s) \<in> set props" by auto
  moreover from assms(1) s have "case map_of kvs k of None \<Rightarrow> True | Some w \<Rightarrow> allows s w" by fastforce
  ultimately show ?thesis by auto
qed

lemma allows_object: "allows (TypeObject props req) v \<Longrightarrow> \<exists>kvs. v = JObj kvs"
  by (cases v) simp_all

lemma allows_string: "allows (TypeString enum least) v \<Longrightarrow> \<exists>t. v = JStr t \<and> (enum = [] \<or> t \<in> set enum) \<and> least \<le> length t"
  by (cases v) simp_all

lemma allows_required: "allows (TypeObject props req) (JObj kvs) \<Longrightarrow> k \<in> set req \<Longrightarrow> \<exists>v. (k, v) \<in> set kvs"
  by simp (metis imageE prod.collapse)

declare allows.simps [simp del]

lemma allows_array:
  "allows (TypeArray s least most) v \<Longrightarrow> \<exists>vs. v = JArr vs \<and> (\<forall>w\<in>set vs. allows s w) \<and> least \<le> length vs
     \<and> (case most of None \<Rightarrow> True | Some n \<Rightarrow> length vs \<le> n)"
  by (cases v) (simp_all add: allows.simps)

lemma those_total: "\<forall>w\<in>set ws. \<exists>a. g w = Some a \<Longrightarrow> \<exists>as. those (map g ws) = Some as \<and> length as = length ws"
  by (induction ws) auto

lemma allows_list:
  assumes "allows (TypeArray (TypeObject props req) least most) v"
    and "\<And>kvs. allows (TypeObject props req) (JObj kvs) \<Longrightarrow> \<exists>a. dec_fields f kvs zero = Some a"
  shows "\<exists>as. dec_list f zero v cur = Some as \<and> least \<le> length as \<and> (case most of None \<Rightarrow> True | Some n \<Rightarrow> length as \<le> n)"
proof -
  from allows_array [OF assms(1)] obtain vs where vs: "v = JArr vs" "\<And>w. w \<in> set vs \<Longrightarrow> allows (TypeObject props req) w"
      "least \<le> length vs" "case most of None \<Rightarrow> True | Some n \<Rightarrow> length vs \<le> n"
    by blast
  have "\<forall>w\<in>set vs. \<exists>a. dec_element f zero w = Some a"
    using allows_object assms(2) vs(2) by (fastforce simp: dec_element_def)
  from those_total [OF this] obtain as where "those (map (dec_element f zero) vs) = Some as" "length as = length vs" by blast
  with vs(3,4) show ?thesis by (cases most) (simp_all add: dec_list_def vs(1))
qed

lemma header_decodes: "allows header_schema (JObj kvs) \<Longrightarrow> \<exists>h. dec_fields header_field kvs h0 = Some h"
proof (intro dec_fields_total ballI allI)
  fix kv h assume conf: "allows header_schema (JObj kvs)" and "kv \<in> set kvs"
  then obtain k v s where kv: "kv = (k, v)" "(k, s) \<in> {(''name'', TypeString [] 0), (''value'', TypeString [] 0)}" "allows s v"
    unfolding header_schema_def by (cases kv) (fastforce dest: allows_pair)
  then obtain t where "v = JStr t" using allows_string by blast
  with kv show "header_field h kv \<noteq> None" by (auto simp: header_field_def dec_string_def)
qed

lemma credential_decodes: "allows credential_schema (JObj kvs) \<Longrightarrow> \<exists>c. dec_fields credential_field kvs c0 = Some c"
proof (intro dec_fields_total ballI allI)
  fix kv c assume conf: "allows credential_schema (JObj kvs)" and "kv \<in> set kvs"
  then obtain k v s where kv: "kv = (k, v)" "(k, s) \<in> {(''username'', TypeString [] 0), (''password'', TypeString [] 0)}" "allows s v"
    unfolding credential_schema_def by (cases kv) (fastforce dest: allows_pair)
  then obtain t where "v = JStr t" using allows_string by blast
  with kv show "credential_field c kv \<noteq> None" by (auto simp: credential_field_def dec_string_def)
qed

text \<open>A request under its schema decodes, with one of the two methods and an expression that is not empty.\<close>

lemma request_pair:
  assumes "allows schemaRequestHTTP (JObj kvs)" and "(k, v) \<in> set kvs"
  shows "(k = ''method'' \<and> v \<in> {JStr ''GET'', JStr ''POST''}) \<or> (k = ''path'' \<and> (\<exists>t. v = JStr t)) \<or> (k = ''body'' \<and> (\<exists>t. v = JStr t))
    \<or> (k = ''extraction_regex'' \<and> (\<exists>t. v = JStr t \<and> t \<noteq> [])) \<or> (k = ''headers'' \<and> allows (TypeArray header_schema 0 None) v)"
proof -
  from allows_pair [OF assms(1) [unfolded schemaRequestHTTP_def] assms(2)]
  obtain s where "(k, s) \<in> set request_properties" "allows s v" by blast
  then show ?thesis
    unfolding request_properties_def list.set insert_iff empty_iff prod.inject
    by (elim disjE conjE FalseE; hypsubst) ((drule allows_string, force) | simp)+
qed

lemma headers_decode:
  assumes "allows (TypeArray header_schema 0 None) v"
  shows "\<exists>hs. dec_list header_field ([], []) v cur = Some hs"
proof -
  have "\<exists>a. dec_fields header_field kvs ([], []) = Some a" if "allows header_schema (JObj kvs)" for kvs
    using header_decodes [OF that] .
  from allows_list [OF assms [unfolded header_schema_def] this [unfolded header_schema_def]] show ?thesis by blast
qed

lemma request_field_simps:
  "request_field r (''method'', v) = map_option (\<lambda>t. r\<lparr>ar_method := t\<rparr>) (dec_string v (ar_method r))"
  "request_field r (''path'', v) = map_option (\<lambda>t. r\<lparr>ar_path := t\<rparr>) (dec_string v (ar_path r))"
  "request_field r (''body'', v) = map_option (\<lambda>t. r\<lparr>ar_body := t\<rparr>) (dec_string v (ar_body r))"
  "request_field r (''extraction_regex'', v) = map_option (\<lambda>t. r\<lparr>ar_regex := t\<rparr>) (dec_string v (ar_regex r))"
  "request_field r (''headers'', v) = map_option (\<lambda>hs. r\<lparr>ar_headers := hs\<rparr>) (dec_list header_field ([], []) v (ar_headers r))"
  by (simp_all add: request_field_def fold_names field_names_def)

lemma request_decodes:
  assumes "allows schemaRequestHTTP (JObj kvs)"
  shows "\<exists>r. dec_fields request_field kvs r0 = Some r \<and> ar_method r \<in> {''GET'', ''POST''} \<and> ar_regex r \<noteq> []"
proof -
  note pair = request_pair [OF assms]
  have "request_field r kv \<noteq> None" if "kv \<in> set kvs" for kv r
    using pair [of "fst kv" "snd kv"] that headers_decode [of "snd kv" "ar_headers r"]
    by (cases kv) (auto simp: request_field_simps dec_string_def)
  then have "\<forall>kv\<in>set kvs. \<forall>r. request_field r kv \<noteq> None" by blast
  from dec_fields_total [OF this] obtain r where r: "dec_fields request_field kvs r0 = Some r" by blast
  have keeps: "ar_method b' = ar_method b \<or> ar_method b' \<in> {''GET'', ''POST''}" "ar_regex b' = ar_regex b \<or> ar_regex b' \<noteq> []"
    if "kv \<in> set kvs" "request_field b kv = Some b'" for kv b b'
    using pair [of "fst kv" "snd kv"] that by (cases kv, auto simp: request_field_simps dec_string_def)+
  from allows_required [OF assms [unfolded schemaRequestHTTP_def]]
  obtain v w where vw: "(''method'', v) \<in> set kvs" "(''extraction_regex'', w) \<in> set kvs" by (meson list.set_intros)
  have stay: "\<forall>kv\<in>set kvs. \<forall>b b'. request_field b kv = Some b' \<longrightarrow> ar_method b \<in> {''GET'', ''POST''} \<longrightarrow> ar_method b' \<in> {''GET'', ''POST''}"
    by (intro ballI allI impI) (drule (1) keeps(1), elim disjE, simp_all)
  have stay': "\<forall>kv\<in>set kvs. \<forall>b b'. request_field b kv = Some b' \<longrightarrow> ar_regex b \<noteq> [] \<longrightarrow> ar_regex b' \<noteq> []"
    by (intro ballI allI impI) (drule (1) keeps(2), elim disjE, simp_all)
  have vals: "v = JStr ''GET'' \<or> v = JStr ''POST''" "\<exists>t. w = JStr t \<and> t \<noteq> []"
    using pair [OF vw(1)] pair [OF vw(2)] by simp_all
  have "\<forall>b b'. request_field b (''method'', v) = Some b' \<longrightarrow> ar_method b' \<in> {''GET'', ''POST''}"
    "\<forall>b b'. request_field b (''extraction_regex'', w) = Some b' \<longrightarrow> ar_regex b' \<noteq> []"
    using vals by (auto simp: request_field_simps dec_string_def)
  note brings = this
  have "ar_method r \<in> {''GET'', ''POST''}" by (rule dec_fields_establishes [OF r vw(1) brings(1) stay])
  moreover have "ar_regex r \<noteq> []" by (rule dec_fields_establishes [OF r vw(2) brings(2) stay'])
  ultimately show ?thesis using r by blast
qed

definition good_request :: "auth_request \<Rightarrow> bool" where
  "good_request r \<longleftrightarrow> ar_method r \<in> {''GET'', ''POST''} \<and> ar_regex r \<noteq> []"

lemma request_pointer:
  assumes "allows schemaRequestHTTP v"
  shows "\<exists>r. dec_pointer request_field zero_request v cur = Some (Some r) \<and> good_request r"
proof -
  from allows_object [OF assms [unfolded schemaRequestHTTP_def]] obtain kvs where "v = JObj kvs" by blast
  with request_decodes [of kvs "case cur of None \<Rightarrow> zero_request | Some a \<Rightarrow> a"] assms show ?thesis
    by (auto simp: dec_pointer_def good_request_def)
qed

lemma allows_Nullable: "allows (Nullable s) v \<Longrightarrow> v = JNull \<or> allows s v"
  by (simp add: allows.simps)

lemma details_pair:
  assumes "allows authenticationDetailsSchema (JObj kvs)" and "(k, v) \<in> set kvs"
  shows "(k = ''csrf_request'' \<and> (v = JNull \<or> allows schemaRequestHTTP v)) \<or> (k = ''login_request'' \<and> allows schemaRequestHTTP v)
    \<or> (k = ''credentials_to_test'' \<and> allows (TypeArray credential_schema 1 (Some 10)) v)"
proof -
  from allows_pair [OF assms(1) [unfolded authenticationDetailsSchema_def] assms(2)]
  obtain s where "(k, s) \<in> set details_properties" "allows s v" by blast
  then show ?thesis
    unfolding details_properties_def list.set insert_iff empty_iff prod.inject
    by (elim disjE conjE FalseE; hypsubst) ((drule allows_Nullable, force) | simp)+
qed

lemma credentials_decode:
  assumes "allows (TypeArray credential_schema 1 (Some 10)) v"
  shows "\<exists>cs. dec_list credential_field c0 v cur = Some cs \<and> cs \<noteq> [] \<and> length cs \<le> 10"
proof -
  have "\<exists>a. dec_fields credential_field kvs c0 = Some a" if "allows credential_schema (JObj kvs)" for kvs
    using credential_decodes [OF that] .
  from allows_list [OF assms [unfolded credential_schema_def] this [unfolded credential_schema_def]] show ?thesis by fastforce
qed

lemma details_field_simps:
  "details_field d (''csrf_request'', v) = map_option (\<lambda>r. d\<lparr>ad_csrf := r\<rparr>) (dec_pointer request_field zero_request v (ad_csrf d))"
  "details_field d (''login_request'', v) = map_option (\<lambda>r. d\<lparr>ad_login := r\<rparr>) (dec_pointer request_field zero_request v (ad_login d))"
  "details_field d (''credentials_to_test'', v) =
     map_option (\<lambda>cs. d\<lparr>ad_credentials := cs\<rparr>) (dec_list credential_field \<lparr>ac_username = [], ac_password = []\<rparr> v (ad_credentials d))"
  by (simp_all add: details_field_def fold_names field_names_def)

text \<open>What each pair of the details brings, in the words of the four facts that hold at the end.\<close>

definition good_csrf :: "auth_details \<Rightarrow> bool" where
  "good_csrf d \<longleftrightarrow> (case ad_csrf d of None \<Rightarrow> True | Some r \<Rightarrow> good_request r)"

definition good_login :: "auth_details \<Rightarrow> bool" where
  "good_login d \<longleftrightarrow> (case ad_login d of None \<Rightarrow> False | Some r \<Rightarrow> good_request r)"

definition good_credentials :: "auth_details \<Rightarrow> bool" where
  "good_credentials d \<longleftrightarrow> ad_credentials d \<noteq> [] \<and> length (ad_credentials d) \<le> 10"

lemma details_csrf:
  assumes "v = JNull \<or> allows schemaRequestHTTP v"
  shows "\<exists>r. details_field d (''csrf_request'', v) = Some (d\<lparr>ad_csrf := r\<rparr>) \<and> good_csrf (d\<lparr>ad_csrf := r\<rparr>)"
  using assms
proof
  assume "v = JNull"
  then show ?thesis by (intro exI [of _ None]) (simp add: details_field_simps dec_pointer_def good_csrf_def)
next
  assume "allows schemaRequestHTTP v"
  from request_pointer [OF this, of "ad_csrf d"] show ?thesis by (auto simp: details_field_simps good_csrf_def)
qed

lemma details_login:
  assumes "allows schemaRequestHTTP v"
  shows "\<exists>r. details_field d (''login_request'', v) = Some (d\<lparr>ad_login := r\<rparr>) \<and> good_login (d\<lparr>ad_login := r\<rparr>)"
  using request_pointer [OF assms, of "ad_login d"] by (auto simp: details_field_simps good_login_def)

lemma details_credentials:
  assumes "allows (TypeArray credential_schema 1 (Some 10)) v"
  shows "\<exists>cs. details_field d (''credentials_to_test'', v) = Some (d\<lparr>ad_credentials := cs\<rparr>)
    \<and> good_credentials (d\<lparr>ad_credentials := cs\<rparr>)"
  using credentials_decode [OF assms, of "\<lparr>ac_username = [], ac_password = []\<rparr>" "ad_credentials d"]
  by (auto simp: details_field_simps good_credentials_def)

lemma details_step:
  assumes "allows authenticationDetailsSchema (JObj kvs)" and "kv \<in> set kvs"
  shows "\<exists>d'. details_field d kv = Some d' \<and> (good_csrf d \<longrightarrow> good_csrf d') \<and> (good_login d \<longrightarrow> good_login d')
    \<and> (good_credentials d \<longrightarrow> good_credentials d')"
proof -
  obtain k v where kv: "kv = (k, v)" by (cases kv)
  from details_pair [OF assms(1) assms(2) [unfolded kv]] consider
      (csrf) "k = ''csrf_request''" "v = JNull \<or> allows schemaRequestHTTP v"
    | (login) "k = ''login_request''" "allows schemaRequestHTTP v"
    | (creds) "k = ''credentials_to_test''" "allows (TypeArray credential_schema 1 (Some 10)) v"
    by blast
  then show ?thesis
  proof cases
    case csrf
    from details_csrf [OF csrf(2), of d] show ?thesis
      by (auto simp: kv csrf(1) good_login_def good_credentials_def)
  next
    case login
    from details_login [OF login(2), of d] show ?thesis
      by (auto simp: kv login(1) good_csrf_def good_credentials_def)
  next
    case creds
    from details_credentials [OF creds(2), of d] show ?thesis
      by (auto simp: kv creds(1) good_csrf_def good_login_def)
  qed
qed

lemma details_decode:
  assumes "allows authenticationDetailsSchema (JObj kvs)" and "good_csrf d0"
  shows "\<exists>d. dec_fields details_field kvs d0 = Some d \<and> good_csrf d \<and> good_login d \<and> good_credentials d"
proof -
  note step = details_step [OF assms(1)]
  have "\<forall>kv\<in>set kvs. \<forall>d. details_field d kv \<noteq> None" using step by fastforce
  from dec_fields_total [OF this] obtain d where d: "dec_fields details_field kvs d0 = Some d" by blast
  from step have stay: "\<forall>kv\<in>set kvs. \<forall>b b'. details_field b kv = Some b' \<longrightarrow> good_csrf b \<longrightarrow> good_csrf b'"
    "\<forall>kv\<in>set kvs. \<forall>b b'. details_field b kv = Some b' \<longrightarrow> good_login b \<longrightarrow> good_login b'"
    "\<forall>kv\<in>set kvs. \<forall>b b'. details_field b kv = Some b' \<longrightarrow> good_credentials b \<longrightarrow> good_credentials b'"
    by fastforce+
  from allows_required [OF assms(1) [unfolded authenticationDetailsSchema_def]]
  obtain v w where vw: "(''login_request'', v) \<in> set kvs" "(''credentials_to_test'', w) \<in> set kvs" by (meson list.set_intros)
  from details_pair [OF assms(1) vw(1)] details_pair [OF assms(1) vw(2)]
  have "allows schemaRequestHTTP v" "allows (TypeArray credential_schema 1 (Some 10)) w" by simp_all
  note brings = details_login [OF this(1)] details_credentials [OF this(2)]
  have "\<forall>b b'. details_field b (''login_request'', v) = Some b' \<longrightarrow> good_login b'"
    using brings(1) by (metis option.inject)
  from dec_fields_establishes [OF d vw(1) this stay(2)] have "good_login d" .
  moreover have "\<forall>b b'. details_field b (''credentials_to_test'', w) = Some b' \<longrightarrow> good_credentials b'"
    using brings(2) by (metis option.inject)
  from dec_fields_establishes [OF d vw(2) this stay(3)] have "good_credentials d" .
  moreover have "good_csrf d" by (rule dec_fields_keeps [OF stay(1) d assms(2)])
  ultimately show ?thesis using d by blast
qed

section \<open>What a schema spares the validation\<close>

lemma strategy_field_simps:
  "strategy_field a (''supports_authentication'', v) = map_option (\<lambda>b. a\<lparr>as_supported := b\<rparr>) (dec_bool v (as_supported a))"
  "strategy_field a (''authentication_details'', v) = map_option (\<lambda>d. a\<lparr>as_details := d\<rparr>)
     (dec_pointer details_field \<lparr>ad_csrf = None, ad_login = None, ad_credentials = []\<rparr> v (as_details a))"
  by (simp_all add: strategy_field_def fold_names field_names_def)

definition good_details :: "auth_strategy \<Rightarrow> bool" where
  "good_details a \<longleftrightarrow> (case as_details a of None \<Rightarrow> True | Some d \<Rightarrow> good_csrf d \<and> good_login d \<and> good_credentials d)"

lemma strategy_pair:
  assumes "allows authenticationSchema (JObj kvs)" and "(k, v) \<in> set kvs"
  shows "(k = ''supports_authentication'' \<and> (\<exists>b. v = JBool b))
    \<or> (k = ''authentication_details'' \<and> (v = JNull \<or> allows authenticationDetailsSchema v))"
proof -
  from allows_pair [OF assms(1) [unfolded authenticationSchema_def] assms(2)]
  obtain s where s: "(k, s) \<in> {(''supports_authentication'', TypeBoolean), (''authentication_details'', Nullable authenticationDetailsSchema)}"
      "allows s v" by auto
  have "allows TypeBoolean v \<Longrightarrow> \<exists>b. v = JBool b" by (cases v) (simp_all add: allows.simps)
  with s allows_Nullable show ?thesis by auto
qed

lemma strategy_step:
  assumes "allows authenticationSchema (JObj kvs)" and "kv \<in> set kvs" and "good_details a"
  shows "\<exists>a'. strategy_field a kv = Some a' \<and> good_details a'"
proof -
  obtain k v where kv: "kv = (k, v)" by (cases kv)
  from strategy_pair [OF assms(1) assms(2) [unfolded kv]] consider
      (supports) b where "k = ''supports_authentication''" "v = JBool b"
    | (null) "k = ''authentication_details''" "v = JNull"
    | (details) "k = ''authentication_details''" "allows authenticationDetailsSchema v"
    by blast
  then show ?thesis
  proof cases
    case supports
    with assms(3) show ?thesis by (simp add: kv strategy_field_simps dec_bool_def good_details_def)
  next
    case null
    then show ?thesis by (simp add: kv strategy_field_simps dec_pointer_def good_details_def)
  next
    case details
    from allows_object [OF details(2) [unfolded authenticationDetailsSchema_def]] obtain ps where v: "v = JObj ps" by blast
    define d0 where "d0 = (case as_details a of None \<Rightarrow> \<lparr>ad_csrf = None, ad_login = None, ad_credentials = []\<rparr> | Some d \<Rightarrow> d)"
    have "good_csrf d0" using assms(3) by (auto simp: d0_def good_details_def good_csrf_def split: option.splits)
    from details_decode [OF details(2) [unfolded v] this] obtain d where "dec_fields details_field ps d0 = Some d"
        "good_csrf d \<and> good_login d \<and> good_credentials d" by blast
    then show ?thesis by (simp add: kv details(1) v strategy_field_simps dec_pointer_def good_details_def flip: d0_def)
  qed
qed

lemma strategy_decodes:
  assumes "allows authenticationSchema v"
  shows "\<exists>a. unmarshal_strategy v = Some a \<and> good_details a"
proof -
  from allows_object [OF assms [unfolded authenticationSchema_def]] obtain kvs where v: "v = JObj kvs" by blast
  have "\<exists>a'. dec_fields strategy_field kvs' a = Some a' \<and> good_details a'"
    if "good_details a" "set kvs' \<subseteq> set kvs" for kvs' a
    using that
  proof (induction kvs' arbitrary: a)
    case (Cons kv kvs')
    with strategy_step [OF assms [unfolded v], of kv a] show ?case by auto
  qed simp
  then show ?thesis by (simp add: v unmarshal_strategy_def dec_struct_def good_details_def)
qed

lemma request_compile_errors:
  "request_compileAndValidate compile r = Inl e \<Longrightarrow> ar_regex r \<noteq> [] \<Longrightarrow> e \<in> {ErrInvalidURL, ErrRegexp}"
  by (auto simp: request_compileAndValidate_def split: option.splits if_splits)

text \<open>C38. An answer that keeps to the schema always decodes. Its requests use GET or POST, it has between
  one and ten credentials, and the validation never rejects it for want of credentials, of a login
  request or of an expression: only for the details that the schema allows to be null, for a path, an
  expression that does not compile or a placeholder that is missing.\<close>

theorem schema_answer_decodes:
  assumes "allows authenticationSchema v"
  shows "\<exists>a. unmarshal_strategy v = Some a
    \<and> (\<forall>d. as_details a = Some d \<longrightarrow> ad_credentials d \<noteq> [] \<and> length (ad_credentials d) \<le> 10
        \<and> (\<exists>r. ad_login d = Some r \<and> ar_method r \<in> {''GET'', ''POST''})
        \<and> (\<forall>r. ad_csrf d = Some r \<longrightarrow> ar_method r \<in> {''GET'', ''POST''}))
    \<and> (\<forall>e :: 'e auth_error. compileAndValidate compile a = Inl e \<longrightarrow>
        e \<in> {NoDetails, ErrInvalidURL, ErrRegexp, NoPasswordPlaceholder, NoTokenPlaceholder})"
proof -
  from strategy_decodes [OF assms] obtain a where a: "unmarshal_strategy v = Some a" "good_details a" by blast
  have "ad_credentials d \<noteq> [] \<and> length (ad_credentials d) \<le> 10
        \<and> (\<exists>r. ad_login d = Some r \<and> ar_method r \<in> {''GET'', ''POST''})
        \<and> (\<forall>r. ad_csrf d = Some r \<longrightarrow> ar_method r \<in> {''GET'', ''POST''})" if "as_details a = Some d" for d
    using a(2) that by (auto simp: good_details_def good_credentials_def good_login_def good_csrf_def good_request_def split: option.splits)
  moreover have "e \<in> {NoDetails, ErrInvalidURL, ErrRegexp, NoPasswordPlaceholder, NoTokenPlaceholder}"
    if "compileAndValidate compile a = Inl e" for e :: "'e auth_error"
  proof (cases "as_details a")
    case None
    with that show ?thesis by (auto simp: compileAndValidate_def split: if_splits)
  next
    case (Some d)
    with a(2) obtain r where r: "ad_login d = Some r" "ar_regex r \<noteq> []" "ad_credentials d \<noteq> []"
      by (auto simp: good_details_def good_login_def good_credentials_def good_request_def split: option.splits)
    have csrf: "e \<in> {ErrInvalidURL, ErrRegexp, NoTokenPlaceholder}" if "validate_csrf compile r' (ad_csrf d) = Inl e" for r'
      using that a(2) Some
      by (auto simp: validate_csrf_def good_details_def good_csrf_def good_request_def dest: request_compile_errors
          split: option.splits sum.splits if_splits)
    show ?thesis
      using that Some r csrf request_compile_errors [of compile r e]
      by (auto simp: compileAndValidate_def split: if_splits sum.splits)
  qed
  ultimately show ?thesis using a(1) by blast
qed

definition sample_answer :: json where
  "sample_answer = JObj [(''supports_authentication'', JBool True), (''authentication_details'', JObj
     [(''credentials_to_test'', JArr [JObj [(''password'', JStr ''admin'')]]),
      (''login_request'', JObj [(''method'', JStr ''POST''), (''path'', JStr ''/login''), (''extraction_regex'', JStr ''wrong''),
         (''headers'', JArr [JObj [(''name'', JStr ''X''), (''value'', JStr ''y'')]])])])]"

theorem schema_answer_decodes_witness:
  "\<exists>a d. unmarshal_strategy sample_answer = Some a \<and> as_details a = Some d \<and> ad_credentials d \<noteq> []
     \<and> (\<exists>r. ad_login d = Some r \<and> ar_method r \<in> {''GET'', ''POST''})"
proof -
  have header: "allows header_schema (JObj [(''name'', JStr ''X''), (''value'', JStr ''y'')])"
    by (simp add: header_schema_def allows.simps)
  have headers: "allows (TypeArray header_schema 0 None) (JArr [JObj [(''name'', JStr ''X''), (''value'', JStr ''y'')]])"
    by (simp add: allows.simps(4) header)
  have login: "allows schemaRequestHTTP (JObj [(''method'', JStr ''POST''), (''path'', JStr ''/login''),
      (''extraction_regex'', JStr ''wrong''), (''headers'', JArr [JObj [(''name'', JStr ''X''), (''value'', JStr ''y'')]])])"
    by (simp add: schemaRequestHTTP_def request_properties_def allows.simps(5) headers) (simp add: allows.simps)
  have credentials: "allows (TypeArray credential_schema (Suc 0) (Some 10)) (JArr [JObj [(''password'', JStr ''admin'')]])"
    by (simp add: credential_schema_def allows.simps)
  have "allows authenticationSchema sample_answer"
    by (simp add: sample_answer_def authenticationSchema_def authenticationDetailsSchema_def details_properties_def
        allows.simps(1,2,5) login credentials)
  note exact = schema_answer_decodes [where compile = "\<lambda>_. None" and 'e = unit, OF this]
  from exact obtain a where a: "unmarshal_strategy sample_answer = Some a"
      "\<forall>d. as_details a = Some d \<longrightarrow> ad_credentials d \<noteq> [] \<and> length (ad_credentials d) \<le> 10
        \<and> (\<exists>r. ad_login d = Some r \<and> ar_method r \<in> {''GET'', ''POST''})
        \<and> (\<forall>r. ad_csrf d = Some r \<longrightarrow> ar_method r \<in> {''GET'', ''POST''})"
    by (elim exE conjE) (rule that)
  from a(1) obtain d where "as_details a = Some d"
    by (auto simp: sample_answer_def unmarshal_strategy_def dec_struct_def strategy_field_simps dec_bool_def dec_pointer_def
        split: option.splits)
  with a show ?thesis by (intro exI [of _ a] exI [of _ d]) simp
qed

section \<open>What the agents get\<close>

text \<open>The agent of a service has one tool, bound to that service; the judge has none.\<close>

lemma buildAgent_tools:
  assumes "buildAgent ak tn defaults prompt c service = Inr cfg"
  shows "\<exists>t. ag_tools cfg = [t] \<and> newTool tn defaults c service = Inr t" and "ag_schema cfg = authenticationSchema"
  using assms by (auto simp: buildAgent_def new_agent_def split: option.splits sum.splits if_splits)

lemma buildJudgeAgent_tools:
  "buildJudgeAgent ak prompt c = Inr cfg \<Longrightarrow> ag_tools cfg = [] \<and> ag_schema cfg = judgeSchema"
  by (auto simp: buildJudgeAgent_def new_agent_def split: option.splits if_splits)

text \<open>The judge's answer under its schema is one flag.\<close>

lemma distinct_singleton: "distinct xs \<Longrightarrow> set xs = {x} \<Longrightarrow> xs = [x]"
  by (cases xs; cases "tl xs") auto

lemma judge_answer_decodes:
  assumes "allows judgeSchema v"
  shows "\<exists>b. v = JObj [(''authenticated'', JBool b)] \<and> unmarshal_judge v = Some b"
proof -
  from allows_object [OF assms [unfolded judgeSchema_def]] obtain kvs where v: "v = JObj kvs" by blast
  from assms have "distinct (map fst kvs)" "set (map fst kvs) = {''authenticated''}"
    by (auto simp: v judgeSchema_def allows.simps)
  then have "map fst kvs = [''authenticated'']" by (rule distinct_singleton)
  then obtain w where kvs: "kvs = [(''authenticated'', w)]" by auto
  with assms obtain b where "w = JBool b" by (cases w) (auto simp: v judgeSchema_def allows.simps)
  with kvs show ?thesis by (simp add: v unmarshal_judge_def dec_struct_def dec_bool_def)
qed

end
