(* ===== verification/ForbiddenPaths.thy ===== *)
theory ForbiddenPaths
  imports HttpClient
begin

text \<open>
  The default list of forbidden paths, \<open>src/core/net/http/filter.go\<close>: the seven patterns, their
  compilation and what the filter blocks with them. Of Go's package \<open>regexp\<close> this is the part
  that the patterns use: groups with and without folding of case, alternatives, the anchors,
  negated classes of ranges, letters and digits, and the three repetitions. The compiler refuses every other
  construct, so that it is a partial model of \<open>regexp.Compile\<close>. Text is a list of bytes; folding includes the two
  characters outside ASCII that fold to a letter, the Kelvin sign and the long s, in UTF-8. A class consumes one
  byte where Go consumes one character, which makes no difference to whether a pattern of the list matches:
  the classes stand at the two ends of a pattern, and no byte of a longer character is an ASCII letter.
\<close>

section \<open>Regular expressions\<close>

datatype rx =
    RxEmpty
  | RxBegin
  | RxEnd
  | RxChar bool char
  | RxNotIn "(char \<times> char) list"
  | RxSeq rx rx
  | RxAlt rx rx
  | RxStar rx
  | RxPlus rx
  | RxOpt rx

text \<open>The position of a matcher: whether it is the start of the text, and the text that is left.\<close>

type_synonym position = "bool \<times> string"

text \<open>The next character of a text under folding, with what follows it.\<close>

definition kelvin_sign :: string where
  "kelvin_sign = [CHR 0xE2, CHR 0x84, CHR 0xAA]"

definition long_s :: string where
  "long_s = [CHR 0xC5, CHR 0xBF]"

fun fold_next :: "string \<Rightarrow> (char \<times> string) option" where
  "fold_next [] = None"
| "fold_next (c # s) =
     (if has_prefix (c # s) kelvin_sign then Some (CHR ''k'', drop 3 (c # s))
      else if has_prefix (c # s) long_s then Some (CHR ''s'', drop 2 (c # s))
      else Some (to_lower_char c, s))"

definition in_ranges :: "(char \<times> char) list \<Rightarrow> char \<Rightarrow> bool" where
  "in_ranges rs c = list_ex (\<lambda>(lo, hi). char_code lo \<le> char_code c \<and> char_code c \<le> char_code hi) rs"

text \<open>Which positions a match of an expression can reach.\<close>

fun reach_star :: "nat \<Rightarrow> (position \<Rightarrow> position list) \<Rightarrow> position \<Rightarrow> position list" where
  "reach_star 0 f p = [p]"
| "reach_star (Suc n) f p = p # concat (map (reach_star n f) (f p))"

primrec reach :: "rx \<Rightarrow> position \<Rightarrow> position list" where
  "reach RxEmpty p = [p]"
| "reach RxBegin p = (if fst p then [p] else [])"
| "reach RxEnd p = (if snd p = [] then [p] else [])"
| "reach (RxChar ci c) p =
     (if ci then (case fold_next (snd p) of
          None \<Rightarrow> []
        | Some (d, s) \<Rightarrow> if d = to_lower_char c then [(False, s)] else [])
      else if snd p \<noteq> [] \<and> hd (snd p) = c then [(False, tl (snd p))] else [])"
| "reach (RxNotIn rs) p = (if snd p \<noteq> [] \<and> \<not> in_ranges rs (hd (snd p)) then [(False, tl (snd p))] else [])"
| "reach (RxSeq r t) p = concat (map (reach t) (reach r p))"
| "reach (RxAlt r t) p = reach r p @ reach t p"
| "reach (RxStar r) p = reach_star (length (snd p)) (reach r) p"
| "reach (RxPlus r) p = concat (map (\<lambda>q. reach_star (length (snd q)) (reach r) q) (reach r p))"
| "reach (RxOpt r) p = p # reach r p"

text \<open>\<open>MatchString\<close> looks for a match that starts anywhere.\<close>

fun match_from :: "rx \<Rightarrow> bool \<Rightarrow> string \<Rightarrow> bool" where
  "match_from r start [] = (reach r (start, []) \<noteq> [])"
| "match_from r start (c # s) = (reach r (start, c # s) \<noteq> [] \<or> match_from r False s)"

definition MatchString :: "rx \<Rightarrow> string \<Rightarrow> bool" where
  "MatchString r s = match_from r True s"

section \<open>Compilation\<close>

definition repetition_mark :: "char \<Rightarrow> bool" where
  "repetition_mark c = (c = CHR ''*'' \<or> c = CHR ''+'' \<or> c = CHR ''?'')"

definition repeated :: "rx \<Rightarrow> string \<Rightarrow> (rx \<times> string) option" where
  "repeated r s =
     (if s = [] \<or> \<not> repetition_mark (hd s) then Some (r, s)
      else if tl s \<noteq> [] \<and> repetition_mark (hd (tl s)) then None
      else Some (if hd s = CHR ''*'' then RxStar r else if hd s = CHR ''+'' then RxPlus r else RxOpt r, tl s))"

definition expect :: "char \<Rightarrow> (rx \<times> string) option \<Rightarrow> (rx \<times> string) option" where
  "expect c p = (case p of
       None \<Rightarrow> None
     | Some (r, s) \<Rightarrow> if s \<noteq> [] \<and> hd s = c then Some (r, tl s) else None)"

definition word_char :: "char \<Rightarrow> bool" where
  "word_char c = (is_lower c \<or> is_upper c \<or> is_digit c)"

text \<open>The ranges of a class up to its bracket.\<close>

fun parse_ranges :: "string \<Rightarrow> ((char \<times> char) list \<times> string) option" where
  "parse_ranges (lo # m # hi # s) =
     (if word_char lo \<and> m = CHR ''-'' \<and> word_char hi \<and> char_code lo \<le> char_code hi then
        (if s \<noteq> [] \<and> hd s = CHR '']'' then Some ([(lo, hi)], tl s)
         else map_option (apfst ((#) (lo, hi))) (parse_ranges s))
      else None)"
| "parse_ranges _ = None"

text \<open>Alternatives, sequences and items, by recursion on fuel.\<close>

fun parse_alt :: "nat \<Rightarrow> bool \<Rightarrow> string \<Rightarrow> (rx \<times> string) option"
  and parse_seq :: "nat \<Rightarrow> bool \<Rightarrow> string \<Rightarrow> (rx \<times> string) option"
  and parse_item :: "nat \<Rightarrow> bool \<Rightarrow> string \<Rightarrow> (rx \<times> string) option" where
  "parse_alt 0 ci s = None"
| "parse_alt (Suc n) ci s = (case parse_seq n ci s of
       None \<Rightarrow> None
     | Some (r, t) \<Rightarrow>
         if t \<noteq> [] \<and> hd t = CHR ''|'' then map_option (apfst (RxAlt r)) (parse_alt n ci (tl t))
         else Some (r, t))"
| "parse_seq 0 ci s = None"
| "parse_seq (Suc n) ci s =
     (if s = [] \<or> hd s = CHR ''|'' \<or> hd s = CHR '')'' then Some (RxEmpty, s)
      else case Option.bind (parse_item n ci s) (\<lambda>(r, t). repeated r t) of
          None \<Rightarrow> None
        | Some (r, t) \<Rightarrow> map_option (apfst (RxSeq r)) (parse_seq n ci t))"
| "parse_item 0 ci s = None"
| "parse_item (Suc n) ci s =
     (if has_prefix s ''(?:'' then expect CHR '')'' (parse_alt n ci (drop 3 s))
      else if has_prefix s ''(?i:'' then expect CHR '')'' (parse_alt n True (drop 4 s))
      else if has_prefix s ''[^'' then map_option (apfst RxNotIn) (parse_ranges (drop 2 s))
      else if s = [] then None
      else if hd s = CHR ''^'' then Some (RxBegin, tl s)
      else if hd s = CHR ''$'' then Some (RxEnd, tl s)
      else if word_char (hd s) then Some (RxChar ci (hd s), tl s)
      else None)"

definition Compile :: "string \<Rightarrow> rx option" where
  "Compile p = (case parse_alt (3 * length p + 3) False p of
       None \<Rightarrow> None
     | Some (r, rest) \<Rightarrow> if rest = [] then Some r else None)"

section \<open>\<open>filter.go\<close>\<close>

definition defaultForbiddenPathPatterns :: "string list" where
  "defaultForbiddenPathPatterns =
     [''(?:^|[^a-zA-Z])(?i:abort(?:quit)*)(?:[^a-zA-Z]|$)'',
      ''(?:^|[^a-zA-Z])(?i:delete)(?:[^a-zA-Z]|$)'',
      ''(?:^|[^a-zA-Z])(?i:drop)(?:[^a-zA-Z]|$)'',
      ''(?:^|[^a-zA-Z])(?i:(?:hup)+)(?:[^a-zA-Z]|$)'',
      ''(?:^|[^a-zA-Z])(?i:kill(?:all)?)(?:[^a-zA-Z]|$)'',
      ''(?:^|[^a-zA-Z])(?i:(?:quit)+)(?:[^a-zA-Z]|$)'',
      ''(?:^|[^a-zA-Z])(?i:remove)(?:[^a-zA-Z]|$)'']"

text \<open>\<open>MustCompile\<close> of every pattern; \<open>None\<close> is its panic, at the start of the program.\<close>

definition compileForbiddenPaths :: "string list \<Rightarrow> regexp list option" where
  "compileForbiddenPaths ps = those (map (\<lambda>p. map_option MatchString (Compile p)) ps)"

definition defaultForbiddenPaths :: "regexp list" where
  "defaultForbiddenPaths = the (compileForbiddenPaths defaultForbiddenPathPatterns)"

definition DefaultForbiddenPathPatterns :: "string list" where
  "DefaultForbiddenPathPatterns = defaultForbiddenPathPatterns"


section \<open>What an expression consumes\<close>

definition ascii_letter :: "char \<Rightarrow> bool" where
  "ascii_letter c = (is_lower c \<or> is_upper c)"

text \<open>The texts that spell a word under folding.\<close>

fun spells :: "string \<Rightarrow> string \<Rightarrow> bool" where
  "spells [] s = (s = [])"
| "spells (c # w) s = (case fold_next s of None \<Rightarrow> False | Some (d, r) \<Rightarrow> d = c \<and> spells w r)"

text \<open>A lower-case letter is spelt by itself, its capital, or the character that folds to it.\<close>

definition spellings :: "char \<Rightarrow> string set" where
  "spellings d = {[c] | c. to_lower_char c = d} \<union> (if d = CHR ''k'' then {kelvin_sign} else {})
     \<union> (if d = CHR ''s'' then {long_s} else {})"

lemma to_lower_letter: "is_lower (to_lower_char c) \<Longrightarrow> ascii_letter c"
  by (auto simp: ascii_letter_def to_lower_char_def split: if_splits)

lemma no_letter_folds: "ascii_letter c \<Longrightarrow> c \<noteq> CHR 0xE2 \<and> c \<noteq> CHR 0xC5 \<and> CHR 0xE2 \<noteq> c \<and> CHR 0xC5 \<noteq> c"
  by (auto simp: ascii_letter_def is_lower_def is_upper_def char_code_def)

lemma fold_next_lower:
  assumes "is_lower d"
  shows "fold_next s = Some (d, r) \<longleftrightarrow> (\<exists>a\<in>spellings d. s = a @ r)"
proof
  assume "fold_next s = Some (d, r)"
  then show "\<exists>a\<in>spellings d. s = a @ r"
    by (cases s) (auto simp: spellings_def has_prefix_def prefix_def kelvin_sign_def long_s_def split: if_splits)
next
  assume "\<exists>a\<in>spellings d. s = a @ r"
  then obtain a where a: "a \<in> spellings d" "s = a @ r"
    by blast
  have "fold_next (c # r) = Some (d, r)" if "to_lower_char c = d" for c
    using that assms no_letter_folds [OF to_lower_letter [of c]]
    by (simp add: has_prefix_def kelvin_sign_def long_s_def)
  with a show "fold_next s = Some (d, r)"
    by (auto simp: spellings_def has_prefix_def kelvin_sign_def long_s_def split: if_splits)
qed

lemma spellings_nonempty [simp]: "[] \<notin> spellings d"
  by (simp add: spellings_def kelvin_sign_def long_s_def)

lemma spells_Cons_iff:
  "is_lower c \<Longrightarrow> spells (c # w) s \<longleftrightarrow> (\<exists>a b. a \<in> spellings c \<and> s = a @ b \<and> spells w b)"
proof -
  assume c: "is_lower c"
  have "spells (c # w) s \<longleftrightarrow> (\<exists>r. fold_next s = Some (c, r) \<and> spells w r)"
    by (auto split: option.splits)
  then show ?thesis
    unfolding fold_next_lower [OF c] by blast
qed

lemma spells_append:
  "list_all is_lower v \<Longrightarrow> spells (v @ w) s \<longleftrightarrow> (\<exists>a b. s = a @ b \<and> spells v a \<and> spells w b)"
proof (induction v arbitrary: s)
  case (Cons c v)
  then show ?case
    by (simp add: spells_Cons_iff del: spells.simps(2)) (metis append.assoc)
qed simp

lemma spells_nonempty: "spells v s \<Longrightarrow> v \<noteq> [] \<Longrightarrow> s \<noteq> []"
  by (cases v) (auto split: option.splits)

text \<open>An expression consumes the words of a set: its matches are the texts that spell one of them.\<close>

definition consumes :: "rx \<Rightarrow> string set \<Rightarrow> bool" where
  "consumes r W \<longleftrightarrow> (\<forall>v\<in>W. list_all is_lower v) \<and>
     (\<forall>p q. q \<in> set (reach r p) \<longleftrightarrow>
        (\<exists>v w. v \<in> W \<and> spells v w \<and> snd p = w @ snd q \<and> fst q = (fst p \<and> v = [])))"

named_theorems consuming \<open>what the expressions of the patterns consume\<close>

lemma consumesI:
  assumes "\<And>v. v \<in> W \<Longrightarrow> list_all is_lower v"
    and "\<And>p q. q \<in> set (reach r p) \<Longrightarrow> \<exists>v w. v \<in> W \<and> spells v w \<and> snd p = w @ snd q \<and> fst q = (fst p \<and> v = [])"
    and "\<And>p q v w. v \<in> W \<Longrightarrow> spells v w \<Longrightarrow> snd p = w @ snd q \<Longrightarrow> fst q = (fst p \<and> v = []) \<Longrightarrow> q \<in> set (reach r p)"
  shows "consumes r W"
  using assms(1) unfolding consumes_def by (blast dest: assms(2) intro: assms(3))

lemma consumes_lower: "consumes r W \<Longrightarrow> v \<in> W \<Longrightarrow> list_all is_lower v"
  by (simp add: consumes_def)

lemma consumesE:
  assumes "consumes r W" "q \<in> set (reach r p)"
  obtains v w where "v \<in> W" "spells v w" "snd p = w @ snd q" "fst q = (fst p \<and> v = [])"
  using assms unfolding consumes_def by blast

lemma consumes_reach:
  "consumes r W \<Longrightarrow> v \<in> W \<Longrightarrow> spells v w \<Longrightarrow> snd p = w @ snd q \<Longrightarrow> fst q = (fst p \<and> v = []) \<Longrightarrow> q \<in> set (reach r p)"
  unfolding consumes_def by blast

lemma consumes_Empty [consuming]: "consumes RxEmpty {[]}"
  by (auto simp: consumes_def prod_eq_iff)

lemma consumes_Char [consuming]: "is_lower c \<Longrightarrow> consumes (RxChar True c) {[c]}"
proof -
  assume c: "is_lower c"
  then have low: "to_lower_char c = c"
    by (simp add: to_lower_char_def is_lower_def is_upper_def)
  have one: "spells [c] w \<longleftrightarrow> w \<in> spellings c" for w
    using spells_Cons_iff [OF c, of "[]" w] by auto
  have "q \<in> set (reach (RxChar True c) p) \<longleftrightarrow> fold_next (snd p) = Some (c, snd q) \<and> \<not> fst q" for p q
    by (cases q) (auto simp: low split: option.splits)
  then show "consumes (RxChar True c) {[c]}"
    unfolding consumes_def using c by (simp add: one fold_next_lower [OF c] del: reach.simps spells.simps) blast
qed

lemma consumes_Seq [consuming]:
  assumes r: "consumes r V" and t: "consumes t W"
  shows "consumes (RxSeq r t) {v @ w | v w. v \<in> V \<and> w \<in> W}"
proof (rule consumesI)
  show "list_all is_lower u" if "u \<in> {v @ w | v w. v \<in> V \<and> w \<in> W}" for u
    using that consumes_lower [OF r] consumes_lower [OF t] by auto
next
  fix p q
  assume "q \<in> set (reach (RxSeq r t) p)"
  then obtain m where m: "m \<in> set (reach r p)" "q \<in> set (reach t m)"
    by auto
  obtain v a where va: "v \<in> V" "spells v a" "snd p = a @ snd m" "fst m = (fst p \<and> v = [])"
    using consumesE [OF r m(1)] .
  obtain w b where wb: "w \<in> W" "spells w b" "snd m = b @ snd q" "fst q = (fst m \<and> w = [])"
    using consumesE [OF t m(2)] .
  have "spells (v @ w) (a @ b)"
    using va wb by (auto simp: spells_append [OF consumes_lower [OF r va(1)]])
  with va wb show "\<exists>u x. u \<in> {v @ w | v w. v \<in> V \<and> w \<in> W} \<and> spells u x \<and> snd p = x @ snd q \<and> fst q = (fst p \<and> u = [])"
    by (intro exI [of _ "v @ w"] exI [of _ "a @ b"]) auto
next
  fix p q :: position and u x
  assume u: "u \<in> {v @ w | v w. v \<in> V \<and> w \<in> W}" "spells u x" "snd p = x @ snd q" "fst q = (fst p \<and> u = [])"
  then obtain v w where vw: "v \<in> V" "w \<in> W" "u = v @ w"
    by blast
  then obtain a b where ab: "x = a @ b" "spells v a" "spells w b"
    using u(2) by (auto simp: spells_append [OF consumes_lower [OF r vw(1)]])
  have "(fst p \<and> v = [], b @ snd q) \<in> set (reach r p)"
    by (rule consumes_reach [OF r vw(1) ab(2)]) (simp_all add: u(3) ab(1))
  moreover have "q \<in> set (reach t (fst p \<and> v = [], b @ snd q))"
    by (rule consumes_reach [OF t vw(2) ab(3)]) (simp_all add: u(4) vw(3))
  ultimately show "q \<in> set (reach (RxSeq r t) p)"
    by auto
qed

lemma consumes_Opt [consuming]:
  assumes r: "consumes r W"
  shows "consumes (RxOpt r) (insert [] W)"
proof (rule consumesI)
  show "list_all is_lower v" if "v \<in> insert [] W" for v
    using that consumes_lower [OF r] by auto
next
  fix p q
  assume "q \<in> set (reach (RxOpt r) p)"
  then consider "q = p" | "q \<in> set (reach r p)"
    by auto
  then show "\<exists>v w. v \<in> insert [] W \<and> spells v w \<and> snd p = w @ snd q \<and> fst q = (fst p \<and> v = [])"
  proof cases
    case 2
    show ?thesis
      using consumesE [OF r 2] by blast
  qed auto
next
  fix p q :: position and v w
  assume "v \<in> insert [] W" "spells v w" "snd p = w @ snd q" "fst q = (fst p \<and> v = [])"
  then show "q \<in> set (reach (RxOpt r) p)"
    using consumes_reach [OF r, of v w p q] by (cases "v = []") (auto simp: prod_eq_iff)
qed

text \<open>A repetition of one word.\<close>

definition times_word :: "nat \<Rightarrow> string \<Rightarrow> string" where
  "times_word k v = concat (replicate k v)"

lemma times_word_simps [simp]: "times_word 0 v = []" "times_word (Suc k) v = v @ times_word k v"
  by (simp_all add: times_word_def)

lemma times_word_lower: "list_all is_lower v \<Longrightarrow> list_all is_lower (times_word k v)"
  by (induction k) auto


lemma times_word_nonempty: "v \<noteq> [] \<Longrightarrow> times_word k v = [] \<longleftrightarrow> k = 0"
  by (cases k) auto

lemma reach_star_consumes:
  assumes r: "consumes r {v}" and v: "v \<noteq> []"
  shows "length (snd p) \<le> n \<Longrightarrow> q \<in> set (reach_star n (reach r) p) \<longleftrightarrow>
    (\<exists>k w. spells (times_word k v) w \<and> snd p = w @ snd q \<and> fst q = (fst p \<and> k = 0))"
proof (induction n arbitrary: p)
  case 0
  then have "snd p = w @ snd q \<longleftrightarrow> w = [] \<and> snd q = []" for w
    by auto
  moreover have "spells (times_word k v) [] \<longleftrightarrow> k = 0" for k
    using spells_nonempty [of "times_word k v" "[]"] times_word_nonempty [OF v, of k] by auto
  ultimately show ?case
    using 0 by (auto simp: prod_eq_iff)
next
  case (Suc n)
  have low: "list_all is_lower v"
    using consumes_lower [OF r] by simp
  have shorter: "length (snd m) \<le> n" if m: "m \<in> set (reach r p)" for m
  proof -
    obtain w where "spells v w" "snd p = w @ snd m"
      using consumesE [OF r m] by blast
    then show ?thesis
      using Suc.prems spells_nonempty [of v w] v by (cases w) auto
  qed
  show ?case (is "_ \<longleftrightarrow> ?spelt")
  proof
    assume "q \<in> set (reach_star (Suc n) (reach r) p)"
    then consider "q = p" | m where "m \<in> set (reach r p)" "q \<in> set (reach_star n (reach r) m)"
      by auto
    then show ?spelt
    proof cases
      case 1
      then show ?thesis
        by (intro exI [of _ 0] exI [of _ "[]"]) simp
    next
      case (2 m)
      obtain a where a: "spells v a" "snd p = a @ snd m" "fst m = (fst p \<and> v = [])"
        using consumesE [OF r 2(1)] by blast
      obtain k b where b: "spells (times_word k v) b" "snd m = b @ snd q" "fst q = (fst m \<and> k = 0)"
        using 2 Suc.IH [OF shorter] by blast
      have "spells (times_word (Suc k) v) (a @ b)"
        using a b by (auto simp: spells_append [OF low])
      with a b v show ?thesis
        by (intro exI [of _ "Suc k"] exI [of _ "a @ b"]) auto
    qed
  next
    assume ?spelt
    then obtain k w where kw: "spells (times_word k v) w" "snd p = w @ snd q" "fst q = (fst p \<and> k = 0)"
      by blast
    show "q \<in> set (reach_star (Suc n) (reach r) p)"
    proof (cases k)
      case 0
      then show ?thesis
        using kw by (auto simp: prod_eq_iff)
    next
      case (Suc j)
      then obtain a b where ab: "w = a @ b" "spells v a" "spells (times_word j v) b"
        using kw(1) by (auto simp: spells_append [OF low])
      have m: "(False, b @ snd q) \<in> set (reach r p)"
        by (rule consumes_reach [OF r _ ab(2)]) (simp_all add: kw ab v)
      have "q \<in> set (reach_star n (reach r) (False, b @ snd q))"
        unfolding Suc.IH [OF shorter [OF m]] using ab kw Suc by auto
      with m show ?thesis
        by auto
    qed
  qed
qed

lemma consumes_Star [consuming]:
  assumes r: "consumes r {v}" and v: "v \<noteq> []"
  shows "consumes (RxStar r) (range (\<lambda>k. times_word k v))"
proof -
  have "list_all is_lower v"
    using consumes_lower [OF r] by simp
  then show ?thesis
    unfolding consumes_def
    by (auto simp: reach_star_consumes [OF r v] times_word_lower times_word_nonempty [OF v] simp del: reach_star.simps)
qed

lemma consumes_Plus [consuming]:
  assumes r: "consumes r {v}" and v: "v \<noteq> []"
  shows "consumes (RxPlus r) {u @ w | u w. u \<in> {v} \<and> w \<in> range (\<lambda>k. times_word k v)}"
proof -
  have "reach (RxStar r) = (\<lambda>q. reach_star (length (snd q)) (reach r) q)"
    by (rule ext) simp
  then have "reach (RxPlus r) = reach (RxSeq r (RxStar r))"
    by (intro ext) simp
  then have "consumes (RxPlus r) W = consumes (RxSeq r (RxStar r)) W" for W
    by (simp only: consumes_def)
  then show ?thesis
    using consumes_Seq [OF r consumes_Star [OF r v]] by blast
qed

section \<open>What the default patterns match\<close>

lemma split_Cons_iff:
  "(\<exists>pre post. c # s = pre @ post \<and> P pre post) \<longleftrightarrow> P [] (c # s) \<or> (\<exists>pre post. s = pre @ post \<and> P (c # pre) post)"
  by (auto simp: Cons_eq_append_conv)

lemma match_from_iff:
  "match_from r start s \<longleftrightarrow> (\<exists>pre post. s = pre @ post \<and> reach r (start \<and> pre = [], post) \<noteq> [])"
proof (induction s arbitrary: start)
  case (Cons c s)
  then show ?case
    by (simp add: split_Cons_iff [where P = "\<lambda>pre post. reach r (start \<and> pre = [], post) \<noteq> []"])
qed simp

lemma MatchString_iff:
  "MatchString r s \<longleftrightarrow> (\<exists>pre post. s = pre @ post \<and> reach r (pre = [], post) \<noteq> [])"
  by (simp add: MatchString_def match_from_iff)

text \<open>A keyword between the ends of the text or characters that are no letters.\<close>

definition letters :: "(char \<times> char) list" where
  "letters = [(CHR ''a'', CHR ''z''), (CHR ''A'', CHR ''Z'')]"

definition front_rx :: rx where
  "front_rx = RxAlt (RxSeq RxBegin RxEmpty) (RxSeq (RxNotIn letters) RxEmpty)"

definition back_rx :: rx where
  "back_rx = RxSeq (RxAlt (RxSeq (RxNotIn letters) RxEmpty) (RxSeq RxEnd RxEmpty)) RxEmpty"

definition delimited_rx :: "rx \<Rightarrow> rx" where
  "delimited_rx k = RxSeq front_rx (RxSeq k back_rx)"

lemma in_letters [simp]: "in_ranges letters c \<longleftrightarrow> ascii_letter c"
  by (auto simp: in_ranges_def letters_def ascii_letter_def is_lower_def is_upper_def char_code_def)

definition delimited :: "string \<Rightarrow> string \<Rightarrow> bool" where
  "delimited pre post = ((pre = [] \<or> \<not> ascii_letter (last pre)) \<and> (post = [] \<or> \<not> ascii_letter (hd post)))"

lemma reach_Seq_iff: "reach (RxSeq a b) p \<noteq> [] \<longleftrightarrow> (\<exists>m\<in>set (reach a p). reach b m \<noteq> [])"
  by auto

lemma reach_front:
  "m \<in> set (reach front_rx (start, s)) \<longleftrightarrow>
    (\<exists>pre. s = pre @ snd m \<and> fst m = (start \<and> pre = [])
       \<and> (start \<and> pre = [] \<or> (\<exists>c. pre = [c] \<and> \<not> ascii_letter c)))"
  by (cases m; cases s) (auto simp: front_rx_def)

lemma reach_back:
  "reach back_rx p \<noteq> [] \<longleftrightarrow>
    snd p = [] \<or> \<not> ascii_letter (hd (snd p))"
  by (auto simp: back_rx_def)

lemma reach_delimited:
  assumes k: "consumes k W"
  shows "reach (delimited_rx k) (start, s) \<noteq> [] \<longleftrightarrow>
    (\<exists>pre v w post. v \<in> W \<and> spells v w \<and> s = pre @ w @ post \<and> (post = [] \<or> \<not> ascii_letter (hd post))
       \<and> (start \<and> pre = [] \<or> (\<exists>c. pre = [c] \<and> \<not> ascii_letter c)))" (is "_ \<longleftrightarrow> ?words")
proof
  assume "reach (delimited_rx k) (start, s) \<noteq> []"
  then obtain m n where mn: "m \<in> set (reach front_rx (start, s))"
      "n \<in> set (reach k m)" "snd n = [] \<or> \<not> ascii_letter (hd (snd n))"
    unfolding delimited_rx_def reach_Seq_iff reach_back by blast
  obtain v w where "v \<in> W" "spells v w" "snd m = w @ snd n"
    using consumesE [OF k mn(2)] by blast
  then show ?words
    using mn(1,3) unfolding reach_front by (metis append.assoc)
next
  assume ?words
  then obtain pre v w post where w: "v \<in> W" "spells v w" "s = pre @ w @ post" "post = [] \<or> \<not> ascii_letter (hd post)"
      "start \<and> pre = [] \<or> (\<exists>c. pre = [c] \<and> \<not> ascii_letter c)"
    by blast
  define m where "m = (start \<and> pre = [], w @ post)"
  have "m \<in> set (reach front_rx (start, s))"
    unfolding reach_front using w by (auto simp: m_def)
  moreover have "(fst m \<and> v = [], post) \<in> set (reach k m)"
    by (rule consumes_reach [OF k w(1,2)]) (simp_all add: m_def)
  ultimately show "reach (delimited_rx k) (start, s) \<noteq> []"
    unfolding delimited_rx_def reach_Seq_iff reach_back using w(4) by (metis snd_conv)
qed

lemma MatchString_delimited:
  assumes k: "consumes k W"
  shows "MatchString (delimited_rx k) s \<longleftrightarrow>
    (\<exists>pre v w post. s = pre @ w @ post \<and> v \<in> W \<and> spells v w \<and> delimited pre post)"
proof -
  have word: "reach (delimited_rx k) (x = [], u) \<noteq> [] \<longleftrightarrow>
      (\<exists>y v w post. u = y @ w @ post \<and> v \<in> W \<and> spells v w \<and> (post = [] \<or> \<not> ascii_letter (hd post))
        \<and> (x = [] \<and> y = [] \<or> (\<exists>c. y = [c] \<and> \<not> ascii_letter c)))" for x u :: string
    unfolding reach_delimited [OF k] by blast
  show ?thesis
  proof
    assume "MatchString (delimited_rx k) s"
    then obtain x y v w post where "s = x @ y @ w @ post" "v \<in> W" "spells v w" "post = [] \<or> \<not> ascii_letter (hd post)"
        "x = [] \<and> y = [] \<or> (\<exists>c. y = [c] \<and> \<not> ascii_letter c)"
      unfolding MatchString_iff word by blast
    then show "\<exists>pre v w post. s = pre @ w @ post \<and> v \<in> W \<and> spells v w \<and> delimited pre post"
      by (intro exI [of _ "x @ y"] exI [of _ v] exI [of _ w] exI [of _ post]) (auto simp: delimited_def)
  next
    assume "\<exists>pre v w post. s = pre @ w @ post \<and> v \<in> W \<and> spells v w \<and> delimited pre post"
    then obtain pre v w post where d: "s = pre @ w @ post" "v \<in> W" "spells v w" "delimited pre post"
      by blast
    obtain x y where xy: "pre = x @ y" "x = [] \<and> y = [] \<or> (\<exists>c. y = [c] \<and> \<not> ascii_letter c)"
      using d(4) by (cases pre rule: rev_cases) (auto simp: delimited_def)
    have "reach (delimited_rx k) (x = [], y @ w @ post) \<noteq> []"
      unfolding word using d(2,3,4) xy(2) unfolding delimited_def by blast
    moreover have "s = x @ (y @ w @ post)"
      by (simp add: d(1) xy(1))
    ultimately show "MatchString (delimited_rx k) s"
      unfolding MatchString_iff by blast
  qed
qed

section \<open>The keywords of the list\<close>

fun literal :: "string \<Rightarrow> rx" where
  "literal [] = RxEmpty"
| "literal (c # w) = RxSeq (RxChar True c) (literal w)"

definition keyword_rxs :: "rx list" where
  "keyword_rxs =
     [foldr (\<lambda>c. RxSeq (RxChar True c)) ''abort'' (RxSeq (RxStar (literal ''quit'')) RxEmpty),
      literal ''delete'',
      literal ''drop'',
      RxSeq (RxPlus (literal ''hup'')) RxEmpty,
      foldr (\<lambda>c. RxSeq (RxChar True c)) ''kill'' (RxSeq (RxOpt (literal ''all'')) RxEmpty),
      RxSeq (RxPlus (literal ''quit'')) RxEmpty,
      literal ''remove'']"

text \<open>The patterns of the code compile to the keywords between delimiters.\<close>

lemma default_patterns_compile:
  "map Compile defaultForbiddenPathPatterns = map (Some \<circ> delimited_rx) keyword_rxs"
  by code_simp

lemma consumes_prefix:
  "list_all is_lower u \<Longrightarrow> consumes r W \<Longrightarrow> consumes (foldr (\<lambda>c. RxSeq (RxChar True c)) u r) ((@) u ` W)"
proof (induction u)
  case (Cons c u)
  then have "consumes (foldr (\<lambda>c. RxSeq (RxChar True c)) (c # u) r) {v @ w | v w. v \<in> {[c]} \<and> w \<in> (@) u ` W}"
    using consumes_Seq [OF consumes_Char] by simp
  moreover have "{v @ w | v w. v \<in> {[c]} \<and> w \<in> (@) u ` W} = (@) (c # u) ` W"
    by auto
  ultimately show ?case
    by simp
qed (simp add: image_def)

lemma literal_foldr: "literal w = foldr (\<lambda>c. RxSeq (RxChar True c)) w RxEmpty"
  by (induction w) auto

lemma consumes_literal: "list_all is_lower w \<Longrightarrow> consumes (literal w) {w}"
  using consumes_prefix [OF _ consumes_Empty, of w] by (simp add: literal_foldr)

lemma consumes_then_Empty: "consumes r W \<Longrightarrow> consumes (RxSeq r RxEmpty) W"
  using consumes_Seq [OF _ consumes_Empty, of r W] by (simp add: setcompr_eq_image)

lemma lower_words:
  "list_all is_lower ''abort''" "list_all is_lower ''quit''" "list_all is_lower ''delete''" "list_all is_lower ''drop''"
  "list_all is_lower ''hup''" "list_all is_lower ''kill''" "list_all is_lower ''all''" "list_all is_lower ''remove''"
  by (simp_all add: is_lower_def char_code_def)

text \<open>The words that the filter looks for.\<close>

definition destructive_words :: "string set" where
  "destructive_words =
     {''delete'', ''drop'', ''kill'', ''killall'', ''remove''}
     \<union> range (\<lambda>k. ''abort'' @ times_word k ''quit'')
     \<union> range (\<lambda>k. times_word (Suc k) ''hup'')
     \<union> range (\<lambda>k. times_word (Suc k) ''quit'')"

lemma consumes_repeated:
  assumes "list_all is_lower v" "v \<noteq> []"
  shows "consumes (RxSeq (RxPlus (literal v)) RxEmpty) (range (\<lambda>k. times_word (Suc k) v))"
proof -
  have "{u @ w | u w. u \<in> {v} \<and> w \<in> range (\<lambda>k. times_word k v)} = range (\<lambda>k. times_word (Suc k) v)"
    by auto
  then show ?thesis
    using consumes_then_Empty [OF consumes_Plus [OF consumes_literal [OF assms(1)] assms(2)]] by simp
qed

lemma consumes_keywords:
  "list_all2 consumes keyword_rxs
     [range (\<lambda>k. ''abort'' @ times_word k ''quit''), {''delete''}, {''drop''},
      range (\<lambda>k. times_word (Suc k) ''hup''), {''kill'', ''killall''}, range (\<lambda>k. times_word (Suc k) ''quit''), {''remove''}]"
proof -
  have "consumes (foldr (\<lambda>c. RxSeq (RxChar True c)) ''abort'' (RxSeq (RxStar (literal ''quit'')) RxEmpty))
      (range (\<lambda>k. ''abort'' @ times_word k ''quit''))"
    using consumes_prefix [OF lower_words(1) consumes_then_Empty [OF consumes_Star [OF consumes_literal [OF lower_words(2)]]]]
    by (simp add: image_image del: foldr.simps)
  moreover have "consumes (foldr (\<lambda>c. RxSeq (RxChar True c)) ''kill'' (RxSeq (RxOpt (literal ''all'')) RxEmpty)) {''kill'', ''killall''}"
    using consumes_prefix [OF lower_words(6) consumes_then_Empty [OF consumes_Opt [OF consumes_literal [OF lower_words(7)]]]]
    by (simp del: foldr.simps)
  ultimately show ?thesis
    unfolding keyword_rxs_def
    by (simp add: consumes_literal [OF lower_words(3)] consumes_literal [OF lower_words(4)] consumes_literal [OF lower_words(8)]
        consumes_repeated [OF lower_words(5)] consumes_repeated [OF lower_words(2)]
        del: literal.simps foldr.simps foldr_Cons times_word_simps)
qed

lemma those_map_Some: "those (map Some xs) = Some xs"
  by (induction xs) auto

lemma default_paths: "defaultForbiddenPaths = map (\<lambda>k. MatchString (delimited_rx k)) keyword_rxs"
proof -
  have "map (\<lambda>p. map_option MatchString (Compile p)) defaultForbiddenPathPatterns
      = map (map_option MatchString) (map Compile defaultForbiddenPathPatterns)"
    by simp
  also have "\<dots> = map Some (map (\<lambda>k. MatchString (delimited_rx k)) keyword_rxs)"
    unfolding default_patterns_compile by simp
  finally show ?thesis
    by (simp only: defaultForbiddenPaths_def compileForbiddenPaths_def those_map_Some option.sel)
qed


text \<open>A word of a set stands in a text, with no letter next to it.\<close>

definition contains_word :: "string set \<Rightarrow> string \<Rightarrow> bool" where
  "contains_word W s = (\<exists>pre v w post. s = pre @ w @ post \<and> v \<in> W \<and> spells v w \<and> delimited pre post)"

lemma contains_word_Un [simp]: "contains_word (V \<union> W) s \<longleftrightarrow> contains_word V s \<or> contains_word W s"
  unfolding contains_word_def by blast

lemma keywords_contained:
  "list_all2 consumes ks Ws \<Longrightarrow>
    list_ex (\<lambda>re. re s) (map (\<lambda>k. MatchString (delimited_rx k)) ks) \<longleftrightarrow> list_ex (\<lambda>W. contains_word W s) Ws"
  by (induction ks Ws rule: list_all2_induct) (simp_all add: MatchString_delimited contains_word_def)

lemma default_matches:
  "list_ex (\<lambda>re. re s) defaultForbiddenPaths \<longleftrightarrow> contains_word destructive_words s"
proof -
  have words: "destructive_words = range (\<lambda>k. ''abort'' @ times_word k ''quit'') \<union> {''delete''} \<union> {''drop''}
      \<union> range (\<lambda>k. times_word (Suc k) ''hup'') \<union> {''kill'', ''killall''} \<union> range (\<lambda>k. times_word (Suc k) ''quit'') \<union> {''remove''}"
    unfolding destructive_words_def by blast
  show ?thesis
    unfolding default_paths keywords_contained [OF consumes_keywords] words contains_word_Un
    by (simp add: disj_ac del: times_word_simps append.simps)
qed

text \<open>C17. With the default list a URL is forbidden exactly when a destructive word stands in its cleaned path or
  its unescaped query, in any case of its letters, with no ASCII letter next to it: \<open>/api/delete-user\<close> is
  blocked, \<open>/static/dropdown.js\<close> is not.\<close>

theorem default_filter_exact:
  "IsURLPathForbidden (Some u) defaultForbiddenPaths = contains_word destructive_words (path_candidate u)"
proof -
  have "defaultForbiddenPaths \<noteq> []"
    by (simp add: default_paths keyword_rxs_def)
  then show ?thesis
    by (simp add: IsURLPathForbidden_def default_matches)
qed

text \<open>Examples that the comment of the list gives.\<close>

lemma documented_paths:
  "map (MatchString (delimited_rx (keyword_rxs ! 4))) [''/skill.md'', ''/killall''] = [False, True]"
  by code_simp

end
