(* ===== verification/Spec2Isabelle.thy ===== *)
theory Spec2Isabelle
  imports Crawler WebIdentity Metrics AdkWeakCreds HttpTool SshProbe WeakCredPlugins MainProgram ServiceProbes
    Entrypoint DnsServer Logging LlmTurn AgentSchema ForbiddenPaths
begin

text \<open>
  Goonami, a network vulnerability scanner written in Go, as a library of theories. This is the root
  theory: it imports the others and says what each of them models and shows. All paths are
  below \<open>src/\<close>.

  \<^bold>\<open>The program.\<close> \<open>main.go\<close> reads a configuration, applies the overrides of the command line, prepares a
  temporary directory and a client of the callback server, and asks \<open>core/entrypoint\<close> for a runner. The
  entrypoint takes port scanners, fingerprinters and detectors from the registry of \<open>core/module\<close>, as
  the include and exclude lists select them, and gives them to \<open>core/runner/simplerunner\<close>. A scan goes
  through the targets: a port scanner reports the open services of an endpoint, the fingerprinters that
  cover a service add what they learn to it, and the detectors that cover it report vulnerabilities.
  The detectors are written in Go, generated from text files that the engine in
  \<open>common/templatedengine\<close> interprets, or driven by a language model. Detectors of vulnerabilities without
  an answer on the wire make the target call back to a server of the scanner, \<open>tools/callbackserver\<close>, and ask it by
  polling whether that happened.

  \<^bold>\<open>Conventions.\<close> A Go struct is a \<open>record\<close>, a fallible operation returns a sum with its error on the
  left, a map is a partial function and where its iteration order could show, the operation takes the order
  as an argument. Integers keep their width where they can wrap: \<open>w word\<close> for the machine's integers, the
  mathematical integers where the code is bounded by its own guards. The network, the file system, clocks
  and random sources are operations on a world, of any type, that the model threads through; concurrent
  code is a step relation, and its theorems are about every interleaving. Loops whose end is not evident
  carry a bound or a measure; where the bound is fuel it is shown to be enough.

  \<^bold>\<open>The foundation.\<close>
  \<^item> \<open>GoPrelude\<close>: results and the operations of the packages \<open>strings\<close>, \<open>slices\<close> and \<open>strconv\<close> that the code
    uses, the shared lemmas on them, and the collections of facts that the proofs simplify with.
  \<^item> \<open>UrlParse\<close>: parsing, resolving and printing as \<open>net/url\<close> does it, for the components that take URLs
    apart.

  \<^bold>\<open>The core, \<open>core/\<close>.\<close>
  \<^item> \<open>IpUtils\<close> (\<open>core/net/iputils\<close>): addresses, and the expansion and size of CIDR ranges. The expansion of an
    IPv4 range is exactly its addresses in order, the size never overflows \<open>int64\<close>.
  \<^item> \<open>Ipv6Text\<close> (\<open>core/net/iputils\<close>): the canonical text of an IPv6 address, with its compressed zeros, is read
    back as the address, and so is the text of every address.
  \<^item> \<open>NetEndpoint\<close> (\<open>core/net/netendpoint\<close>, \<open>core/net/netservice\<close>): endpoints from targets and their
    printed form, the host and port of a service, its URL. A target becomes exactly the endpoints that it stands for: a
    range those of its addresses in order, an address one of its family, anything else a host name.
  \<^item> \<open>HttpClient\<close> (\<open>core/net/http\<close> with \<open>simpleclient\<close>): options, allowed authorities, forbidden paths,
    redirects, retries and the counting of requests. A chain of redirects ends and never leaves what is allowed;
    requests and waits of a retry are bounded. The locale \<open>counted_client\<close> is the contract between the retry
    loop and the client below it.
  \<^item> \<open>ForbiddenPaths\<close> (\<open>core/net/http/filter.go\<close>): the default list of forbidden paths, as regular
    expressions with a matcher and the compiler of the fragment that they use. The list forbids exactly the
    paths and queries with a destructive word that no letter touches.
  \<^item> \<open>Logging\<close> (\<open>core/log\<close>): contexts, colours, the lines of the default logger.
  \<^item> \<open>Config\<close> (\<open>core/config\<close>): reading a configuration, its validation, and overrides, which walk along the
    fields of a message. An override either fails with the error of the reference or changes the one field it names.
  \<^item> \<open>Metrics\<close> (\<open>core/metrics\<close>): declarations, labels, the key of a series, the collector and the
    export. The key is injective, as the locale \<open>prefix_code\<close> shows of every self-delimiting encoding, the collector
    refines the list of its observations, and the export does not depend on the order of a map. Labels are a
    \<open>linorder\<close>, so that sorting them is the library's.
  \<^item> \<open>Registry\<close> (\<open>core/module\<close>): the three tables of modules, and which modules a run takes. The
    locale \<open>name_table\<close> states once what all three tables promise.
  \<^item> \<open>Runner\<close> (\<open>core/runner/simplerunner\<close>, and the assembly of a runner in \<open>core/entrypoint\<close>): the phases of a
    scan with any order in which their goroutines complete.
  \<^item> \<open>Entrypoint\<close> (\<open>core/entrypoint\<close>): the creation of an entrypoint in the state that the process shares, the
    logger, the recorder of metrics and the HTTP client, also when it fails.

  \<^bold>\<open>Callbacks.\<close>
  \<^item> \<open>CallbackServer\<close> (\<open>common/callbackserver\<close>, \<open>common/clients/callbackserver\<close>, and the store and handlers
    of \<open>tools/callbackserver/server\<close>): the identifier of a secret, the store, the servers that record and that answer
    polls, and the client. The store refines the history of its operations, as the locale \<open>interaction_store\<close> asks of any
    store, and a callback over HTTP or DNS comes back to the client that asks for it.
  \<^item> \<open>DnsServer\<close> (\<open>tools/callbackserver/server/dns\<close>): the loop of the DNS server, its handlers and the one
    buffer of 512 bytes that they share. One by one the queries are handled as they were sent; a query that comes in too
    early can take the place of the last.

  \<^bold>\<open>The templated engine, \<open>common/templatedengine\<close>.\<close>
  \<^item> \<open>TemplateEnv\<close>: the variables of a plugin and their substitution, in one pass over the leftmost references
    of a template; every other byte, lone brackets included, stays.
  \<^item> \<open>TemplateActions\<close>: actions over HTTP, with the callback server, and of the engine itself.
  \<^item> \<open>Templated\<close>: the validation of a plugin and its workflows. A detector exists exactly for a valid plugin; it
    runs the actions of the phase and the cleanups of all that succeeded, last first. The phases of an action are
    a \<open>linorder\<close>.

  \<^bold>\<open>Weak credentials.\<close>
  \<^item> \<open>Credentials\<close> (\<open>common/credentialstore\<close>): users and passwords in the order of their trial.
  \<^item> \<open>BruteForce\<close> (\<open>common/bruteforce\<close>): candidates, the pool of workers as a step relation, and the
    detector. The pool ends on every schedule, respects its budget, reports only what was accepted, and skips
    nothing without a reason.
  \<^item> \<open>WeakCredPlugins\<close> (\<open>plugins/detectors/templatedweakcredentials\<close> and the plugins that only hand over files to
    the engine): the brute force over a templated detector.
  \<^item> \<open>SshProbe\<close> (\<open>common/clients/sshclient\<close>, \<open>plugins/detectors/weakcreds/ssh\<close>, and the bypass of
    authentication by long passwords).

  \<^bold>\<open>Discovery.\<close>
  \<^item> \<open>PortScan\<close> (\<open>common/clients/nmap\<close>, \<open>plugins/portscan\<close>): the command line of nmap and the reading of
    its output, and the scanners.
  \<^item> \<open>ServiceProbes\<close> (\<open>plugins/fingerprint/iswebservice\<close>, \<open>sslsupport\<close>).
  \<^item> \<open>CrawlScope\<close>, \<open>HtmlLinks\<close>, \<open>Crawler\<close> (\<open>common/clients/httpcrawler\<close>): which URLs belong to a
    crawl, the links of a page, and the crawl as a state machine of workers over a shared queue, with its invariant, its
    end under every interleaving, and the absence of deadlock.
  \<^item> \<open>HashRegistry\<close>, \<open>WebIdentity\<close> (\<open>plugins/fingerprint/webidentity\<close>): hashes of responses, the known
    fingerprints, and what a crawl says about the applications on an endpoint. The registry is the set of claims of
    its fingerprints: a hash is known iff it is claimed by one software only, with all versions that are claimed of it.

  \<^bold>\<open>Language models.\<close>
  \<^item> \<open>LlmClient\<close>, \<open>LlmTurn\<close> (\<open>common/clients/llm\<close>): the request with feedback for answers that do not
    pass, one turn with its two goroutines, and the accounting of tokens, whose laws are the locale
    \<open>counted_turns\<close>. The iterator of the runner may hang in a tool for ever: then the caller still comes back once the
    context is done, and only the goroutine that forwards the events stays behind.
  \<^item> \<open>HttpTool\<close> (\<open>common/clients/llm/tools/httpclient\<close>): the requests that a model may send, in calls
    that may run together, confined to the service under test. The budget of requests holds for calls one by one; \<open>k\<close>
    calls at the same time can exceed it by \<open>k - 1\<close>.
  \<^item> \<open>AuthStrategy\<close>, \<open>AgentSchema\<close>, \<open>AdkWeakCreds\<close> (\<open>plugins/detectors/adkweakcreds\<close>): the strategy
    that a model writes for a login, its schema, decoding and check, the attempts that follow it, and the detector
    with its cache.

  \<^bold>\<open>The programs.\<close>
  \<^item> \<open>MainProgram\<close> (\<open>main.go\<close>, \<open>tools/callbackserver/callbackserver.go\<close> and \<open>cmd/main.go\<close>): the run of the
    scanner and of the callback server, with what they release on every path.

  \<^bold>\<open>Interfaces.\<close> Every locale is interpreted on the definitions of the code: \<open>counted_client\<close> as \<open>mc\<close> on the
  client with metrics, \<open>name_table\<close> as \<open>ps_table\<close>, \<open>fp_table\<close> and \<open>dt_table\<close>, \<open>prefix_code\<close> as
  \<open>length_prefixed\<close>, \<open>interaction_store\<close> as \<open>mem\<close> on the store in memory, and \<open>counted_turns\<close> as \<open>llm\<close>.

  \<^bold>\<open>Bounds.\<close> Percent decoding in the crawl scope repeats at most ten times, the bound of the code. Counters of type
  \<open>int32\<close> are exact below \<open>2 ^ 31 - 1\<close>, which is then a hypothesis. The offers of an SSH
  handshake take fuel 6, more than there are methods of authentication. A turn with a model of \<open>n\<close> events takes at most
  \<open>2 * n + 4\<close> steps. The compiler of patterns takes
  three units of fuel for each byte, with which the whole default list compiles. The pool, the crawl and the port scan over HTTP have measures that every step
  decreases.

  \<^bold>\<open>Parameters.\<close> Not under \<open>src/\<close>, and so arguments of the definitions: regular expressions that a user or a plugin writes, the text format of
  protocol buffers, JSON and XML, the hashes SHA3-224 and murmur3, the HTML parser, the SSH handshake, the packing
  of DNS messages, cookie jars, the transport of HTTP and the limiter of its rate, the agent development kit, and \<open>float64\<close>. What a theorem relies on
  about one of them is a hypothesis of the theorem, and its witness gives an instance.

  \<^bold>\<open>Simplifications.\<close> Strings are the bytes of Go's strings; folding of case and trimming of space are those
  of ASCII, also where the library knows more of Unicode (\<open>strings.EqualFold\<close>, \<open>strings.TrimSpace\<close>, invalid UTF-8 in
  \<open>strings.Map\<close>). Input and output that the code waits for without a limit, such as \<open>http.Server.Shutdown\<close>, returns.
  The port scan over HTTP asks each URL once, so that the answer is a function of the URL. The substitutions of a
  login are visited in one order, any, for all parts of a request. A size of a page below 0 is read as 0.

  \<^bold>\<open>Not modelled.\<close> The code generated from \<open>.proto\<close> files, whose messages are the records and maps here.
  The doubles for tests, \<open>common/testfakes\<close>. The
  descriptions that the schemas and agents give to a model, which are prose. In \<open>core/log\<close> the functions that only
  hand over to the installed logger. Elements of the output of nmap that no code reads. The durations in logs and
  metrics.
\<close>

end
